(* ===== verification/Go_Prelude.thy ===== *)
theory Go_Prelude
  imports Main "HOL-Library.Word" "HOL-Library.Monad_Syntax"
begin

text \<open>
  Shared vocabulary of the development: the Go data types the program uses (bytes, byte
  slices, fixed-width unsigned integers), Go's runtime panics, the big- and little-endian
  codecs of \<^verbatim>\<open>encoding/binary\<close>, and the few functions of \<^verbatim>\<open>strings\<close>/\<^verbatim>\<open>bytes\<close> that several
  components call.

  A Go runtime panic (index or slice out of range) is the value \<open>None\<close> of an option type;
  \<open>Some x\<close> is an ordinary return of \<open>x\<close>. A parser that reports failure with an
  \<open>ok bool\<close> result therefore has a result of type \<open>'a option option\<close>:
  \<open>None\<close> is a crash, \<open>Some None\<close> is \<open>ok = false\<close>, \<open>Some (Some r)\<close> is
  \<open>ok = true\<close>. Panic freedom of a parser on hostile input is then a theorem about the
  model. Go strings are byte sequences, so strings are \<open>bytes\<close> too.
\<close>

unbundle bit_operations_syntax

type_synonym byte = "8 word"
type_synonym bytes = "byte list"
type_synonym u16 = "16 word"
type_synonym u32 = "32 word"
type_synonym u64 = "64 word"

named_theorems codec_simps \<open>reading back what an encoder wrote\<close>
named_theorems no_panic \<open>an operation returns, it does not panic\<close>

text \<open>
  Panic freedom is compositional: these rules take a monadic parser apart, and the rules of its
  parts, collected in \<open>no_panic\<close>, close the pieces.
\<close>

lemma Some_returns [no_panic]: "Some x \<noteq> None"
  by simp

lemma bind_returns [no_panic]: "m \<noteq> None \<Longrightarrow> (\<And>x. m = Some x \<Longrightarrow> f x \<noteq> None) \<Longrightarrow> m \<bind> f \<noteq> None"
  by (cases m) auto

lemma if_returns [no_panic]: "(b \<Longrightarrow> x \<noteq> None) \<Longrightarrow> (\<not> b \<Longrightarrow> y \<noteq> None) \<Longrightarrow> (if b then x else y) \<noteq> None"
  by simp

lemma case_option_returns [no_panic]:
  "(r = None \<Longrightarrow> x \<noteq> None) \<Longrightarrow> (\<And>y. r = Some y \<Longrightarrow> f y \<noteq> None) \<Longrightarrow> case_option x f r \<noteq> None"
  by (cases r) auto

lemma case_prod_returns [no_panic]: "(\<And>a b. r = (a, b) \<Longrightarrow> f a b \<noteq> None) \<Longrightarrow> case_prod f r \<noteq> None"
  by (cases r) auto

lemma case_sum_returns [no_panic]:
  "(\<And>a. r = Inl a \<Longrightarrow> f a \<noteq> None) \<Longrightarrow> (\<And>b. r = Inr b \<Longrightarrow> g b \<noteq> None) \<Longrightarrow> case_sum f g r \<noteq> None"
  by (cases r) auto

subsection \<open>Indexing and slicing, with Go's range checks\<close>

definition idx :: "'a list \<Rightarrow> nat \<Rightarrow> 'a option" where
  "idx b i = (if i < length b then Some (b ! i) else None)"

definition gslice :: "'a list \<Rightarrow> nat \<Rightarrow> nat \<Rightarrow> 'a list option" where
  "gslice b i j = (if i \<le> j \<and> j \<le> length b then Some (take (j - i) (drop i b)) else None)"

definition slice_from :: "'a list \<Rightarrow> nat \<Rightarrow> 'a list option" where
  "slice_from b i = (if i \<le> length b then Some (drop i b) else None)"

text \<open>\<^verbatim>\<open>copy(b[i:], xs)\<close> and the \<^verbatim>\<open>binary.*.PutUint*(b[i:], v)\<close> family, inside a buffer that is long enough.\<close>

definition put :: "'a list \<Rightarrow> nat \<Rightarrow> 'a list \<Rightarrow> 'a list" where
  "put b i xs = take i b @ xs @ drop (i + length xs) b"

lemma idx_Some [simp]: "i < length b \<Longrightarrow> idx b i = Some (b ! i)"
  by (simp add: idx_def)

lemma idx_eq_Some_iff: "idx b i = Some x \<longleftrightarrow> i < length b \<and> x = b ! i"
  by (auto simp: idx_def)

lemma slice_Some [simp]: "i \<le> j \<Longrightarrow> j \<le> length b \<Longrightarrow> gslice b i j = Some (take (j - i) (drop i b))"
  by (simp add: gslice_def)

lemma slice_eq_Some_iff: "gslice b i j = Some x \<longleftrightarrow> i \<le> j \<and> j \<le> length b \<and> x = take (j - i) (drop i b)"
  by (auto simp: gslice_def)

lemma slice_from_Some [simp]: "i \<le> length b \<Longrightarrow> slice_from b i = Some (drop i b)"
  by (simp add: slice_from_def)

lemma idx_append [codec_simps]: "idx (pre @ x # post) (length pre) = Some x"
  by (simp add: idx_def)

lemma slice_append [codec_simps]:
  "n = length pre \<Longrightarrow> m = length pre + length xs \<Longrightarrow> gslice (pre @ xs @ post) n m = Some xs"
  by simp

lemma slice_from_append: "n = length xs \<Longrightarrow> slice_from (xs @ ys) n = Some ys"
  by simp

lemma length_put [simp]: "i + length xs \<le> length b \<Longrightarrow> length (put b i xs) = length b"
  by (simp add: put_def)

lemma take_drop_put_same: "i + length xs \<le> length b \<Longrightarrow> n = length xs \<Longrightarrow> take n (drop i (put b i xs)) = xs"
  by (simp add: put_def)

lemma take_drop_put_below: "i + length xs \<le> length b \<Longrightarrow> j + n \<le> i \<Longrightarrow>
   take n (drop j (put b i xs)) = take n (drop j b)"
  by (rule nth_equalityI) (auto simp: put_def nth_append)

lemma take_drop_put_above: "i + length xs \<le> length b \<Longrightarrow> i + length xs \<le> j \<Longrightarrow>
   take n (drop j (put b i xs)) = take n (drop j b)"
  by (rule nth_equalityI) (auto simp: put_def nth_append)

lemma nth_put_other: "i + length xs \<le> length b \<Longrightarrow> j < i \<or> i + length xs \<le> j \<Longrightarrow> j < length b \<Longrightarrow>
   put b i xs ! j = b ! j"
  by (auto simp: put_def nth_append)

subsection \<open>Byte order: \<^verbatim>\<open>encoding/binary\<close>\<close>

fun le_enc :: "nat \<Rightarrow> 'a::len word \<Rightarrow> bytes" where
  "le_enc 0 v = []"
| "le_enc (Suc n) v = ucast v # le_enc n (drop_bit 8 v)"

fun le_dec :: "bytes \<Rightarrow> 'a::len word" where
  "le_dec [] = 0"
| "le_dec (b # bs) = ucast b OR push_bit 8 (le_dec bs)"

definition be_enc :: "nat \<Rightarrow> 'a::len word \<Rightarrow> bytes" where
  "be_enc n v = rev (le_enc n v)"

definition be_dec :: "bytes \<Rightarrow> 'a::len word" where
  "be_dec bs = le_dec (rev bs)"

abbreviation le16 :: "u16 \<Rightarrow> bytes" where "le16 \<equiv> le_enc 2"
abbreviation le32 :: "u32 \<Rightarrow> bytes" where "le32 \<equiv> le_enc 4"
abbreviation le64 :: "u64 \<Rightarrow> bytes" where "le64 \<equiv> le_enc 8"
abbreviation be16 :: "u16 \<Rightarrow> bytes" where "be16 \<equiv> be_enc 2"
abbreviation be32 :: "u32 \<Rightarrow> bytes" where "be32 \<equiv> be_enc 4"
abbreviation be64 :: "u64 \<Rightarrow> bytes" where "be64 \<equiv> be_enc 8"

text \<open>\<^verbatim>\<open>binary.LittleEndian.Uint16(b[i:])\<close> and its relatives panic on a short gslice.\<close>

definition get_le :: "nat \<Rightarrow> bytes \<Rightarrow> nat \<Rightarrow> 'a::len word option" where
  "get_le n b i = map_option le_dec (gslice b i (i + n))"

definition get_be :: "nat \<Rightarrow> bytes \<Rightarrow> nat \<Rightarrow> 'a::len word option" where
  "get_be n b i = map_option be_dec (gslice b i (i + n))"

abbreviation get_le16 :: "bytes \<Rightarrow> nat \<Rightarrow> u16 option" where "get_le16 \<equiv> get_le 2"
abbreviation get_le32 :: "bytes \<Rightarrow> nat \<Rightarrow> u32 option" where "get_le32 \<equiv> get_le 4"
abbreviation get_le64 :: "bytes \<Rightarrow> nat \<Rightarrow> u64 option" where "get_le64 \<equiv> get_le 8"
abbreviation get_be16 :: "bytes \<Rightarrow> nat \<Rightarrow> u16 option" where "get_be16 \<equiv> get_be 2"
abbreviation get_be32 :: "bytes \<Rightarrow> nat \<Rightarrow> u32 option" where "get_be32 \<equiv> get_be 4"

lemma length_le_enc [simp]: "length (le_enc n v) = n"
  by (induction n v rule: le_enc.induct) auto

lemma length_be_enc [simp]: "length (be_enc n v) = n"
  by (simp add: be_enc_def)

lemma le_step:
  "(ucast (ucast (v :: 'a::len word) :: byte) :: 'a word) OR push_bit 8 (take_bit m (drop_bit 8 v))
     = take_bit (8 + m) v"
  by (rule bit_eqI) (auto simp: bit_simps not_less intro: arg_cong [where f = "bit v"])

lemma le_dec_enc_take: "le_dec (le_enc n (v :: 'a::len word)) = take_bit (8 * n) v"
proof (induction n arbitrary: v)
  case 0
  then show ?case by simp
next
  case (Suc n)
  then show ?case using le_step [of v "8 * n"] by simp
qed

lemma le_dec_enc [simp]: "LENGTH('a) \<le> 8 * n \<Longrightarrow> le_dec (le_enc n (v :: 'a::len word)) = v"
  by (simp add: le_dec_enc_take take_bit_word_eq_self)

lemma be_dec_enc [simp]: "LENGTH('a) \<le> 8 * n \<Longrightarrow> be_dec (be_enc n (v :: 'a::len word)) = v"
  by (simp add: be_dec_def be_enc_def)

lemma get_le_Some: "i + n \<le> length b \<Longrightarrow> get_le n b i = Some (le_dec (take n (drop i b)))"
  by (simp add: get_le_def)

lemma get_be_Some: "i + n \<le> length b \<Longrightarrow> get_be n b i = Some (be_dec (take n (drop i b)))"
  by (simp add: get_be_def)

lemma idx_returns [no_panic]: "i < length b \<Longrightarrow> idx b i \<noteq> None"
  by simp

lemma gslice_returns [no_panic]: "i \<le> j \<Longrightarrow> j \<le> length b \<Longrightarrow> gslice b i j \<noteq> None"
  by simp

lemma slice_from_returns [no_panic]: "i \<le> length b \<Longrightarrow> slice_from b i \<noteq> None"
  by simp

lemma get_le_returns [no_panic]: "i + n \<le> length b \<Longrightarrow> get_le n b i \<noteq> None"
  by (simp add: get_le_Some)

lemma get_be_returns [no_panic]: "i + n \<le> length b \<Longrightarrow> get_be n b i \<noteq> None"
  by (simp add: get_be_Some)

lemma get_le_append [codec_simps]:
  "i = length pre \<Longrightarrow> LENGTH('a) \<le> 8 * n \<Longrightarrow> get_le n (pre @ le_enc n (v :: 'a::len word) @ post) i = Some v"
  by (simp add: get_le_Some)

lemma get_be_append [codec_simps]:
  "i = length pre \<Longrightarrow> LENGTH('a) \<le> 8 * n \<Longrightarrow> get_be n (pre @ be_enc n (v :: 'a::len word) @ post) i = Some v"
  by (simp add: get_be_Some)

text \<open>Reading at a position of which only the rest of the buffer is known.\<close>

lemma get_be_drop:
  "drop i b = be_enc n (v :: 'a::len word) @ post \<Longrightarrow> i \<le> length b \<Longrightarrow> LENGTH('a) \<le> 8 * n \<Longrightarrow> get_be n b i = Some v"
  using get_be_append [of i "take i b" n v post] by (metis append_take_drop_id length_take min.absorb2)

lemma get_le_drop:
  "drop i b = le_enc n (v :: 'a::len word) @ post \<Longrightarrow> i \<le> length b \<Longrightarrow> LENGTH('a) \<le> 8 * n \<Longrightarrow> get_le n b i = Some v"
  using get_le_append [of i "take i b" n v post] by (metis append_take_drop_id length_take min.absorb2)

lemma gslice_drop: "drop i b = xs @ post \<Longrightarrow> i \<le> length b \<Longrightarrow> gslice b i (i + length xs) = Some xs"
proof -
  assume d: "drop i b = xs @ post" and i: "i \<le> length b"
  from d have "length (drop i b) = length xs + length post" by (simp only: length_append)
  with i have "i + length xs \<le> length b" by simp
  with d show ?thesis by (simp add: gslice_def)
qed

lemma drop_advance: "drop i b = xs @ post \<Longrightarrow> j = i + length xs \<Longrightarrow> drop j b = post"
  by (metis append_eq_conv_conj drop_drop add.commute)

lemma length_drop_advance: "drop i b = xs @ post \<Longrightarrow> i \<le> length b \<Longrightarrow> length b = i + length xs + length post"
  by (metis add.assoc length_append length_drop le_add_diff_inverse)

subsection \<open>Strings\<close>

definition str :: "string \<Rightarrow> bytes" where
  "str s = map of_char s"

lemma length_str [simp]: "length (str s) = length s"
  by (simp add: str_def)

definition is_prefix :: "'a list \<Rightarrow> 'a list \<Rightarrow> bool" where
  "is_prefix p s = (take (length p) s = p)"

definition is_suffix :: "'a list \<Rightarrow> 'a list \<Rightarrow> bool" where
  "is_suffix p s = (length p \<le> length s \<and> drop (length s - length p) s = p)"

definition trimPrefix :: "'a list \<Rightarrow> 'a list \<Rightarrow> 'a list" where
  "trimPrefix s p = (if is_prefix p s then drop (length p) s else s)"

definition trimSuffix :: "'a list \<Rightarrow> 'a list \<Rightarrow> 'a list" where
  "trimSuffix s p = (if is_suffix p s then take (length s - length p) s else s)"

text \<open>\<^verbatim>\<open>strings.Split(s, sep)\<close> for a one-byte separator, and \<^verbatim>\<open>strings.Join\<close>.\<close>

fun split1 :: "'a \<Rightarrow> 'a list \<Rightarrow> 'a list list" where
  "split1 c [] = [[]]"
| "split1 c (x # xs) =
     (if x = c then [] # split1 c xs
      else (case split1 c xs of [] \<Rightarrow> [[x]] | p # ps \<Rightarrow> (x # p) # ps))"

fun join1 :: "'a \<Rightarrow> 'a list list \<Rightarrow> 'a list" where
  "join1 c [] = []"
| "join1 c [p] = p"
| "join1 c (p # q # ps) = p @ c # join1 c (q # ps)"

lemma split1_nonempty [simp]: "split1 c s \<noteq> []"
  by (induction s) (auto split: list.splits)

lemma join1_split1 [simp]: "join1 c (split1 c s) = s"
proof (induction s)
  case (Cons x xs)
  then show ?case by (cases "split1 c xs"; cases "tl (split1 c xs)") auto
qed simp

lemma split1_no_sep: "p \<in> set (split1 c s) \<Longrightarrow> c \<notin> set p"
proof (induction s arbitrary: p)
  case (Cons x xs)
  then show ?case by (cases "split1 c xs") (auto split: if_splits)
qed simp

lemma split1_id: "c \<notin> set s \<Longrightarrow> split1 c s = [s]"
  by (induction s) auto

lemma split1_append: "c \<notin> set p \<Longrightarrow> split1 c (p @ c # s) = p # split1 c s"
  by (induction p) auto

lemma split1_join1: "ps \<noteq> [] \<Longrightarrow> \<forall>p\<in>set ps. c \<notin> set p \<Longrightarrow> split1 c (join1 c ps) = ps"
  by (induction c ps rule: join1.induct) (auto simp: split1_id split1_append)

lemma trimSuffix_id: "\<not> is_suffix p s \<Longrightarrow> trimSuffix s p = s"
  by (simp add: trimSuffix_def)

text \<open>\<^verbatim>\<open>strings.EqualFold\<close> and \<^verbatim>\<open>strings.ToLower\<close>, on ASCII letters.\<close>

definition lower :: "byte \<Rightarrow> byte" where
  "lower c = (if 0x41 \<le> c \<and> c \<le> 0x5a then c + 0x20 else c)"

definition toLower :: "bytes \<Rightarrow> bytes" where
  "toLower s = map lower s"

definition equalFold :: "bytes \<Rightarrow> bytes \<Rightarrow> bool" where
  "equalFold a b = (toLower a = toLower b)"

lemma equalFold_refl [simp]: "equalFold a a"
  by (simp add: equalFold_def)

text \<open>\<^verbatim>\<open>orElse(s, alt)\<close> of \<^verbatim>\<open>sink.go\<close>: a default for a blank setting.\<close>

definition orElse :: "bytes \<Rightarrow> bytes \<Rightarrow> bytes" where
  "orElse s alt = (if s = [] then alt else s)"

text \<open>A Go \<^verbatim>\<open>int\<close> is a 64-bit two's-complement number (the program is built for amd64).\<close>

definition wrap64 :: "int \<Rightarrow> int" where
  "wrap64 x = (x + 2 ^ 63) mod 2 ^ 64 - 2 ^ 63"

lemma wrap64_id: "- (2 ^ 63) \<le> x \<Longrightarrow> x < 2 ^ 63 \<Longrightarrow> wrap64 x = x"
  by (simp add: wrap64_def)


text \<open>\<^verbatim>\<open>strings.TrimSpace\<close> (ASCII white space) and \<^verbatim>\<open>strings.TrimRight(s, cutset)\<close>.\<close>

definition isSpace :: "byte \<Rightarrow> bool" where
  "isSpace c = (c = 0x20 \<or> (0x09 \<le> c \<and> c \<le> 0x0d))"

definition trimRight :: "bytes \<Rightarrow> (byte \<Rightarrow> bool) \<Rightarrow> bytes" where
  "trimRight s P = rev (dropWhile P (rev s))"

definition trimSpace :: "bytes \<Rightarrow> bytes" where
  "trimSpace s = trimRight (dropWhile isSpace s) isSpace"

text \<open>
  \<^verbatim>\<open>n, _ := strconv.Atoi(s)\<close>, the error ignored: 0 for a malformed number, the nearest
  \<^verbatim>\<open>int\<close> for one out of range.
\<close>

definition isDigit :: "byte \<Rightarrow> bool" where
  "isDigit c = (0x30 \<le> c \<and> c \<le> 0x39)"

definition digitsVal :: "bytes \<Rightarrow> int" where
  "digitsVal ds = foldl (\<lambda>n c. n * 10 + (uint c - 48)) 0 ds"

definition atoi :: "bytes \<Rightarrow> int" where
  "atoi s =
     (let neg = (s \<noteq> [] \<and> hd s = 0x2d);
          ds = (if s \<noteq> [] \<and> (hd s = 0x2d \<or> hd s = 0x2b) then tl s else s)
      in if ds = [] \<or> \<not> list_all isDigit ds then 0
         else if neg then max (- (2 ^ 63)) (- digitsVal ds) else min (2 ^ 63 - 1) (digitsVal ds))"

text \<open>\<^verbatim>\<open>strconv.Itoa\<close> of a non-negative number.\<close>

fun itoaAcc :: "bytes \<Rightarrow> nat \<Rightarrow> bytes" where
  "itoaAcc acc n =
     (if n < 10 then of_nat (48 + n) # acc else itoaAcc (of_nat (48 + n mod 10) # acc) (n div 10))"

declare itoaAcc.simps [simp del]

definition itoa :: "nat \<Rightarrow> bytes" where
  "itoa n = itoaAcc [] n"

lemma digit_facts:
  assumes "d < 10"
  shows "isDigit (of_nat (48 + d))" and "uint (of_nat (48 + d) :: byte) = 48 + int d"
    and "(of_nat (48 + d) :: byte) \<noteq> 0x2d" and "(of_nat (48 + d) :: byte) \<noteq> 0x2b"
proof -
  from assms have "d \<in> {0,1,2,3,4,5,6,7,8,9}" by auto
  then show "isDigit (of_nat (48 + d))" "uint (of_nat (48 + d) :: byte) = 48 + int d"
    "(of_nat (48 + d) :: byte) \<noteq> 0x2d" "(of_nat (48 + d) :: byte) \<noteq> 0x2b"
    by (auto simp: isDigit_def)
qed

lemma itoaAcc_digits: "list_all isDigit acc \<Longrightarrow> list_all isDigit (itoaAcc acc n)"
proof (induction acc n rule: itoaAcc.induct)
  case (1 acc n)
  then show ?case
    using digit_facts(1) [of n] digit_facts(1) [of "n mod 10"]
    by (subst itoaAcc.simps) (auto simp del: of_nat_add)
qed

lemma digitsVal_Cons: "foldl (\<lambda>n c. n * 10 + (uint (c :: byte) - 48)) k ds =
    k * 10 ^ length ds + digitsVal ds"
proof (induction ds arbitrary: k)
  case (Cons d ds)
  show ?case
    using Cons [of "k * 10 + (uint d - 48)"] Cons [of "uint d - 48"]
    by (simp add: digitsVal_def algebra_simps)
qed (simp add: digitsVal_def)

lemma itoaAcc_val: "digitsVal (itoaAcc acc n) = int n * 10 ^ length acc + digitsVal acc"
proof (induction acc n rule: itoaAcc.induct)
  case (1 acc n)
  have step: "digitsVal (of_nat (48 + d) # acc) = int d * 10 ^ length acc + digitsVal acc" if "d < 10" for d
    using digit_facts(2) [OF that] digitsVal_Cons [of "int d" acc]
    by (simp add: digitsVal_def del: of_nat_add)
  show ?case
  proof (cases "n < 10")
    case True
    then show ?thesis using step [of n] by (subst itoaAcc.simps) (simp del: of_nat_add)
  next
    case False
    have "int n = int (n div 10) * 10 + int (n mod 10)" by presburger
    then show ?thesis
      using False "1.IH" step [of "n mod 10"]
      by (subst itoaAcc.simps) (simp add: algebra_simps del: of_nat_add)
  qed
qed

lemma itoaAcc_nonempty: "itoaAcc acc n \<noteq> []"
  by (induction acc n rule: itoaAcc.induct) (subst itoaAcc.simps, auto)

lemma itoa_digits: "list_all isDigit (itoa n)"
  by (simp add: itoa_def itoaAcc_digits)

lemma itoa_hd: "hd (itoa n) \<noteq> 0x2d \<and> hd (itoa n) \<noteq> 0x2b"
proof -
  have "itoa n \<noteq> []" by (simp add: itoa_def itoaAcc_nonempty)
  with itoa_digits [of n] have "isDigit (hd (itoa n))" by (cases "itoa n") auto
  then show ?thesis by (auto simp: isDigit_def)
qed

lemma atoi_itoa [codec_simps]: "n < 2 ^ 63 \<Longrightarrow> atoi (itoa n) = int n"
  using itoa_digits [of n] itoa_hd [of n] itoaAcc_val [of "[]" n] itoaAcc_nonempty [of "[]" n]
  by (auto simp: atoi_def Let_def itoa_def digitsVal_def)

text \<open>A property of bytes can be checked by evaluating it on all 256 of them.\<close>

lemma all_bytes: "list_all P (map word_of_int [0..255]) \<Longrightarrow> P (b :: byte)"
proof -
  assume a: "list_all P (map word_of_int [0..255])"
  have "uint b \<in> set [0..255]" using uint_lt2p [of b] by simp
  then have "P (word_of_int (uint b))" using a by (simp only: list_all_iff set_map ball_simps)
  then show "P b" by simp
qed

subsection \<open>Binary search: \<^verbatim>\<open>sort.Search\<close>\<close>

function searchLoop :: "(nat \<Rightarrow> bool) \<Rightarrow> nat \<Rightarrow> nat \<Rightarrow> nat" where
  "searchLoop f i j =
     (if i < j then
        let h = (i + j) div 2 in if \<not> f h then searchLoop f (h + 1) j else searchLoop f i h
      else i)"
  by pat_completeness auto
termination
  by (relation "measure (\<lambda>(f, i, j). j - i)") auto

declare searchLoop.simps [simp del]

definition sortSearch :: "nat \<Rightarrow> (nat \<Rightarrow> bool) \<Rightarrow> nat" where
  "sortSearch n f = searchLoop f 0 n"

definition splits_at :: "(nat \<Rightarrow> bool) \<Rightarrow> nat \<Rightarrow> nat \<Rightarrow> bool" where
  "splits_at f n r \<longleftrightarrow> r \<le> n \<and> (\<forall>k. k < r \<longrightarrow> \<not> f k) \<and> (\<forall>k. r \<le> k \<and> k < n \<longrightarrow> f k)"

lemma searchLoop_spec:
  assumes mono: "\<And>a b. a \<le> b \<Longrightarrow> b < n \<Longrightarrow> f a \<Longrightarrow> f b"
    and "i \<le> j" "j \<le> n" "\<forall>k. k < i \<longrightarrow> \<not> f k" "\<forall>k. j \<le> k \<and> k < n \<longrightarrow> f k"
  shows "splits_at f n (searchLoop f i j)"
  using assms(2-)
proof (induction "j - i" arbitrary: i j rule: less_induct)
  case less
  show ?case
  proof (cases "i < j")
    case False
    with less.prems show ?thesis by (subst searchLoop.simps) (auto simp: splits_at_def)
  next
    case True
    let ?h = "(i + j) div 2"
    have h: "i \<le> ?h" "?h < j" using True by auto
    show ?thesis
    proof (cases "f ?h")
      case True
      have "splits_at f n (searchLoop f i ?h)"
        using less.prems h True mono by (intro less.hyps) auto
      with True \<open>i < j\<close> show ?thesis by (subst searchLoop.simps) (simp add: Let_def)
    next
      case False
      then have "\<not> f k" if "k \<le> ?h" for k using mono [of k ?h] that h less.prems by auto
      then have "splits_at f n (searchLoop f (?h + 1) j)"
        using less.prems h by (intro less.hyps) auto
      with False \<open>i < j\<close> show ?thesis by (subst searchLoop.simps) (simp add: Let_def)
    qed
  qed
qed

lemma sortSearch_spec:
  assumes "\<And>a b. a \<le> b \<Longrightarrow> b < n \<Longrightarrow> f a \<Longrightarrow> f b"
  shows "splits_at f n (sortSearch n f)"
  unfolding sortSearch_def using assms by (intro searchLoop_spec) auto

end
