(* ===== verification/Byte_Search.thy ===== *)
theory Byte_Search
  imports Go_Prelude
begin

text \<open>
  Searching in byte slices, as the standard library's \<^verbatim>\<open>bytes\<close> and \<^verbatim>\<open>strings\<close> packages do it for
  the carver, the PDL detection, the transforms, the DLP scan and the job search:
  \<^verbatim>\<open>Index\<close>, \<^verbatim>\<open>Contains\<close>, \<^verbatim>\<open>Split\<close> and \<^verbatim>\<open>Replace\<close> for a separator of several bytes,
  with the facts the components share.
\<close>

subsection \<open>Index and Contains\<close>

primrec bytesIndexFrom :: "nat \<Rightarrow> 'a list \<Rightarrow> 'a list \<Rightarrow> nat option" where
  "bytesIndexFrom i p [] = (if p = [] then Some i else None)"
| "bytesIndexFrom i p (x # xs) = (if is_prefix p (x # xs) then Some i else bytesIndexFrom (Suc i) p xs)"

definition bytesIndex :: "'a list \<Rightarrow> 'a list \<Rightarrow> nat option" where
  "bytesIndex s p = bytesIndexFrom 0 p s"

definition bytesContains :: "'a list \<Rightarrow> 'a list \<Rightarrow> bool" where
  "bytesContains s p = (bytesIndex s p \<noteq> None)"

lemma is_prefix_iff: "is_prefix p s \<longleftrightarrow> (\<exists>b. s = p @ b)"
  unfolding is_prefix_def by (metis append_eq_conv_conj append_take_drop_id)

lemma is_prefix_append [simp]: "is_prefix p (p @ b)"
  by (auto simp: is_prefix_iff)

lemma is_prefix_Cons [simp]: "is_prefix (x # p) (y # s) \<longleftrightarrow> x = y \<and> is_prefix p s"
  by (auto simp: is_prefix_def)

lemma is_prefix_Nil [simp]: "is_prefix [] s" "is_prefix (x # p) [] \<longleftrightarrow> False"
  by (auto simp: is_prefix_def)

lemma is_prefix_shorter: "is_prefix p (x @ b) \<Longrightarrow> length p \<le> length x \<Longrightarrow> is_prefix p x"
  by (simp add: is_prefix_def)

lemma bytesIndexFrom_shift: "bytesIndexFrom i p s = map_option ((+) i) (bytesIndexFrom 0 p s)"
proof (induction s arbitrary: i)
  case (Cons x xs)
  show ?case
    using Cons [of "Suc i"] Cons [of 1] by (auto simp: option.map_comp o_def)
qed simp

lemma bytesIndex_Nil: "bytesIndex [] p = (if p = [] then Some 0 else None)"
  by (simp add: bytesIndex_def)

lemma bytesIndex_Cons:
  "bytesIndex (x # xs) p = (if is_prefix p (x # xs) then Some 0 else map_option Suc (bytesIndex xs p))"
proof -
  have "(+) (1 :: nat) = Suc" by auto
  then show ?thesis using bytesIndexFrom_shift [of 1 p xs] by (simp add: bytesIndex_def)
qed

lemma bytesIndex_prefix: "is_prefix p s \<Longrightarrow> bytesIndex s p = Some 0"
  by (cases s) (auto simp: bytesIndex_Nil bytesIndex_Cons is_prefix_def)

lemma bytesIndex_Some:
  "bytesIndex s p = Some i \<Longrightarrow> s = take i s @ p @ drop (i + length p) s \<and> (\<forall>k<i. \<not> is_prefix p (drop k s))"
proof (induction s arbitrary: i)
  case Nil
  then show ?case by (simp add: bytesIndex_Nil split: if_splits)
next
  case (Cons x xs)
  show ?case
  proof (cases "is_prefix p (x # xs)")
    case True
    then show ?thesis using Cons.prems by (auto simp: bytesIndex_Cons is_prefix_iff)
  next
    case False
    then obtain k where k: "bytesIndex xs p = Some k" "i = Suc k"
      using Cons.prems by (auto simp: bytesIndex_Cons)
    have "\<not> is_prefix p (drop m (x # xs))" if "m < i" for m
      using that False Cons.IH [OF k(1)] k(2) by (cases m) auto
    then show ?thesis using Cons.IH [OF k(1)] k(2) by auto
  qed
qed

lemma bytesIndex_le: "bytesIndex s p = Some i \<Longrightarrow> i + length p \<le> length s"
proof (induction s arbitrary: i)
  case Nil
  then show ?case by (simp add: bytesIndex_Nil split: if_splits)
next
  case (Cons x xs)
  have "length p \<le> length (x # xs)" if "is_prefix p (x # xs)"
    using that by (metis is_prefix_iff length_append le_add1)
  with Cons show ?case by (auto simp: bytesIndex_Cons split: if_splits)
qed

lemma bytesIndex_None: "bytesIndex s p = None \<longleftrightarrow> (\<forall>a b. s \<noteq> a @ p @ b)"
proof (induction s)
  case Nil
  then show ?case by (auto simp: bytesIndex_Nil)
next
  case (Cons x xs)
  have "(\<exists>a b. x # xs = a @ p @ b) \<longleftrightarrow> is_prefix p (x # xs) \<or> (\<exists>a b. xs = a @ p @ b)"
    by (auto simp: is_prefix_iff Cons_eq_append_conv)
  with Cons show ?case by (auto simp: bytesIndex_Cons)
qed

lemma bytesContains_iff: "bytesContains s p \<longleftrightarrow> (\<exists>a b. s = a @ p @ b)"
  by (simp add: bytesContains_def bytesIndex_None del: not_None_eq)

lemma bytesIndex_first:
  "\<forall>k<length a. \<not> is_prefix p (drop k (a @ p @ b)) \<Longrightarrow> bytesIndex (a @ p @ b) p = Some (length a)"
proof (induction a)
  case Nil
  then show ?case by (simp add: bytesIndex_prefix)
next
  case (Cons x a)
  have "\<forall>k<length a. \<not> is_prefix p (drop k (a @ p @ b))" using Cons.prems by fastforce
  moreover have "\<not> is_prefix p (x # a @ p @ b)" using Cons.prems by force
  ultimately show ?case using Cons.IH by (simp add: bytesIndex_Cons)
qed

lemma bytesIndex_char: "c \<notin> set a \<Longrightarrow> bytesIndex (a @ c # b) [c] = Some (length a)"
  by (induction a) (auto simp: bytesIndex_prefix bytesIndex_Cons)

subsection \<open>Split and Replace\<close>

text \<open>\<^verbatim>\<open>bytes.Split(s, sep)\<close> for a non-empty separator (with an empty one it would split into
  characters, which no caller asks for; here it then returns the whole slice).\<close>

function splitOn :: "'a list \<Rightarrow> 'a list \<Rightarrow> 'a list list" where
  "splitOn sep s = (case bytesIndex s sep of
      None \<Rightarrow> [s]
    | Some i \<Rightarrow> if sep = [] then [s] else take i s # splitOn sep (drop (i + length sep) s))"
  by pat_completeness auto
termination
proof (relation "measure (\<lambda>(sep, s). length s)", goal_cases)
  case (2 sep s i)
  then show ?case using bytesIndex_le [of s sep i] by (cases sep) auto
qed simp

declare splitOn.simps [simp del]

fun joinWith :: "'a list \<Rightarrow> 'a list list \<Rightarrow> 'a list" where
  "joinWith sep [] = []"
| "joinWith sep [p] = p"
| "joinWith sep (p # q # ps) = p @ sep @ joinWith sep (q # ps)"

lemma joinWith_Cons: "ps \<noteq> [] \<Longrightarrow> joinWith sep (p # ps) = p @ sep @ joinWith sep ps"
  by (cases ps) auto

lemma splitOn_nonempty [simp]: "splitOn sep s \<noteq> []"
  by (subst splitOn.simps) (auto split: option.splits)

lemma splitOn_none: "\<not> bytesContains s sep \<Longrightarrow> splitOn sep s = [s]"
  by (subst splitOn.simps) (auto simp: bytesContains_def)

lemma joinWith_splitOn [simp]: "joinWith sep (splitOn sep s) = s"
proof (induction sep s rule: splitOn.induct)
  case (1 sep s)
  show ?case
  proof (cases "bytesIndex s sep")
    case None
    then show ?thesis by (subst splitOn.simps) simp
  next
    case (Some i)
    show ?thesis
    proof (cases "sep = []")
      case True
      then show ?thesis using Some by (subst splitOn.simps) simp
    next
      case False
      have "joinWith sep (splitOn sep s) = take i s @ sep @ drop (i + length sep) s"
        using "1.IH" [OF Some False] False Some by (subst splitOn.simps) (simp add: joinWith_Cons)
      with bytesIndex_Some [OF Some] show ?thesis by simp
    qed
  qed
qed

lemma splitOn_first:
  assumes "sep \<noteq> []" "\<forall>k<length a. \<not> is_prefix sep (drop k (a @ sep @ b))"
  shows "splitOn sep (a @ sep @ b) = a # splitOn sep b"
  using bytesIndex_first [OF assms(2)] assms(1) by (subst splitOn.simps) simp

text \<open>\<^verbatim>\<open>bytes.ReplaceAll(s, old, new)\<close> and \<^verbatim>\<open>bytes.Replace(s, old, new, 1)\<close> for a non-empty \<^verbatim>\<open>old\<close>.\<close>

definition replaceAll :: "'a list \<Rightarrow> 'a list \<Rightarrow> 'a list \<Rightarrow> 'a list" where
  "replaceAll s old new = joinWith new (splitOn old s)"

definition replaceFirst :: "'a list \<Rightarrow> 'a list \<Rightarrow> 'a list \<Rightarrow> 'a list" where
  "replaceFirst s old new = (case bytesIndex s old of
      None \<Rightarrow> s
    | Some i \<Rightarrow> take i s @ new @ drop (i + length old) s)"

lemma replaceAll_same [simp]: "replaceAll s old old = s"
  by (simp add: replaceAll_def)

lemma replaceAll_absent: "\<not> bytesContains s old \<Longrightarrow> replaceAll s old new = s"
  by (simp add: replaceAll_def splitOn_none)

lemma replaceFirst_absent: "\<not> bytesContains s old \<Longrightarrow> replaceFirst s old new = s"
  by (simp add: replaceFirst_def bytesContains_def)

text \<open>\<^verbatim>\<open>headN\<close> of \<^verbatim>\<open>pdl.go\<close> is \<open>take\<close>; \<^verbatim>\<open>bytes.TrimLeft(b, cutset)\<close> is \<open>dropWhile\<close>.\<close>

subsection \<open>Separators that cannot overlap themselves\<close>

text \<open>A separator whose first byte occurs nowhere else in it starts only where a piece ends.\<close>

definition unbordered :: "'a list \<Rightarrow> bool" where
  "unbordered p = (p \<noteq> [] \<and> hd p \<notin> set (tl p))"

lemma unbordered_no_overlap:
  assumes u: "unbordered p" and a: "\<not> bytesContains a p" and k: "k < length a"
  shows "\<not> is_prefix p (drop k (a @ p @ b))"
proof
  assume "is_prefix p (drop k (a @ p @ b))"
  then obtain c where c: "drop k (a @ p @ b) = p @ c" by (auto simp: is_prefix_iff)
  obtain x q where p: "p = x # q" "x \<notin> set q" using u by (cases p) (auto simp: unbordered_def)
  let ?m = "length a - k"
  have d: "drop k a @ p @ b = p @ c" using c k by simp
  show False
  proof (cases "length p \<le> ?m")
    case True
    then have "drop k a = p @ drop (length p) (drop k a)"
      using d by (metis append_eq_append_conv_if append_eq_conv_conj append_take_drop_id length_drop)
    then have "a = take k a @ p @ drop (length p) (drop k a)" by (metis append_take_drop_id)
    then show False using a by (metis bytesContains_iff)
  next
    case False
    then have m: "0 < ?m" "?m < length p" using k by auto
    have "(drop k a @ p @ b) ! ?m = x" using p by (simp add: nth_append)
    moreover have "(p @ c) ! ?m = q ! (?m - 1)" using m p by (cases ?m) (auto simp: nth_append)
    moreover have "q ! (?m - 1) \<in> set q" using m p by (intro nth_mem) auto
    ultimately show False using p d by auto
  qed
qed

lemma splitOn_unbordered:
  "unbordered p \<Longrightarrow> \<not> bytesContains a p \<Longrightarrow> splitOn p (a @ p @ b) = a # splitOn p b"
  by (rule splitOn_first) (auto simp only: unbordered_def unbordered_no_overlap simp_thms)

lemma splitOn_joinWith:
  "unbordered p \<Longrightarrow> ps \<noteq> [] \<Longrightarrow> (\<And>a. a \<in> set ps \<Longrightarrow> \<not> bytesContains a p) \<Longrightarrow> splitOn p (joinWith p ps) = ps"
proof (induction ps)
  case (Cons a ps)
  show ?case
  proof (cases ps)
    case Nil
    then show ?thesis using Cons.prems by (simp add: splitOn_none)
  next
    case (Cons c cs)
    then show ?thesis
      using Cons.prems Cons.IH by (simp add: joinWith_Cons splitOn_unbordered)
  qed
qed simp

end
