(* ===== verification/Config_Types.thy ===== *)
theory Config_Types
  imports Go_Prelude
begin

text \<open>
  The configuration records of \<^verbatim>\<open>config.go\<close> (the fields the modelled components read) and
  the captured \<^verbatim>\<open>job\<close> of \<^verbatim>\<open>main.go\<close>. Field names carry a short prefix where the Go structs
  share a name, because record selectors are global in HOL.
\<close>

record printer_conf =
  p_name :: bytes
  p_info :: bytes
  makeAndModel :: bytes
  p_location :: bytes
  p_serial :: bytes
  documentFormats :: "bytes list"
  defaultFormat :: bytes
  enforceFormats :: bool
  p_color :: bool
  p_sides :: "bytes list"
  p_resolutions :: "int list"
  p_media :: "bytes list"

record snmp_user =
  u_name :: bytes
  u_level :: bytes
  authProtocolName :: bytes
  authPass :: bytes
  privProtocolName :: bytes
  privPass :: bytes

record snmp_conf =
  community :: bytes
  sysDescr :: bytes
  sysName :: bytes
  sysLocation :: bytes
  sysContact :: bytes
  sysObjectID :: bytes
  pageCount :: u64
  tonerLevelPct :: u64
  v3Enabled :: bool
  allowV1V2c :: bool
  snmpUsers :: "snmp_user list"

record lpd_conf =
  acceptAnyQueue :: bool
  allowedQueues :: "bytes list"
  requirePrivilegedSourcePort :: bool
  lpdParsePJL :: bool

record forward_result =
  fr_target :: bytes
  fr_transport :: bytes
  fr_address :: bytes
  fr_status :: bytes
  fr_bytes :: nat
  fr_error :: "bytes option"

record job =
  jobID :: nat
  jobProtocol :: bytes
  jobSource :: bytes
  jobName :: bytes
  jobUser :: bytes
  jobHost :: bytes
  jobQueue :: bytes
  jobDocFormat :: bytes
  jobPDL :: bytes
  jobClass :: bytes
  jobTitle :: bytes
  jobBytes :: nat
  jobData :: bytes
  jobForwards :: "forward_result list"
  carriageHint :: bytes
  jobReceived :: bytes
  jobCodePage :: bytes
  jobDecodedAs :: bytes
  jobSavedAs :: bytes
  jobDLPMatches :: "bytes list"
  captureBase :: bytes
  captureExt :: bytes

text \<open>\<^verbatim>\<open>newJob\<close> of \<^verbatim>\<open>sink.go\<close>: every field but the protocol and the source starts blank (the time stamp is not modelled).\<close>

definition blankJob :: job where
  "blankJob = \<lparr>jobID = 0, jobProtocol = [], jobSource = [], jobName = [], jobUser = [],
     jobHost = [], jobQueue = [], jobDocFormat = [], jobPDL = [], jobClass = [], jobTitle = [],
     jobBytes = 0, jobData = [], jobForwards = [], carriageHint = [],
     jobReceived = [], jobCodePage = [], jobDecodedAs = [], jobSavedAs = [], jobDLPMatches = [],
     captureBase = [], captureExt = []\<rparr>"

definition newJob :: "bytes \<Rightarrow> bytes \<Rightarrow> job" where
  "newJob proto source = blankJob\<lparr>jobProtocol := proto, jobSource := source\<rparr>"

end
