(* ===== verification/Crypto_Types.thy ===== *)
theory Crypto_Types
  imports Go_Prelude
begin

text \<open>
  The cryptographic primitives of Go's \<^verbatim>\<open>crypto/*\<close> packages that the program calls. Their bit-level
  definitions are outside the repository, so a record of functions stands for them and is
  an argument of every definition that uses one. What a property needs of them (an output
  length, decryption inverting encryption) is a named hypothesis.
\<close>

datatype hash_alg = MD5 | SHA1 | SHA256 | SHA512

record crypto =
  hashSum :: "hash_alg \<Rightarrow> bytes \<Rightarrow> bytes"
  hmacSum :: "hash_alg \<Rightarrow> bytes \<Rightarrow> bytes \<Rightarrow> bytes"
  desCbcEncrypt :: "bytes \<Rightarrow> bytes \<Rightarrow> bytes \<Rightarrow> bytes"
  desCbcDecrypt :: "bytes \<Rightarrow> bytes \<Rightarrow> bytes \<Rightarrow> bytes"
  aesCfbEncrypt :: "bytes \<Rightarrow> bytes \<Rightarrow> bytes \<Rightarrow> bytes"
  aesCfbDecrypt :: "bytes \<Rightarrow> bytes \<Rightarrow> bytes \<Rightarrow> bytes"
  aesBlock :: "bytes \<Rightarrow> bytes \<Rightarrow> bytes"
  gcmSeal :: "bytes \<Rightarrow> bytes \<Rightarrow> bytes \<Rightarrow> bytes \<Rightarrow> bytes"
  gcmOpen :: "bytes \<Rightarrow> bytes \<Rightarrow> bytes \<Rightarrow> bytes \<Rightarrow> bytes option"

fun hashLen :: "hash_alg \<Rightarrow> nat" where
  "hashLen MD5 = 16"
| "hashLen SHA1 = 20"
| "hashLen SHA256 = 32"
| "hashLen SHA512 = 64"

text \<open>The documented output lengths of the hash functions and of HMAC over them.\<close>

definition digest_lengths :: "crypto \<Rightarrow> bool" where
  "digest_lengths cr \<longleftrightarrow> (\<forall>h x. length (hashSum cr h x) = hashLen h) \<and>
     (\<forall>h k x. length (hmacSum cr h k x) = hashLen h)"

text \<open>A concrete instance, used only to show that hypotheses about the primitives can hold.\<close>

definition toyCrypto :: crypto where
  "toyCrypto = \<lparr>hashSum = (\<lambda>h x. replicate (hashLen h) (of_nat (length x))),
     hmacSum = (\<lambda>h k x. replicate (hashLen h) (of_nat (length x))),
     desCbcEncrypt = (\<lambda>k iv x. x), desCbcDecrypt = (\<lambda>k iv x. x),
     aesCfbEncrypt = (\<lambda>k iv x. x), aesCfbDecrypt = (\<lambda>k iv x. x),
     aesBlock = (\<lambda>k x. x),
     gcmSeal = (\<lambda>k n x a. x @ replicate 16 0),
     gcmOpen = (\<lambda>k n x a. if 16 \<le> length x then Some (take (length x - 16) x) else None)\<rparr>"

lemma toy_digest_lengths: "digest_lengths toyCrypto"
  by (simp add: digest_lengths_def toyCrypto_def)

definition xorBytes :: "bytes \<Rightarrow> bytes \<Rightarrow> bytes" where
  "xorBytes a b = map2 (XOR) a b"

lemma length_xorBytes [simp]: "length (xorBytes a b) = min (length a) (length b)"
  by (simp add: xorBytes_def)

end
