(* ===== verification/Ber.thy ===== *)
theory Ber
  imports Go_Prelude "HOL-Library.List_Lexorder"
begin

text \<open>
  The BER primitives of \<^verbatim>\<open>snmp.go\<close>: tag-length-value encoding and decoding, signed and
  unsigned integer contents, object identifiers and their ordering. The locale
  \<open>tlv_codec\<close> is the interface the SNMP message code relies on; it is interpreted here
  on \<open>tlv\<close> and \<open>readTLV\<close>.
\<close>

subsection \<open>Tag-length-value\<close>

text \<open>The \<^verbatim>\<open>for n > 0\<close> loop of \<^verbatim>\<open>berLen\<close>, prepending the low byte each round.\<close>

fun lenBytes :: "bytes \<Rightarrow> nat \<Rightarrow> bytes" where
  "lenBytes acc n = (if n = 0 then acc else lenBytes (of_nat (n mod 256) # acc) (n div 256))"

declare lenBytes.simps [simp del]

definition berLen :: "nat \<Rightarrow> bytes" where
  "berLen n =
     (if n < 0x80 then [of_nat n]
      else let b = lenBytes [] n in (0x80 OR of_nat (length b)) # b)"

definition tlv :: "byte \<Rightarrow> bytes \<Rightarrow> bytes" where
  "tlv tag content = [tag] @ berLen (length content) @ content"

text \<open>The loop reading \<open>n\<close> length octets at \<open>p\<close>; returns the length and the new position.\<close>

fun readLen :: "bytes \<Rightarrow> nat \<Rightarrow> nat \<Rightarrow> nat \<Rightarrow> (nat \<times> nat) option" where
  "readLen b 0 p l = Some (l, p)"
| "readLen b (Suc n) p l = do { x \<leftarrow> idx b p; readLen b n (Suc p) (l * 256 + unat x) }"

definition readBody :: "byte \<Rightarrow> bytes \<Rightarrow> nat \<Rightarrow> nat \<Rightarrow> (byte \<times> bytes \<times> nat) option option" where
  "readBody tag b l p =
     (if p + l > length b then Some None
      else do { c \<leftarrow> gslice b p (p + l); Some (Some (tag, c, p + l)) })"

definition readTLV :: "bytes \<Rightarrow> nat \<Rightarrow> (byte \<times> bytes \<times> nat) option option" where
  "readTLV b p =
     (if p + 2 > length b then Some None
      else do {
        tag \<leftarrow> idx b p;
        l \<leftarrow> idx b (p + 1);
        if l AND 0x80 \<noteq> 0 then
          (let n = unat (l AND 0x7f) in
           if n = 0 \<or> n > 4 \<or> p + 2 + n > length b then Some None
           else do { (l', p') \<leftarrow> readLen b n (p + 2) 0; readBody tag b l' p' })
        else readBody tag b (unat l) (p + 2)
      })"

lemma readLen_returns: "p + n \<le> length b \<Longrightarrow> \<exists>l'. readLen b n p l = Some (l', p + n)"
  by (induction b n p l rule: readLen.induct) (auto simp: Let_def)

lemma readBody_returns: "readBody tag b l p \<noteq> None"
  by (simp add: readBody_def)

lemma readTLV_returns [no_panic]: "readTLV b p \<noteq> None"
proof (cases "p + 2 > length b")
  case False
  then show ?thesis
    using readLen_returns [of "p + 2" "unat ((b ! (p + 1)) AND 0x7f)" b 0]
    by (auto simp: readTLV_def Let_def readBody_def)
qed (simp add: readTLV_def)

lemma readBody_Some_iff: "readBody tag b l p = Some (Some (t, c, nx)) \<longleftrightarrow>
    t = tag \<and> p + l \<le> length b \<and> c = take l (drop p b) \<and> nx = p + l"
  by (auto simp: readBody_def)

lemma readTLV_bounds:
  assumes "readTLV b p = Some (Some (t, c, nx))"
  shows "p + 2 + length c \<le> nx" and "nx \<le> length b" and "c = take (length c) (drop (nx - length c) b)"
    and "t = b ! p"
proof -
  from assms have p: "p + 2 \<le> length b" by (auto simp: readTLV_def split: if_splits)
  obtain l q where *: "readBody (b ! p) b l q = Some (Some (t, c, nx))" "p + 2 \<le> q"
  proof (cases "(b ! (p + 1)) AND 0x80 = 0")
    case True
    with assms p that [of "unat (b ! (p + 1))" "p + 2"] show ?thesis by (simp add: readTLV_def)
  next
    case False
    let ?n = "unat ((b ! (p + 1)) AND 0x7f)"
    have le: "p + 2 + ?n \<le> length b"
      using assms p False by (auto simp: readTLV_def Let_def split: if_splits)
    obtain l where "readLen b ?n (p + 2) 0 = Some (l, p + 2 + ?n)"
      using readLen_returns [OF le] by blast
    with assms p False that [of l "p + 2 + ?n"] show ?thesis
      by (simp add: readTLV_def Let_def split: if_splits)
  qed
  then have eq: "t = b ! p" "q + l \<le> length b" "c = take l (drop q b)" "nx = q + l"
    by (auto simp: readBody_Some_iff)
  then have "length c = l" by simp
  with eq * show "p + 2 + length c \<le> nx" "nx \<le> length b"
    "c = take (length c) (drop (nx - length c) b)" "t = b ! p"
    by simp_all
qed

fun be_val :: "bytes \<Rightarrow> nat \<Rightarrow> nat" where
  "be_val [] l = l"
| "be_val (x # xs) l = be_val xs (l * 256 + unat x)"

lemma be_val_append: "be_val (xs @ ys) l = be_val ys (be_val xs l)"
  by (induction xs arbitrary: l) auto

lemma readLen_append:
  "readLen (pre @ xs @ post) (length xs) (length pre) l = Some (be_val xs l, length pre + length xs)"
proof (induction xs arbitrary: pre l)
  case (Cons x xs)
  from Cons.IH [of "pre @ [x]" "l * 256 + unat x"] show ?case
    by (simp add: idx_append)
qed simp

lemma lenBytes_val: "be_val (lenBytes acc n) 0 = be_val acc n"
proof (induction acc n rule: lenBytes.induct)
  case (1 acc n)
  show ?case
  proof (cases "n = 0")
    case True then show ?thesis by (subst lenBytes.simps) simp
  next
    case False
    have "unat (of_nat (n mod 256) :: byte) = n mod 256"
      by (simp add: unat_of_nat)
    with False "1.IH" show ?thesis by (subst lenBytes.simps) simp
  qed
qed

lemma lenBytes_length: "n < 256 ^ k \<Longrightarrow> length (lenBytes acc n) \<le> length acc + k"
proof (induction k arbitrary: acc n)
  case 0 then show ?case by (subst lenBytes.simps) simp
next
  case (Suc k)
  then have "n div 256 < 256 ^ k" by (simp add: less_mult_imp_div_less mult.commute)
  from Suc.IH [OF this, of "of_nat (n mod 256) # acc"] show ?case by (subst lenBytes.simps) simp
qed

lemma lenBytes_nonempty: "0 < n \<Longrightarrow> 0 < length (lenBytes acc n)"
proof (induction acc n rule: lenBytes.induct)
  case (1 acc n)
  then show ?case
    by (subst lenBytes.simps) (cases "n div 256 = 0"; simp add: lenBytes.simps)
qed

lemma lenOctet:
  assumes "0 < k" "k \<le> 4"
  shows "(0x80 OR of_nat k) AND 0x80 \<noteq> (0 :: byte)" and "unat ((0x80 OR of_nat k) AND (0x7f :: byte)) = k"
proof -
  from assms have "k = 1 \<or> k = 2 \<or> k = 3 \<or> k = 4" by arith
  then show "(0x80 OR of_nat k) AND 0x80 \<noteq> (0 :: byte)"
    and "unat ((0x80 OR of_nat k) AND (0x7f :: byte)) = k" by auto
qed

lemma short_len:
  assumes "n < 0x80" shows "(of_nat n AND 0x80 :: byte) = 0" and "unat (of_nat n :: byte) = n"
proof -
  have "(of_nat n :: byte) = of_nat (take_bit 7 n)"
    using assms by (simp add: take_bit_nat_eq_self)
  then have "(of_nat n :: byte) = take_bit 7 (of_nat n)" by (simp add: take_bit_of_nat)
  moreover have "take_bit 7 x AND (0x80 :: byte) = 0" for x :: byte
    by (rule bit_eqI) (auto simp: bit_simps numeral_eq_Suc less_Suc_eq)
  ultimately show "(of_nat n AND 0x80 :: byte) = 0" by metis
  show "unat (of_nat n :: byte) = n" using assms by (simp add: unat_of_nat)
qed

lemma readBody_append:
  "q = length pre \<Longrightarrow> readBody tag (pre @ c @ post) (length c) q = Some (Some (tag, c, q + length c))"
  by (simp add: readBody_def)

lemma readTLV_tlv:
  assumes "length c < 2 ^ 32"
  shows "readTLV (pre @ tlv t c @ post) (length pre)
     = Some (Some (t, c, length pre + length (tlv t c)))"
proof (cases "length c < 0x80")
  case True
  let ?b = "pre @ tlv t c @ post"
  have b: "?b = (pre @ [t, of_nat (length c)]) @ c @ post"
    using True by (simp add: tlv_def berLen_def)
  have i: "idx ?b (length pre) = Some t" "idx ?b (length pre + 1) = Some (of_nat (length c))"
    by (simp_all add: b nth_append)
  show ?thesis
    unfolding readTLV_def i using True short_len [OF True]
      readBody_append [of "length pre + 2" "pre @ [t, of_nat (length c)]" t c post]
    by (simp add: b) (simp add: tlv_def berLen_def)
next
  case False
  let ?b = "pre @ tlv t c @ post" and ?L = "lenBytes [] (length c)"
  have k: "0 < length ?L" "length ?L \<le> 4"
    using False assms lenBytes_nonempty [of "length c" "[]"] lenBytes_length [of "length c" 4 "[]"]
    by (cases c; simp)+
  have b: "?b = (pre @ [t, 0x80 OR of_nat (length ?L)]) @ ?L @ c @ post"
    using False by (simp add: tlv_def berLen_def Let_def)
  have i: "idx ?b (length pre) = Some t" "idx ?b (length pre + 1) = Some (0x80 OR of_nat (length ?L))"
    by (simp_all add: b nth_append)
  have r: "readLen ?b (length ?L) (Suc (Suc (length pre))) 0 = Some (length c, Suc (Suc (length pre + length ?L)))"
    unfolding b using readLen_append [of "pre @ [t, 0x80 OR of_nat (length ?L)]" ?L "c @ post" 0]
    by (simp add: lenBytes_val)
  have s: "readBody t ?b (length c) (Suc (Suc (length pre + length ?L)))
      = Some (Some (t, c, Suc (Suc (length pre + length ?L)) + length c))"
    unfolding b using readBody_append [of _ "pre @ [t, 0x80 OR of_nat (length ?L)] @ ?L" t c post] by simp
  show ?thesis
    unfolding readTLV_def i using k lenOctet [OF k] False
    by (simp add: Let_def r s) (simp add: tlv_def berLen_def Let_def)
qed

subsection \<open>The interface of the codec\<close>

text \<open>
  What every SNMP message parser and builder relies on: reading returns (never panics), moves
  forward and stays inside the buffer, and reads back exactly what the encoder wrote, whatever
  surrounds it.
\<close>

locale tlv_codec =
  fixes enc :: "byte \<Rightarrow> bytes \<Rightarrow> bytes"
    and rd :: "bytes \<Rightarrow> nat \<Rightarrow> (byte \<times> bytes \<times> nat) option option"
  assumes rd_returns: "rd b p \<noteq> None"
    and rd_progress: "rd b p = Some (Some (t, c, nx)) \<Longrightarrow> p < nx \<and> nx \<le> length b"
    and rd_enc: "length c < 2 ^ 32 \<Longrightarrow>
      rd (pre @ enc t c @ post) (length pre) = Some (Some (t, c, length pre + length (enc t c)))"
begin

lemma rd_enc0: "length c < 2 ^ 32 \<Longrightarrow> rd (enc t c @ post) 0 = Some (Some (t, c, length (enc t c)))"
  using rd_enc [of c "[]"] by simp

lemma rd_enc_only: "length c < 2 ^ 32 \<Longrightarrow> rd (enc t c) 0 = Some (Some (t, c, length (enc t c)))"
  using rd_enc0 [of c t "[]"] by simp

lemma rd_enc_at: "length c < 2 ^ 32 \<Longrightarrow> n = length pre \<Longrightarrow>
    rd (pre @ enc t c @ post) n = Some (Some (t, c, n + length (enc t c)))"
  using rd_enc by simp

lemma rd_enc_end: "length c < 2 ^ 32 \<Longrightarrow> n = length pre \<Longrightarrow>
    rd (pre @ enc t c) n = Some (Some (t, c, n + length (enc t c)))"
  using rd_enc [of c pre t "[]"] by simp

lemma rd_drop: "drop p b = enc t c @ post \<Longrightarrow> length c < 2 ^ 32 \<Longrightarrow> p \<le> length b \<Longrightarrow>
    rd b p = Some (Some (t, c, p + length (enc t c)))"
  using rd_enc_at [of c p "take p b" t post] by (metis append_take_drop_id length_take min.absorb2)

lemma rd_cases:
  obtains (Fail) "rd b p = Some None"
  | (Ok) t c nx where "rd b p = Some (Some (t, c, nx))" "p < nx" "nx \<le> length b"
proof (cases "rd b p")
  case None
  then show ?thesis using rd_returns by blast
next
  case (Some r)
  then show ?thesis using Fail Ok rd_progress by (cases r) auto
qed

end

interpretation ber: tlv_codec tlv readTLV
proof
  show "readTLV b p \<noteq> None" for b p by (rule readTLV_returns)
  show "readTLV b p = Some (Some (t, c, nx)) \<Longrightarrow> p < nx \<and> nx \<le> length b" for b p t c nx
    using readTLV_bounds [of b p t c nx] by linarith
qed (rule readTLV_tlv)

lemma tlv_nonempty [simp]: "tlv t c \<noteq> []"
  by (simp add: tlv_def)

text \<open>
  The idiom \<^verbatim>\<open>tag, c, nx, ok := readTLV(b, p); if !ok { return nil }\<close> that the message parsers
  repeat, with the rest of the parser as its continuation.
\<close>

definition tlvThen :: "bytes \<Rightarrow> nat \<Rightarrow> (byte \<Rightarrow> bytes \<Rightarrow> nat \<Rightarrow> 'a option option) \<Rightarrow> 'a option option" where
  "tlvThen b p k = do {
     r \<leftarrow> readTLV b p;
     (case r of None \<Rightarrow> Some None | Some (t, c, nx) \<Rightarrow> k t c nx)
   }"

lemma tlvThen_returns [no_panic]: "(\<And>t c nx. k t c nx \<noteq> None) \<Longrightarrow> tlvThen b p k \<noteq> None"
  by (cases rule: ber.rd_cases [of b p]) (auto simp: tlvThen_def)

lemma tlvThen_drop:
  assumes "drop p b = tlv t c @ post" "length c < 2 ^ 32"
  shows "tlvThen b p k = k t c (p + length (tlv t c))" and "drop (p + length (tlv t c)) b = post"
proof -
  from assms(1) have "p \<le> length b" by (cases "p \<le> length b") (auto simp: tlv_def)
  with ber.rd_drop [OF assms] show "tlvThen b p k = k t c (p + length (tlv t c))"
    by (simp add: tlvThen_def)
  show "drop (p + length (tlv t c)) b = post"
    using assms(1) by (metis add.commute append_eq_conv_conj drop_drop)
qed

lemma tlvThen_ok: "tlvThen b p k = Some (Some r) \<Longrightarrow>
    \<exists>t c nx. readTLV b p = Some (Some (t, c, nx)) \<and> k t c nx = Some (Some r)"
  by (cases rule: ber.rd_cases [of b p]) (auto simp: tlvThen_def)

lemma lenBytes_exact_bound: "length (berLen n) \<le> 5" if "n < 2 ^ 32"
  using that lenBytes_length [of n 4 "[]"] by (auto simp: berLen_def Let_def)

lemma length_tlv: "length c < 2 ^ 32 \<Longrightarrow> length (tlv t c) \<le> length c + 6"
  using lenBytes_exact_bound [of "length c"] by (simp add: tlv_def)

subsection \<open>Integer contents\<close>

text \<open>The loop of \<^verbatim>\<open>intContent\<close> over the eight big-endian octets: drop redundant sign octets, keep one.\<close>

fun trimInt :: "bool \<Rightarrow> bytes \<Rightarrow> bytes" where
  "trimInt neg (a # b # r) =
     (if \<not> neg \<and> a = 0x00 \<and> b AND 0x80 = 0 then trimInt neg (b # r)
      else if neg \<and> a = 0xff \<and> b AND 0x80 \<noteq> 0 then trimInt neg (b # r)
      else a # b # r)"
| "trimInt neg r = r"

definition intContent :: "u64 \<Rightarrow> bytes" where
  "intContent v = trimInt (sint v < 0) (be64 v)"

fun trimUint :: "bytes \<Rightarrow> bytes" where
  "trimUint (a # b # r) = (if a = 0x00 then trimUint (b # r) else a # b # r)"
| "trimUint r = r"

definition uintContent :: "u64 \<Rightarrow> bytes" where
  "uintContent v =
     (let out = trimUint (be64 v) in if hd out AND 0x80 \<noteq> 0 then 0x00 # out else out)"

definition clampInt :: "int \<Rightarrow> int \<Rightarrow> int \<Rightarrow> int" where
  "clampInt v lo hi = (if v < lo then lo else if v > hi then hi else v)"

fun accInt :: "u64 \<Rightarrow> bytes \<Rightarrow> u64" where
  "accInt v [] = v"
| "accInt v (c # cs) = accInt (push_bit 8 v OR ucast c) cs"

definition decodeInt :: "bytes \<Rightarrow> u64" where
  "decodeInt b =
     (case b of [] \<Rightarrow> 0 | c # _ \<Rightarrow> accInt (if c AND 0x80 \<noteq> 0 then - 1 else 0) b)"


lemma bit7_iff: "(x :: byte) AND 0x80 \<noteq> 0 \<longleftrightarrow> bit x 7"
proof -
  have "x AND 0x80 = (if bit x 7 then 0x80 else 0)"
    by (rule bit_eqI) (auto simp: bit_simps numeral_eq_Suc less_Suc_eq)
  then show ?thesis by simp
qed

lemma accInt_start: "accInt s bs = push_bit (8 * length bs) s OR accInt 0 bs"
proof (induction bs arbitrary: s)
  case (Cons c cs)
  show ?case
    using Cons [of "push_bit 8 s OR ucast c"] Cons [of "ucast c"]
    by (simp add: push_bit_or or.assoc add.commute)
qed simp

lemma le_dec_append: "le_dec (xs @ [c]) = le_dec xs OR push_bit (8 * length xs) (ucast c)"
  by (induction xs) (simp_all add: push_bit_or or.assoc)

lemma accInt_be_dec: "accInt 0 bs = be_dec bs"
proof (induction bs)
  case (Cons c cs)
  then show ?case
    using accInt_start [of "ucast c" cs] by (simp add: be_dec_def le_dec_append or.commute)
qed (simp add: be_dec_def)

lemma accInt_be64: "accInt s (be64 v) = v"
  using accInt_start [of s "be64 v"] by (simp add: accInt_be_dec)

lemma accInt_minus1: "accInt (- 1) (0xff # bs) = accInt (- 1) bs"
proof -
  have "NOT (mask 8) OR 255 = (- 1 :: u64)" by (simp add: mask_eq_decr_exp)
  then show ?thesis by simp
qed

lemma accInt_zero: "accInt 0 (0x00 # bs) = accInt 0 bs"
  by simp

lemma accInt_trimInt: "accInt (if neg then - 1 else 0) (trimInt neg bs) = accInt (if neg then - 1 else 0) bs"
proof (induction neg bs rule: trimInt.induct)
  case (1 neg a b r)
  consider "\<not> neg" "a = 0x00" "b AND 0x80 = 0" | "neg" "a = 0xff" "b AND 0x80 \<noteq> 0"
    | "trimInt neg (a # b # r) = a # b # r" by (metis trimInt.simps(1))
  then show ?case
    by cases (use "1.IH" in \<open>simp_all add: accInt_minus1 accInt_zero del: accInt.simps\<close>)
qed simp_all

lemma trimInt_head: "bs \<noteq> [] \<Longrightarrow> (hd bs AND 0x80 \<noteq> 0) = neg \<Longrightarrow>
    trimInt neg bs \<noteq> [] \<and> (hd (trimInt neg bs) AND 0x80 \<noteq> 0) = neg"
  by (induction neg bs rule: trimInt.induct) auto

lemma trimInt_minimal: "trimInt neg bs = a # b # r \<Longrightarrow>
    \<not> (if neg then a = 0xff \<and> b AND 0x80 \<noteq> 0 else a = 0x00 \<and> b AND 0x80 = 0)"
  by (induction neg bs rule: trimInt.induct) (auto split: if_splits)

lemma be64_head: "be64 v \<noteq> []" "(hd (be64 v) AND 0x80 \<noteq> 0) = (sint v < 0)"
proof -
  have "hd (be64 v) = ucast (drop_bit 56 v)"
    by (simp add: be_enc_def numeral_eq_Suc)
  then show "(hd (be64 v) AND 0x80 \<noteq> 0) = (sint v < 0)"
    using bit_last_iff [of v] by (simp only: bit7_iff) (simp add: bit_simps)
  show "be64 v \<noteq> []" by (simp add: be_enc_def numeral_eq_Suc)
qed

lemma decodeInt_head: "bs \<noteq> [] \<Longrightarrow> decodeInt bs = accInt (if hd bs AND 0x80 \<noteq> 0 then - 1 else 0) bs"
  by (cases bs) (auto simp: decodeInt_def)

lemma decodeInt_intContent: "decodeInt (intContent v) = v"
proof -
  have h: "intContent v \<noteq> []" "(hd (intContent v) AND 0x80 \<noteq> 0) = (sint v < 0)"
    using trimInt_head [OF be64_head(1) be64_head(2)] by (simp_all add: intContent_def)
  show ?thesis
    unfolding decodeInt_head [OF h(1)] h(2)
    unfolding intContent_def accInt_trimInt by (rule accInt_be64)
qed

lemma intContent_minimal:
  assumes "intContent v = a # b # r"
  shows "\<not> (a = 0x00 \<and> b AND 0x80 = 0)" and "\<not> (a = 0xff \<and> b AND 0x80 \<noteq> 0)"
  using trimInt_minimal [of "sint v < 0" "be64 v" a b r] assms
    trimInt_head [OF be64_head(1) be64_head(2), of v]
  by (auto simp: intContent_def split: if_splits)

lemma length_trimInt: "length (trimInt neg bs) \<le> length bs"
  by (induction neg bs rule: trimInt.induct) auto

lemma length_intContent [simp]: "length (intContent v) \<le> 8"
  using length_trimInt [of "sint v < 0" "be64 v"] by (simp add: intContent_def)

lemma trimUint_accInt: "accInt 0 (trimUint bs) = accInt 0 bs"
  by (induction bs rule: trimUint.induct) auto

lemma trimUint_nonempty: "bs \<noteq> [] \<Longrightarrow> trimUint bs \<noteq> []"
  by (induction bs rule: trimUint.induct) auto

lemma decodeInt_uintContent: "decodeInt (uintContent v) = v"
proof -
  let ?out = "trimUint (be64 v)"
  have "decodeInt (uintContent v) = accInt 0 ?out"
    using trimUint_nonempty [OF be64_head(1), of v]
    by (auto simp: uintContent_def Let_def decodeInt_head)
  then show ?thesis by (simp add: trimUint_accInt accInt_be64)
qed

lemma length_trimUint: "length (trimUint bs) \<le> length bs"
  by (induction bs rule: trimUint.induct) auto

lemma length_uintContent [simp]: "length (uintContent v) \<le> 9"
  using length_trimUint [of "be64 v"] by (simp add: uintContent_def Let_def)

subsection \<open>Object identifiers\<close>

text \<open>An OID is a list of Go \<^verbatim>\<open>int\<close>s.\<close>

type_synonym oid = "int list"

fun b128 :: "bytes \<Rightarrow> int \<Rightarrow> bytes" where
  "b128 acc n = (if n > 0 then b128 (word_of_int (n mod 128) # acc) (n div 128) else acc)"

declare b128.simps [simp del]

definition base128 :: "int \<Rightarrow> bytes" where
  "base128 n =
     (if n = 0 then [0]
      else case b128 [] n of [] \<Rightarrow> []
        | b \<Rightarrow> map (\<lambda>x. x OR 0x80) (butlast b) @ [last b])"

definition encodeOID :: "oid \<Rightarrow> bytes" where
  "encodeOID oid =
     (case oid of
        a # b # rest \<Rightarrow> word_of_int (a * 40 + b) # concat (map base128 rest)
      | _ \<Rightarrow> [0])"

fun decodeArcs :: "int \<Rightarrow> bytes \<Rightarrow> oid" where
  "decodeArcs n [] = []"
| "decodeArcs n (c # cs) =
     (let n' = wrap64 (n * 128 + uint (c AND 0x7f)) in
      if c AND 0x80 = 0 then n' # decodeArcs 0 cs else decodeArcs n' cs)"

definition decodeOID :: "bytes \<Rightarrow> oid" where
  "decodeOID b =
     (case b of [] \<Rightarrow> []
      | x # xs \<Rightarrow> [uint x div 40, uint x mod 40] @ decodeArcs 0 xs)"

fun compareOID :: "oid \<Rightarrow> oid \<Rightarrow> int" where
  "compareOID (x # xs) (y # ys) =
     (if x \<noteq> y then (if x < y then - 1 else 1) else compareOID xs ys)"
| "compareOID [] (y # ys) = - 1"
| "compareOID (x # xs) [] = 1"
| "compareOID [] [] = 0"


lemma septet:
  fixes x :: byte assumes "uint x < 128"
  shows "x AND 0x80 = 0" "uint (x AND 0x7f) = uint x"
    "(x OR 0x80) AND 0x80 \<noteq> 0" "uint ((x OR 0x80) AND 0x7f) = uint x"
proof -
  have "take_bit 7 (uint x) = uint x" using assms by (simp add: take_bit_int_eq_self)
  then have t: "take_bit 7 x = x" by (metis unsigned_take_bit_eq word_uint_eqI)
  then have m: "x AND 0x7f = x" by (simp add: take_bit_eq_mask mask_eq_decr_exp)
  have b: "\<not> bit x 7" using t by (metis bit_take_bit_iff less_irrefl)
  then show "x AND 0x80 = 0" using bit7_iff [of x] by blast
  show "uint (x AND 0x7f) = uint x" by (simp add: m)
  show "(x OR 0x80) AND 0x80 \<noteq> 0" by (simp add: bit7_iff bit_or_iff)
  have "(x OR 0x80) AND 0x7f = x AND 0x7f" by (simp add: word_ao_dist)
  then show "uint ((x OR 0x80) AND 0x7f) = uint x" by (simp add: m)
qed

lemma uint_septet: "uint (word_of_int (n mod 128) :: byte) = n mod 128"
  by (simp add: uint_word_of_int_eq take_bit_int_def mod_mod_cancel)

lemma b128_done: "n \<le> 0 \<Longrightarrow> b128 acc n = acc"
  by (subst b128.simps) simp

lemma b128_pos: "n > 0 \<Longrightarrow> b128 acc n = b128 (word_of_int (n mod 128) # acc) (n div 128)"
  by (subst b128.simps) simp

lemma b128_snoc: "b128 acc n = b128 [] n @ acc"
proof (induction "nat n" arbitrary: n acc rule: less_induct)
  case less
  show ?case
  proof (cases "n > 0")
    case True
    then have "nat (n div 128) < nat n" by simp
    note IH = less [OF this]
    show ?thesis
      unfolding b128_pos [OF True]
      unfolding IH [of "word_of_int (n mod 128) # acc"] IH [of "[word_of_int (n mod 128)]"] by simp
  qed (simp add: b128_done)
qed

lemma b128_step: "n > 0 \<Longrightarrow> b128 [] n = b128 [] (n div 128) @ [word_of_int (n mod 128)]"
  using b128_snoc [of "[word_of_int (n mod 128)]" "n div 128"] by (simp add: b128_pos)

lemma decodeArcs_value:
  assumes "0 \<le> n" "n < 2 ^ 63"
  shows "wrap64 (n div 128 * 128 + n mod 128) = n"
  using assms wrap64_id [of n] by simp

lemma decodeArcs_high:
  assumes "0 \<le> n" "n < 2 ^ 63"
  shows "decodeArcs 0 (map (\<lambda>x. x OR 0x80) (b128 [] n) @ ys) = decodeArcs n ys"
  using assms
proof (induction "nat n" arbitrary: n ys rule: less_induct)
  case less
  show ?case
  proof (cases "n > 0")
    case True
    let ?d = "word_of_int (n mod 128) :: byte"
    have d: "uint ?d < 128" "uint ?d = n mod 128" by (simp_all add: uint_septet)
    have "nat (n div 128) < nat n" "0 \<le> n div 128" "n div 128 < 2 ^ 63"
      using True less.prems by (auto intro: le_less_trans [of _ n])
    note IH = less.hyps [OF this]
    show ?thesis
      using septet(3,4) [OF d(1)] decodeArcs_value [OF less.prems]
      by (simp add: b128_step [OF True] IH Let_def d(2))
  next
    case False
    with less.prems have "n = 0" by simp
    then show ?thesis by (simp add: b128_done)
  qed
qed

lemma decodeArcs_base128:
  assumes "0 \<le> n" "n < 2 ^ 63"
  shows "decodeArcs 0 (base128 n @ ys) = n # decodeArcs 0 ys"
proof (cases "n = 0")
  case True
  then show ?thesis by (simp add: base128_def wrap64_def)
next
  case False
  then have pos: "n > 0" using assms by simp
  let ?d = "word_of_int (n mod 128) :: byte"
  have d: "uint ?d < 128" "uint ?d = n mod 128" by (simp_all add: uint_septet)
  have q: "0 \<le> n div 128" "n div 128 < 2 ^ 63" using assms by auto
  have "base128 n = map (\<lambda>x. x OR 0x80) (b128 [] (n div 128)) @ [?d]"
    using False by (cases "b128 [] (n div 128)") (simp_all add: base128_def b128_step [OF pos])
  then show ?thesis
    using septet(1,2) [OF d(1)] decodeArcs_value [OF assms]
    by (simp add: decodeArcs_high [OF q] Let_def d(2))
qed

lemma decodeArcs_concat:
  "\<forall>n\<in>set ns. 0 \<le> n \<and> n < 2 ^ 63 \<Longrightarrow> decodeArcs 0 (concat (map base128 ns)) = ns"
  by (induction ns) (simp_all add: decodeArcs_base128)

text \<open>The OIDs that the wire form can carry: two leading arcs in one octet, arcs that fit an \<^verbatim>\<open>int\<close>.\<close>

fun wf_oid :: "oid \<Rightarrow> bool" where
  "wf_oid (a # b # rest) =
     (0 \<le> a \<and> 0 \<le> b \<and> b < 40 \<and> a * 40 + b < 256 \<and> (\<forall>n\<in>set rest. 0 \<le> n \<and> n < 2 ^ 63))"
| "wf_oid _ = False"

lemma decodeOID_encodeOID: "wf_oid oid \<Longrightarrow> decodeOID (encodeOID oid) = oid"
proof (cases oid rule: wf_oid.cases)
  case (1 a b rest)
  moreover assume "wf_oid oid"
  ultimately have w: "0 \<le> a" "0 \<le> b" "b < 40" "a * 40 + b < 256"
    and r: "\<forall>n\<in>set rest. 0 \<le> n \<and> n < 2 ^ 63" by auto
  have "uint (word_of_int (a * 40 + b) :: byte) = a * 40 + b"
    using w by (simp add: uint_word_of_int_eq take_bit_int_eq_self del: of_int_add of_int_mult)
  then show ?thesis
    using w by (simp add: 1 encodeOID_def decodeOID_def decodeArcs_concat [OF r])
qed simp_all

lemma compareOID_less: "compareOID a b = (if a < b then - 1 else if a = b then 0 else 1)"
  by (induction a b rule: compareOID.induct) auto

lemma compareOID_simps:
  "compareOID a b \<ge> 0 \<longleftrightarrow> b \<le> a" "compareOID a b > 0 \<longleftrightarrow> b < a"
  "compareOID a b = 0 \<longleftrightarrow> a = b" "compareOID a b < 0 \<longleftrightarrow> a < b"
  by (auto simp: compareOID_less)


subsection \<open>Properties\<close>

text \<open>\<^verbatim>\<open>readTLV\<close> never panics, whatever bytes and position it is given; when it reports
  success the position moves forward by at least the two header octets plus the content, stays
  inside the buffer, and the content it returns is the slice of the buffer that ends there.\<close>

theorem readTLV_safe:
  "\<exists>r. readTLV b p = Some r \<and>
     (case r of None \<Rightarrow> True
      | Some (t, c, nx) \<Rightarrow> t = b ! p \<and> p + 2 + length c \<le> nx \<and> nx \<le> length b
          \<and> c = take (length c) (drop (nx - length c) b))"
proof (cases rule: ber.rd_cases [of b p])
  case (Ok t c nx)
  then show ?thesis using readTLV_bounds [OF Ok(1)] by simp
qed simp

text \<open>A TLV written by \<^verbatim>\<open>tlv\<close> anywhere in a buffer is read back by \<^verbatim>\<open>readTLV\<close> at that
  place with the same tag and content, in the short form and in every long form of up to four
  length octets, and the new position is the end of what was written.\<close>

theorem tlv_roundtrip:
  assumes "length c < 2 ^ 32"
  shows "readTLV (pre @ tlv t c @ post) (length pre)
    = Some (Some (t, c, length pre + length (tlv t c)))"
  using assms by (rule ber.rd_enc)

theorem tlv_roundtrip_witness:
  "readTLV ([1, 2] @ tlv 0x04 (replicate 300 7) @ [9]) (length [1 :: byte, 2])
    = Some (Some (0x04, replicate 300 7, length [1 :: byte, 2] + length (tlv 0x04 (replicate 300 7))))"
  by (rule tlv_roundtrip) simp

text \<open>Integer contents round-trip over the whole 64-bit range, signed (\<^verbatim>\<open>intContent\<close>) and
  unsigned (\<^verbatim>\<open>uintContent\<close>), and a signed content is minimal as BER demands: between one and
  eight octets, the first nine bits never all equal.\<close>

theorem integer_roundtrip:
  "decodeInt (intContent v) = v \<and> decodeInt (uintContent v) = v
   \<and> length (intContent v) \<in> {1..8}
   \<and> (case intContent v of
        a # b # _ \<Rightarrow> \<not> (a = 0x00 \<and> b AND 0x80 = 0) \<and> \<not> (a = 0xff \<and> b AND 0x80 \<noteq> 0)
      | _ \<Rightarrow> True)"
proof -
  have "intContent v \<noteq> []"
    using trimInt_head [OF be64_head(1) be64_head(2)] by (simp add: intContent_def)
  then show ?thesis
    using intContent_minimal [of v] length_intContent [of v]
    by (auto simp: decodeInt_intContent decodeInt_uintContent Suc_le_eq
        split: list.split simp del: length_intContent)
qed

text \<open>An object identifier survives encoding and decoding exactly when its two leading arcs
  fit the shared first octet with the second below 40 and the other arcs are non-negative
  \<^verbatim>\<open>int\<close>s.\<close>

theorem oid_roundtrip:
  assumes "wf_oid oid"
  shows "decodeOID (encodeOID oid) = oid"
  using assms by (rule decodeOID_encodeOID)

theorem oid_roundtrip_witness:
  "decodeOID (encodeOID [1, 3, 6, 1, 4, 1, 311, 9223372036854775807])
    = [1, 3, 6, 1, 4, 1, 311, 9223372036854775807]"
  by (rule oid_roundtrip) simp

text \<open>
  The restriction is real: below the arc 2 the second arc may be 40 or more, and the code, which
  always splits the first octet by 40, decodes such an identifier to another one.
\<close>

theorem oid_second_arc_lost: "decodeOID (encodeOID [2, 47, 3]) = [3, 7, 3]"
  by code_simp

end
