(* ===== verification/Usm.thy ===== *)
theory Usm
  imports Crypto_Types
begin

text \<open>
  The User-based Security Model primitives of \<^verbatim>\<open>usm.go\<close>: password-to-key localization, the
  truncated HMAC, the protocol tables, key extension, and the DES-CBC and AES-CFB privacy
  transforms around the primitives of \<open>crypto\<close>.
\<close>

subsection \<open>Keys\<close>

definition expandPassword :: "bytes \<Rightarrow> bytes" where
  "expandPassword pw = map (\<lambda>i. pw ! (i mod length pw)) [0..<1048576]"

definition passwordToKey :: "crypto \<Rightarrow> hash_alg \<Rightarrow> bytes \<Rightarrow> bytes \<Rightarrow> bytes" where
  "passwordToKey cr h password engineID =
     (if password = [] then []
      else let ku = hashSum cr h (expandPassword password)
           in hashSum cr h (ku @ engineID @ ku))"

record auth_proto =
  newHash :: hash_alg
  macLen :: nat

definition localize :: "crypto \<Rightarrow> auth_proto \<Rightarrow> bytes \<Rightarrow> bytes \<Rightarrow> bytes" where
  "localize cr a pass engineID = passwordToKey cr (newHash a) pass engineID"

definition sign :: "crypto \<Rightarrow> auth_proto \<Rightarrow> bytes \<Rightarrow> bytes \<Rightarrow> bytes" where
  "sign cr a localizedKey msg =
     (let sum = hmacSum cr (newHash a) localizedKey msg in
      if length sum > macLen a then take (macLen a) sum else sum)"

definition authProtocol :: "bytes \<Rightarrow> auth_proto option" where
  "authProtocol name =
     (if name = str ''MD5'' then Some \<lparr>newHash = MD5, macLen = 12\<rparr>
      else if name = str ''SHA-1'' \<or> name = str ''SHA'' then Some \<lparr>newHash = SHA1, macLen = 12\<rparr>
      else if name = str ''SHA-256'' then Some \<lparr>newHash = SHA256, macLen = 24\<rparr>
      else if name = str ''SHA-512'' then Some \<lparr>newHash = SHA512, macLen = 48\<rparr>
      else None)"

datatype priv_kind = Des | Aes

record priv_proto =
  kind :: priv_kind
  keyLen :: nat

definition privProtocol :: "bytes \<Rightarrow> priv_proto option" where
  "privProtocol name =
     (if name = str ''DES'' then Some \<lparr>kind = Des, keyLen = 16\<rparr>
      else if name = str ''AES-128'' then Some \<lparr>kind = Aes, keyLen = 16\<rparr>
      else if name = str ''AES-192'' then Some \<lparr>kind = Aes, keyLen = 24\<rparr>
      else if name = str ''AES-256'' then Some \<lparr>kind = Aes, keyLen = 32\<rparr>
      else None)"

text \<open>
  The extension loop appends a digest of what it has until it is long enough. Nothing in the
  loop bounds it, so it is a partial function; \<open>extendKey_returns\<close> shows that with digests of
  the documented lengths it returns.
\<close>

partial_function (option) extendLoop :: "crypto \<Rightarrow> hash_alg \<Rightarrow> nat \<Rightarrow> bytes \<Rightarrow> bytes option" where
  "extendLoop cr h n out =
     (if length out < n then extendLoop cr h n (out @ hashSum cr h out) else Some out)"

definition extendKey :: "crypto \<Rightarrow> bytes \<Rightarrow> nat \<Rightarrow> hash_alg \<Rightarrow> bytes option" where
  "extendKey cr key n h = do { out \<leftarrow> extendLoop cr h n key; Some (take n out) }"

subsection \<open>Privacy\<close>

definition pad8 :: "bytes \<Rightarrow> bytes" where
  "pad8 b = (if length b mod 8 = 0 then b else b @ replicate (8 - length b mod 8) 0)"

definition aesIV :: "u32 \<Rightarrow> u32 \<Rightarrow> bytes \<Rightarrow> bytes" where
  "aesIV boots time salt = be32 boots @ be32 time @ take 8 (salt @ replicate 8 0)"

text \<open>The random salt of \<^verbatim>\<open>rand.Read\<close> is an argument; the error result is \<open>None\<close>.\<close>

definition encrypt :: "crypto \<Rightarrow> priv_proto \<Rightarrow> bytes \<Rightarrow> bytes \<Rightarrow> u32 \<Rightarrow> u32 \<Rightarrow> bytes \<Rightarrow> (bytes \<times> bytes) option" where
  "encrypt cr p salt privKey boots time plain =
     (if length privKey < keyLen p then None
      else case kind p of
        Des \<Rightarrow> let key = take 8 privKey; preIV = take 8 (drop 8 privKey); iv = xorBytes preIV salt
               in Some (desCbcEncrypt cr key iv (pad8 plain), salt)
      | Aes \<Rightarrow> Some (aesCfbEncrypt cr (take (keyLen p) privKey) (aesIV boots time salt) plain, salt))"

definition decrypt :: "crypto \<Rightarrow> priv_proto \<Rightarrow> bytes \<Rightarrow> u32 \<Rightarrow> u32 \<Rightarrow> bytes \<Rightarrow> bytes \<Rightarrow> bytes option" where
  "decrypt cr p privKey boots time salt ct =
     (if length salt \<noteq> 8 then None
      else case kind p of
        Des \<Rightarrow>
          if length privKey < 16 then None
          else if length ct = 0 \<or> length ct mod 8 \<noteq> 0 then None
          else let key = take 8 privKey; preIV = take 8 (drop 8 privKey); iv = xorBytes preIV salt
               in Some (desCbcDecrypt cr key iv ct)
      | Aes \<Rightarrow>
          if length privKey < keyLen p then None
          else Some (aesCfbDecrypt cr (take (keyLen p) privKey) (aesIV boots time salt) ct))"

subsection \<open>Lemmas\<close>

lemma length_pad8: "length (pad8 b) mod 8 = 0" and pad8_prefix: "take (length b) (pad8 b) = b"
  and length_pad8_bound: "length (pad8 b) < length b + 8"
proof -
  have "(length b + (8 - length b mod 8)) mod 8 = 0"
    by presburger
  then show "length (pad8 b) mod 8 = 0" by (simp add: pad8_def)
qed (simp_all add: pad8_def)

lemma hashLen_pos: "0 < hashLen h" by (cases h) simp_all

lemma extendLoop_returns:
  assumes "digest_lengths cr"
  shows "\<exists>out. extendLoop cr h n key = Some out \<and> n \<le> length out \<and> take (length key) out = key"
proof (induction "n - length key" arbitrary: key rule: less_induct)
  case less
  show ?case
  proof (cases "length key < n")
    case True
    let ?key' = "key @ hashSum cr h key"
    have "n - length ?key' < n - length key"
      using True assms hashLen_pos [of h] by (simp add: digest_lengths_def)
    from less [OF this] obtain out where
      "extendLoop cr h n ?key' = Some out" "n \<le> length out" "take (length ?key') out = ?key'" by blast
    moreover have "take (length key) out = take (length key) (take (length ?key') out)"
      by (simp add: min_def)
    ultimately show ?thesis using True by (subst extendLoop.simps) simp
  qed (subst extendLoop.simps, simp)
qed

lemma extendKey_returns:
  assumes "digest_lengths cr"
  obtains k where "extendKey cr key n h = Some k" "length k = n"
    "take (length key) k = take n key"
proof -
  from extendLoop_returns [OF assms, of h n key] obtain out where
    o: "extendLoop cr h n key = Some out" "n \<le> length out" "take (length key) out = key" by blast
  then have "take (length key) (take n out) = take n key"
    by (metis min.commute take_take)
  with o that [of "take n out"] show thesis by (simp add: extendKey_def)
qed

lemma length_sign: "digest_lengths cr \<Longrightarrow> authProtocol name = Some a \<Longrightarrow> length (sign cr a k m) = macLen a"
  by (auto simp: digest_lengths_def authProtocol_def sign_def Let_def split: if_splits)

text \<open>Decryption inverts encryption, up to the DES padding, for any salt of eight octets.\<close>

lemma decrypt_encrypt:
  assumes inv: "\<And>k iv x. aesCfbDecrypt cr k iv (aesCfbEncrypt cr k iv x) = x"
      "\<And>k iv x. length x mod 8 = 0 \<Longrightarrow> desCbcDecrypt cr k iv (desCbcEncrypt cr k iv x) = x"
      "\<And>k iv x. length (desCbcEncrypt cr k iv x) = length x"
    and p: "privProtocol name = Some p" and s: "length salt = 8" "plain \<noteq> []"
    and e: "encrypt cr p salt privKey boots time plain = Some (ct, salt')"
  shows "salt' = salt" and
    "decrypt cr p privKey boots time salt' ct = Some (if kind p = Des then pad8 plain else plain)"
proof -
  let ?iv = "xorBytes (take 8 (drop 8 privKey)) salt"
  have pad: "pad8 plain \<noteq> []" "length (pad8 plain) mod 8 = 0"
    using s length_pad8 [of plain] by (simp_all add: pad8_def)
  from e show salt: "salt' = salt"
    by (auto simp: encrypt_def Let_def split: if_splits priv_kind.splits)
  from e have len: "keyLen p \<le> length privKey" by (auto simp: encrypt_def split: if_splits)
  show "decrypt cr p privKey boots time salt' ct = Some (if kind p = Des then pad8 plain else plain)"
  proof (cases "kind p")
    case Des
    with p have "keyLen p = 16" by (auto simp: privProtocol_def split: if_splits)
    with len have 16: "16 \<le> length privKey" by simp
    from e Des len have ct: "ct = desCbcEncrypt cr (take 8 privKey) ?iv (pad8 plain)"
      by (auto simp: encrypt_def Let_def)
    have l: "length ct = length (pad8 plain)" by (simp only: ct inv(3))
    show ?thesis using Des 16 s pad l by (simp add: decrypt_def Let_def salt) (simp add: ct inv(2))
  next
    case Aes
    with e len s show ?thesis by (auto simp: encrypt_def decrypt_def inv(1) salt)
  qed
qed

end
