(* ===== verification/Snmp_Agent.thy ===== *)
theory Snmp_Agent
  imports Ber Config_Types
begin

text \<open>
  The SNMP agent of \<^verbatim>\<open>snmp.go\<close>: the sorted MIB, the exact and the next lookup by binary
  search, and \<^verbatim>\<open>servePDU\<close>, which answers Get, GetNext and GetBulk. A MIB entry's value
  function is represented by the tag and content it returns when the request is served; the
  only one that is not constant, sysUpTime, takes the tick count \<open>ticks\<close> as an argument of
  \<open>buildMIB\<close>. Logging is left out.
\<close>

subsection \<open>Tags\<close>

abbreviation "berInteger \<equiv> (0x02 :: byte)"
abbreviation "berOctet \<equiv> (0x04 :: byte)"
abbreviation "berNull \<equiv> (0x05 :: byte)"
abbreviation "berOIDTag \<equiv> (0x06 :: byte)"
abbreviation "berSequence \<equiv> (0x30 :: byte)"
abbreviation "berCounter32 \<equiv> (0x41 :: byte)"
abbreviation "berTimeTicks \<equiv> (0x43 :: byte)"
abbreviation "pduGet \<equiv> (0xA0 :: byte)"
abbreviation "pduGetNext \<equiv> (0xA1 :: byte)"
abbreviation "pduResp \<equiv> (0xA2 :: byte)"
abbreviation "pduGetBulk \<equiv> (0xA5 :: byte)"
abbreviation "excNoSuchInstance \<equiv> (0x81 :: byte)"
abbreviation "excEndOfMibView \<equiv> (0x82 :: byte)"

subsection \<open>The MIB\<close>

type_synonym mib_value = "byte \<times> bytes"
type_synonym mib = "(oid \<times> mib_value) list"

definition parseOID :: "bytes \<Rightarrow> oid" where
  "parseOID s = map atoi (filter (\<lambda>part. part \<noteq> []) (split1 0x2e (trimSpace s)))"

definition mibStr :: "bytes \<Rightarrow> mib_value" where
  "mibStr s = (berOctet, s)"

definition mibNum :: "u64 \<Rightarrow> mib_value" where
  "mibNum n = (berInteger, intContent n)"

definition mibCounter :: "u64 \<Rightarrow> mib_value" where
  "mibCounter n = (berCounter32, uintContent n)"

definition mibOID :: "bytes \<Rightarrow> mib_value" where
  "mibOID s = (berOIDTag, encodeOID (parseOID s))"

definition mibEntries :: "printer_conf \<Rightarrow> snmp_conf \<Rightarrow> u64 \<Rightarrow> (string \<times> mib_value) list" where
  "mibEntries p s ticks =
    [(''1.3.6.1.2.1.1.1.0'', mibStr (sysDescr s)),
     (''1.3.6.1.2.1.1.2.0'', mibOID (sysObjectID s)),
     (''1.3.6.1.2.1.1.3.0'', (berTimeTicks, uintContent ticks)),
     (''1.3.6.1.2.1.1.4.0'', mibStr (sysContact s)),
     (''1.3.6.1.2.1.1.5.0'', mibStr (sysName s)),
     (''1.3.6.1.2.1.1.6.0'', mibStr (sysLocation s)),
     (''1.3.6.1.2.1.1.7.0'', mibNum 72),
     (''1.3.6.1.2.1.25.3.2.1.2.1'', mibOID (str ''1.3.6.1.2.1.25.3.1.5'')),
     (''1.3.6.1.2.1.25.3.2.1.3.1'', mibStr (makeAndModel p)),
     (''1.3.6.1.2.1.25.3.2.1.5.1'', mibNum 2),
     (''1.3.6.1.2.1.25.3.5.1.1.1'', mibNum 3),
     (''1.3.6.1.2.1.25.3.5.1.2.1'', (berOctet, [0x00])),
     (''1.3.6.1.2.1.43.5.1.1.16.1'', mibStr (p_name p)),
     (''1.3.6.1.2.1.43.5.1.1.17.1'', mibStr (p_serial p)),
     (''1.3.6.1.2.1.43.10.2.1.4.1.1'', mibCounter (pageCount s)),
     (''1.3.6.1.2.1.43.11.1.1.8.1.1'', mibNum 100),
     (''1.3.6.1.2.1.43.11.1.1.9.1.1'', mibNum (tonerLevelPct s)),
     (''1.3.6.1.2.1.43.16.5.1.2.1.1'', mibStr (str ''Ready''))]"

text \<open>\<^verbatim>\<open>sort.Slice\<close> by OID; the OIDs are distinct, so its instability cannot be observed.\<close>

definition buildMIB :: "printer_conf \<Rightarrow> snmp_conf \<Rightarrow> u64 \<Rightarrow> mib" where
  "buildMIB p s ticks = sort_key fst (map (\<lambda>(o', v). (parseOID (str o'), v)) (mibEntries p s ticks))"

subsection \<open>Lookup\<close>

definition exactEntry :: "mib \<Rightarrow> oid \<Rightarrow> mib_value option" where
  "exactEntry m o' =
     (let i = sortSearch (length m) (\<lambda>i. compareOID (fst (m ! i)) o' \<ge> 0) in
      if i < length m \<and> compareOID (fst (m ! i)) o' = 0 then Some (snd (m ! i)) else None)"

definition nextEntry :: "mib \<Rightarrow> oid \<Rightarrow> (mib_value \<times> oid) option" where
  "nextEntry m o' =
     (let i = sortSearch (length m) (\<lambda>i. compareOID (fst (m ! i)) o' > 0) in
      if i < length m then Some (snd (m ! i), fst (m ! i)) else None)"

subsection \<open>Serving one PDU\<close>

definition encodeRaw :: "oid \<Rightarrow> byte \<Rightarrow> bytes \<Rightarrow> bytes" where
  "encodeRaw o' valTag content =
     tlv berSequence (tlv berOIDTag (encodeOID o') @ tlv valTag content)"

definition encodeVarbind :: "oid \<Rightarrow> mib_value \<Rightarrow> bytes" where
  "encodeVarbind o' v = encodeRaw o' (fst v) (snd v)"

text \<open>The loop that collects the requested OIDs from the varbind list.\<close>

function collectOids :: "bytes \<Rightarrow> nat \<Rightarrow> oid list option" where
  "collectOids vbList pos =
     (if pos < length vbList then do {
        r \<leftarrow> readTLV vbList pos;
        (case r of
           None \<Rightarrow> Some []
         | Some (vbTag, vb, nx) \<Rightarrow>
             if vbTag \<noteq> berSequence then collectOids vbList nx
             else do {
               r2 \<leftarrow> readTLV vb 0;
               rest \<leftarrow> collectOids vbList nx;
               Some (case r2 of
                       Some (nameTag, name, _) \<Rightarrow>
                         if nameTag = berOIDTag then decodeOID name # rest else rest
                     | None \<Rightarrow> rest)
             })
      } else Some [])"
  by pat_completeness auto
termination
  by (relation "measure (\<lambda>(vb, pos). length vb - pos)") (auto dest!: ber.rd_progress)

declare collectOids.simps [simp del]

text \<open>
  The three loops over the requested OIDs. \<open>res\<close> accumulates the encoded varbinds; the
  result carries the error status and the error index.
\<close>

fun serveGet :: "mib \<Rightarrow> int \<Rightarrow> oid list \<Rightarrow> nat \<Rightarrow> oid list \<Rightarrow> bytes list \<Rightarrow> bytes list \<times> nat \<times> nat" where
  "serveGet m version oids i [] res = (res, 0, 0)"
| "serveGet m version oids i (o' # os) res =
     (case exactEntry m o' of
        Some e \<Rightarrow> serveGet m version oids (i + 1) os (res @ [encodeVarbind o' e])
      | None \<Rightarrow>
          if version = 0 then (map (\<lambda>oo. encodeRaw oo berNull []) oids, 2, i + 1)
          else serveGet m version oids (i + 1) os (res @ [encodeRaw o' excNoSuchInstance []]))"

fun serveGetNext :: "mib \<Rightarrow> int \<Rightarrow> nat \<Rightarrow> oid list \<Rightarrow> bytes list \<Rightarrow> bytes list \<times> nat \<times> nat" where
  "serveGetNext m version i [] res = (res, 0, 0)"
| "serveGetNext m version i (o' # os) res =
     (case nextEntry m o' of
        Some (e, no) \<Rightarrow> serveGetNext m version (i + 1) os (res @ [encodeVarbind no e])
      | None \<Rightarrow>
          if version = 0 then (res, 2, i + 1)
          else serveGetNext m version (i + 1) os (res @ [encodeRaw o' excEndOfMibView []]))"

fun bulkRepeat :: "mib \<Rightarrow> oid \<Rightarrow> nat \<Rightarrow> bytes list" where
  "bulkRepeat m cur 0 = []"
| "bulkRepeat m cur (Suc r) =
     (case nextEntry m cur of
        None \<Rightarrow> [encodeRaw cur excEndOfMibView []]
      | Some (e, no) \<Rightarrow> encodeVarbind no e # bulkRepeat m no r)"

fun serveGetBulk :: "mib \<Rightarrow> nat \<Rightarrow> nat \<Rightarrow> nat \<Rightarrow> oid list \<Rightarrow> bytes list" where
  "serveGetBulk m nonRep maxRep i [] = []"
| "serveGetBulk m nonRep maxRep i (o' # os) =
     (if i < nonRep then
        (case nextEntry m o' of
           Some (e, no) \<Rightarrow> encodeVarbind no e
         | None \<Rightarrow> encodeRaw o' excEndOfMibView []) # serveGetBulk m nonRep maxRep (i + 1) os
      else bulkRepeat m o' maxRep @ serveGetBulk m nonRep maxRep (i + 1) os)"

definition assemblePDU :: "bytes \<Rightarrow> bytes list \<times> nat \<times> nat \<Rightarrow> bytes" where
  "assemblePDU reqID r =
     (case r of (results, errStatus, errIndex) \<Rightarrow>
        tlv pduResp (tlv berInteger reqID
          @ tlv berInteger (intContent (of_nat errStatus))
          @ tlv berInteger (intContent (of_nat errIndex))
          @ tlv berSequence (concat results)))"

definition serveOids :: "mib \<Rightarrow> byte \<Rightarrow> int \<Rightarrow> bytes \<Rightarrow> bytes \<Rightarrow> oid list \<Rightarrow> (bytes list \<times> nat \<times> nat) option" where
  "serveOids m pduTag version f2 f3 oids =
     (if pduTag = pduGet then Some (serveGet m version oids 0 oids [])
      else if pduTag = pduGetNext then Some (serveGetNext m version 0 oids [])
      else if pduTag = pduGetBulk then
        (let nonRep = nat (clampInt (sint (decodeInt f2)) 0 256);
             maxRep = nat (clampInt (sint (decodeInt f3)) 0 1024)
         in Some (serveGetBulk m nonRep maxRep 0 oids, 0, 0))
      else None)"

definition servePDU :: "mib \<Rightarrow> byte \<Rightarrow> bytes \<Rightarrow> int \<Rightarrow> bytes option option" where
  "servePDU m pduTag pdu version =
     tlvThen pdu 0 (\<lambda>_ reqID q.
     tlvThen pdu q (\<lambda>_ f2 q2.
     tlvThen pdu q2 (\<lambda>_ f3 q3.
     tlvThen pdu q3 (\<lambda>_ vbList _. do {
       oids \<leftarrow> collectOids vbList 0;
       Some (map_option (assemblePDU reqID) (serveOids m pduTag version f2 f3 oids))
     }))))"

subsection \<open>Lookup over a sorted MIB\<close>

lemma filter_splits_at:
  assumes "splits_at (\<lambda>i. P (xs ! i)) (length xs) r"
  shows "filter P xs = drop r xs"
proof -
  from assms have r: "r \<le> length xs" "\<And>k. k < r \<Longrightarrow> \<not> P (xs ! k)"
    "\<And>k. r \<le> k \<Longrightarrow> k < length xs \<Longrightarrow> P (xs ! k)"
    by (auto simp: splits_at_def)
  have "filter P (take r xs) = []"
    using r(1,2) by (auto simp: filter_empty_conv in_set_conv_nth)
  moreover have "filter P (drop r xs) = drop r xs"
    using r(1,3) by (auto simp: filter_id_conv in_set_conv_nth)
  ultimately show ?thesis by (metis append_take_drop_id filter_append append_Nil)
qed

text \<open>
  The interface between the MIB and the PDU server: a list of entries in strictly ascending
  OID order. The lookups are then exactly a map lookup and the least greater entry.
\<close>

locale sorted_mib =
  fixes m :: mib
  assumes ascending: "sorted_wrt (<) (map fst m)"
begin

lemma distinct_keys: "distinct (map fst m)"
  using ascending by (simp add: strict_sorted_iff)

lemma nth_mono: "i \<le> j \<Longrightarrow> j < length m \<Longrightarrow> fst (m ! i) \<le> fst (m ! j)"
  using ascending by (cases "i = j") (auto simp: sorted_wrt_iff_nth_less less_imp_le)

lemma next_filter: "nextEntry m o' =
    (case filter (\<lambda>e. o' < fst e) m of [] \<Rightarrow> None | e # _ \<Rightarrow> Some (snd e, fst e))"
proof -
  let ?r = "sortSearch (length m) (\<lambda>i. compareOID (fst (m ! i)) o' > 0)"
  have "splits_at (\<lambda>i. compareOID (fst (m ! i)) o' > 0) (length m) ?r"
    by (rule sortSearch_spec) (use nth_mono in \<open>fastforce simp: compareOID_simps\<close>)
  then have "splits_at (\<lambda>i. (\<lambda>e. o' < fst e) (m ! i)) (length m) ?r"
    by (simp add: compareOID_simps)
  from filter_splits_at [OF this] show ?thesis
    by (auto simp: nextEntry_def Let_def Cons_nth_drop_Suc [symmetric] split: list.split)
qed

lemma exact_map_of: "exactEntry m o' = map_of m o'"
proof -
  let ?r = "sortSearch (length m) (\<lambda>i. compareOID (fst (m ! i)) o' \<ge> 0)"
  have "splits_at (\<lambda>i. compareOID (fst (m ! i)) o' \<ge> 0) (length m) ?r"
    by (rule sortSearch_spec) (use nth_mono in \<open>fastforce simp: compareOID_simps\<close>)
  then have r: "?r \<le> length m" "\<And>k. k < ?r \<Longrightarrow> fst (m ! k) < o'"
    "\<And>k. ?r \<le> k \<Longrightarrow> k < length m \<Longrightarrow> o' \<le> fst (m ! k)"
    by (auto simp: splits_at_def compareOID_simps not_le)
  show ?thesis
  proof (cases "?r < length m \<and> fst (m ! ?r) = o'")
    case True
    then have "(o', snd (m ! ?r)) \<in> set m" by (metis nth_mem prod.collapse)
    with distinct_keys have "map_of m o' = Some (snd (m ! ?r))" by simp
    with True show ?thesis by (simp add: exactEntry_def Let_def compareOID_simps)
  next
    case False
    have "fst (m ! k) \<noteq> o'" if k: "k < length m" for k
    proof (cases "?r \<le> k")
      case True
      with False r(3) [of ?r] k have "o' < fst (m ! ?r)" by fastforce
      with nth_mono [OF True k] show ?thesis by simp
    next
      case False
      with r(2) [of k] show ?thesis by (metis not_le order_less_irrefl)
    qed
    then have "o' \<notin> fst ` set m" by (auto simp: in_set_conv_nth) (metis fst_conv)
    then have "map_of m o' = None" by (simp add: map_of_eq_None_iff)
    with False show ?thesis by (auto simp: exactEntry_def Let_def compareOID_simps)
  qed
qed

lemma next_None_iff: "nextEntry m o' = None \<longleftrightarrow> (\<forall>e\<in>set m. fst e \<le> o')"
proof -
  have "nextEntry m o' = None \<longleftrightarrow> filter (\<lambda>e. o' < fst e) m = []"
    by (simp add: next_filter split: list.split)
  then show ?thesis by (simp add: filter_empty_conv not_less)
qed

lemma later_entries:
  assumes "filter (\<lambda>x. o' < fst x) m = e # es"
  shows "filter (\<lambda>x. fst e < fst x) m = es" and "o' < fst e"
proof -
  from assms show o: "o' < fst e" by (metis (mono_tags, lifting) list.set_intros(1) mem_Collect_eq set_filter)
  have "filter (\<lambda>x. fst e < fst x) m = filter (\<lambda>x. fst e < fst x) (filter (\<lambda>x. o' < fst x) m)"
    using o by (auto intro: filter_cong)
  moreover have "sorted_wrt (<) (map fst (e # es))"
    using ascending sorted_wrt_filter [of "\<lambda>x y. fst x < fst y" m "\<lambda>x. o' < fst x"]
    by (simp add: assms sorted_wrt_map)
  ultimately show "filter (\<lambda>x. fst e < fst x) m = es"
    by (simp add: assms filter_id_conv)
qed

lemma next_least:
  assumes "nextEntry m o' = Some (v, n)"
  shows "(n, v) \<in> set m" and "o' < n" and "\<And>k w. (k, w) \<in> set m \<Longrightarrow> o' < k \<Longrightarrow> n \<le> k"
proof -
  from assms obtain es where es: "filter (\<lambda>e. o' < fst e) m = (n, v) # es"
    by (auto simp: next_filter split: list.splits)
  then show "(n, v) \<in> set m" by (metis filter_is_subset list.set_intros(1) subsetD)
  show "o' < n" using later_entries(2) [OF es] by simp
  fix k w assume kw: "(k, w) \<in> set m" "o' < k"
  then have "(k, w) \<in> set ((n, v) # es)" unfolding es [symmetric] by simp
  then have "k = n \<or> (k, w) \<in> set (filter (\<lambda>x. n < fst x) m)"
    using later_entries(1) [OF es] by auto
  then show "n \<le> k" by auto
qed

text \<open>A GetBulk repetition lists the entries after \<open>o'\<close> in order, then one end-of-view mark.\<close>

lemma bulkRepeat_entries:
  "bulkRepeat m o' r =
    (let es = filter (\<lambda>e. o' < fst e) m in
     map (\<lambda>e. encodeVarbind (fst e) (snd e)) (take r es)
       @ (if length es < r then [encodeRaw (last (o' # map fst es)) excEndOfMibView []] else []))"
proof (induction r arbitrary: o')
  case (Suc r)
  show ?case
  proof (cases "filter (\<lambda>e. o' < fst e) m")
    case Nil
    then show ?thesis by (simp add: next_filter)
  next
    case (Cons e es)
    have "bulkRepeat m (fst e) r =
      map (\<lambda>e. encodeVarbind (fst e) (snd e)) (take r es)
       @ (if length es < r then [encodeRaw (last (fst e # map fst es)) excEndOfMibView []] else [])"
      unfolding Suc later_entries(1) [OF Cons] by simp
    with Cons show ?thesis by (simp add: next_filter)
  qed
qed simp

lemma bulkRepeat_bounded: "length (bulkRepeat m o' r) \<le> min r (length m + 1)"
proof -
  have "length (bulkRepeat m o' r) \<le> min r (length (filter (\<lambda>e. o' < fst e) m) + 1)"
    by (simp add: bulkRepeat_entries Let_def)
  then show ?thesis using length_filter_le [of "\<lambda>e. o' < fst e" m] by linarith
qed

lemma serveGetBulk_bounded:
  "0 < maxRep \<Longrightarrow> length (serveGetBulk m nonRep maxRep i os) \<le> length os * min maxRep (length m + 1)"
proof (induction os arbitrary: i)
  case (Cons o' os)
  show ?case
    using Cons.IH [OF Cons.prems, of "i + 1"] bulkRepeat_bounded [of o' maxRep] Cons.prems
    by (auto simp: algebra_simps)
qed simp

end

lemma mib_keys: "map fst (map (\<lambda>(o', v). (parseOID (str o'), v)) (mibEntries p s ticks)) =
   map (\<lambda>e. parseOID (str (fst e))) (mibEntries p s ticks)"
  by (simp add: case_prod_beta comp_def)


lemma mib_keys_value: "map (\<lambda>e. parseOID (str (fst e))) (mibEntries p s ticks) =
   [[1,3,6,1,2,1,1,1,0], [1,3,6,1,2,1,1,2,0], [1,3,6,1,2,1,1,3,0], [1,3,6,1,2,1,1,4,0],
    [1,3,6,1,2,1,1,5,0], [1,3,6,1,2,1,1,6,0], [1,3,6,1,2,1,1,7,0],
    [1,3,6,1,2,1,25,3,2,1,2,1], [1,3,6,1,2,1,25,3,2,1,3,1], [1,3,6,1,2,1,25,3,2,1,5,1],
    [1,3,6,1,2,1,25,3,5,1,1,1], [1,3,6,1,2,1,25,3,5,1,2,1],
    [1,3,6,1,2,1,43,5,1,1,16,1], [1,3,6,1,2,1,43,5,1,1,17,1], [1,3,6,1,2,1,43,10,2,1,4,1,1],
    [1,3,6,1,2,1,43,11,1,1,8,1,1], [1,3,6,1,2,1,43,11,1,1,9,1,1], [1,3,6,1,2,1,43,16,5,1,2,1,1]]"
  unfolding mibEntries_def list.map fst_conv by code_simp


lemma buildMIB_ascending: "sorted_wrt (<) (map fst (buildMIB p s ticks))"
proof -
  let ?es = "map (\<lambda>(o', v). (parseOID (str o'), v)) (mibEntries p s ticks)"
  have "distinct (map fst ?es)"
    unfolding mib_keys mib_keys_value by simp
  then have "distinct (map fst (sort_key fst ?es))"
    by (simp only: distinct_map set_sort distinct_sort)
  moreover have "sorted (map fst (sort_key fst ?es))" by (rule sorted_sort_key)
  ultimately show ?thesis by (simp add: buildMIB_def strict_sorted_iff)
qed

interpretation agent: sorted_mib "buildMIB p s ticks" for p s ticks
  by unfold_locales (rule buildMIB_ascending)

lemma set_buildMIB: "set (buildMIB p s ticks) =
    (\<lambda>(o', v). (parseOID (str o'), v)) ` set (mibEntries p s ticks)"
  by (simp add: buildMIB_def)

lemma length_buildMIB [simp]: "length (buildMIB p s ticks) = 18"
  by (simp add: buildMIB_def mibEntries_def)

subsection \<open>Serving a request\<close>

lemma collectOids_returns [no_panic]: "collectOids vb pos \<noteq> None"
proof (induction vb pos rule: collectOids.induct)
  case (1 vb pos)
  show ?case
  proof (cases "pos < length vb")
    case True
    show ?thesis
    proof (cases rule: ber.rd_cases [of vb pos])
      case Fail
      with True show ?thesis by (subst collectOids.simps) simp
    next
      case (Ok t c nx)
      obtain r2 where r2: "readTLV c 0 = Some r2" using ber.rd_returns by blast
      have IH: "collectOids vb nx \<noteq> None"
        using "1.IH"(1) [OF True Ok(1) refl refl refl] "1.IH"(2) [OF True Ok(1) refl refl refl _ r2] by blast
      with True Ok r2 IH show ?thesis by (subst collectOids.simps) auto
    qed
  qed (simp add: collectOids.simps)
qed

lemma servePDU_returns [no_panic]: "servePDU m pduTag pdu version \<noteq> None"
  unfolding servePDU_def by (intro no_panic)

text \<open>A request as a manager builds it: a varbind list of OIDs with null values.\<close>

definition requestPDU :: "bytes \<Rightarrow> bytes \<Rightarrow> bytes \<Rightarrow> oid list \<Rightarrow> bytes" where
  "requestPDU reqID f2 f3 oids =
     tlv berInteger reqID @ tlv berInteger f2 @ tlv berInteger f3
       @ tlv berSequence (concat (map (\<lambda>o'. encodeRaw o' berNull []) oids))"

lemma collectOids_varbinds:
  assumes "\<forall>o'\<in>set oids. wf_oid o' \<and> length (encodeOID o') < 2 ^ 16"
  shows "collectOids (pre @ concat (map (\<lambda>o'. encodeRaw o' berNull []) oids)) (length pre) = Some oids"
  using assms
proof (induction oids arbitrary: pre)
  case Nil
  then show ?case by (simp add: collectOids.simps)
next
  case (Cons o' os)
  let ?v = "tlv berOIDTag (encodeOID o') @ tlv berNull []"
  let ?rest = "concat (map (\<lambda>o'. encodeRaw o' berNull []) os)"
  have len: "length (encodeOID o') < 2 ^ 32" "length ?v < 2 ^ 32"
    using Cons.prems length_tlv [of "encodeOID o'" berOIDTag] length_tlv [of "[]" berNull] by auto
  have r: "readTLV (pre @ tlv berSequence ?v @ ?rest) (length pre)
      = Some (Some (berSequence, ?v, length pre + length (tlv berSequence ?v)))"
    by (rule ber.rd_enc [OF len(2)])
  have IH: "collectOids (pre @ tlv berSequence ?v @ ?rest) (length pre + length (tlv berSequence ?v)) = Some os"
    using Cons.IH [of "pre @ tlv berSequence ?v"] Cons.prems by simp
  have name: "readTLV ?v 0 = Some (Some (berOIDTag, encodeOID o', length (tlv berOIDTag (encodeOID o'))))"
    by (rule ber.rd_enc0 [OF len(1)])
  have "decodeOID (encodeOID o') = o'" using Cons.prems by (simp add: decodeOID_encodeOID)
  then show ?case
    unfolding list.map concat.simps encodeRaw_def [of o']
    by (subst collectOids.simps) (simp add: r IH name del: append_assoc)
qed

lemma servePDU_request:
  assumes "\<forall>o'\<in>set oids. wf_oid o' \<and> length (encodeOID o') < 2 ^ 16"
    and "length reqID < 2 ^ 16" "length f2 < 2 ^ 16" "length f3 < 2 ^ 16"
    and "length (concat (map (\<lambda>o'. encodeRaw o' berNull []) oids)) < 2 ^ 32"
  shows "servePDU m pduTag (requestPDU reqID f2 f3 oids) version
    = Some (map_option (assemblePDU reqID) (serveOids m pduTag version f2 f3 oids))"
proof -
  let ?b = "requestPDU reqID f2 f3 oids"
  have len: "length reqID < 2 ^ 32" "length f2 < 2 ^ 32" "length f3 < 2 ^ 32"
    using assms by simp_all
  have d0: "drop 0 ?b = tlv berInteger reqID @ tlv berInteger f2 @ tlv berInteger f3
      @ tlv berSequence (concat (map (\<lambda>o'. encodeRaw o' berNull []) oids)) @ []"
    by (simp add: requestPDU_def)
  note s1 = tlvThen_drop [OF d0 len(1)]
  note s2 = tlvThen_drop [OF s1(2) len(2)]
  note s3 = tlvThen_drop [OF s2(2) len(3)]
  note s4 = tlvThen_drop [OF s3(2) assms(5)]
  have oids: "collectOids (concat (map (\<lambda>o'. encodeRaw o' berNull []) oids)) 0 = Some oids"
    using collectOids_varbinds [OF assms(1), of "[]"] by simp
  show ?thesis
    unfolding servePDU_def s1(1) s2(1) s3(1) s4(1) by (simp add: oids)
qed


lemma serveGet_v2: "version \<noteq> 0 \<Longrightarrow> serveGet m version oids i os res =
    (res @ map (\<lambda>o'. case exactEntry m o' of Some e \<Rightarrow> encodeVarbind o' e
       | None \<Rightarrow> encodeRaw o' excNoSuchInstance []) os, 0, 0)"
  by (induction os arbitrary: i res) (auto split: option.split)

lemma serveGet_v1: "serveGet m 0 oids i os res =
    (let known = takeWhile (\<lambda>o'. exactEntry m o' \<noteq> None) os in
     if length known < length os then (map (\<lambda>oo. encodeRaw oo berNull []) oids, 2, i + length known + 1)
     else (res @ map (\<lambda>o'. encodeVarbind o' (the (exactEntry m o'))) os, 0, 0))"
  by (induction os arbitrary: i res) (auto simp: Let_def split: option.split)

lemma serveGetNext_v1: "serveGetNext m 0 i os res =
    (let good = takeWhile (\<lambda>o'. nextEntry m o' \<noteq> None) os;
         vbs = map (\<lambda>o'. case the (nextEntry m o') of (e, no) \<Rightarrow> encodeVarbind no e) good in
     if length good < length os then (res @ vbs, 2, i + length good + 1) else (res @ vbs, 0, 0))"
  by (induction os arbitrary: i res) (auto simp: Let_def split: option.split)

subsection \<open>Properties\<close>

text \<open>C23: The GetNext lookup on the agent's MIB returns the entry with the least OID strictly
  greater than the requested one, and nothing exactly when no entry is greater: the binary
  search implements the lexicographic successor, which is what an SNMP walk relies on.\<close>

theorem getnext_is_least_successor:
  "case nextEntry (buildMIB p s ticks) o' of
     Some (v, n) \<Rightarrow> (n, v) \<in> set (buildMIB p s ticks) \<and> o' < n
       \<and> \<not> (\<exists>k\<in>fst ` set (buildMIB p s ticks). o' < k \<and> k < n)
   | None \<Rightarrow> \<not> (\<exists>k\<in>fst ` set (buildMIB p s ticks). o' < k)"
proof (cases "nextEntry (buildMIB p s ticks) o'")
  case None
  moreover from None have "\<forall>e\<in>set (buildMIB p s ticks). fst e \<le> o'"
    by (simp only: agent.next_None_iff)
  ultimately show ?thesis by (auto simp: not_less)
next
  case (Some r)
  obtain v n where r: "r = (v, n)" by (cases r)
  show ?thesis
    using agent.next_least [OF Some [unfolded r]] Some
    by (fastforce simp: r not_less)
qed

text \<open>One GetBulk repetition over the agent's MIB lists, in ascending order and without a gap
  or a repeat, the first \<open>r\<close> entries after the start OID, then one end-of-MIB-view varbind if
  the MIB is exhausted: walking from the empty OID returns every entry.\<close>

theorem getbulk_walks_mib:
  "bulkRepeat (buildMIB p s ticks) o' r =
     (let later = filter (\<lambda>e. o' < fst e) (buildMIB p s ticks) in
      map (\<lambda>e. encodeVarbind (fst e) (snd e)) (take r later)
        @ (if length later < r
           then [encodeRaw (last (o' # map fst later)) excEndOfMibView []] else []))"
  by (rule agent.bulkRepeat_entries)

text \<open>C25: Whatever repetition counts a GetBulk request claims, the response holds at most
  19 varbinds (the 18 entries and one end mark) per requested OID.\<close>

theorem getbulk_response_bounded:
  assumes "serveOids (buildMIB p s ticks) pduGetBulk version f2 f3 oids = Some (vbs, es, ei)"
  shows "length vbs \<le> 19 * length oids \<and> es = 0 \<and> ei = 0"
proof -
  let ?mr = "nat (clampInt (sint (decodeInt f3)) 0 1024)"
  have vbs: "vbs = serveGetBulk (buildMIB p s ticks) (nat (clampInt (sint (decodeInt f2)) 0 256)) ?mr 0 oids"
    and e: "es = 0" "ei = 0"
    using assms by (auto simp: serveOids_def Let_def)
  have "length (serveGetBulk m nr mr i os) \<le> 19 * length os"
    if "\<And>o'. length (bulkRepeat m o' mr) \<le> 19" for m nr mr i os
  proof (induction os arbitrary: i)
    case (Cons o' os)
    show ?case using Cons [of "i + 1"] that [of o'] by auto
  qed simp
  moreover have "length (bulkRepeat (buildMIB p s ticks) o' ?mr) \<le> 19" for o'
    using agent.bulkRepeat_bounded [of p s ticks o' ?mr] by simp
  ultimately show ?thesis using vbs e by simp
qed

definition demoPrinter :: printer_conf where
  "demoPrinter = \<lparr>p_name = str ''PR'', p_info = [], makeAndModel = str ''X'', p_location = [],
     p_serial = str ''1'', documentFormats = [], defaultFormat = [], enforceFormats = False,
     p_color = False, p_sides = [], p_resolutions = [], p_media = []\<rparr>"

definition demoSnmp :: snmp_conf where
  "demoSnmp = \<lparr>community = str ''public'', sysDescr = str ''d'', sysName = str ''n'',
     sysLocation = [], sysContact = [], sysObjectID = str ''1.3.6'', pageCount = 5,
     tonerLevelPct = 80, v3Enabled = False, allowV1V2c = True, snmpUsers = []\<rparr>"

theorem getbulk_response_bounded_witness:
  "length (serveGetBulk (buildMIB demoPrinter demoSnmp 0) 0 1024 0 [[1], [1]]) \<le> 38"
  using getbulk_response_bounded [of demoPrinter demoSnmp 0 1 "[0]" "[0x7f, 0xff]" "[[1], [1]]"
      "serveGetBulk (buildMIB demoPrinter demoSnmp 0) 0 1024 0 [[1], [1]]" 0 0]
  by (simp add: serveOids_def decodeInt_def clampInt_def)

text \<open>C24: A v2c Get request is answered with one varbind per requested OID, in request order: the
  entry's current value, or noSuchInstance for an OID the MIB does not hold; the response echoes
  the request identifier and reports no error.\<close>

theorem v2c_get_answered:
  assumes "\<forall>o'\<in>set oids. wf_oid o' \<and> length (encodeOID o') < 2 ^ 16"
    and "length reqID < 2 ^ 16" "length f2 < 2 ^ 16" "length f3 < 2 ^ 16"
    and "length (concat (map (\<lambda>o'. encodeRaw o' berNull []) oids)) < 2 ^ 32"
  shows "servePDU (buildMIB p s ticks) pduGet (requestPDU reqID f2 f3 oids) 1
    = Some (Some (assemblePDU reqID
        (map (\<lambda>o'. case map_of (buildMIB p s ticks) o' of
                Some e \<Rightarrow> encodeVarbind o' e
              | None \<Rightarrow> encodeRaw o' excNoSuchInstance []) oids, 0, 0)))"
  by (simp add: servePDU_request [OF assms] serveOids_def serveGet_v2 agent.exact_map_of)

theorem v2c_get_answered_witness:
  "servePDU (buildMIB demoPrinter demoSnmp 0) pduGet
     (requestPDU [7] [0] [0] [[1, 3, 6, 1, 2, 1, 1, 7, 0], [1, 3, 9]]) 1
   = Some (Some (assemblePDU [7]
        (map (\<lambda>o'. case map_of (buildMIB demoPrinter demoSnmp 0) o' of
                Some e \<Rightarrow> encodeVarbind o' e
              | None \<Rightarrow> encodeRaw o' excNoSuchInstance []) [[1, 3, 6, 1, 2, 1, 1, 7, 0], [1, 3, 9]], 0, 0)))"
proof -
  have "encodeOID [1, 3, 6, 1, 2, 1, 1, 7, 0] = [43, 6, 1, 2, 1, 1, 7, 0]" "encodeOID [1, 3, 9] = [43, 9]"
    by code_simp+
  then show ?thesis
    by (intro v2c_get_answered) (simp_all add: encodeRaw_def tlv_def berLen_def)
qed

text \<open>The two v1 error responses differ. When some requested OID fails, Get answers with one null
  varbind per requested OID, and the index names the first OID that failed; GetNext puts only the
  varbinds before the failing one into the response, so it is shorter than the request.\<close>

theorem v1_error_responses:
  "serveGet m 0 oids 0 oids [] =
     (let k = length (takeWhile (\<lambda>o'. exactEntry m o' \<noteq> None) oids) in
      if k < length oids then (map (\<lambda>oo. encodeRaw oo berNull []) oids, 2, k + 1)
      else (map (\<lambda>o'. encodeVarbind o' (the (exactEntry m o'))) oids, 0, 0))
   \<and> (let k = length (takeWhile (\<lambda>o'. nextEntry m o' \<noteq> None) oids) in
      case serveGetNext m 0 0 oids [] of (vbs, es, ei) \<Rightarrow>
        length vbs = k \<and> (es, ei) = (if k < length oids then (2, k + 1) else (0, 0)))"
  by (auto simp: serveGet_v1 serveGetNext_v1 Let_def)

end
