(* ===== verification/Snmp_V3.thy ===== *)
theory Snmp_V3
  imports Snmp_Agent Usm
begin

text \<open>
  SNMPv3 (\<^verbatim>\<open>snmpv3.go\<close>) and the message dispatch of \<^verbatim>\<open>handleSNMP\<close> in \<^verbatim>\<open>snmp.go\<close>: the wire form of a v3
  message, the USM receive pipeline, and the assembly of reports and responses. The state a
  request is served against (configuration, MIB, engine identifier, clock, random salt) is the
  record \<open>snmp_env\<close>. A result of type \<open>bytes option option\<close> is \<open>None\<close> for a panic,
  \<open>Some None\<close> for silence and \<open>Some (Some b)\<close> for the datagram \<open>b\<close>.
\<close>

subsection \<open>The engine identifier\<close>

text \<open>The one random octet is the argument \<open>r\<close>; the default host name is resolved elsewhere.\<close>

definition generateEngineID :: "crypto \<Rightarrow> byte \<Rightarrow> bytes \<Rightarrow> bytes" where
  "generateEngineID cr r host =
     [0x80, 0x00, 0x0C, 0x5A, 0x05] @ take 11 (hashSum cr SHA1 host) @ [r]"

subsection \<open>Messages\<close>

text \<open>
  \<open>authPos\<close> is the offset of the authentication parameters inside the whole message. The code
  recovers it from slice capacities (\<^verbatim>\<open>cap(full) - cap(ap)\<close>), which for a subslice is the offset of
  its first byte; the model carries the number along.
\<close>

record v3_message =
  msgID :: u32
  maxSize :: u32
  msgFlags :: byte
  engineID :: bytes
  boots :: u32
  msgTime :: u32
  userName :: bytes
  authParams :: bytes
  privParams :: bytes
  payload :: bytes
  encrypted :: bool
  authPos :: nat

text \<open>\<^verbatim>\<open>int64(x)\<close> of a \<^verbatim>\<open>uint32\<close>.\<close>

abbreviation int64_of_u32 :: "u32 \<Rightarrow> u64" where "int64_of_u32 x \<equiv> ucast x"

definition buildGlobal :: "v3_message \<Rightarrow> bytes" where
  "buildGlobal m =
     tlv berInteger (intContent (int64_of_u32 (msgID m)))
     @ tlv berInteger (intContent (int64_of_u32 (maxSize m)))
     @ tlv berOctet [msgFlags m]
     @ tlv berInteger (intContent 3)"

definition buildUSM :: "v3_message \<Rightarrow> bytes" where
  "buildUSM m =
     tlv berOctet (engineID m)
     @ tlv berInteger (intContent (int64_of_u32 (boots m)))
     @ tlv berInteger (intContent (int64_of_u32 (msgTime m)))
     @ tlv berOctet (userName m)
     @ tlv berOctet (authParams m)
     @ tlv berOctet (privParams m)"

definition buildV3Message :: "v3_message \<Rightarrow> bytes" where
  "buildV3Message m =
     tlv berSequence
       (tlv berInteger (intContent 3)
        @ tlv berSequence (buildGlobal m)
        @ tlv berOctet (tlv berSequence (buildUSM m))
        @ (if encrypted m then tlv berOctet (payload m) else payload m))"

text \<open>The position of a content of length \<open>n\<close> that ends at \<open>nx\<close>.\<close>

abbreviation contentPos :: "nat \<Rightarrow> bytes \<Rightarrow> nat" where
  "contentPos nx c \<equiv> nx - length c"

definition parseGlobal :: "bytes \<Rightarrow> (u32 \<times> u32 \<times> byte) option option" where
  "parseGlobal g =
     tlvThen g 0 (\<lambda>_ mid p.
     tlvThen g p (\<lambda>_ mx p2.
     tlvThen g p2 (\<lambda>_ flags p3.
     if length flags < 1 then Some None else
     tlvThen g p3 (\<lambda>_ _ _.
       Some (Some (ucast (decodeInt mid), ucast (decodeInt mx), flags ! 0))))))"

definition parseUSM :: "bytes \<Rightarrow> nat \<Rightarrow> v3_message option option" where
  "parseUSM secOct secPos =
     tlvThen secOct 0 (\<lambda>_ sq sqEnd.
     tlvThen sq 0 (\<lambda>_ eng p.
     tlvThen sq p (\<lambda>_ bts p2.
     tlvThen sq p2 (\<lambda>_ tm p3.
     tlvThen sq p3 (\<lambda>_ user p4.
     tlvThen sq p4 (\<lambda>_ ap p5.
     tlvThen sq p5 (\<lambda>_ pp _.
       Some (Some \<lparr>msgID = 0, maxSize = 0, msgFlags = 0, engineID = eng,
         boots = ucast (decodeInt bts), msgTime = ucast (decodeInt tm), userName = user,
         authParams = ap, privParams = pp, payload = [], encrypted = False,
         authPos = secPos + contentPos sqEnd sq + contentPos p5 ap\<rparr>))))))))"

definition parseV3Message :: "bytes \<Rightarrow> v3_message option option" where
  "parseV3Message b =
     tlvThen b 0 (\<lambda>_ msg msgEnd.
     tlvThen msg 0 (\<lambda>_ _ p.
     tlvThen msg p (\<lambda>_ global p2. do {
       rg \<leftarrow> parseGlobal global;
       (case rg of None \<Rightarrow> Some None | Some (mid, mx, flags) \<Rightarrow>
         tlvThen msg p2 (\<lambda>_ secOct p3. do {
           ru \<leftarrow> parseUSM secOct (contentPos msgEnd msg + contentPos p3 secOct);
           (case ru of None \<Rightarrow> Some None | Some m \<Rightarrow>
             tlvThen msg p3 (\<lambda>tag data _.
               let m' = m\<lparr>msgID := mid, maxSize := mx, msgFlags := flags\<rparr> in
               Some (Some (if tag = berOctet then m'\<lparr>encrypted := True, payload := data\<rparr>
                           else m'\<lparr>payload := tlv tag data\<rparr>))))
         }))
     })))"

subsection \<open>Authentication and access\<close>

record snmp_env =
  cfgSNMP :: snmp_conf
  envMIB :: mib
  snmpEngineID :: bytes
  snmpEngineTime :: u32
  randSalt :: bytes

abbreviation snmpEngineBoots :: u32 where "snmpEngineBoots \<equiv> 1"

definition oidUnsupportedSecLevels :: oid where "oidUnsupportedSecLevels = [1,3,6,1,6,3,15,1,1,1,0]"
definition oidNotInTimeWindows :: oid where "oidNotInTimeWindows = [1,3,6,1,6,3,15,1,1,2,0]"
definition oidUnknownUserNames :: oid where "oidUnknownUserNames = [1,3,6,1,6,3,15,1,1,3,0]"
definition oidUnknownEngineIDs :: oid where "oidUnknownEngineIDs = [1,3,6,1,6,3,15,1,1,4,0]"
definition oidWrongDigests :: oid where "oidWrongDigests = [1,3,6,1,6,3,15,1,1,5,0]"

definition lookupUser :: "snmp_conf \<Rightarrow> bytes \<Rightarrow> snmp_user option" where
  "lookupUser c name = find (\<lambda>u. u_name u = name) (snmpUsers c)"

definition levelAllowed :: "snmp_user \<Rightarrow> bool \<Rightarrow> bool \<Rightarrow> bool" where
  "levelAllowed u wantAuth wantPriv =
     (let (okAuth, okPriv) =
        (if u_level u = str ''authPriv'' then (True, True)
         else if u_level u = str ''authNoPriv'' then (True, False)
         else (False, False))
      in \<not> (wantAuth \<and> \<not> okAuth) \<and> \<not> (wantPriv \<and> \<not> okPriv))"

text \<open>
  \<^verbatim>\<open>privKeyFor\<close> ignores the \<open>ok\<close> results. With an unknown authentication protocol the hash
  constructor is nil and calling it panics; an unknown privacy protocol has key length 0.
\<close>

definition privKeyFor :: "crypto \<Rightarrow> snmp_user \<Rightarrow> bytes \<Rightarrow> bytes option" where
  "privKeyFor cr u eng =
     (let n = (case privProtocol (privProtocolName u) of None \<Rightarrow> 0 | Some pp \<Rightarrow> keyLen pp) in
      case authProtocol (authProtocolName u) of
        None \<Rightarrow> if privPass u = [] \<and> n = 0 then Some [] else None
      | Some ap \<Rightarrow> extendKey cr (localize cr ap (privPass u) eng) n (newHash ap))"

definition inTimeWindow :: "u32 \<Rightarrow> u32 \<Rightarrow> u32 \<Rightarrow> bool" where
  "inTimeWindow now bts t =
     (if bts \<noteq> snmpEngineBoots then False
      else (let d = uint t - uint now; d' = (if d < 0 then - d else d) in d' \<le> 150))"

definition zeroAuthParams :: "bytes \<Rightarrow> bytes \<Rightarrow> nat \<Rightarrow> bytes" where
  "zeroAuthParams full ap pos =
     (if pos + length ap > length full then full else put full pos (replicate (length ap) 0))"

definition verifyAuth :: "crypto \<Rightarrow> auth_proto \<Rightarrow> bytes \<Rightarrow> bytes \<Rightarrow> bytes \<Rightarrow> nat \<Rightarrow> bool" where
  "verifyAuth cr a key full gotParams pos =
     (if length gotParams \<noteq> macLen a then False
      else sign cr a key (zeroAuthParams full gotParams pos) = gotParams)"

subsection \<open>Reports and responses\<close>

definition buildReport :: "snmp_env \<Rightarrow> v3_message \<Rightarrow> oid \<Rightarrow> bytes" where
  "buildReport e m o' =
     (let varbind = encodeRaw o' berCounter32 (uintContent 1);
          pduBody = tlv berInteger (intContent 0) @ tlv berInteger (intContent 0)
                    @ tlv berInteger (intContent 0) @ tlv berSequence varbind;
          scoped = tlv berSequence (tlv berOctet (snmpEngineID e) @ tlv berOctet [] @ tlv 0xA8 pduBody)
      in buildV3Message \<lparr>msgID = msgID m, maxSize = 65507, msgFlags = 0,
           engineID = snmpEngineID e, boots = snmpEngineBoots, msgTime = snmpEngineTime e,
           userName = userName m, authParams = [], privParams = [], payload = scoped,
           encrypted = False, authPos = 0\<rparr>)"

definition buildDiscoveryReport :: "snmp_env \<Rightarrow> v3_message \<Rightarrow> bytes" where
  "buildDiscoveryReport e m = buildReport e m oidUnknownEngineIDs"

definition serveScopedPDU :: "snmp_env \<Rightarrow> bytes \<Rightarrow> bytes option option" where
  "serveScopedPDU e scoped =
     tlvThen scoped 0 (\<lambda>_ sq _.
     tlvThen sq 0 (\<lambda>_ ctxEngineID p.
     tlvThen sq p (\<lambda>_ ctxName p2.
     tlvThen sq p2 (\<lambda>pduTag pduContent _. do {
       r \<leftarrow> servePDU (envMIB e) pduTag pduContent 3;
       Some (map_option (\<lambda>respPDU.
         tlv berSequence (tlv berOctet ctxEngineID @ tlv berOctet ctxName @ respPDU)) r)
     }))))"

text \<open>The unsigned response message; \<open>None\<close> inside is the \<^verbatim>\<open>nil\<close> of a failed encryption.\<close>

definition responseMessage :: "crypto \<Rightarrow> snmp_env \<Rightarrow> v3_message \<Rightarrow> snmp_user \<Rightarrow> bool \<Rightarrow> bool \<Rightarrow> bytes
    \<Rightarrow> v3_message option option" where
  "responseMessage cr e m u wantAuth wantPriv respScoped = do {
     body \<leftarrow>
       (if wantPriv then do {
          privKey \<leftarrow> privKeyFor cr u (snmpEngineID e);
          Some (case privProtocol (privProtocolName u) of
             None \<Rightarrow> None
           | Some pp \<Rightarrow> map_option (\<lambda>(ct, salt). (ct, salt, True))
               (encrypt cr pp (randSalt e) privKey snmpEngineBoots (snmpEngineTime e) respScoped))
        }
        else Some (Some (respScoped, [], False)));
     Some (map_option (\<lambda>(pl, pr, enc).
       \<lparr>msgID = msgID m, maxSize = 65507,
        msgFlags = (if wantAuth then 0x01 else 0) OR (if wantPriv then 0x02 else 0),
        engineID = snmpEngineID e, boots = snmpEngineBoots, msgTime = snmpEngineTime e,
        userName = u_name u,
        authParams = (case (wantAuth, authProtocol (authProtocolName u)) of
                        (True, Some ap) \<Rightarrow> replicate (macLen ap) 0 | _ \<Rightarrow> []),
        privParams = pr, payload = pl, encrypted = enc, authPos = 0\<rparr>) body)
   }"

text \<open>The signing step of \<^verbatim>\<open>assembleV3Response\<close>: find the parameters in the built message and fill in the MAC.\<close>

definition signMessage :: "crypto \<Rightarrow> auth_proto \<Rightarrow> bytes \<Rightarrow> bytes \<Rightarrow> bytes option option" where
  "signMessage cr ap authKey msg = do {
     r \<leftarrow> parseV3Message msg;
     (case r of None \<Rightarrow> Some None
      | Some parsed \<Rightarrow>
          if authPos parsed + length (authParams parsed) > length msg then Some None
          else Some (Some (put msg (authPos parsed)
            (sign cr ap authKey (zeroAuthParams msg (authParams parsed) (authPos parsed))))))
   }"

definition assembleV3Response :: "crypto \<Rightarrow> snmp_env \<Rightarrow> v3_message \<Rightarrow> snmp_user \<Rightarrow> bool \<Rightarrow> bool \<Rightarrow> bytes
    \<Rightarrow> bytes \<Rightarrow> bytes option option" where
  "assembleV3Response cr e m u wantAuth wantPriv authKey respScoped = do {
     r \<leftarrow> responseMessage cr e m u wantAuth wantPriv respScoped;
     (case r of None \<Rightarrow> Some None
      | Some out \<Rightarrow>
          (case (wantAuth, authProtocol (authProtocolName u)) of
             (True, Some ap) \<Rightarrow> signMessage cr ap authKey (buildV3Message out)
           | _ \<Rightarrow> Some (Some (buildV3Message out))))
   }"

subsection \<open>The receive pipeline\<close>

text \<open>Recovering the scoped PDU: decrypted when privacy was requested; \<open>Some None\<close> is a decryption error.\<close>

definition recoverScoped :: "crypto \<Rightarrow> snmp_env \<Rightarrow> snmp_user \<Rightarrow> priv_proto \<Rightarrow> v3_message \<Rightarrow> bytes option option" where
  "recoverScoped cr e u pp m = do {
     privKey \<leftarrow> privKeyFor cr u (snmpEngineID e);
     Some (decrypt cr pp privKey (boots m) (msgTime m) (privParams m) (payload m))
   }"

definition serveAndRespond :: "crypto \<Rightarrow> snmp_env \<Rightarrow> v3_message \<Rightarrow> snmp_user \<Rightarrow> bytes \<Rightarrow> bytes \<Rightarrow> bytes option option" where
  "serveAndRespond cr e m u authKey scoped = do {
     r \<leftarrow> serveScopedPDU e scoped;
     (case r of None \<Rightarrow> Some None
      | Some respScoped \<Rightarrow>
          assembleV3Response cr e m u (msgFlags m AND 0x01 \<noteq> 0) (msgFlags m AND 0x02 \<noteq> 0)
            authKey respScoped)
   }"

definition afterAuth :: "crypto \<Rightarrow> snmp_env \<Rightarrow> v3_message \<Rightarrow> snmp_user \<Rightarrow> bytes \<Rightarrow> bytes option option" where
  "afterAuth cr e m u authKey =
     (if msgFlags m AND 0x02 \<noteq> 0 then
        (case privProtocol (privProtocolName u) of
           None \<Rightarrow> Some (Some (buildReport e m oidUnsupportedSecLevels))
         | Some pp \<Rightarrow> do {
             r \<leftarrow> recoverScoped cr e u pp m;
             (case r of None \<Rightarrow> Some None
              | Some scoped \<Rightarrow> serveAndRespond cr e m u authKey scoped)
           })
      else serveAndRespond cr e m u authKey (payload m))"

definition checkAuth :: "crypto \<Rightarrow> snmp_env \<Rightarrow> bytes \<Rightarrow> v3_message \<Rightarrow> snmp_user \<Rightarrow> oid + bytes" where
  "checkAuth cr e b m u =
     (if msgFlags m AND 0x01 \<noteq> 0 then
        (case authProtocol (authProtocolName u) of
           None \<Rightarrow> Inl oidUnsupportedSecLevels
         | Some ap \<Rightarrow>
             let authKey = localize cr ap (authPass u) (snmpEngineID e) in
             if \<not> verifyAuth cr ap authKey b (authParams m) (authPos m) then Inl oidWrongDigests
             else if \<not> inTimeWindow (snmpEngineTime e) (boots m) (msgTime m) then Inl oidNotInTimeWindows
             else Inr authKey)
      else Inr [])"

definition handleSNMPv3 :: "crypto \<Rightarrow> snmp_env \<Rightarrow> bytes \<Rightarrow> bytes option option" where
  "handleSNMPv3 cr e b = do {
     r \<leftarrow> parseV3Message b;
     (case r of None \<Rightarrow> Some None
      | Some m \<Rightarrow>
          if engineID m = [] then Some (Some (buildDiscoveryReport e m))
          else if engineID m \<noteq> snmpEngineID e then Some (Some (buildDiscoveryReport e m))
          else (case lookupUser (cfgSNMP e) (userName m) of
              None \<Rightarrow> Some (Some (buildReport e m oidUnknownUserNames))
            | Some u \<Rightarrow>
                if \<not> levelAllowed u (msgFlags m AND 0x01 \<noteq> 0) (msgFlags m AND 0x02 \<noteq> 0)
                then Some (Some (buildReport e m oidUnsupportedSecLevels))
                else (case checkAuth cr e b m u of
                    Inl o' \<Rightarrow> Some (Some (buildReport e m o'))
                  | Inr authKey \<Rightarrow> afterAuth cr e m u authKey)))
   }"

definition handleSNMP :: "crypto \<Rightarrow> snmp_env \<Rightarrow> bytes \<Rightarrow> bytes option option" where
  "handleSNMP cr e b =
     tlvThen b 0 (\<lambda>tag msg _.
     if tag \<noteq> berSequence then Some None else
     tlvThen msg 0 (\<lambda>_ verC p.
     let version = sint (decodeInt verC) in
     if version = 3 then
       (if \<not> v3Enabled (cfgSNMP e) then Some None else handleSNMPv3 cr e b)
     else if \<not> allowV1V2c (cfgSNMP e) then Some None
     else tlvThen msg p (\<lambda>_ commC p2.
       if commC \<noteq> community (cfgSNMP e) then Some None
       else tlvThen msg p2 (\<lambda>pduTag pdu _. do {
         r \<leftarrow> servePDU (envMIB e) pduTag pdu version;
         Some (map_option (\<lambda>respPDU.
           tlv berSequence (tlv berInteger (intContent (decodeInt verC))
             @ tlv berOctet (community (cfgSNMP e)) @ respPDU)) r)
       }))))"

subsection \<open>The wire form\<close>

text \<open>A TLV is its header, which depends on the content only through its length, and the content.\<close>

definition tlvHead :: "byte \<Rightarrow> nat \<Rightarrow> bytes" where
  "tlvHead tag n = tag # berLen n"

lemma tlv_head: "tlv t c = tlvHead t (length c) @ c"
  by (simp add: tlv_def tlvHead_def)

lemma content_drop:
  "drop p b = tlv t c @ post \<Longrightarrow> drop (contentPos (p + length (tlv t c)) c) b = c @ post"
proof -
  assume d: "drop p b = tlv t c @ post"
  have "contentPos (p + length (tlv t c)) c = length (tlvHead t (length c)) + p"
    by (simp add: tlv_head)
  then have "drop (contentPos (p + length (tlv t c)) c) b = drop (length (tlvHead t (length c))) (drop p b)"
    by (simp only: drop_drop add.commute)
  then show ?thesis by (simp add: d tlv_head)
qed

lemma drop_nested:
  assumes "drop p b = c @ z" "drop q c = y" "q \<le> length c"
  shows "drop (p + q) b = y @ z"
proof -
  have "drop (p + q) b = drop q (c @ z)" using assms(1) by (metis add.commute drop_drop)
  with assms show ?thesis by simp
qed

lemma length_intContent_le: "length (intContent v) < 2 ^ 32"
  by (rule le_less_trans [OF length_intContent]) simp

lemma decode_u32: "ucast (decodeInt (intContent (int64_of_u32 x))) = x"
  by (simp add: decodeInt_intContent unsigned_ucast_eq word_uint_eq_iff take_bit_word_eq_self)

text \<open>The messages whose parts have lengths a datagram can hold.\<close>

definition datagram_sized :: "v3_message \<Rightarrow> bool" where
  "datagram_sized m \<longleftrightarrow> length (engineID m) < 2 ^ 16 \<and> length (userName m) < 2 ^ 16
     \<and> length (authParams m) < 2 ^ 16 \<and> length (privParams m) < 2 ^ 16
     \<and> length (payload m) < 2 ^ 16"

text \<open>A payload as the code produces it: ciphertext, or a plaintext TLV that is not an octet string.\<close>

definition wf_payload :: "v3_message \<Rightarrow> bool" where
  "wf_payload m \<longleftrightarrow> encrypted m \<or> (\<exists>t c. payload m = tlv t c \<and> t \<noteq> berOctet)"

lemma parseGlobal_build: "parseGlobal (buildGlobal m) = Some (Some (msgID m, maxSize m, msgFlags m))"
proof -
  let ?i = "intContent (int64_of_u32 (msgID m))" and ?x = "intContent (int64_of_u32 (maxSize m))"
  have "drop 0 (buildGlobal m) = tlv berInteger ?i @ tlv berInteger ?x @ tlv berOctet [msgFlags m]
      @ tlv berInteger (intContent 3) @ []"
    by (simp add: buildGlobal_def)
  note s1 = tlvThen_drop [OF this length_intContent_le]
  note s2 = tlvThen_drop [OF s1(2) length_intContent_le]
  have "length [msgFlags m] < 2 ^ 32" by simp
  note s3 = tlvThen_drop [OF s2(2) this]
  note s4 = tlvThen_drop [OF s3(2) length_intContent_le]
  show ?thesis
    unfolding parseGlobal_def s1(1) s2(1) s3(1) s4(1) by (simp add: decode_u32)
qed

definition usmPre :: "v3_message \<Rightarrow> nat \<Rightarrow> bytes" where
  "usmPre m n = tlv berOctet (engineID m)
     @ tlv berInteger (intContent (int64_of_u32 (boots m)))
     @ tlv berInteger (intContent (int64_of_u32 (msgTime m)))
     @ tlv berOctet (userName m) @ tlvHead berOctet n"

lemma buildUSM_split: "buildUSM m = usmPre m (length (authParams m)) @ authParams m @ tlv berOctet (privParams m)"
  by (simp add: buildUSM_def usmPre_def tlv_head [of _ "authParams m"])

lemma tlv_short: "length c < 2 ^ 16 \<Longrightarrow> length (tlv t c) < 2 ^ 16 + 6"
  using length_tlv [of c t] by simp

lemma length_tlv_int: "length (tlv berInteger (intContent v)) \<le> 14"
  using length_tlv [OF length_intContent_le, of berInteger v] length_intContent [of v] by linarith

lemma length_buildUSM:
  assumes "datagram_sized m"
  shows "length (buildUSM m) < 2 ^ 18 + 2 ^ 16"
proof -
  from assms have "length (tlv berOctet (engineID m)) < 2 ^ 16 + 6" "length (tlv berOctet (userName m)) < 2 ^ 16 + 6"
    "length (tlv berOctet (authParams m)) < 2 ^ 16 + 6" "length (tlv berOctet (privParams m)) < 2 ^ 16 + 6"
    by (auto simp only: datagram_sized_def intro: tlv_short)
  then show ?thesis
    using length_tlv_int [of "int64_of_u32 (boots m)"] length_tlv_int [of "int64_of_u32 (msgTime m)"]
    by (simp add: buildUSM_def)
qed

lemma parseUSM_build:
  assumes "datagram_sized m"
  shows "parseUSM (tlv berSequence (buildUSM m)) sp = Some (Some
     \<lparr>msgID = 0, maxSize = 0, msgFlags = 0, engineID = engineID m, boots = boots m,
      msgTime = msgTime m, userName = userName m, authParams = authParams m,
      privParams = privParams m, payload = [], encrypted = False,
      authPos = sp + length (tlvHead berSequence (length (buildUSM m)))
        + length (usmPre m (length (authParams m)))\<rparr>)"
proof -
  let ?U = "buildUSM m"
  have l: "length ?U < 2 ^ 32" "length (engineID m) < 2 ^ 32" "length (userName m) < 2 ^ 32"
    "length (authParams m) < 2 ^ 32" "length (privParams m) < 2 ^ 32"
    using assms length_buildUSM [OF assms] by (simp_all add: datagram_sized_def)
  have "drop 0 (tlv berSequence ?U) = tlv berSequence ?U @ []" by simp
  note s0 = tlvThen_drop(1) [OF this l(1)]
  have "drop 0 ?U = tlv berOctet (engineID m)
      @ tlv berInteger (intContent (int64_of_u32 (boots m)))
      @ tlv berInteger (intContent (int64_of_u32 (msgTime m)))
      @ tlv berOctet (userName m) @ tlv berOctet (authParams m) @ tlv berOctet (privParams m) @ []"
    by (simp add: buildUSM_def)
  note s1 = tlvThen_drop [OF this l(2)]
  note s2 = tlvThen_drop [OF s1(2) length_intContent_le]
  note s3 = tlvThen_drop [OF s2(2) length_intContent_le]
  note s4 = tlvThen_drop [OF s3(2) l(3)]
  note s5 = tlvThen_drop [OF s4(2) l(4)]
  note s6 = tlvThen_drop [OF s5(2) l(5)]
  have pos: "length (tlv berOctet (engineID m))
      + length (tlv berInteger (intContent (int64_of_u32 (boots m))))
      + length (tlv berInteger (intContent (int64_of_u32 (msgTime m))))
      + length (tlv berOctet (userName m)) + length (tlv berOctet (authParams m)) - length (authParams m)
      = length (usmPre m (length (authParams m)))"
    by (simp add: usmPre_def tlv_head [of _ "authParams m"])
  have out: "length (tlv berSequence ?U) - length ?U = length (tlvHead berSequence (length ?U))"
    by (simp add: tlv_head)
  show ?thesis
    unfolding parseUSM_def s0 s1(1) s2(1) s3(1) s4(1) s5(1) s6(1) by (simp add: decode_u32 pos out)
qed

text \<open>Everything in a built message before its authentication parameters, and everything after.\<close>

definition msgData :: "v3_message \<Rightarrow> bytes" where
  "msgData m = (if encrypted m then tlv berOctet (payload m) else payload m)"

definition msgBody :: "v3_message \<Rightarrow> bytes" where
  "msgBody m = tlv berInteger (intContent 3) @ tlv berSequence (buildGlobal m)
     @ tlv berOctet (tlv berSequence (buildUSM m)) @ msgData m"

definition authPre :: "v3_message \<Rightarrow> bytes" where
  "authPre m = tlvHead berSequence (length (msgBody m))
     @ tlv berInteger (intContent 3) @ tlv berSequence (buildGlobal m)
     @ tlvHead berOctet (length (tlv berSequence (buildUSM m)))
     @ tlvHead berSequence (length (buildUSM m)) @ usmPre m (length (authParams m))"

lemma build_body: "buildV3Message m = tlv berSequence (msgBody m)"
  by (simp add: buildV3Message_def msgBody_def msgData_def)

lemma build_split: "buildV3Message m = authPre m @ authParams m @ tlv berOctet (privParams m) @ msgData m"
proof -
  have "tlv berOctet (tlv berSequence (buildUSM m)) = tlvHead berOctet (length (tlv berSequence (buildUSM m)))
      @ tlvHead berSequence (length (buildUSM m)) @ buildUSM m"
    by (metis tlv_head)
  then have "msgBody m = tlv berInteger (intContent 3) @ tlv berSequence (buildGlobal m)
     @ tlvHead berOctet (length (tlv berSequence (buildUSM m)))
     @ tlvHead berSequence (length (buildUSM m)) @ usmPre m (length (authParams m)) @ authParams m
     @ tlv berOctet (privParams m) @ msgData m"
    by (simp add: msgBody_def buildUSM_split)
  then show ?thesis
    unfolding build_body tlv_head [of berSequence "msgBody m"] by (simp add: authPre_def)
qed

lemma length_buildGlobal: "length (buildGlobal m) < 64"
proof -
  have flags: "length (tlv berOctet [msgFlags m]) \<le> 7"
    using length_tlv [of "[msgFlags m]" berOctet] by simp
  then show ?thesis
    using length_tlv_int [of "int64_of_u32 (msgID m)"] length_tlv_int [of "int64_of_u32 (maxSize m)"]
      length_tlv_int [of 3] flags
    unfolding buildGlobal_def length_append by linarith
qed

lemma msgData_tlv:
  assumes "wf_payload m" "datagram_sized m"
  obtains t c where "msgData m = tlv t c" "length c < 2 ^ 16" "t = berOctet \<longleftrightarrow> encrypted m"
    "payload m = (if encrypted m then c else tlv t c)"
proof (cases "encrypted m")
  case True
  then show thesis using that [of berOctet "payload m"] assms by (simp add: msgData_def datagram_sized_def)
next
  case False
  with assms obtain t c where tc: "payload m = tlv t c" "t \<noteq> berOctet" by (auto simp: wf_payload_def)
  moreover have "length c \<le> length (tlv t c)" by (simp add: tlv_def)
  ultimately show thesis using that [of t c] False assms by (simp add: msgData_def datagram_sized_def)
qed

lemma parseV3_build:
  assumes wf: "wf_payload m" and sz: "datagram_sized m"
  shows "parseV3Message (buildV3Message m) = Some (Some (m\<lparr>authPos := length (authPre m)\<rparr>))"
proof -
  obtain t c where d: "msgData m = tlv t c" "length c < 2 ^ 16" "t = berOctet \<longleftrightarrow> encrypted m"
    "payload m = (if encrypted m then c else tlv t c)"
    using msgData_tlv [OF wf sz] .
  let ?U = "tlv berSequence (buildUSM m)"
  have lu: "length ?U < 2 ^ 19"
    using length_buildUSM [OF sz] length_tlv [of "buildUSM m" berSequence] by simp
  have "length (tlv berOctet ?U) < 2 ^ 20" "length (tlv berSequence (buildGlobal m)) < 2 ^ 7"
    using lu length_tlv [of ?U berOctet] length_buildGlobal [of m]
      length_tlv [of "buildGlobal m" berSequence] by simp_all
  then have lb: "length (msgBody m) < 2 ^ 32"
    using tlv_short [OF d(2), of t] length_tlv_int [of 3]
    unfolding msgBody_def d(1) length_append by simp
  have l: "length (buildGlobal m) < 2 ^ 32" "length ?U < 2 ^ 32" "length c < 2 ^ 32"
    using lu d(2) length_buildGlobal [of m] by simp_all
  have "drop 0 (buildV3Message m) = tlv berSequence (msgBody m) @ []" by (simp add: build_body)
  note s0 = tlvThen_drop(1) [OF this lb]
  have "drop 0 (msgBody m) = tlv berInteger (intContent 3) @ tlv berSequence (buildGlobal m)
      @ tlv berOctet ?U @ tlv t c @ []"
    by (simp add: msgBody_def d)
  note s1 = tlvThen_drop [OF this length_intContent_le]
  note s2 = tlvThen_drop [OF s1(2) l(1)]
  note s3 = tlvThen_drop [OF s2(2) l(2)]
  note s4 = tlvThen_drop(1) [OF s3(2) l(3)]
  have pos: "length (tlv berSequence (msgBody m)) - length (msgBody m) +
      (length (tlv berInteger (intContent 3)) + length (tlv berSequence (buildGlobal m))
        + length (tlv berOctet ?U) - length ?U)
      + length (tlvHead berSequence (length (buildUSM m))) + length (usmPre m (length (authParams m)))
      = length (authPre m)"
    by (simp add: authPre_def tlv_head [of berOctet ?U] tlv_head [of berSequence "msgBody m"])
  show ?thesis
    unfolding parseV3Message_def s0 s1(1) s2(1) s3(1) s4(1) parseGlobal_build
    by (simp add: parseUSM_build [OF sz] s4 pos d Let_def)
qed

subsection \<open>Signing\<close>

text \<open>The bytes around the authentication parameters do not depend on their value, only on their length.\<close>

lemma build_authParams:
  assumes "length ap = length (authParams m)"
  shows "authPre (m\<lparr>authParams := ap\<rparr>) = authPre m"
    and "buildV3Message (m\<lparr>authParams := ap\<rparr>) = put (buildV3Message m) (length (authPre m)) ap"
proof -
  have g: "buildGlobal (m\<lparr>authParams := ap\<rparr>) = buildGlobal m" by (simp add: buildGlobal_def)
  have u: "usmPre (m\<lparr>authParams := ap\<rparr>) n = usmPre m n" for n by (simp add: usmPre_def)
  have d: "msgData (m\<lparr>authParams := ap\<rparr>) = msgData m" by (simp add: msgData_def)
  have lu: "length (buildUSM (m\<lparr>authParams := ap\<rparr>)) = length (buildUSM m)"
    by (simp add: buildUSM_split u assms)
  have lt: "length (tlv t x) = length (tlv t y)" if "length x = length y" for t x y
    using that by (simp add: tlv_def)
  have lb: "length (msgBody (m\<lparr>authParams := ap\<rparr>)) = length (msgBody m)"
    using lt [OF lt [OF lu]] by (simp add: msgBody_def g d)
  show pre: "authPre (m\<lparr>authParams := ap\<rparr>) = authPre m"
    using lt [OF lu] by (simp add: authPre_def g u lu lb assms)
  have "buildV3Message (m\<lparr>authParams := ap\<rparr>) = authPre m @ ap @ tlv berOctet (privParams m) @ msgData m"
    using build_split [of "m\<lparr>authParams := ap\<rparr>"] by (simp add: pre d)
  then show "buildV3Message (m\<lparr>authParams := ap\<rparr>) = put (buildV3Message m) (length (authPre m)) ap"
    by (simp add: put_def build_split [of m] assms)
qed

lemma zeroAuthParams_build:
  assumes "length ap = length (authParams m)"
  shows "zeroAuthParams (buildV3Message m) ap (length (authPre m))
    = buildV3Message (m\<lparr>authParams := replicate (length ap) 0\<rparr>)"
proof -
  have "length (authPre m) + length ap \<le> length (buildV3Message m)"
    by (simp add: build_split [of m] assms)
  then show ?thesis
    using build_authParams(2) [of "replicate (length ap) 0" m] assms by (simp add: zeroAuthParams_def)
qed

text \<open>
  Signing a built message whose parameters are still the right number of zeros gives the message
  with the MAC of exactly that zeroed message in their place, and the receiver's check accepts it.
\<close>

lemma sign_verify:
  assumes "wf_payload m" "datagram_sized m" and ap: "authParams m = replicate (macLen a) 0"
    and mac: "length (sign cr a key (buildV3Message m)) = macLen a"
  shows "signMessage cr a key (buildV3Message m)
      = Some (Some (buildV3Message (m\<lparr>authParams := sign cr a key (buildV3Message m)\<rparr>)))"
    and "verifyAuth cr a key (buildV3Message (m\<lparr>authParams := sign cr a key (buildV3Message m)\<rparr>))
      (sign cr a key (buildV3Message m)) (length (authPre m))"
proof -
  let ?mac = "sign cr a key (buildV3Message m)"
  have zero: "m\<lparr>authParams := replicate (macLen a) 0\<rparr> = m" by (simp add: ap [symmetric])
  have z: "zeroAuthParams (buildV3Message m) (authParams m) (length (authPre m)) = buildV3Message m"
    using zeroAuthParams_build [of "authParams m" m] by (simp add: ap zero)
  have "length (authPre m) + macLen a \<le> length (buildV3Message m)"
    by (simp add: build_split [of m] ap)
  then show "signMessage cr a key (buildV3Message m)
      = Some (Some (buildV3Message (m\<lparr>authParams := ?mac\<rparr>)))"
    using build_authParams(2) [of ?mac m] mac
    by (simp add: signMessage_def parseV3_build [OF assms(1,2)] z [unfolded ap] ap)
  have "authPre (m\<lparr>authParams := ?mac\<rparr>) = authPre m"
    by (rule build_authParams(1)) (simp add: ap mac)
  then have "zeroAuthParams (buildV3Message (m\<lparr>authParams := ?mac\<rparr>)) ?mac (length (authPre m)) = buildV3Message m"
    using zeroAuthParams_build [of ?mac "m\<lparr>authParams := ?mac\<rparr>"] by (simp add: mac zero)
  then show "verifyAuth cr a key (buildV3Message (m\<lparr>authParams := ?mac\<rparr>)) ?mac (length (authPre m))"
    by (simp add: verifyAuth_def mac)
qed

subsection \<open>The pipeline never panics\<close>

lemma parseGlobal_returns [no_panic]: "parseGlobal g \<noteq> None"
  unfolding parseGlobal_def by (intro no_panic)

lemma parseUSM_returns [no_panic]: "parseUSM s p \<noteq> None"
  unfolding parseUSM_def by (intro tlvThen_returns) simp

lemma parseV3_returns [no_panic]: "parseV3Message b \<noteq> None"
  unfolding parseV3Message_def Let_def by (intro no_panic)

lemma serveScopedPDU_returns [no_panic]: "serveScopedPDU e scoped \<noteq> None"
  unfolding serveScopedPDU_def by (intro no_panic)

text \<open>A user table whose authentication protocol names are all known, as \<^verbatim>\<open>validateConfig\<close> demands.\<close>

definition users_ok :: "snmp_conf \<Rightarrow> bool" where
  "users_ok c \<longleftrightarrow> list_all (\<lambda>u. authProtocol (authProtocolName u) \<noteq> None) (snmpUsers c)"

lemma lookupUser_ok: "users_ok c \<Longrightarrow> lookupUser c n = Some u \<Longrightarrow> authProtocol (authProtocolName u) \<noteq> None"
  by (auto simp: users_ok_def lookupUser_def find_Some_iff list_all_length)

lemma privKeyFor_returns:
  assumes "digest_lengths cr" "authProtocol (authProtocolName u) \<noteq> None"
  shows "privKeyFor cr u eng \<noteq> None"
proof -
  from assms(2) obtain ap where "authProtocol (authProtocolName u) = Some ap" by blast
  then show ?thesis
    using extendKey_returns [OF assms(1)] by (simp add: privKeyFor_def Let_def) metis
qed

lemma assembleV3_returns:
  assumes "digest_lengths cr" "authProtocol (authProtocolName u) \<noteq> None"
  shows "assembleV3Response cr e m u wa wp k r \<noteq> None"
proof -
  have "responseMessage cr e m u wa wp r \<noteq> None"
    using privKeyFor_returns [OF assms, of "snmpEngineID e"] by (auto simp: responseMessage_def)
  moreover have "signMessage cr ap k x \<noteq> None" for ap x
    using parseV3_returns [of x] by (auto simp: signMessage_def split: option.splits)
  ultimately show ?thesis
    unfolding assembleV3Response_def by (auto split: option.splits bool.splits)
qed

lemma serveAndRespond_returns:
  assumes "digest_lengths cr" "authProtocol (authProtocolName u) \<noteq> None"
  shows "serveAndRespond cr e m u k s \<noteq> None"
  using assembleV3_returns [OF assms] serveScopedPDU_returns [of e s]
  by (auto simp: serveAndRespond_def split: option.splits)

lemma afterAuth_returns:
  assumes "digest_lengths cr" "authProtocol (authProtocolName u) \<noteq> None"
  shows "afterAuth cr e m u k \<noteq> None"
  using serveAndRespond_returns [OF assms] privKeyFor_returns [OF assms, of "snmpEngineID e"]
  by (auto simp: afterAuth_def recoverScoped_def split: option.splits)

lemma handleSNMPv3_returns:
  assumes "digest_lengths cr" "users_ok (cfgSNMP e)"
  shows "handleSNMPv3 cr e b \<noteq> None"
  using parseV3_returns [of b] afterAuth_returns [OF assms(1) lookupUser_ok [OF assms(2)]]
  by (auto simp: handleSNMPv3_def split: option.splits sum.splits)

lemma handleSNMP_returns:
  assumes "digest_lengths cr" "users_ok (cfgSNMP e)"
  shows "handleSNMP cr e b \<noteq> None"
  unfolding handleSNMP_def Let_def by (intro no_panic handleSNMPv3_returns assms)

text \<open>
  A message that gets as far as the MIB: addressed to this engine, from a known user at an allowed
  level and, when it claims to be authenticated, with the right MAC inside the time window.
\<close>

definition admits :: "crypto \<Rightarrow> snmp_env \<Rightarrow> bytes \<Rightarrow> bool" where
  "admits cr e b =
     (case parseV3Message b of
        Some (Some m) \<Rightarrow> engineID m \<noteq> [] \<and> engineID m = snmpEngineID e \<and>
          (case lookupUser (cfgSNMP e) (userName m) of
             None \<Rightarrow> False
           | Some u \<Rightarrow> levelAllowed u (msgFlags m AND 0x01 \<noteq> 0) (msgFlags m AND 0x02 \<noteq> 0) \<and>
               (msgFlags m AND 0x01 = 0 \<or>
                (case authProtocol (authProtocolName u) of
                   None \<Rightarrow> False
                 | Some ap \<Rightarrow>
                     verifyAuth cr ap (localize cr ap (authPass u) (snmpEngineID e)) b (authParams m) (authPos m)
                     \<and> inTimeWindow (snmpEngineTime e) (boots m) (msgTime m))))
      | _ \<Rightarrow> False)"

lemma handle_rejected: "\<not> admits cr e b \<Longrightarrow>
    handleSNMPv3 cr (e\<lparr>envMIB := mib'\<rparr>) b = handleSNMPv3 cr e b"
proof -
  assume na: "\<not> admits cr e b"
  have rep: "buildReport (e\<lparr>envMIB := mib'\<rparr>) m o' = buildReport e m o'" for m o'
    by (simp add: buildReport_def)
  show ?thesis
  proof (cases "parseV3Message b")
    case None
    then show ?thesis using parseV3_returns by blast
  next
    case (Some r)
    show ?thesis
    proof (cases r)
      case None
      with Some show ?thesis by (simp add: handleSNMPv3_def)
    next
      case (Some m)
      with \<open>parseV3Message b = Some r\<close> na show ?thesis
        by (auto simp: handleSNMPv3_def admits_def buildDiscoveryReport_def rep checkAuth_def Let_def
            split: option.splits)
    qed
  qed
qed

subsection \<open>Properties\<close>

text \<open>An SNMPv3 message survives building and parsing: every field comes back, the payload
  too whether it is ciphertext or a plaintext scoped PDU, and the offset the parser derives for
  the authentication parameters is where they stand in the datagram.\<close>

theorem v3_roundtrip:
  assumes "wf_payload m" "datagram_sized m"
  shows "parseV3Message (buildV3Message m) = Some (Some (m\<lparr>authPos := length (authPre m)\<rparr>))
    \<and> gslice (buildV3Message m) (length (authPre m)) (length (authPre m) + length (authParams m))
        = Some (authParams m)"
  using parseV3_build [OF assms] by (simp add: build_split gslice_def)

definition demoMessage :: v3_message where
  "demoMessage = \<lparr>msgID = 7, maxSize = 65507, msgFlags = 1, engineID = [1, 2, 3], boots = 1,
     msgTime = 10, userName = str ''bob'', authParams = replicate 12 0, privParams = [],
     payload = tlv 0x30 [5, 0], encrypted = False, authPos = 0\<rparr>"

lemma wf_plain: "payload m = tlv t c \<Longrightarrow> t \<noteq> berOctet \<Longrightarrow> wf_payload m"
  by (auto simp: wf_payload_def)

lemma demo_wf: "wf_payload demoMessage" and demo_sized: "datagram_sized demoMessage"
  by (rule wf_plain [of _ "0x30" "[5, 0]"]) (simp_all add: demoMessage_def datagram_sized_def str_def tlv_def berLen_def)

theorem v3_roundtrip_witness:
  "parseV3Message (buildV3Message demoMessage)
     = Some (Some (demoMessage\<lparr>authPos := length (authPre demoMessage)\<rparr>))"
  using v3_roundtrip [OF demo_wf demo_sized] by simp

text \<open>C17: A response to an authenticated request verifies at the manager. Whatever the
  privacy level, if the response message fits a datagram then the assembled datagram parses, carries
  the request's message identifier and our engine's identifier and clock, and the manager's own
  check (the MAC over the datagram with the parameters zeroed) accepts it under the same key.\<close>

theorem v3_response_verifies:
  assumes "digest_lengths cr" "authProtocol (authProtocolName u) = Some ap"
    and "responseMessage cr e m u True wantPriv respScoped = Some (Some out)"
    and "datagram_sized out" "wf_payload out"
  shows "\<exists>b p. assembleV3Response cr e m u True wantPriv key respScoped = Some (Some b)
    \<and> parseV3Message b = Some (Some p)
    \<and> verifyAuth cr ap key b (authParams p) (authPos p)
    \<and> msgID p = msgID m \<and> engineID p = snmpEngineID e \<and> boots p = snmpEngineBoots
    \<and> msgTime p = snmpEngineTime e \<and> payload p = payload out"
proof -
  let ?mac = "sign cr ap key (buildV3Message out)"
  let ?out = "out\<lparr>authParams := ?mac\<rparr>"
  have o: "authParams out = replicate (macLen ap) 0" "msgID out = msgID m" "boots out = snmpEngineBoots"
    "engineID out = snmpEngineID e" "msgTime out = snmpEngineTime e"
    using assms(2,3) by (auto simp: responseMessage_def split: option.splits if_splits bind_splits)
  have mac: "length ?mac = macLen ap" by (rule length_sign [OF assms(1,2)])
  note sv = sign_verify [OF assms(5,4) o(1) mac]
  have "parseV3Message (buildV3Message ?out) = Some (Some (?out\<lparr>authPos := length (authPre ?out)\<rparr>))"
    using assms(4,5) mac o(1) by (intro parseV3_build) (auto simp: wf_payload_def datagram_sized_def)
  moreover have "authPre ?out = authPre out" by (rule build_authParams(1)) (simp add: o mac)
  ultimately have "parseV3Message (buildV3Message ?out) = Some (Some (?out\<lparr>authPos := length (authPre out)\<rparr>))"
    by simp
  moreover have "assembleV3Response cr e m u True wantPriv key respScoped = Some (Some (buildV3Message ?out))"
    using assms(2,3) sv(1) by (simp add: assembleV3Response_def)
  ultimately show ?thesis using sv(2) o by auto
qed

definition demoUser :: snmp_user where
  "demoUser = \<lparr>u_name = str ''bob'', u_level = str ''authPriv'', authProtocolName = str ''SHA-256'',
     authPass = str ''secretpass'', privProtocolName = str ''AES-128'', privPass = str ''otherpass''\<rparr>"

definition demoEnv :: snmp_env where
  "demoEnv = \<lparr>cfgSNMP = demoSnmp\<lparr>v3Enabled := True, snmpUsers := [demoUser]\<rparr>,
     envMIB = buildMIB demoPrinter demoSnmp 0, snmpEngineID = [1, 2, 3], snmpEngineTime = 20,
     randSalt = replicate 8 9\<rparr>"

theorem v3_response_verifies_witness:
  "\<exists>b p. assembleV3Response toyCrypto demoEnv demoMessage demoUser True False [1] (tlv 0x30 [5, 0]) = Some (Some b)
    \<and> parseV3Message b = Some (Some p)
    \<and> verifyAuth toyCrypto \<lparr>newHash = SHA256, macLen = 24\<rparr> [1] b (authParams p) (authPos p)
    \<and> msgID p = 7"
proof -
  have ap: "authProtocol (authProtocolName demoUser) = Some \<lparr>newHash = SHA256, macLen = 24\<rparr>"
    unfolding demoUser_def authProtocol_def by code_simp
  let ?out = "\<lparr>msgID = 7, maxSize = 65507, msgFlags = 1, engineID = [1, 2, 3], boots = 1,
     msgTime = 20, userName = str ''bob'', authParams = replicate 24 0, privParams = [],
     payload = tlv 0x30 [5, 0], encrypted = False, authPos = 0\<rparr>"
  have r: "responseMessage toyCrypto demoEnv demoMessage demoUser True False (tlv 0x30 [5, 0]) = Some (Some ?out)"
    using ap by (simp add: responseMessage_def demoEnv_def demoMessage_def) (simp add: demoUser_def)
  have "datagram_sized ?out" by (simp add: datagram_sized_def str_def tlv_def berLen_def)
  moreover have "wf_payload ?out" by (rule wf_plain [of _ "0x30" "[5, 0]"]) simp_all
  ultimately show ?thesis
    using v3_response_verifies [OF toy_digest_lengths ap r, of "[1]"] by (auto simp: demoMessage_def)
qed

text \<open>C18: A rejected v3 message learns nothing from the agent: unless it is addressed to this
  engine by a known user at an allowed level and, when it claims authentication, carries the right
  MAC inside the time window, the answer does not depend on the MIB at all.\<close>

theorem v3_rejected_learns_nothing:
  "admits cr e b \<or> handleSNMPv3 cr (e\<lparr>envMIB := mib'\<rparr>) b = handleSNMPv3 cr e b"
  using handle_rejected by blast



text \<open>The security level configured for a user is only an upper bound: a message with
  neither flag set that names any configured user, one required to authenticate and encrypt
  included, is served from its plaintext payload without looking at a MAC or a clock.\<close>

theorem v3_plain_request_served:
  assumes "parseV3Message b = Some (Some m)" "msgFlags m AND 0x03 = 0"
    and "engineID m = snmpEngineID e" "engineID m \<noteq> []" "lookupUser (cfgSNMP e) (userName m) = Some u"
  shows "handleSNMPv3 cr e b = serveAndRespond cr e m u [] (payload m)"
proof -
  have "(msgFlags m AND 0x03) AND 0x01 = 0" "(msgFlags m AND 0x03) AND 0x02 = 0"
    using assms(2) by simp_all
  then have "msgFlags m AND 0x01 = 0" "msgFlags m AND 0x02 = 0" by (simp_all add: and.assoc)
  with assms show ?thesis
    by (simp add: handleSNMPv3_def levelAllowed_def checkAuth_def afterAuth_def split: prod.split)
qed

theorem v3_plain_request_served_witness:
  "handleSNMPv3 toyCrypto demoEnv (buildV3Message (demoMessage\<lparr>msgFlags := 0\<rparr>))
    = serveAndRespond toyCrypto demoEnv (demoMessage\<lparr>msgFlags := 0, authPos := length (authPre (demoMessage\<lparr>msgFlags := 0\<rparr>))\<rparr>)
        demoUser [] (tlv 0x30 [5, 0])"
proof -
  let ?m = "demoMessage\<lparr>msgFlags := 0\<rparr>"
  have "wf_payload ?m" "datagram_sized ?m"
    using demo_wf demo_sized by (simp_all add: wf_payload_def datagram_sized_def)
  note p = parseV3_build [OF this]
  show ?thesis
    using v3_plain_request_served [OF p, of demoEnv demoUser toyCrypto]
    by (simp add: demoMessage_def demoEnv_def demoUser_def lookupUser_def)
qed

text \<open>Version and community gate. A v1 or v2c message is answered only when these
  versions are enabled and the community matches, and then by the PDU server with the same version and community
  echoed; otherwise the agent stays silent.\<close>

theorem community_gate:
  assumes "version = 0 \<or> version = 1" "length comm < 2 ^ 16" "length pdu < 2 ^ 16"
  shows "handleSNMP cr e (tlv berSequence (tlv berInteger (intContent version) @ tlv berOctet comm @ tlv t pdu))
    = (if allowV1V2c (cfgSNMP e) \<and> comm = community (cfgSNMP e) then
         (case servePDU (envMIB e) t pdu (sint version) of
            Some (Some resp) \<Rightarrow> Some (Some (tlv berSequence (tlv berInteger (intContent version) @ tlv berOctet comm @ resp)))
          | _ \<Rightarrow> Some None)
       else Some None)"
proof -
  let ?c = "tlv berInteger (intContent version) @ tlv berOctet comm @ tlv t pdu"
  have "length ?c < 2 ^ 32"
    using length_tlv_int [of version] tlv_short [OF assms(2), of berOctet] tlv_short [OF assms(3), of t] by simp
  moreover have "drop 0 (tlv berSequence ?c) = tlv berSequence ?c @ []" by simp
  ultimately have s0: "tlvThen (tlv berSequence ?c) 0 k = k berSequence ?c (0 + length (tlv berSequence ?c))"
    for k :: "_ \<Rightarrow> _ \<Rightarrow> _ \<Rightarrow> bytes option option"
    by (rule tlvThen_drop(1) [rotated])
  have l: "length comm < 2 ^ 32" "length pdu < 2 ^ 32" using assms by simp_all
  have "drop 0 ?c = tlv berInteger (intContent version) @ tlv berOctet comm @ tlv t pdu @ []" by simp
  note s1 = tlvThen_drop [OF this length_intContent_le]
  note s2 = tlvThen_drop [OF s1(2) l(1)]
  note s3 = tlvThen_drop [OF s2(2) l(2)]
  have v: "sint version \<noteq> 3" using assms(1) by auto
  have "servePDU (envMIB e) t pdu (sint version) \<noteq> None" by (rule servePDU_returns)
  then show ?thesis
    unfolding handleSNMP_def s0 s1(1) s2(1) s3(1) using v
    by (auto simp: decodeInt_intContent Let_def split: option.splits)
qed

theorem community_gate_witness:
  "handleSNMP toyCrypto demoEnv (tlv berSequence (tlv berInteger (intContent 1) @ tlv berOctet (str ''private'')
      @ tlv pduGet [])) = Some None"
  by (subst community_gate) (simp_all add: demoEnv_def demoSnmp_def str_def)

end
