(* ===== verification/Dns_Msg.thy ===== *)
theory Dns_Msg
  imports Go_Prelude
begin

text \<open>
  DNS messages (\<^verbatim>\<open>dnsmsg.go\<close> and the message readers of \<^verbatim>\<open>mdns.go\<close>): names with compression
  pointers, questions, resource records, responses. A parser's result \<open>None\<close> is a panic,
  \<open>Some None\<close> is \<^verbatim>\<open>ok = false\<close>.
\<close>

subsection \<open>Constants\<close>

abbreviation "dnsTypeA \<equiv> (1 :: u16)"
abbreviation "dnsTypePTR \<equiv> (12 :: u16)"
abbreviation "dnsTypeTXT \<equiv> (16 :: u16)"
abbreviation "dnsTypeAAAA \<equiv> (28 :: u16)"
abbreviation "dnsTypeSRV \<equiv> (33 :: u16)"
abbreviation "dnsTypeANY \<equiv> (255 :: u16)"
abbreviation "dnsClassIN \<equiv> (1 :: u16)"
abbreviation "dnsFlushBit \<equiv> (0x8000 :: u16)"

abbreviation dot :: byte where "dot \<equiv> 0x2e"

subsection \<open>Names\<close>

definition encodeLabel :: "bytes \<Rightarrow> bytes" where
  "encodeLabel label = (let l = (if length label > 63 then take 63 label else label)
     in of_nat (length l) # l)"

definition encodeName :: "bytes \<Rightarrow> bytes" where
  "encodeName name0 =
     (let name = trimSuffix name0 [dot] in
      if name = [] then [0] else concat (map encodeLabel (split1 dot name)) @ [0])"

text \<open>
  The loop of \<^verbatim>\<open>parseName\<close>. \<open>fuel\<close> is what is left of the safety counter (\<^verbatim>\<open>safety > 128\<close> is
  \<open>fuel = 0\<close>); \<open>nxt\<close> is read only after it has been set.
\<close>

fun parseNameLoop :: "nat \<Rightarrow> bytes \<Rightarrow> nat \<Rightarrow> bytes list \<Rightarrow> bool \<Rightarrow> nat \<Rightarrow> (bytes \<times> nat) option option" where
  "parseNameLoop fuel b off labels jumped nxt =
     (if off \<ge> length b then Some None
      else (case fuel of 0 \<Rightarrow> Some None
      | Suc fuel' \<Rightarrow> do {
          l \<leftarrow> idx b off;
          if l = 0 then Some (Some (join1 dot labels, if jumped then nxt else off + 1))
          else if l AND 0xC0 = 0xC0 then
            (if off + 1 \<ge> length b then Some None
             else do {
               lo \<leftarrow> idx b (off + 1);
               let ptr = unat (l AND 0x3F) * 256 + unat lo in
               if ptr \<ge> off then Some None
               else parseNameLoop fuel' b ptr labels True (if jumped then nxt else off + 2)
             })
          else if off + 1 + unat l > length b then Some None
          else do {
            label \<leftarrow> gslice b (off + 1) (off + 1 + unat l);
            parseNameLoop fuel' b (off + 1 + unat l) (labels @ [label]) jumped nxt
          }
        }))"

declare parseNameLoop.simps [simp del]

definition parseName :: "bytes \<Rightarrow> nat \<Rightarrow> (bytes \<times> nat) option option" where
  "parseName b off = parseNameLoop 128 b off [] False 0"

text \<open>The idiom \<^verbatim>\<open>name, next, ok := parseName(b, off); if !ok { ... }\<close>.\<close>

definition nameThen :: "bytes \<Rightarrow> nat \<Rightarrow> 'a option \<Rightarrow> (bytes \<Rightarrow> nat \<Rightarrow> 'a option) \<Rightarrow> 'a option" where
  "nameThen b off fail k = do {
     r \<leftarrow> parseName b off;
     (case r of None \<Rightarrow> fail | Some (name, nxt) \<Rightarrow> k name nxt)
   }"

subsection \<open>Resource data\<close>

definition rdataPTR :: "bytes \<Rightarrow> bytes" where
  "rdataPTR target = encodeName target"

definition rdataSRV :: "u16 \<Rightarrow> u16 \<Rightarrow> u16 \<Rightarrow> bytes \<Rightarrow> bytes" where
  "rdataSRV priority weight port target = be16 priority @ be16 weight @ be16 port @ encodeName target"

definition rdataTXT :: "bytes list \<Rightarrow> bytes" where
  "rdataTXT pairs =
     (if pairs = [] then [0]
      else concat (map (\<lambda>p. let p' = (if length p > 255 then take 255 p else p)
                            in of_nat (length p') # p') pairs))"

text \<open>\<^verbatim>\<open>net.IP\<close> is a byte slice of 4 or 16 octets; \<^verbatim>\<open>To4\<close> and \<^verbatim>\<open>To16\<close> convert, \<open>[]\<close> being nil.\<close>

definition v4InV6Prefix :: bytes where
  "v4InV6Prefix = replicate 10 0 @ [0xff, 0xff]"

definition to4 :: "bytes \<Rightarrow> bytes" where
  "to4 ip = (if length ip = 4 then ip
     else if length ip = 16 \<and> take 12 ip = v4InV6Prefix then drop 12 ip else [])"

definition to16 :: "bytes \<Rightarrow> bytes" where
  "to16 ip = (if length ip = 4 then v4InV6Prefix @ ip else if length ip = 16 then ip else [])"

definition rdataA :: "bytes \<Rightarrow> bytes" where "rdataA ip = to4 ip"
definition rdataAAAA :: "bytes \<Rightarrow> bytes" where "rdataAAAA ip = to16 ip"

subsection \<open>Questions and records\<close>

record dns_question =
  q_name :: bytes
  qtype :: u16
  unicast :: bool

record dns_record =
  r_name :: bytes
  rtype :: u16
  ttl :: u32
  rdata :: bytes
  flush :: bool

abbreviation ttlDNSSD :: u32 where "ttlDNSSD \<equiv> 4500"
abbreviation ttlHost :: u32 where "ttlHost \<equiv> 120"

fun parseQuestionLoop :: "nat \<Rightarrow> bytes \<Rightarrow> nat \<Rightarrow> dns_question list \<Rightarrow> dns_question list option option" where
  "parseQuestionLoop 0 b off out = Some (Some out)"
| "parseQuestionLoop (Suc n) b off out =
     nameThen b off (Some None) (\<lambda>name nxt.
       if nxt + 4 > length b then Some None
       else do {
         qt \<leftarrow> get_be16 b nxt;
         qclass \<leftarrow> get_be16 b (nxt + 2);
         parseQuestionLoop n b (nxt + 4)
           (out @ [\<lparr>q_name = name, qtype = qt, unicast = (qclass AND dnsFlushBit \<noteq> 0)\<rparr>])
       })"

definition parseQuestions :: "bytes \<Rightarrow> dns_question list option option" where
  "parseQuestions b =
     (if length b < 12 then Some None
      else do { qd \<leftarrow> get_be16 b 4; parseQuestionLoop (unat qd) b 12 [] })"

definition encodeRR :: "dns_record \<Rightarrow> bytes" where
  "encodeRR r = encodeName (r_name r)
     @ be16 (rtype r) @ be16 (if flush r then dnsClassIN OR dnsFlushBit else dnsClassIN) @ be32 (ttl r)
     @ be16 (of_nat (length (rdata r))) @ rdata r"

definition buildResponse :: "dns_record list \<Rightarrow> bytes" where
  "buildResponse answers =
     put (put (replicate 12 0) 2 (be16 0x8400)) 6 (be16 (of_nat (length answers)))
       @ concat (map encodeRR answers)"

definition buildProbe :: "bytes \<Rightarrow> bytes" where
  "buildProbe name = put (replicate 12 0) 4 (be16 1) @ encodeName name
     @ be16 dnsTypeANY @ be16 dnsClassIN"

text \<open>
  \<^verbatim>\<open>knownAnswers\<close>: skip the questions, then decode the answers, keeping what was decoded before
  the first error.
\<close>

fun skipQuestions :: "nat \<Rightarrow> bytes \<Rightarrow> nat \<Rightarrow> nat option option" where
  "skipQuestions 0 b off = Some (Some off)"
| "skipQuestions (Suc n) b off =
     nameThen b off (Some None) (\<lambda>_ nxt.
       if nxt + 4 > length b then Some None else skipQuestions n b (nxt + 4))"

fun answerLoop :: "nat \<Rightarrow> bytes \<Rightarrow> nat \<Rightarrow> dns_record list \<Rightarrow> dns_record list option" where
  "answerLoop 0 b off out = Some out"
| "answerLoop (Suc n) b off out =
     nameThen b off (Some out) (\<lambda>name nxt.
       if nxt + 10 > length b then Some out
       else do {
         rt \<leftarrow> get_be16 b nxt;
         tl' \<leftarrow> get_be32 b (nxt + 4);
         rdlen \<leftarrow> get_be16 b (nxt + 8);
         let rdStart = nxt + 10 in
         if rdStart + unat rdlen > length b then Some out
         else do {
           d \<leftarrow> gslice b rdStart (rdStart + unat rdlen);
           answerLoop n b (rdStart + unat rdlen)
             (out @ [\<lparr>r_name = name, rtype = rt, ttl = tl', rdata = d, flush = False\<rparr>])
         }
       })"

definition knownAnswers :: "bytes \<Rightarrow> dns_record list option" where
  "knownAnswers b =
     (if length b < 12 then Some []
      else do {
        qd \<leftarrow> get_be16 b 4;
        an \<leftarrow> get_be16 b 6;
        r \<leftarrow> skipQuestions (unat qd) b 12;
        (case r of None \<Rightarrow> Some [] | Some off \<Rightarrow> answerLoop (unat an) b off [])
      })"

subsection \<open>No input makes the parsers panic\<close>

lemma parseNameLoop_returns: "parseNameLoop fuel b off labels jumped nxt \<noteq> None"
proof (induction fuel arbitrary: off labels jumped nxt)
  case 0
  then show ?case by (subst parseNameLoop.simps) simp
next
  case (Suc fuel)
  then show ?case by (subst parseNameLoop.simps) (auto simp: Let_def)
qed

lemma parseName_returns [no_panic]: "parseName b off \<noteq> None"
  by (simp add: parseName_def parseNameLoop_returns del: not_None_eq)

lemma parseNameLoop_bounds:
  "parseNameLoop fuel b off labels jumped nxt = Some (Some (name, n)) \<Longrightarrow>
   (jumped \<Longrightarrow> nxt \<le> length b) \<Longrightarrow> n \<le> length b \<and> (if jumped then n = nxt else off < n)"
proof (induction fuel arbitrary: off labels jumped nxt)
  case 0
  then show ?case by (subst (asm) parseNameLoop.simps) (simp split: if_splits)
next
  case (Suc fuel)
  from Suc.prems(1) show ?case
  proof (subst (asm) parseNameLoop.simps, auto simp: Let_def split: if_splits simp del: not_le, goal_cases)
  qed (use Suc.IH Suc.prems(2) in \<open>force+\<close>)
qed

lemma nameThen_returns [no_panic]:
  "fail \<noteq> None \<Longrightarrow> (\<And>name n. n \<le> length b \<Longrightarrow> k name n \<noteq> None) \<Longrightarrow> nameThen b off fail k \<noteq> None"
  using parseName_returns [of b off] parseNameLoop_bounds [of 128 b off "[]" False 0]
  by (auto simp: nameThen_def parseName_def split: option.splits)

lemma parseQuestionLoop_returns [no_panic]: "parseQuestionLoop n b off out \<noteq> None"
proof (induction n arbitrary: off out)
  case (Suc n)
  then show ?case unfolding parseQuestionLoop.simps by (intro no_panic Suc) auto
qed simp

lemma parseQuestions_returns [no_panic]: "parseQuestions b \<noteq> None"
  unfolding parseQuestions_def by (intro no_panic) auto

lemma skipQuestions_returns [no_panic]: "skipQuestions n b off \<noteq> None"
proof (induction n arbitrary: off)
  case (Suc n)
  then show ?case unfolding skipQuestions.simps by (intro no_panic Suc)
qed simp

lemma answerLoop_returns [no_panic]: "answerLoop n b off out \<noteq> None"
proof (induction n arbitrary: off out)
  case (Suc n)
  then show ?case unfolding answerLoop.simps Let_def by (intro no_panic Suc) auto
qed simp

lemma knownAnswers_returns [no_panic]: "knownAnswers b \<noteq> None"
  unfolding knownAnswers_def by (intro no_panic) auto

subsection \<open>Names round-trip\<close>

lemma label_octet:
  assumes "0 < k" "k \<le> 63"
  shows "(of_nat k :: byte) \<noteq> 0" "(of_nat k :: byte) AND 0xC0 \<noteq> 0xC0" "unat (of_nat k :: byte) = k"
proof -
  show u: "unat (of_nat k :: byte) = k" using assms by (simp add: unat_of_nat)
  then show "(of_nat k :: byte) \<noteq> 0" using assms by auto
  have "(of_nat k :: byte) = of_nat (take_bit 6 k)"
    using assms by (simp add: take_bit_nat_eq_self)
  then have "(of_nat k :: byte) = take_bit 6 (of_nat k)" by (simp add: take_bit_of_nat)
  moreover have "take_bit 6 x AND (0xC0 :: byte) = 0" for x :: byte
    by (rule bit_eqI) (auto simp: bit_simps numeral_eq_Suc less_Suc_eq)
  ultimately have "(of_nat k :: byte) AND 0xC0 = 0" by metis
  then show "(of_nat k :: byte) AND 0xC0 \<noteq> 0xC0" by simp
qed

definition wf_label :: "bytes \<Rightarrow> bool" where
  "wf_label l \<longleftrightarrow> l \<noteq> [] \<and> length l \<le> 63"

lemma encodeLabel_wf: "wf_label l \<Longrightarrow> encodeLabel l = of_nat (length l) # l"
  by (simp add: encodeLabel_def wf_label_def Let_def)

lemma parse_labels:
  assumes "list_all wf_label ls" "length ls < fuel"
  shows "parseNameLoop fuel (pre @ concat (map encodeLabel ls) @ [0] @ post) (length pre) acc jumped nxt
    = Some (Some (join1 dot (acc @ ls),
        if jumped then nxt else length pre + length (concat (map encodeLabel ls)) + 1))"
  using assms
proof (induction ls arbitrary: pre acc fuel)
  case Nil
  then obtain f where "fuel = Suc f" by (cases fuel) auto
  then show ?case by (subst parseNameLoop.simps) (simp add: idx_append)
next
  case (Cons l ls)
  then obtain f where f: "fuel = Suc f" by (cases fuel) auto
  have l: "wf_label l" "0 < length l" "length l \<le> 63" using Cons.prems by (auto simp: wf_label_def)
  let ?t = "concat (map encodeLabel ls) @ [0] @ post"
  let ?b = "pre @ of_nat (length l) # l @ ?t"
  have b: "pre @ concat (map encodeLabel (l # ls)) @ [0] @ post = ?b"
    by (simp add: encodeLabel_wf [OF l(1)])
  note o = label_octet [OF l(2,3)]
  have i: "idx ?b (length pre) = Some (of_nat (length l))" by (rule idx_append)
  have g: "gslice ?b (length pre + 1) (length pre + 1 + length l) = Some l"
    using slice_append [of "length pre + 1" "pre @ [of_nat (length l)]" "length pre + 1 + length l" l ?t] by simp
  have IH: "parseNameLoop f ?b (length pre + 1 + length l) (acc @ [l]) jumped nxt
    = Some (Some (join1 dot ((acc @ [l]) @ ls), if jumped then nxt
         else length pre + 1 + length l + length (concat (map encodeLabel ls)) + 1))"
    using Cons.IH [of f "pre @ of_nat (length l) # l" "acc @ [l]"] Cons.prems f by simp
  show ?case
    unfolding b using f i g IH o
    by (subst parseNameLoop.simps) (simp add: encodeLabel_wf [OF l(1)])
qed

text \<open>The names that have a wire form: labels of one to 63 octets, fewer than the safety counter.\<close>

definition wf_name :: "bytes \<Rightarrow> bool" where
  "wf_name name \<longleftrightarrow> name = [] \<or>
     (\<not> is_suffix [dot] name \<and> list_all wf_label (split1 dot name) \<and> length (split1 dot name) < 128)"

definition labelsOf :: "bytes \<Rightarrow> bytes list" where
  "labelsOf name = (if name = [] then [] else split1 dot name)"

lemma labelsOf_wf:
  assumes "wf_name name"
  shows "list_all wf_label (labelsOf name)" "length (labelsOf name) < 128" "join1 dot (labelsOf name) = name"
    and "encodeName name = concat (map encodeLabel (labelsOf name)) @ [0]"
proof -
  show "list_all wf_label (labelsOf name)" "length (labelsOf name) < 128" "join1 dot (labelsOf name) = name"
    using assms by (auto simp: labelsOf_def wf_name_def)
  show "encodeName name = concat (map encodeLabel (labelsOf name)) @ [0]"
  proof (cases "name = []")
    case True
    then show ?thesis by (simp add: encodeName_def labelsOf_def trimSuffix_def is_suffix_def)
  next
    case False
    with assms have "\<not> is_suffix [dot] name" by (simp add: wf_name_def)
    with False show ?thesis by (simp add: encodeName_def labelsOf_def trimSuffix_id)
  qed
qed

lemma parseName_encode:
  assumes "wf_name name"
  shows "parseName (pre @ encodeName name @ post) (length pre)
    = Some (Some (name, length pre + length (encodeName name)))"
  unfolding labelsOf_wf(4) [OF assms] parseName_def append_assoc
  by (subst parse_labels) (simp_all add: labelsOf_wf [OF assms])

lemma nameThen_encode:
  assumes "drop off b = encodeName name @ post" "off \<le> length b" "wf_name name"
  shows "nameThen b off fail k = k name (off + length (encodeName name))"
proof -
  have "b = take off b @ encodeName name @ post" by (metis append_take_drop_id assms(1))
  moreover have "length (take off b) = off" using assms(2) by simp
  ultimately have "parseName b off = Some (Some (name, off + length (encodeName name)))"
    using parseName_encode [OF assms(3), of "take off b" post] by simp
  then show ?thesis by (simp add: nameThen_def)
qed

text \<open>A compression pointer to an earlier name.\<close>

lemma pointer_octet:
  assumes "k < 64"
  shows "(0xC0 OR of_nat k) \<noteq> (0 :: byte)" "(0xC0 OR of_nat k) AND 0xC0 = (0xC0 :: byte)"
    "unat ((0xC0 OR of_nat k) AND (0x3F :: byte)) = k"
proof -
  have "(of_nat k :: byte) = of_nat (take_bit 6 k)"
    using assms by (simp add: take_bit_nat_eq_self)
  then have t: "(of_nat k :: byte) = take_bit 6 (of_nat k)" by (simp add: take_bit_of_nat)
  show two: "(0xC0 OR of_nat k) AND 0xC0 = (0xC0 :: byte)"
    by (rule bit_eqI) (auto simp: bit_simps)
  show "(0xC0 OR of_nat k) \<noteq> (0 :: byte)"
  proof
    assume "(0xC0 OR of_nat k) = (0 :: byte)"
    with two have "(0 :: byte) AND 0xC0 = 0xC0" by (simp only:)
    then show False by simp
  qed
  have "take_bit 6 x AND (0x3F :: byte) = take_bit 6 x" for x :: byte
    by (simp add: take_bit_eq_mask mask_eq_decr_exp)
  then have "(of_nat k :: byte) AND 0x3F = of_nat k" using t by metis
  then have "(0xC0 OR of_nat k) AND (0x3F :: byte) = of_nat k" by (simp add: word_ao_dist)
  then show "unat ((0xC0 OR of_nat k) AND (0x3F :: byte)) = k"
    using assms by (simp add: unat_of_nat)
qed

definition pointerTo :: "nat \<Rightarrow> bytes" where
  "pointerTo p = [0xC0 OR of_nat (p div 256), of_nat (p mod 256)]"

lemma pointer_step:
  assumes "p < length xs" "p < 2 ^ 14"
  shows "parseNameLoop (Suc fuel) (xs @ pointerTo p @ post) (length xs) labels jumped nxt
    = parseNameLoop fuel (xs @ pointerTo p @ post) p labels True (if jumped then nxt else length xs + 2)"
proof -
  have k: "p div 256 < 64" using assms(2) by (simp add: less_mult_imp_div_less)
  have lo: "unat (of_nat (p mod 256) :: byte) = p mod 256" by (simp add: unat_of_nat)
  show ?thesis
    using assms(1)
    by (subst parseNameLoop.simps) (simp add: pointerTo_def idx_def nth_append pointer_octet [OF k] lo Let_def)
qed

lemma parseName_pointer:
  assumes "wf_name name" "length (labelsOf name) < 127" "length pre < 2 ^ 14"
  shows "parseName (pre @ encodeName name @ mid @ pointerTo (length pre) @ post)
      (length pre + length (encodeName name) + length mid)
    = Some (Some (name, length pre + length (encodeName name) + length mid + 2))"
proof -
  let ?p = "length pre" and ?xs = "pre @ encodeName name @ mid"
  let ?b = "?xs @ pointerTo ?p @ post"
  have lt: "?p < length ?xs" by (simp add: labelsOf_wf(4) [OF assms(1)])
  have loop: "parseNameLoop 127 ?b ?p [] True (length ?xs + 2) = Some (Some (name, length ?xs + 2))"
    using parse_labels [of "labelsOf name" 127 pre "mid @ pointerTo ?p @ post" "[]" True "length ?xs + 2"] assms
    unfolding labelsOf_wf(4) [OF assms(1)] append_assoc by (simp add: labelsOf_wf)
  have f: "(128 :: nat) = Suc 127" by simp
  have "parseName ?b (length ?xs) = Some (Some (name, length ?xs + 2))"
    unfolding parseName_def f pointer_step [OF lt assms(3)] using loop by simp
  then show ?thesis by (simp add: add.assoc)
qed

subsection \<open>Records and questions round-trip\<close>

definition wf_rr :: "dns_record \<Rightarrow> bool" where
  "wf_rr r \<longleftrightarrow> wf_name (r_name r) \<and> length (rdata r) < 2 ^ 16"

lemma answerLoop_encode:
  assumes "list_all wf_rr rs" "drop off b = concat (map encodeRR rs)" "off \<le> length b"
  shows "answerLoop (length rs) b off out = Some (out @ map (\<lambda>r. r\<lparr>flush := False\<rparr>) rs)"
  using assms
proof (induction rs arbitrary: off out)
  case (Cons r rs)
  let ?rest = "concat (map encodeRR rs)" and ?n = "off + length (encodeName (r_name r))"
  let ?cls = "if flush r then dnsClassIN OR dnsFlushBit else dnsClassIN"
  let ?len = "of_nat (length (rdata r)) :: u16"
  have wf: "wf_name (r_name r)" and l: "length (rdata r) < 2 ^ 16" using Cons.prems by (simp_all add: wf_rr_def)
  have ul: "unat ?len = length (rdata r)" using l by (simp add: unat_of_nat)
  have d0: "drop off b = encodeName (r_name r) @ be16 (rtype r) @ be16 ?cls @ be32 (ttl r) @ be16 ?len @ rdata r @ ?rest"
    using Cons.prems(2) by (simp add: encodeRR_def [of r])
  have d1: "drop ?n b = be16 (rtype r) @ be16 ?cls @ be32 (ttl r) @ be16 ?len @ rdata r @ ?rest"
    by (rule drop_advance [OF d0]) simp
  have d2: "drop (?n + 4) b = be32 (ttl r) @ be16 ?len @ rdata r @ ?rest"
    by (rule drop_advance [of ?n b "be16 (rtype r) @ be16 ?cls"]) (simp_all add: d1)
  have d3: "drop (?n + 8) b = be16 ?len @ rdata r @ ?rest"
    by (rule drop_advance [OF d2]) simp
  have d4: "drop (?n + 10) b = rdata r @ ?rest"
    by (rule drop_advance [OF d3]) simp
  have d5: "drop (?n + 10 + length (rdata r)) b = ?rest"
    by (rule drop_advance [OF d4]) simp
  have len: "length b = ?n + 10 + length (rdata r) + length ?rest"
    using length_drop_advance [OF d0 Cons.prems(3)] by simp
  have g: "get_be16 b ?n = Some (rtype r)" "get_be32 b (?n + 4) = Some (ttl r)" "get_be16 b (?n + 8) = Some ?len"
    using get_be_drop [OF d1] get_be_drop [OF d2] get_be_drop [OF d3] len by simp_all
  have sl: "gslice b (?n + 10) (?n + 10 + length (rdata r)) = Some (rdata r)"
    using gslice_drop [OF d4] len by simp
  have IH: "answerLoop (length rs) b (?n + 10 + length (rdata r)) (out @ [r\<lparr>flush := False\<rparr>])
      = Some ((out @ [r\<lparr>flush := False\<rparr>]) @ map (\<lambda>r. r\<lparr>flush := False\<rparr>) rs)"
    using Cons.IH [OF _ d5] Cons.prems(1) len by simp
  have rec: "\<lparr>r_name = r_name r, rtype = rtype r, ttl = ttl r, rdata = rdata r, flush = False\<rparr> = r\<lparr>flush := False\<rparr>"
    by simp
  show ?case
    unfolding list.size add_Suc_right add_0_right answerLoop.simps nameThen_encode [OF d0 Cons.prems(3) wf]
    using g sl IH len by (simp add: Let_def ul rec del: dns_record.simps)
qed simp

lemma header_counts:
  fixes v :: u16
  shows "get_be16 (put (put (replicate 12 0) 2 (be16 v)) 6 (be16 c) @ rest) 4 = Some 0"
    and "get_be16 (put (put (replicate 12 0) 2 (be16 v)) 6 (be16 c) @ rest) 6 = Some c"
proof -
  have e: "put (put (replicate 12 0) 2 (be16 v)) 6 (be16 c)
      = ([0, 0] @ be16 v) @ be16 0 @ be16 c @ replicate 4 0"
    by (simp add: put_def numeral_eq_Suc be_enc_def)
  show "get_be16 (put (put (replicate 12 0) 2 (be16 v)) 6 (be16 c) @ rest) 4 = Some 0"
    unfolding e using get_be_append [of 4 "[0, 0] @ be16 v" 2 "0 :: u16" "be16 c @ replicate 4 0 @ rest"] by simp
  show "get_be16 (put (put (replicate 12 0) 2 (be16 v)) 6 (be16 c) @ rest) 6 = Some c"
    unfolding e using get_be_append [of 6 "[0, 0] @ be16 v @ be16 0" 2 c "replicate 4 0 @ rest"] by simp
qed

lemma knownAnswers_buildResponse:
  assumes "list_all wf_rr rs" "length rs < 2 ^ 16"
  shows "knownAnswers (buildResponse rs) = Some (map (\<lambda>r. r\<lparr>flush := False\<rparr>) rs)"
proof -
  let ?h = "put (put (replicate 12 0) 2 (be16 0x8400)) 6 (be16 (of_nat (length rs)))"
  let ?b = "buildResponse rs"
  have len: "length ?h = 12" by simp
  have b: "?b = ?h @ concat (map encodeRR rs)" by (simp add: buildResponse_def)
  have d: "drop 12 ?b = concat (map encodeRR rs)" unfolding b using len by simp
  have l12: "12 \<le> length ?b" unfolding b using len by simp
  have u: "unat (of_nat (length rs) :: u16) = length rs" using assms(2) by (simp add: unat_of_nat)
  have "answerLoop (length rs) ?b 12 [] = Some (map (\<lambda>r. r\<lparr>flush := False\<rparr>) rs)"
    using answerLoop_encode [OF assms(1) d l12, of "[]"] by simp
  moreover have "get_be16 ?b 4 = Some 0" "get_be16 ?b 6 = Some (of_nat (length rs))"
    unfolding b by (rule header_counts)+
  ultimately show ?thesis using l12 by (simp add: knownAnswers_def u)
qed

lemma parseQuestions_buildProbe:
  assumes "wf_name name"
  shows "parseQuestions (buildProbe name)
    = Some (Some [\<lparr>q_name = name, qtype = dnsTypeANY, unicast = False\<rparr>])"
proof -
  let ?h = "put (replicate 12 0) 4 (be16 1)" and ?b = "buildProbe name"
  have b: "?b = ?h @ encodeName name @ be16 dnsTypeANY @ be16 dnsClassIN" by (simp add: buildProbe_def)
  have e: "?h = [0, 0, 0, 0] @ be16 1 @ replicate 6 0"
    by (simp add: put_def numeral_eq_Suc)
  have qd: "get_be16 ?b 4 = Some 1"
    unfolding b e using get_be_append [of 4 "[0, 0, 0, 0]" 2 "1 :: u16"] by simp
  have l12: "length ?h = 12" by simp
  let ?n = "12 + length (encodeName name)"
  have d0: "drop 12 ?b = encodeName name @ be16 dnsTypeANY @ be16 dnsClassIN" unfolding b using l12 by simp
  have d1: "drop ?n ?b = be16 dnsTypeANY @ be16 dnsClassIN" by (rule drop_advance [OF d0]) simp
  have d2: "drop (?n + 2) ?b = be16 dnsClassIN" by (rule drop_advance [OF d1]) simp
  have len: "length ?b = ?n + 4" unfolding b using l12 by simp
  have g: "get_be16 ?b ?n = Some dnsTypeANY" "get_be16 ?b (?n + 2) = Some dnsClassIN"
    using get_be_drop [OF d1] get_be_drop [of "?n + 2" ?b 2 dnsClassIN "[]"] d2 len by simp_all
  have one: "unat (1 :: u16) = Suc 0" by simp
  show ?thesis
    using len g unfolding parseQuestions_def
    by (simp add: qd one nameThen_encode [OF d0 _ assms])
qed

end
