(* ===== verification/Mdns.thy ===== *)
theory Mdns
  imports Dns_Msg Config_Types
begin

text \<open>
  Service discovery: the DNS-SD services derived from the bound listeners (\<^verbatim>\<open>dnssd.go\<close>) and the mDNS
  responder (\<^verbatim>\<open>mdns.go\<close>). Sockets are left out: a received datagram is the argument of
  \<open>serveQuery\<close> and what would be written to a socket is its result.
\<close>

subsection \<open>Services\<close>

record svc_addrs =
  a_host :: bytes
  a_v4 :: "bytes list"
  a_v6 :: "bytes list"

record service =
  s_instance :: bytes
  svcType :: bytes
  s_port :: u16
  svcTxt :: "bytes list"
  subtypes :: "bytes list"

record bound_listeners =
  bl_IPP :: int
  bl_IPPS :: int
  bl_Raw9100 :: int
  bl_LPR :: int
  bl_Dash :: int

record mdns_conf =
  mdnsInstance :: bytes
  mdnsHostname :: bytes
  defaultPath :: bytes

definition instanceName :: "service \<Rightarrow> bytes" where
  "instanceName s = s_instance s @ str ''.'' @ svcType s @ str ''.local''"

definition browseName :: "service \<Rightarrow> bytes" where
  "browseName s = svcType s @ str ''.local''"

definition boolTF :: "bool \<Rightarrow> bytes" where
  "boolTF b = (if b then str ''T'' else str ''F'')"

definition urfSupported :: "bytes list" where
  "urfSupported = [str ''V1.4'', str ''W8'', str ''SRGB24'', str ''RS300-600'']"

definition urfTxt :: bytes where
  "urfTxt = join1 0x2c urfSupported"

definition resolveInstance :: "mdns_conf \<Rightarrow> printer_conf \<Rightarrow> bytes" where
  "resolveInstance mc p = (if mdnsInstance mc \<noteq> [] then mdnsInstance mc else p_name p)"

definition hostSafe :: "byte \<Rightarrow> bool" where
  "hostSafe c = ((0x41 \<le> c \<and> c \<le> 0x5a) \<or> (0x61 \<le> c \<and> c \<le> 0x7a) \<or> isDigit c \<or> c = 0x2d)"

text \<open>\<^verbatim>\<open>hostUnsafe.ReplaceAllString(s, "-")\<close>: every maximal run of unsafe octets becomes one hyphen.\<close>

fun replaceUnsafe :: "bool \<Rightarrow> bytes \<Rightarrow> bytes" where
  "replaceUnsafe inRun [] = []"
| "replaceUnsafe inRun (c # cs) =
     (if hostSafe c then c # replaceUnsafe False cs
      else if inRun then replaceUnsafe True cs
      else 0x2d # replaceUnsafe True cs)"

definition trimHyphens :: "bytes \<Rightarrow> bytes" where
  "trimHyphens s = trimRight (dropWhile (\<lambda>c. c = 0x2d) s) (\<lambda>c. c = 0x2d)"

definition resolveHost :: "mdns_conf \<Rightarrow> printer_conf \<Rightarrow> bytes" where
  "resolveHost mc p =
     (if mdnsHostname mc \<noteq> [] then trimSuffix (mdnsHostname mc) (str ''.local'') @ str ''.local''
      else (let base = trimHyphens (replaceUnsafe False (p_name p))
            in (if base = [] then str ''printcap'' else base) @ str ''.local''))"

definition containsAnyTwoSided :: "bytes list \<Rightarrow> bool" where
  "containsAnyTwoSided sides = list_ex (\<lambda>s. is_prefix (str ''two-sided'') s) sides"

definition ippTxt :: "mdns_conf \<Rightarrow> printer_conf \<Rightarrow> bytes \<Rightarrow> bool \<Rightarrow> bytes list" where
  "ippTxt mc p adminurl tls =
     [str ''txtvers=1'', str ''qtotal=1'',
      str ''rp='' @ trimPrefix (orElse (defaultPath mc) (str ''/ipp/print'')) (str ''/''),
      str ''ty='' @ makeAndModel p,
      str ''product=('' @ makeAndModel p @ str '')'',
      str ''note='' @ p_location p,
      str ''pdl='' @ join1 0x2c (documentFormats p),
      str ''UUID='' @ str ''00000000-0000-1000-8000-000000000001'',
      str ''Color='' @ boolTF (p_color p),
      str ''Duplex='' @ boolTF (containsAnyTwoSided (p_sides p)),
      str ''URF='' @ urfTxt,
      str ''kind=document'']
     @ (if adminurl \<noteq> [] then [str ''adminurl='' @ adminurl] else [])
     @ (if tls then [str ''TLS=1.2''] else [])"

definition buildServices :: "mdns_conf \<Rightarrow> printer_conf \<Rightarrow> bound_listeners \<Rightarrow> bool \<Rightarrow> bytes \<Rightarrow> service list" where
  "buildServices mc p bl airprint inst =
     (let pdl = join1 0x2c (documentFormats p);
          adminurl = (if bl_Dash bl > 0
            then str ''http://'' @ resolveHost mc p @ str '':'' @ itoa (nat (bl_Dash bl)) @ str ''/'' else []);
          subs = (if airprint then [str ''_universal'', str ''_cups''] else []);
          rawTxt = [str ''txtvers=1'', str ''qtotal=1'', str ''ty='' @ makeAndModel p,
            str ''product=('' @ makeAndModel p @ str '')'', str ''note='' @ p_location p,
            str ''pdl='' @ pdl, str ''Transparent=T'', str ''Binary=T''];
          lprTxt = [str ''txtvers=1'', str ''qtotal=1'', str ''rp=auto'', str ''ty='' @ makeAndModel p,
            str ''note='' @ p_location p]
      in (if bl_IPP bl > 0 then [\<lparr>s_instance = inst, svcType = str ''_ipp._tcp'',
            s_port = word_of_int (bl_IPP bl), svcTxt = ippTxt mc p adminurl False, subtypes = subs\<rparr>] else [])
       @ (if bl_IPPS bl > 0 then [\<lparr>s_instance = inst, svcType = str ''_ipps._tcp'',
            s_port = word_of_int (bl_IPPS bl), svcTxt = ippTxt mc p adminurl True, subtypes = subs\<rparr>] else [])
       @ (if bl_Raw9100 bl > 0 then [\<lparr>s_instance = inst, svcType = str ''_pdl-datastream._tcp'',
            s_port = word_of_int (bl_Raw9100 bl), svcTxt = rawTxt, subtypes = []\<rparr>] else [])
       @ (if bl_LPR bl > 0 then [\<lparr>s_instance = inst, svcType = str ''_printer._tcp'',
            s_port = word_of_int (bl_LPR bl), svcTxt = lprTxt, subtypes = []\<rparr>] else []))"

subsection \<open>Answers\<close>

definition metaQuery :: bytes where
  "metaQuery = str ''_services._dns-sd._udp.local''"

definition hostRecordsFor :: "svc_addrs \<Rightarrow> u16 \<Rightarrow> dns_record list" where
  "hostRecordsFor a qt =
     (if qt = dnsTypeA \<or> qt = dnsTypeANY
      then map (\<lambda>ip. \<lparr>r_name = a_host a, rtype = dnsTypeA, ttl = ttlHost, rdata = rdataA ip, flush = True\<rparr>) (a_v4 a)
      else [])
     @ (if qt = dnsTypeAAAA \<or> qt = dnsTypeANY
      then map (\<lambda>ip. \<lparr>r_name = a_host a, rtype = dnsTypeAAAA, ttl = ttlHost, rdata = rdataAAAA ip, flush = True\<rparr>) (a_v6 a)
      else [])"

definition hostRecords :: "svc_addrs \<Rightarrow> dns_record list" where
  "hostRecords a = hostRecordsFor a dnsTypeANY"

definition txtRecord :: "service \<Rightarrow> dns_record" where
  "txtRecord s = \<lparr>r_name = instanceName s, rtype = dnsTypeTXT, ttl = ttlDNSSD, rdata = rdataTXT (svcTxt s), flush = True\<rparr>"

definition ptrRecord :: "bytes \<Rightarrow> bytes \<Rightarrow> dns_record" where
  "ptrRecord name target = \<lparr>r_name = name, rtype = dnsTypePTR, ttl = ttlDNSSD, rdata = rdataPTR target, flush = False\<rparr>"

definition srvAndTxt :: "service \<Rightarrow> svc_addrs \<Rightarrow> dns_record list" where
  "srvAndTxt s a =
     [\<lparr>r_name = instanceName s, rtype = dnsTypeSRV, ttl = ttlDNSSD,
       rdata = rdataSRV 0 0 (s_port s) (a_host a), flush = True\<rparr>, txtRecord s] @ hostRecords a"

definition subtypeName :: "bytes \<Rightarrow> service \<Rightarrow> bytes" where
  "subtypeName sub s = sub @ str ''._sub.'' @ svcType s @ str ''.local''"

definition answersOf :: "dns_question \<Rightarrow> svc_addrs \<Rightarrow> service \<Rightarrow> dns_record list" where
  "answersOf q a s =
     (let matchesType = (\<lambda>want. qtype q = want \<or> qtype q = dnsTypeANY) in
      (if q_name q = browseName s \<and> matchesType dnsTypePTR
         then ptrRecord (browseName s) (instanceName s) # srvAndTxt s a
       else if q_name q = instanceName s \<and> matchesType dnsTypeSRV then srvAndTxt s a
       else if q_name q = instanceName s \<and> matchesType dnsTypeTXT then [txtRecord s]
       else if q_name q = a_host a \<and> (matchesType dnsTypeA \<or> matchesType dnsTypeAAAA)
         then hostRecordsFor a (qtype q)
       else [])
      @ concat (map (\<lambda>sub. if q_name q = subtypeName sub s \<and> matchesType dnsTypePTR
                           then [ptrRecord (subtypeName sub s) (instanceName s)] else []) (subtypes s)))"

definition answersFor :: "dns_question \<Rightarrow> service list \<Rightarrow> svc_addrs \<Rightarrow> dns_record list" where
  "answersFor q svcs a =
     (if q_name q = metaQuery \<and> (qtype q = dnsTypePTR \<or> qtype q = dnsTypeANY)
      then map (\<lambda>s. ptrRecord metaQuery (browseName s)) svcs
      else concat (map (answersOf q a) svcs))"

definition recordKnown :: "dns_record \<Rightarrow> dns_record list \<Rightarrow> bool" where
  "recordKnown rec known =
     list_ex (\<lambda>k. r_name k = r_name rec \<and> rtype k = rtype rec \<and> ttl k \<ge> ttl rec div 2) known"

text \<open>
  One round of \<^verbatim>\<open>serve\<close>: silence is \<open>Some None\<close>; an answer is the datagram with the flag that says
  whether it goes to the querier alone.
\<close>

definition replyRecords :: "service list \<Rightarrow> svc_addrs \<Rightarrow> dns_record list \<Rightarrow> dns_question list \<Rightarrow> dns_record list" where
  "replyRecords svcs a known qs =
     concat (map (\<lambda>q. filter (\<lambda>rec. \<not> recordKnown rec known) (answersFor q svcs a)) qs)"

definition wantUnicast :: "service list \<Rightarrow> svc_addrs \<Rightarrow> dns_record list \<Rightarrow> dns_question list \<Rightarrow> bool" where
  "wantUnicast svcs a known qs =
     list_ex (\<lambda>q. unicast q \<and> filter (\<lambda>rec. \<not> recordKnown rec known) (answersFor q svcs a) \<noteq> []) qs"

definition serveQuery :: "service list \<Rightarrow> svc_addrs \<Rightarrow> bytes \<Rightarrow> (bool \<times> bytes) option option" where
  "serveQuery svcs a b = do {
     r \<leftarrow> parseQuestions b;
     (case r of None \<Rightarrow> Some None
      | Some qs \<Rightarrow> do {
          known \<leftarrow> knownAnswers b;
          let answers = replyRecords svcs a known qs in
          if answers = [] then Some None
          else Some (Some (wantUnicast svcs a known qs, buildResponse answers))
        })
   }"

subsection \<open>Announcing, withdrawing, resolving a name collision\<close>

definition recordsOf :: "svc_addrs \<Rightarrow> service \<Rightarrow> dns_record list" where
  "recordsOf a s = ptrRecord (browseName s) (instanceName s)
     # map (\<lambda>sub. ptrRecord (subtypeName sub s) (instanceName s)) (subtypes s) @ srvAndTxt s a"

definition allRecords :: "service list \<Rightarrow> svc_addrs \<Rightarrow> dns_record list" where
  "allRecords svcs a = concat (map (recordsOf a) svcs)"

record responder =
  m_conns :: nat
  m_svcs :: "service list"
  m_addrs :: svc_addrs
  m_closed :: bool

definition goodbyeMsg :: "responder \<Rightarrow> bytes" where
  "goodbyeMsg r = buildResponse (map (\<lambda>rec. rec\<lparr>ttl := 0\<rparr>) (allRecords (m_svcs r) (m_addrs r)))"

definition closeResponder :: "responder \<Rightarrow> responder \<times> bytes list" where
  "closeResponder r = (if m_closed r then (r, []) else (r\<lparr>m_closed := True\<rparr>, replicate (m_conns r) (goodbyeMsg r)))"

definition candidate :: "bytes \<Rightarrow> nat \<Rightarrow> bytes" where
  "candidate base n = base @ str '' ('' @ itoa n @ str '')''"

partial_function (option) uniqueFrom :: "bytes \<Rightarrow> bytes list \<Rightarrow> nat \<Rightarrow> bytes option" where
  "uniqueFrom base taken n =
     (if candidate base n \<notin> set taken then Some (candidate base n) else uniqueFrom base taken (n + 1))"

definition uniqueInstance :: "bytes \<Rightarrow> bytes list \<Rightarrow> bytes option" where
  "uniqueInstance base taken = (if base \<notin> set taken then Some base else uniqueFrom base taken 2)"

definition instanceFromAnswer :: "dns_record \<Rightarrow> bytes option" where
  "instanceFromAnswer rec =
     (if rtype rec = dnsTypePTR then do {
        r \<leftarrow> parseName (rdata rec) 0;
        Some (case r of None \<Rightarrow> [] | Some (name, _) \<Rightarrow> name)
      }
      else if rtype rec = dnsTypeSRV \<or> rtype rec = dnsTypeTXT then Some (r_name rec)
      else Some [])"

text \<open>
  The names a received answer adds to the \<^verbatim>\<open>taken\<close> set, and the renaming of
  \<^verbatim>\<open>probeAndResolve\<close> once the datagrams read before the deadline are known.
\<close>

definition takenBy :: "service list \<Rightarrow> bytes \<Rightarrow> bytes list" where
  "takenBy ss inst =
     (if inst = [] then []
      else concat (map (\<lambda>s. let suffix = str ''.'' @ browseName s in
        if is_suffix suffix inst then [trimSuffix inst suffix] else []) ss))"

fun takenFrom :: "service list \<Rightarrow> dns_record list \<Rightarrow> bytes list option" where
  "takenFrom ss [] = Some []"
| "takenFrom ss (rec # recs) = do {
     inst \<leftarrow> instanceFromAnswer rec;
     rest \<leftarrow> takenFrom ss recs;
     Some (takenBy ss inst @ rest)
   }"

definition probeAndResolve :: "bytes \<Rightarrow> service list \<Rightarrow> bytes list \<Rightarrow> service list option" where
  "probeAndResolve base ss datagrams =
     (if base = [] \<or> ss = [] then Some ss
      else do {
        recs \<leftarrow> those (map knownAnswers datagrams);
        taken \<leftarrow> takenFrom ss (concat recs);
        name \<leftarrow> uniqueInstance base taken;
        Some (if name \<noteq> base then map (\<lambda>s. s\<lparr>s_instance := name\<rparr>) ss else ss)
      })"

subsection \<open>Lemmas\<close>

lemma inj_itoa: "itoa m = itoa n \<Longrightarrow> m = n"
  using itoaAcc_val [of "[]" m] itoaAcc_val [of "[]" n] by (simp add: itoa_def digitsVal_def)

lemma inj_candidate: "inj (candidate base)"
  by (rule injI) (simp add: candidate_def inj_itoa)

lemma free_candidate: "\<exists>k. candidate base (n + k) \<notin> set taken"
proof (rule ccontr)
  assume "\<nexists>k. candidate base (n + k) \<notin> set taken"
  then have "range (\<lambda>k. candidate base (n + k)) \<subseteq> set taken" by auto
  moreover have "inj (\<lambda>k. candidate base (n + k))"
    using inj_candidate [of base] by (auto simp: inj_def intro: add_left_imp_eq)
  ultimately show False by (meson finite_set finite_subset infinite_UNIV_nat finite_imageD)
qed

lemma uniqueFrom_returns:
  "candidate base (n + k) \<notin> set taken \<Longrightarrow> \<exists>c. uniqueFrom base taken n = Some c \<and> c \<notin> set taken"
proof (induction k arbitrary: n)
  case 0
  then show ?case by (subst uniqueFrom.simps) simp
next
  case (Suc k)
  from Suc.IH [of "n + 1"] Suc.prems show ?case
    by (subst uniqueFrom.simps) auto
qed

lemma uniqueInstance_returns:
  obtains c where "uniqueInstance base taken = Some c" "c \<notin> set taken"
    "base \<notin> set taken \<Longrightarrow> c = base"
proof (cases "base \<in> set taken")
  case True
  obtain k where "candidate base (2 + k) \<notin> set taken" using free_candidate by blast
  from uniqueFrom_returns [OF this] True that show thesis by (auto simp: uniqueInstance_def)
qed (use that in \<open>simp add: uniqueInstance_def\<close>)

lemma instanceFromAnswer_returns [no_panic]: "instanceFromAnswer rec \<noteq> None"
  unfolding instanceFromAnswer_def by (intro no_panic)

lemma takenFrom_returns [no_panic]: "takenFrom ss recs \<noteq> None"
proof (induction recs)
  case (Cons r recs)
  then show ?case unfolding takenFrom.simps by (intro no_panic Cons)
qed simp

lemma those_returns: "(\<And>x. x \<in> set xs \<Longrightarrow> f x \<noteq> None) \<Longrightarrow> those (map f xs) \<noteq> None"
  by (induction xs) (auto split: option.splits)

lemma serveQuery_returns [no_panic]: "serveQuery ss a b \<noteq> None"
  unfolding serveQuery_def Let_def by (intro no_panic)

lemma answersOf_browse:
  "q_name q = browseName s \<Longrightarrow> qtype q = dnsTypePTR \<or> qtype q = dnsTypeANY \<Longrightarrow>
   set (ptrRecord (browseName s) (instanceName s) # srvAndTxt s a) \<subseteq> set (answersOf q a s)"
  by (auto simp: answersOf_def Let_def)

subsection \<open>Properties\<close>

text \<open>A DNS name survives the wire: whatever stands around it in the message, \<^verbatim>\<open>parseName\<close>
  reads back the name \<^verbatim>\<open>encodeName\<close> wrote and stops right after it, and a two-octet compression pointer to it, placed
  anywhere later, reads as the same name and continues right after the pointer.\<close>

theorem dns_name_roundtrip:
  assumes "wf_name name"
  shows "parseName (pre @ encodeName name @ post) (length pre)
      = Some (Some (name, length pre + length (encodeName name)))
    \<and> (if length (labelsOf name) < 127 \<and> length pre < 2 ^ 14
       then parseName (pre @ encodeName name @ mid @ pointerTo (length pre) @ post)
              (length pre + length (encodeName name) + length mid)
            = Some (Some (name, length pre + length (encodeName name) + length mid + 2))
       else True)"
  using parseName_encode [OF assms] parseName_pointer [OF assms] by simp

theorem dns_name_roundtrip_witness:
  "parseName ([9] @ encodeName (str ''ab.local'') @ [5, 6] @ pointerTo (length [9 :: byte]) @ [])
      (length [9 :: byte] + length (encodeName (str ''ab.local'')) + length [5 :: byte, 6])
    = Some (Some (str ''ab.local'', 15))"
proof -
  have wf: "wf_name (str ''ab.local'')" by code_simp
  have "length (encodeName (str ''ab.local'')) = 10" "length (labelsOf (str ''ab.local'')) = 2"
    by code_simp+
  then show ?thesis using dns_name_roundtrip [OF wf, of "[9]" "[]" "[5, 6]"] by simp
qed

text \<open>No datagram makes the mDNS parsers panic or loop, compression-pointer cycles included;
  a name that is accepted ends strictly after where it started and inside the datagram.\<close>

theorem mdns_no_panic:
  "serveQuery ss a b \<noteq> None \<and> knownAnswers b \<noteq> None
   \<and> (case parseName b off of Some (Some (name, n)) \<Rightarrow> off < n \<and> n \<le> length b | Some None \<Rightarrow> True | None \<Rightarrow> False)"
  using serveQuery_returns [of ss a b] knownAnswers_returns [of b] parseName_returns [of b off]
    parseNameLoop_bounds [of 128 b off "[]" False 0]
  by (auto simp: parseName_def split: option.splits)

text \<open>C22: The records of a response survive the wire: reading the answer section of what
  \<^verbatim>\<open>buildResponse\<close> wrote gives back every record in order with its name, type, TTL and data (the
  cache-flush bit is not part of what the reader keeps).\<close>

theorem response_roundtrip:
  assumes "list_all wf_rr rs" "length rs < 2 ^ 16"
  shows "knownAnswers (buildResponse rs) = Some (map (\<lambda>r. r\<lparr>flush := False\<rparr>) rs)"
  using assms by (rule knownAnswers_buildResponse)

definition demoService :: service where
  "demoService = \<lparr>s_instance = str ''PR'', svcType = str ''_ipp._tcp'', s_port = 631, svcTxt = [str ''rp=x''],
     subtypes = [str ''_u'']\<rparr>"

definition demoAddrs :: svc_addrs where
  "demoAddrs = \<lparr>a_host = str ''pr.local'', a_v4 = [[10, 0, 0, 7]], a_v6 = []\<rparr>"

lemma length_encodeLabel [simp]: "length (encodeLabel l) = min 63 (length l) + 1"
  by (simp add: encodeLabel_def Let_def)

lemma encodeLabels_short: "length (concat (map encodeLabel (split1 c s))) \<le> length s + 1"
proof (induction s)
  case (Cons x s)
  then show ?case
    by (cases "split1 c s") (auto simp: min_def split: if_splits)
qed simp

lemma encodeName_short: "length (encodeName name) \<le> length name + 2"
proof -
  have "length (trimSuffix name [dot]) \<le> length name" by (simp add: trimSuffix_def)
  then show ?thesis
    using encodeLabels_short [of dot "trimSuffix name [dot]"] by (simp add: encodeName_def Let_def)
qed

lemma demo_names: "wf_name (str ''_ipp._tcp.local'')" "wf_name (str ''PR._ipp._tcp.local'')"
  "wf_name (str ''_u._sub._ipp._tcp.local'')" "wf_name (str ''pr.local'')"
  by code_simp+

lemma demo_service_names: "browseName demoService = str ''_ipp._tcp.local''"
  "instanceName demoService = str ''PR._ipp._tcp.local''"
  "subtypeName (str ''_u'') demoService = str ''_u._sub._ipp._tcp.local''"
  by (simp_all add: demoService_def browseName_def instanceName_def subtypeName_def str_def)

lemma demo_recs: "length (recordsOf demoAddrs demoService) = 5"
  by (simp add: recordsOf_def demoService_def srvAndTxt_def hostRecords_def hostRecordsFor_def demoAddrs_def)

lemma demo_wf_rrs: "list_all wf_rr (recordsOf demoAddrs demoService)"
  using encodeName_short [of "str ''PR._ipp._tcp.local''"] encodeName_short [of "str ''pr.local''"]
  by (simp add: recordsOf_def demo_service_names ptrRecord_def srvAndTxt_def hostRecords_def hostRecordsFor_def
      txtRecord_def wf_rr_def demo_names rdataPTR_def rdataSRV_def rdataA_def to4_def rdataTXT_def)
    (simp add: wf_rr_def demoService_def demoAddrs_def demo_names demo_service_names [unfolded demoService_def] rdataTXT_def to4_def)

theorem response_roundtrip_witness:
  "knownAnswers (buildResponse (recordsOf demoAddrs demoService))
     = Some (map (\<lambda>r. r\<lparr>flush := False\<rparr>) (recordsOf demoAddrs demoService))"
  by (rule response_roundtrip [OF demo_wf_rrs]) (simp add: demo_recs)



text \<open>Known-answer suppression ignores the record data. A querier that lists another
  printer's pointer for the same service type as known (any target, TTL at least half of ours) gets no pointer to
  our instance: the printer is not found by it.\<close>

theorem known_answer_hides_our_instance:
  assumes "k \<in> set known" "r_name k = browseName s" "rtype k = dnsTypePTR" "2250 \<le> ttl k"
  shows "ptrRecord (browseName s) target \<notin> set (replyRecords ss a known qs)"
proof -
  have "recordKnown (ptrRecord (browseName s) target) known"
    using assms by (auto simp: recordKnown_def ptrRecord_def list_ex_iff)
  then show ?thesis by (auto simp: replyRecords_def)
qed

theorem known_answer_hides_our_instance_witness:
  "ptrRecord (browseName demoService) (instanceName demoService)
     \<notin> set (replyRecords [demoService] demoAddrs [ptrRecord (browseName demoService) (str ''Other._ipp._tcp.local'')]
         [\<lparr>q_name = browseName demoService, qtype = 12, unicast = False\<rparr>])"
  by (rule known_answer_hides_our_instance [of "ptrRecord (browseName demoService) (str ''Other._ipp._tcp.local'')"])
    (simp_all add: ptrRecord_def)


text \<open>The advertised services are exactly the listeners that bound, in a fixed order, each at
  its bound port.\<close>

theorem advertised_services:
  assumes "bl_IPP bl < 65536" "bl_IPPS bl < 65536" "bl_Raw9100 bl < 65536" "bl_LPR bl < 65536"
  shows "map (\<lambda>s. (svcType s, uint (s_port s))) (buildServices mc p bl airprint inst)
    = filter (\<lambda>(t, port). 0 < port)
        [(str ''_ipp._tcp'', bl_IPP bl), (str ''_ipps._tcp'', bl_IPPS bl),
         (str ''_pdl-datastream._tcp'', bl_Raw9100 bl), (str ''_printer._tcp'', bl_LPR bl)]"
proof -
  have u: "0 < n \<Longrightarrow> n < 65536 \<Longrightarrow> uint (word_of_int n :: u16) = n" for n
    by (simp add: uint_word_of_int_eq take_bit_int_eq_self)
  show ?thesis using assms by (simp add: buildServices_def Let_def u)
qed

theorem advertised_services_witness:
  "map (\<lambda>s. (svcType s, uint (s_port s)))
     (buildServices \<lparr>mdnsInstance = [], mdnsHostname = [], defaultPath = []\<rparr> demoPrinterConf
        \<lparr>bl_IPP = 631, bl_IPPS = 0, bl_Raw9100 = 9100, bl_LPR = 0, bl_Dash = 0\<rparr> True (str ''PR''))
   = [(str ''_ipp._tcp'', 631), (str ''_pdl-datastream._tcp'', 9100)]" for demoPrinterConf
  by (subst advertised_services) simp_all

text \<open>Withdrawing says goodbye once: the first Close multicasts on every socket one message
  that lists every advertised record with TTL 0, and a second Close does nothing.\<close>

theorem goodbye_withdraws_everything:
  assumes "\<not> m_closed r" "list_all wf_rr (allRecords (m_svcs r) (m_addrs r))"
    and "length (allRecords (m_svcs r) (m_addrs r)) < 2 ^ 16"
  shows "case closeResponder r of (r', msgs) \<Rightarrow> length msgs = m_conns r \<and> closeResponder r' = (r', [])
    \<and> map knownAnswers msgs = replicate (m_conns r)
        (Some (map (\<lambda>rec. rec\<lparr>ttl := 0, flush := False\<rparr>) (allRecords (m_svcs r) (m_addrs r))))"
proof -
  let ?recs = "map (\<lambda>rec. rec\<lparr>ttl := 0\<rparr>) (allRecords (m_svcs r) (m_addrs r))"
  have "list_all wf_rr ?recs" using assms(2) by (simp add: list_all_length wf_rr_def)
  then have "knownAnswers (goodbyeMsg r) = Some (map (\<lambda>r. r\<lparr>flush := False\<rparr>) ?recs)"
    unfolding goodbyeMsg_def using assms(3) by (intro knownAnswers_buildResponse) simp_all
  then show ?thesis using assms(1) by (simp add: closeResponder_def comp_def)
qed

theorem goodbye_withdraws_everything_witness:
  "length (snd (closeResponder \<lparr>m_conns = 2, m_svcs = [demoService], m_addrs = demoAddrs, m_closed = False\<rparr>)) = 2"
proof -
  have "allRecords [demoService] demoAddrs = recordsOf demoAddrs demoService" by (simp add: allRecords_def)
  then show ?thesis
    using goodbye_withdraws_everything [of "\<lparr>m_conns = 2, m_svcs = [demoService], m_addrs = demoAddrs, m_closed = False\<rparr>"]
      demo_wf_rrs
    by (simp add: demo_recs split: prod.splits)
qed

end
