(* ===== verification/Frame_Parse.thy ===== *)
theory Frame_Parse
  imports Go_Prelude
begin

text \<open>
  Frame dissection (\<^verbatim>\<open>frameparse.go\<close>): from a captured link-layer frame to one TCP segment.
  \<open>None\<close> is a panic, \<open>Some None\<close> is \<^verbatim>\<open>ok = false\<close>.
\<close>

subsection \<open>Link layer\<close>

abbreviation "etherTypeIPv4 \<equiv> (0x0800 :: u16)"
abbreviation "etherTypeIPv6 \<equiv> (0x86dd :: u16)"
abbreviation "etherTypeVLAN \<equiv> (0x8100 :: u16)"
abbreviation "etherTypeQinQ \<equiv> (0x88a8 :: u16)"
abbreviation "ipProtoTCP \<equiv> (6 :: byte)"

abbreviation linkTypeNull :: int where "linkTypeNull \<equiv> 0"
abbreviation linkTypeEthernet :: int where "linkTypeEthernet \<equiv> 1"
abbreviation linkTypeRaw :: int where "linkTypeRaw \<equiv> 101"

text \<open>An \<^verbatim>\<open>netip.AddrPort\<close>: 4 or 16 address octets and a port.\<close>

type_synonym addr_port = "bytes \<times> u16"

record l4_segment =
  seg_src :: addr_port
  seg_dst :: addr_port
  seg_seq :: u32
  seg_syn :: bool
  seg_fin :: bool
  seg_rst :: bool
  seg_payload :: bytes

definition ipVersion :: "bytes \<Rightarrow> bytes \<Rightarrow> (u16 \<times> bytes) option option" where
  "ipVersion hd' ip = do {
     c \<leftarrow> idx hd' 0;
     Some (if drop_bit 4 c = 4 then Some (etherTypeIPv4, ip)
           else if drop_bit 4 c = 6 then Some (etherTypeIPv6, ip) else None)
   }"

text \<open>The VLAN loop: \<open>n\<close> tags may still be stepped over.\<close>

fun stepVLAN :: "nat \<Rightarrow> bytes \<Rightarrow> u16 \<Rightarrow> nat \<Rightarrow> (u16 \<times> bytes) option option" where
  "stepVLAN n frame ethertype off =
     (case n of
        0 \<Rightarrow> do { l3 \<leftarrow> slice_from frame off; Some (Some (ethertype, l3)) }
      | Suc n' \<Rightarrow>
          if ethertype = etherTypeVLAN \<or> ethertype = etherTypeQinQ then
            (if length frame < off + 4 then Some None
             else do { et \<leftarrow> get_be16 frame (off + 2); stepVLAN n' frame et (off + 4) })
          else do { l3 \<leftarrow> slice_from frame off; Some (Some (ethertype, l3)) })"

declare stepVLAN.simps [simp del]

definition stepToL3 :: "int \<Rightarrow> bytes \<Rightarrow> (u16 \<times> bytes) option option" where
  "stepToL3 linkType frame =
     (if linkType = linkTypeRaw then
        (if length frame < 1 then Some None else ipVersion frame frame)
      else if linkType = linkTypeNull then
        (if length frame < 5 then Some None
         else do { ip \<leftarrow> slice_from frame 4; ipVersion ip ip })
      else if length frame < 14 then Some None
      else do { et \<leftarrow> get_be16 frame 12; stepVLAN 2 frame et 14 })"

definition frameIsIPv6 :: "int \<Rightarrow> bytes \<Rightarrow> bool option" where
  "frameIsIPv6 linkType frame = do {
     r \<leftarrow> stepToL3 linkType frame;
     Some (case r of None \<Rightarrow> False | Some (et, _) \<Rightarrow> et = etherTypeIPv6)
   }"

subsection \<open>Network layer\<close>

text \<open>The IPv4 and IPv6 arms of the switch: source and destination address and the L4 bytes.\<close>

definition parseIPv4 :: "bytes \<Rightarrow> (bytes \<times> bytes \<times> bytes) option option" where
  "parseIPv4 ip0 =
     (if length ip0 < 20 then Some None
      else do {
        b0 \<leftarrow> idx ip0 0;
        let ihl = unat (b0 AND 0x0f) * 4 in
        if ihl < 20 \<or> length ip0 < ihl then Some None
        else do {
          proto \<leftarrow> idx ip0 9;
          if proto \<noteq> ipProtoTCP then Some None
          else do {
            tot \<leftarrow> get_be16 ip0 2;
            let total = unat tot;
                ip = (if total \<ge> ihl \<and> total \<le> length ip0 then take total ip0 else ip0)
            in do {
              src \<leftarrow> gslice ip 12 16;
              dst \<leftarrow> gslice ip 16 20;
              l4 \<leftarrow> slice_from ip ihl;
              Some (Some (src, dst, l4))
            }
          }
        }
      })"

definition parseIPv6 :: "bytes \<Rightarrow> (bytes \<times> bytes \<times> bytes) option option" where
  "parseIPv6 ip =
     (if length ip < 40 then Some None
      else do {
        proto \<leftarrow> idx ip 6;
        if proto \<noteq> ipProtoTCP then Some None
        else do {
          pl \<leftarrow> get_be16 ip 4;
          let end0 = 40 + unat pl;
              end' = (if unat pl = 0 \<or> end0 > length ip then length ip else end0)
          in do {
            s \<leftarrow> gslice ip 8 24;
            d \<leftarrow> gslice ip 24 40;
            l4 \<leftarrow> gslice ip 40 end';
            Some (Some (s, d, l4))
          }
        }
      })"

subsection \<open>Transport layer\<close>

definition parseTCP :: "bytes \<Rightarrow> bytes \<Rightarrow> bytes \<Rightarrow> l4_segment option option" where
  "parseTCP srcIP dstIP l4 =
     (if length l4 < 20 then Some None
      else do {
        off \<leftarrow> idx l4 12;
        let thl = unat (drop_bit 4 off) * 4 in
        if thl < 20 \<or> length l4 < thl then Some None
        else do {
          srcPort \<leftarrow> get_be16 l4 0;
          dstPort \<leftarrow> get_be16 l4 2;
          flags \<leftarrow> idx l4 13;
          sq \<leftarrow> get_be32 l4 4;
          payload \<leftarrow> slice_from l4 thl;
          Some (Some \<lparr>seg_src = (srcIP, srcPort), seg_dst = (dstIP, dstPort), seg_seq = sq,
            seg_syn = (flags AND 0x02 \<noteq> 0), seg_fin = (flags AND 0x01 \<noteq> 0),
            seg_rst = (flags AND 0x04 \<noteq> 0), seg_payload = payload\<rparr>)
        }
      })"

definition parseL3 :: "u16 \<Rightarrow> bytes \<Rightarrow> (bytes \<times> bytes \<times> bytes) option option" where
  "parseL3 ethertype l3 =
     (if ethertype = etherTypeIPv4 then parseIPv4 l3
      else if ethertype = etherTypeIPv6 then parseIPv6 l3
      else Some None)"

definition parseTCPSegment :: "int \<Rightarrow> bytes \<Rightarrow> l4_segment option option" where
  "parseTCPSegment linkType frame = do {
     r \<leftarrow> stepToL3 linkType frame;
     (case r of None \<Rightarrow> Some None
      | Some (ethertype, l3) \<Rightarrow> do {
          r2 \<leftarrow> parseL3 ethertype l3;
          (case r2 of None \<Rightarrow> Some None
           | Some (srcIP, dstIP, l4) \<Rightarrow> parseTCP srcIP dstIP l4)
        })
   }"

subsection \<open>No frame makes the dissector panic\<close>

lemma ipVersion_returns [no_panic]: "hd' \<noteq> [] \<Longrightarrow> ipVersion hd' ip \<noteq> None"
  by (simp add: ipVersion_def)

lemma stepVLAN_returns [no_panic]: "off \<le> length frame \<Longrightarrow> stepVLAN n frame et off \<noteq> None"
proof (induction n arbitrary: et off)
  case 0
  then show ?case by (subst stepVLAN.simps) simp
next
  case (Suc n)
  show ?case using Suc.prems
    by (subst stepVLAN.simps) (auto simp: get_be_Some intro!: Suc.IH simp del: not_None_eq)
qed

lemma stepToL3_returns [no_panic]: "stepToL3 linkType frame \<noteq> None"
  unfolding stepToL3_def by (intro no_panic) (auto simp: slice_from_def split: if_splits)

lemma parseIPv4_returns [no_panic]: "parseIPv4 ip \<noteq> None"
  unfolding parseIPv4_def Let_def by (intro no_panic) auto

lemma parseIPv6_returns [no_panic]: "parseIPv6 ip \<noteq> None"
  unfolding parseIPv6_def Let_def by (intro no_panic) auto

lemma parseTCP_returns [no_panic]: "parseTCP s d l4 \<noteq> None"
  unfolding parseTCP_def Let_def by (intro no_panic) auto

lemma parseL3_returns [no_panic]: "parseL3 et l3 \<noteq> None"
  unfolding parseL3_def by (intro no_panic)

lemma parseTCPSegment_returns [no_panic]: "parseTCPSegment linkType frame \<noteq> None"
  unfolding parseTCPSegment_def by (intro no_panic)

subsection \<open>Frames as a host sends them\<close>

text \<open>
  Wire images of the headers. The fields the dissector does not read (MAC addresses, checksums,
  identification, options) are arbitrary octet strings of the right length.
\<close>

definition tcpImage :: "l4_segment \<Rightarrow> bytes \<Rightarrow> byte \<Rightarrow> bytes \<Rightarrow> bytes \<Rightarrow> bytes" where
  "tcpImage seg ack flags rest options =
     be16 (snd (seg_src seg)) @ be16 (snd (seg_dst seg)) @ be32 (seg_seq seg) @ ack
       @ [push_bit 4 (of_nat (5 + length options div 4)), flags] @ rest @ options @ seg_payload seg"

definition ipv4Image :: "l4_segment \<Rightarrow> bytes \<Rightarrow> bytes \<Rightarrow> bytes \<Rightarrow> bytes \<Rightarrow> bytes" where
  "ipv4Image seg ident cksum options l4 =
     [0x40 OR of_nat (5 + length options div 4), 0] @ be16 (of_nat (20 + length options + length l4))
       @ ident @ [ipProtoTCP] @ cksum @ fst (seg_src seg) @ fst (seg_dst seg) @ options @ l4"

fun vlanTags :: "bytes list \<Rightarrow> u16 \<Rightarrow> bytes" where
  "vlanTags [] et = be16 et"
| "vlanTags (t # ts) et = be16 etherTypeVLAN @ t @ vlanTags ts et"

definition wf_tcp :: "l4_segment \<Rightarrow> bytes \<Rightarrow> byte \<Rightarrow> bytes \<Rightarrow> bytes \<Rightarrow> bool" where
  "wf_tcp seg ack flags rest options \<longleftrightarrow> length ack = 4 \<and> length rest = 6
     \<and> length options mod 4 = 0 \<and> length options \<le> 40
     \<and> seg_syn seg = (flags AND 0x02 \<noteq> 0) \<and> seg_fin seg = (flags AND 0x01 \<noteq> 0)
     \<and> seg_rst seg = (flags AND 0x04 \<noteq> 0)"

lemma header_nibble:
  assumes "n mod 4 = 0" "n \<le> (40 :: nat)"
  shows "unat (drop_bit 4 (push_bit 4 (of_nat (5 + n div 4)) :: byte)) * 4 = 20 + n"
    and "unat ((0x40 OR of_nat (5 + n div 4) :: byte) AND 0x0f) * 4 = 20 + n"
    and "drop_bit 4 (0x40 OR of_nat (5 + n div 4) :: byte) = 4"
proof -
  from assms have "n = 0 \<or> n = 4 \<or> n = 8 \<or> n = 12 \<or> n = 16 \<or> n = 20 \<or> n = 24 \<or> n = 28 \<or> n = 32 \<or> n = 36 \<or> n = 40"
    by presburger
  then show "unat (drop_bit 4 (push_bit 4 (of_nat (5 + n div 4)) :: byte)) * 4 = 20 + n"
    "unat ((0x40 OR of_nat (5 + n div 4) :: byte) AND 0x0f) * 4 = 20 + n"
    "drop_bit 4 (0x40 OR of_nat (5 + n div 4) :: byte) = 4"
    by auto
qed

lemma parseTCP_image:
  assumes "wf_tcp seg ack flags rest options"
  shows "parseTCP (fst (seg_src seg)) (fst (seg_dst seg)) (tcpImage seg ack flags rest options) = Some (Some seg)"
proof -
  let ?b = "tcpImage seg ack flags rest options"
  from assms have l: "length ack = 4" "length rest = 6" "length options mod 4 = 0" "length options \<le> 40"
    and f: "seg_syn seg = (flags AND 0x02 \<noteq> 0)" "seg_fin seg = (flags AND 0x01 \<noteq> 0)"
      "seg_rst seg = (flags AND 0x04 \<noteq> 0)"
    by (auto simp: wf_tcp_def)
  note nib = header_nibble(1) [OF l(3,4)]
  have len: "length ?b = 20 + length options + length (seg_payload seg)" using l by (simp add: tcpImage_def)
  have i: "idx ?b 12 = Some (push_bit 4 (of_nat (5 + length options div 4)))" "idx ?b 13 = Some flags"
    using l len by (simp_all add: idx_def tcpImage_def nth_append)
  have g: "get_be16 ?b 0 = Some (snd (seg_src seg))" "get_be16 ?b 2 = Some (snd (seg_dst seg))"
    "get_be32 ?b 4 = Some (seg_seq seg)"
    using len by (simp_all add: get_be_Some) (simp_all add: tcpImage_def)
  have sl: "slice_from ?b (20 + length options) = Some (seg_payload seg)"
    using slice_from_append [of "20 + length options" "be16 (snd (seg_src seg)) @ be16 (snd (seg_dst seg))
        @ be32 (seg_seq seg) @ ack @ [push_bit 4 (of_nat (5 + length options div 4)), flags] @ rest @ options"]
    by (simp add: l tcpImage_def)
  show ?thesis
    unfolding parseTCP_def i bind.bind_lunit Let_def nib using g sl len f by simp
qed

lemma parseIPv4_image:
  assumes "length ident = 5" "length cksum = 2" "length options mod 4 = 0" "length options \<le> 40"
    and "length (fst (seg_src seg)) = 4" "length (fst (seg_dst seg)) = 4"
    and "20 + length options + length l4 < 2 ^ 16"
  shows "parseIPv4 (ipv4Image seg ident cksum options l4 @ padding)
    = Some (Some (fst (seg_src seg), fst (seg_dst seg), l4))"
proof -
  let ?i = "ipv4Image seg ident cksum options l4" and ?n = "length options"
  let ?b = "?i @ padding"
  note nib = header_nibble(2) [OF assms(3,4)]
  have len: "length ?i = 20 + ?n + length l4" using assms by (simp add: ipv4Image_def)
  have i: "idx ?b 0 = Some (0x40 OR of_nat (5 + ?n div 4))" "idx ?b 9 = Some ipProtoTCP"
    using assms len by (simp_all add: idx_def ipv4Image_def nth_append)
  have g: "get_be16 ?b 2 = Some (of_nat (20 + ?n + length l4))"
    using len by (simp add: get_be_Some) (simp add: ipv4Image_def)
  have u: "unat (of_nat (20 + ?n + length l4) :: u16) = 20 + ?n + length l4"
    using assms(7) by (simp add: unat_of_nat del: of_nat_add)
  have t: "take (20 + ?n + length l4) ?b = ?i" using len by simp
  have s1: "gslice ?i 12 16 = Some (fst (seg_src seg))" "gslice ?i 16 20 = Some (fst (seg_dst seg))"
    using assms len by (simp_all add: gslice_def) (simp_all add: ipv4Image_def)
  have s2: "slice_from ?i (20 + ?n) = Some l4"
    using slice_from_append [of "20 + ?n" "[0x40 OR of_nat (5 + ?n div 4), 0]
        @ be16 (of_nat (20 + ?n + length l4)) @ ident @ [ipProtoTCP] @ cksum
        @ fst (seg_src seg) @ fst (seg_dst seg) @ options" l4] assms
    by (simp add: ipv4Image_def)
  show ?thesis
    unfolding parseIPv4_def i bind.bind_lunit g Let_def nib u t
    using len s1 s2 by (simp add: t)
qed

lemma stepVLAN_tag: "off + 4 \<le> length frame \<Longrightarrow> get_be16 frame (off + 2) = Some et \<Longrightarrow>
    stepVLAN (Suc m) frame etherTypeVLAN off = stepVLAN m frame et (off + 4)"
  by (subst stepVLAN.simps) simp

lemma stepVLAN_stop: "off \<le> length frame \<Longrightarrow> et \<noteq> etherTypeVLAN \<Longrightarrow> et \<noteq> etherTypeQinQ \<Longrightarrow>
    stepVLAN m frame et off = Some (Some (et, drop off frame))"
  by (subst stepVLAN.simps) (simp split: nat.split)

lemma vlan_image:
  assumes "length ts \<le> n" "\<forall>t\<in>set ts. length t = 2" "et \<noteq> etherTypeVLAN" "et \<noteq> etherTypeQinQ"
    and "drop off frame = tl' @ l3" "tl' = drop 2 (vlanTags ts et)" "off \<le> length frame"
  shows "stepVLAN n frame (if ts = [] then et else etherTypeVLAN) off = Some (Some (et, l3))"
  using assms
proof (induction ts arbitrary: n off tl')
  case Nil
  then show ?case by (simp add: stepVLAN_stop)
next
  case (Cons t ts)
  then obtain m where m: "n = Suc m" by (cases n) auto
  let ?et = "if ts = [] then et else etherTypeVLAN"
  obtain r where r: "vlanTags ts et = be16 ?et @ r" by (cases ts) auto
  have tl: "tl' = t @ be16 ?et @ r" using Cons.prems(2,6) by (simp add: r)
  have d: "drop off frame = t @ be16 ?et @ (r @ l3)" using Cons.prems(5) by (simp add: tl)
  have t2: "length t = 2" using Cons.prems(2) by simp
  have d2: "drop (off + 2) frame = be16 ?et @ (r @ l3)" by (rule drop_advance [OF d]) (simp add: t2)
  have d4: "drop (off + 4) frame = r @ l3" by (rule drop_advance [OF d2]) simp
  have len: "length frame = off + 4 + length (r @ l3)"
    using length_drop_advance [OF d Cons.prems(7)] t2 by simp
  have g: "get_be16 frame (off + 2) = Some ?et"
    using get_be_drop [OF d2] len by simp
  have "stepVLAN m frame ?et (off + 4) = Some (Some (et, l3))"
  proof (rule Cons.IH [OF _ _ Cons.prems(3,4) d4])
    show "length ts \<le> m" "\<forall>t\<in>set ts. length t = 2" using Cons.prems(1,2) m by simp_all
    show "r = drop 2 (vlanTags ts et)" by (simp add: r)
    show "off + 4 \<le> length frame" using len by simp
  qed
  moreover have "off + 4 \<le> length frame" using len by simp
  ultimately show ?case using stepVLAN_tag [OF _ g, of m] m by simp
qed

subsection \<open>Properties\<close>

text \<open>No captured frame, of any link type, makes the dissector panic.\<close>

theorem frame_no_panic: "parseTCPSegment linkType frame \<noteq> None \<and> frameIsIPv6 linkType frame \<noteq> None"
  using parseTCPSegment_returns [of linkType frame] stepToL3_returns [of linkType frame]
  by (auto simp: frameIsIPv6_def)

text \<open>C26: A TCP segment sent in an IPv4 packet over Ethernet, with up to two VLAN tags, any IP and
  TCP options and any trailing padding, is dissected to exactly that segment: addresses, ports,
  sequence number, flags, and the payload without the padding.\<close>

theorem ethernet_ipv4_segment:
  assumes "wf_tcp seg ack flags rest topts"
    and "length ident = 5" "length cksum = 2" "length iopts mod 4 = 0" "length iopts \<le> 40"
    and "length (fst (seg_src seg)) = 4" "length (fst (seg_dst seg)) = 4"
    and "20 + length iopts + length (tcpImage seg ack flags rest topts) < 2 ^ 16"
    and "length macs = 12" "length tags \<le> 2" "list_all (\<lambda>t. length t = 2) tags"
  shows "parseTCPSegment linkTypeEthernet
      (macs @ vlanTags tags etherTypeIPv4
        @ ipv4Image seg ident cksum iopts (tcpImage seg ack flags rest topts) @ padding)
    = Some (Some seg)"
proof -
  let ?ip = "ipv4Image seg ident cksum iopts (tcpImage seg ack flags rest topts) @ padding"
  let ?f = "macs @ vlanTags tags etherTypeIPv4 @ ?ip"
  let ?et = "if tags = [] then etherTypeIPv4 else etherTypeVLAN"
  obtain r where r: "vlanTags tags etherTypeIPv4 = be16 ?et @ r" by (cases tags) auto
  have d12: "drop 12 ?f = be16 ?et @ (r @ ?ip)" using assms(9) by (simp add: r)
  have l12: "12 \<le> length ?f" using assms(9) by simp
  have d14: "drop 14 ?f = r @ ?ip" by (rule drop_advance [OF d12]) simp
  have len: "14 \<le> length ?f" using length_drop_advance [OF d12 l12] by simp
  have "stepVLAN 2 ?f ?et 14 = Some (Some (etherTypeIPv4, ?ip))"
    by (rule vlan_image [OF assms(10) _ _ _ d14])
      (use assms(11) len in \<open>simp_all add: r list_all_iff\<close>)
  then have "stepToL3 linkTypeEthernet ?f = Some (Some (etherTypeIPv4, ?ip))"
    using get_be_drop [OF d12 l12] len by (simp add: stepToL3_def)
  then show ?thesis
    using parseIPv4_image [OF assms(2-8), of padding] parseTCP_image [OF assms(1)]
    by (simp add: parseTCPSegment_def parseL3_def)
qed

definition demoSegment :: l4_segment where
  "demoSegment = \<lparr>seg_src = ([10, 0, 0, 2], 40000), seg_dst = ([10, 0, 0, 1], 9100), seg_seq = 1000,
     seg_syn = False, seg_fin = False, seg_rst = False, seg_payload = str ''%!PS''\<rparr>"

theorem ethernet_ipv4_segment_witness:
  "parseTCPSegment linkTypeEthernet
     (replicate 12 2 @ vlanTags [[0, 7]] etherTypeIPv4
       @ ipv4Image demoSegment [0, 0, 0, 0, 64] [0, 0] [] (tcpImage demoSegment [0, 0, 0, 0] 0x18 [0, 0, 0, 0, 0, 0] [])
       @ [0, 0])
   = Some (Some demoSegment)"
  by (rule ethernet_ipv4_segment)
    (simp_all add: wf_tcp_def demoSegment_def tcpImage_def str_def)

end
