(* ===== verification/Reassembly.thy ===== *)
theory Reassembly
  imports Frame_Parse "HOL-Library.AList"
begin

text \<open>
  Single-direction TCP reassembly (\<^verbatim>\<open>reassembly.go\<close>). Go maps are association lists with distinct
  keys; the emit callback is the list of flows an operation hands out. Go's map iteration order is
  unspecified, the list order here stands for one possible order.
\<close>

subsection \<open>State\<close>

type_synonym flow_key = "addr_port \<times> addr_port"

record flow_state =
  fs_src :: addr_port
  fs_dst :: addr_port
  nextSeq :: u32
  have_next :: bool
  buf :: bytes
  pending :: "(u32 \<times> bytes) list"
  last_ts :: int
  overflow :: bool

record reassembler =
  r_ports :: "u16 list"
  allPorts :: bool
  maxFlow :: nat
  r_idle :: int
  flows :: "(flow_key \<times> flow_state) list"
  latestTS :: int

definition newStreamReassembler :: "u16 list \<Rightarrow> bool \<Rightarrow> nat \<Rightarrow> int \<Rightarrow> reassembler" where
  "newStreamReassembler ports allp mx idl =
     \<lparr>r_ports = ports, allPorts = allp, maxFlow = mx, r_idle = idl, flows = [], latestTS = 0\<rparr>"

definition maxPendingSegs :: nat where "maxPendingSegs = 2048"

definition seqAfter :: "u32 \<Rightarrow> u32 \<Rightarrow> bool" where
  "seqAfter a b = (0 < sint (a - b))"

subsection \<open>Placing one payload\<close>

definition appendInOrder :: "nat \<Rightarrow> flow_state \<Rightarrow> bytes \<Rightarrow> flow_state" where
  "appendInOrder mx fs payload =
     (let fs' =
        (if mx > 0 \<and> length (buf fs) \<ge> mx then fs\<lparr>overflow := True\<rparr>
         else if mx > 0 \<and> length (buf fs) + length payload > mx
           then fs\<lparr>buf := buf fs @ take (mx - length (buf fs)) payload, overflow := True\<rparr>
         else fs\<lparr>buf := buf fs @ payload\<rparr>)
      in fs'\<lparr>nextSeq := nextSeq fs + of_nat (length payload)\<rparr>)"

lemma appendInOrder_pending [simp]: "pending (appendInOrder mx fs p) = pending fs"
  by (simp add: appendInOrder_def Let_def)

lemma delete_shorter: "map_of ps k = Some v \<Longrightarrow> length (AList.delete k ps) < length ps"
  by (induction ps) (auto simp: AList.delete_eq intro: le_imp_less_Suc)

function drainPending :: "nat \<Rightarrow> flow_state \<Rightarrow> flow_state" where
  "drainPending mx fs =
     (case map_of (pending fs) (nextSeq fs) of
        None \<Rightarrow> fs
      | Some cp \<Rightarrow> drainPending mx
          (appendInOrder mx (fs\<lparr>pending := AList.delete (nextSeq fs) (pending fs)\<rparr>) cp))"
  by pat_completeness auto

termination
  by (relation "measure (\<lambda>(mx, fs). length (pending fs))") (auto intro: delete_shorter)

declare drainPending.simps [simp del]

definition integrate :: "nat \<Rightarrow> flow_state \<Rightarrow> u32 \<Rightarrow> bytes \<Rightarrow> flow_state" where
  "integrate mx fs seq payload =
     (if seq = nextSeq fs then drainPending mx (appendInOrder mx fs payload)
      else if seqAfter seq (nextSeq fs) then
        (if map_of (pending fs) seq = None \<and> length (pending fs) \<ge> maxPendingSegs
         then fs\<lparr>overflow := True\<rparr>
         else fs\<lparr>pending := AList.update seq payload (pending fs)\<rparr>)
      else
        (let end' = seq + of_nat (length payload) in
         if seqAfter end' (nextSeq fs) then
           (let skip = nextSeq fs - seq in
            if unat skip < length payload
            then drainPending mx (appendInOrder mx fs (drop (unat skip) payload))
            else fs)
         else fs))"

subsection \<open>Routing segments to flows\<close>

text \<open>What \<^verbatim>\<open>consume\<close> does to the state of the segment's own flow, before any teardown.\<close>

definition acceptSegment :: "nat \<Rightarrow> flow_state \<Rightarrow> l4_segment \<Rightarrow> int \<Rightarrow> flow_state" where
  "acceptSegment mx fs0 seg ts =
     (let fs1 = fs0\<lparr>last_ts := ts\<rparr>;
          fs2 = (if seg_syn seg then fs1\<lparr>nextSeq := seg_seq seg + 1, have_next := True\<rparr> else fs1)
      in if length (seg_payload seg) > 0 then
           (let fs3 = (if \<not> have_next fs2 then fs2\<lparr>nextSeq := seg_seq seg, have_next := True\<rparr> else fs2)
            in integrate mx fs3 (seg_seq seg) (seg_payload seg))
         else fs2)"

definition newFlow :: "l4_segment \<Rightarrow> flow_state" where
  "newFlow seg = \<lparr>fs_src = seg_src seg, fs_dst = seg_dst seg, nextSeq = 0, have_next = False,
     buf = [], pending = [], last_ts = 0, overflow = False\<rparr>"

definition complete :: "reassembler \<Rightarrow> flow_key \<Rightarrow> reassembler \<times> flow_state list" where
  "complete r key =
     (case map_of (flows r) key of
        None \<Rightarrow> (r, [])
      | Some fs \<Rightarrow> (r\<lparr>flows := AList.delete key (flows r)\<rparr>, [fs]))"

definition sweepIdle :: "reassembler \<Rightarrow> reassembler \<times> flow_state list" where
  "sweepIdle r =
     (if r_idle r \<le> 0 then (r, [])
      else (let stale = (\<lambda>(k, fs). latestTS r - last_ts fs \<ge> r_idle r) in
        (r\<lparr>flows := filter (\<lambda>e. \<not> stale e) (flows r)\<rparr>, map snd (filter stale (flows r)))))"

definition consume :: "reassembler \<Rightarrow> l4_segment \<Rightarrow> int \<Rightarrow> reassembler \<times> flow_state list" where
  "consume r seg ts =
     (if \<not> allPorts r \<and> snd (seg_dst seg) \<notin> set (r_ports r) then (r, [])
      else
        (let r1 = (if ts > latestTS r then r\<lparr>latestTS := ts\<rparr> else r);
             key = (seg_src seg, seg_dst seg);
             fs = (case map_of (flows r1) key of None \<Rightarrow> newFlow seg | Some fs \<Rightarrow> fs);
             r2 = r1\<lparr>flows := AList.update key (acceptSegment (maxFlow r) fs seg ts) (flows r1)\<rparr>;
             (r3, out1) = (if seg_fin seg \<or> seg_rst seg then complete r2 key else (r2, []));
             (r4, out2) = sweepIdle r3
         in (r4, out1 @ out2)))"

definition flushAll :: "reassembler \<Rightarrow> reassembler \<times> flow_state list" where
  "flushAll r = (r\<lparr>flows := []\<rparr>, map snd (flows r))"

fun consumeAll :: "reassembler \<Rightarrow> (l4_segment \<times> int) list \<Rightarrow> reassembler \<times> flow_state list" where
  "consumeAll r [] = (r, [])"
| "consumeAll r ((seg, ts) # rest) =
     (let (r1, out1) = consume r seg ts; (r2, out2) = consumeAll r1 rest in (r2, out1 @ out2))"

subsection \<open>The stream invariant\<close>

text \<open>
  \<open>S\<close> is the byte stream the client sent and \<open>base\<close> the sequence number of its first byte. The
  flow has a prefix of \<open>k\<close> bytes in order; what it stores is that prefix up to the cap; every
  buffered segment is a piece of \<open>S\<close> at its own place, and there are at most 2048 of them.
\<close>

definition piece :: "bytes \<Rightarrow> u32 \<Rightarrow> u32 \<Rightarrow> bytes \<Rightarrow> bool" where
  "piece S base seq p \<longleftrightarrow>
     (\<exists>off. seq = base + of_nat off \<and> off + length p \<le> length S \<and> p = take (length p) (drop off S))"

definition capped :: "nat \<Rightarrow> bytes \<Rightarrow> bytes" where
  "capped mx xs = (if mx = 0 then xs else take mx xs)"

definition flow_inv :: "nat \<Rightarrow> bytes \<Rightarrow> u32 \<Rightarrow> flow_state \<Rightarrow> nat \<Rightarrow> bool" where
  "flow_inv mx S base fs k \<longleftrightarrow>
     k \<le> length S \<and> nextSeq fs = base + of_nat k \<and> buf fs = capped mx (take k S)
     \<and> (\<forall>(s, p) \<in> set (pending fs). piece S base s p)
     \<and> distinct (map fst (pending fs)) \<and> length (pending fs) \<le> maxPendingSegs"

lemma of_nat_less_32: "x < 2 ^ 32 \<Longrightarrow> y < 2 ^ 32 \<Longrightarrow> (of_nat x :: u32) = of_nat y \<longleftrightarrow> x = y"
proof -
  assume "x < 2 ^ 32" "y < 2 ^ 32"
  then have "unat (of_nat x :: u32) = x" "unat (of_nat y :: u32) = y" by (simp_all add: unat_of_nat)
  then show ?thesis by metis
qed

lemma seqAfter_of_nat:
  assumes "a < 2 ^ 31" "b < 2 ^ 31"
  shows "seqAfter (base + of_nat a) (base + of_nat b) \<longleftrightarrow> b < a"
proof -
  have "sint ((of_nat a :: u32) - of_nat b) = int a - int b"
  proof -
    have "((of_nat a :: u32) - of_nat b) = word_of_int (int a - int b)" by simp
    moreover have "sint (word_of_int (int a - int b) :: u32) = int a - int b"
      using assms by (simp only: sint_sbintrunc') (simp add: signed_take_bit_int_eq_self_iff)
    ultimately show ?thesis by simp
  qed
  then show ?thesis by (simp add: seqAfter_def)
qed

lemma appendInOrder_inv:
  assumes "flow_inv mx S base fs k" "k + length p \<le> length S" "p = take (length p) (drop k S)"
  shows "flow_inv mx S base (appendInOrder mx fs p) (k + length p)"
proof -
  have app: "take (k + length p) S = take k S @ p" using assms(2,3) by (metis take_add)
  have kl: "length (take k S) = k" using assms(2) by simp
  have "buf (appendInOrder mx fs p) = capped mx (take (k + length p) S)"
    using assms(1) kl unfolding app
    by (auto simp: appendInOrder_def Let_def flow_inv_def capped_def min_def)
  moreover have "nextSeq (appendInOrder mx fs p) = base + of_nat (k + length p)"
    using assms(1) by (simp add: appendInOrder_def Let_def flow_inv_def)
  ultimately show ?thesis using assms(1,2) by (simp add: flow_inv_def)
qed

lemma set_delete: "x \<in> set (AList.delete k ps) \<Longrightarrow> x \<in> set ps"
  by (auto simp: AList.delete_eq)

lemma set_update_subset: "x \<in> set (AList.update k v ps) \<Longrightarrow> x = (k, v) \<or> x \<in> set ps"
  by (induction ps) (auto split: if_splits)

lemma piece_at:
  assumes "piece S base (base + of_nat k) p" "k \<le> length S" "length S < 2 ^ 31"
  shows "k + length p \<le> length S" "p = take (length p) (drop k S)"
proof -
  from assms obtain off where off: "base + of_nat k = base + (of_nat off :: u32)"
    "off + length p \<le> length S" "p = take (length p) (drop off S)" by (auto simp: piece_def)
  then have "off = k" using assms of_nat_less_32 [of off k] by simp
  with off show "k + length p \<le> length S" "p = take (length p) (drop k S)" by simp_all
qed

lemma drain_inv:
  assumes "length S < 2 ^ 31"
  shows "flow_inv mx S base fs k \<Longrightarrow> \<exists>k'. k \<le> k' \<and> flow_inv mx S base (drainPending mx fs) k'
     \<and> map_of (pending (drainPending mx fs)) (nextSeq (drainPending mx fs)) = None"
proof (induction mx fs arbitrary: k rule: drainPending.induct)
  case (1 mx fs)
  show ?case
  proof (cases "map_of (pending fs) (nextSeq fs)")
    case None
    with 1(2) show ?thesis by (subst drainPending.simps, subst (2) drainPending.simps, subst (3) drainPending.simps) auto
  next
    case (Some cp)
    let ?fs = "fs\<lparr>pending := AList.delete (nextSeq fs) (pending fs)\<rparr>"
    have del: "length (AList.delete (nextSeq fs) (pending fs)) < length (pending fs)"
      using Some by (rule delete_shorter)
    have inv: "flow_inv mx S base ?fs k"
      using 1(2) del by (auto simp: flow_inv_def AList.distinct_delete dest!: set_delete)
    have "piece S base (nextSeq fs) cp"
      using 1(2) map_of_SomeD [OF Some] by (auto simp: flow_inv_def)
    then have pc: "k + length cp \<le> length S" "cp = take (length cp) (drop k S)"
      using piece_at [of S base k cp] 1(2) assms by (auto simp: flow_inv_def)
    from 1(1) [OF Some appendInOrder_inv [OF inv pc]] obtain k' where
      k': "k + length cp \<le> k'" "flow_inv mx S base (drainPending mx (appendInOrder mx ?fs cp)) k'"
      "map_of (pending (drainPending mx (appendInOrder mx ?fs cp))) (nextSeq (drainPending mx (appendInOrder mx ?fs cp))) = None"
      by blast
    have "drainPending mx fs = drainPending mx (appendInOrder mx ?fs cp)"
      using Some by (subst drainPending.simps) simp
    with k' show ?thesis by (metis add_leD1)
  qed
qed

lemma length_update: "length (AList.update k v ps) = (if map_of ps k = None then length ps + 1 else length ps)"
  by (induction ps) auto

lemma piece_drop:
  assumes "piece S base seq p" "seq = base + of_nat off" "off \<le> k" "k < off + length p" "off + length p \<le> length S"
    "p = take (length p) (drop off S)"
  shows "k + length (drop (k - off) p) \<le> length S"
    "drop (k - off) p = take (length (drop (k - off) p)) (drop k S)"
proof -
  show "k + length (drop (k - off) p) \<le> length S" using assms by simp
  have "drop (k - off) p = drop (k - off) (take (length p) (drop off S))" using assms(6) by simp
  also have "\<dots> = take (length p - (k - off)) (drop k S)" using assms(3) by (simp add: drop_take)
  finally show "drop (k - off) p = take (length (drop (k - off) p)) (drop k S)" unfolding length_drop .
qed

lemma integrate_inv:
  assumes S: "length S < 2 ^ 31" and inv: "flow_inv mx S base fs k" and pc: "piece S base seq p"
  shows "\<exists>k'. k \<le> k' \<and> flow_inv mx S base (integrate mx fs seq p) k'"
proof -
  from pc obtain off where off: "seq = base + of_nat off" "off + length p \<le> length S"
    "p = take (length p) (drop off S)" by (auto simp: piece_def)
  from inv have k: "k \<le> length S" "nextSeq fs = base + of_nat k" by (auto simp: flow_inv_def)
  have bnd: "off < 2 ^ 31" "k < 2 ^ 31" "off + length p < 2 ^ 31" using off k S by simp_all
  have eq: "seq = nextSeq fs \<longleftrightarrow> off = k"
    using of_nat_less_32 [of off k] bnd by (auto simp: off(1) k(2))
  have after: "seqAfter seq (nextSeq fs) \<longleftrightarrow> k < off"
    unfolding off(1) k(2) using bnd by (simp add: seqAfter_of_nat)
  have endpos: "seq + of_nat (length p) = base + of_nat (off + length p)" by (simp add: off(1))
  have afterEnd: "seqAfter (seq + of_nat (length p)) (nextSeq fs) \<longleftrightarrow> k < off + length p"
    unfolding endpos k(2) using bnd by (intro seqAfter_of_nat) simp_all
  consider "off = k" | "k < off" | "off < k" "k < off + length p" | "off < k" "off + length p \<le> k" by linarith
  then show ?thesis
  proof cases
    case 1
    have "flow_inv mx S base (appendInOrder mx fs p) (k + length p)"
      using appendInOrder_inv [OF inv] off 1 by simp
    from drain_inv [OF S this] eq 1 show ?thesis
      by (simp add: integrate_def) (meson add_leD1)
  next
    case 2
    show ?thesis
    proof (cases "map_of (pending fs) seq = None \<and> length (pending fs) \<ge> maxPendingSegs")
      case True
      then show ?thesis using 2 eq after inv by (auto simp: integrate_def flow_inv_def)
    next
      case False
      have "flow_inv mx S base (fs\<lparr>pending := AList.update seq p (pending fs)\<rparr>) k"
        using inv False pc
        by (auto simp: flow_inv_def length_update AList.distinct_update dest!: set_update_subset split: if_splits)
      then show ?thesis using 2 eq after False by (auto simp: integrate_def)
    qed
  next
    case 3
    have "nextSeq fs - seq = of_nat (k - off)" using 3 by (simp add: off(1) k(2) of_nat_diff)
    then have sk: "unat (nextSeq fs - seq) = k - off" using bnd by (simp add: unat_of_nat)
    note pd = piece_drop [OF pc off(1) less_imp_le [OF 3(1)] 3(2) off(2,3)]
    from drain_inv [OF S appendInOrder_inv [OF inv pd]]
    have "\<exists>k'. k \<le> k' \<and> flow_inv mx S base (drainPending mx (appendInOrder mx fs (drop (k - off) p))) k'"
      by (meson add_leD1)
    moreover have "k - off < length p" using 3 by simp
    ultimately show ?thesis using 3 eq after afterEnd by (simp add: integrate_def sk)
  next
    case 4
    then show ?thesis using eq after afterEnd inv by (auto simp: integrate_def)
  qed
qed

text \<open>
  The flow seen by \<open>consume\<close>. Before the first segment the baseline is unknown; a stream that is
  captured from its SYN starts with the SYN segment (sequence number one below the first byte).
\<close>

definition dataOf :: "bytes \<Rightarrow> u32 \<Rightarrow> l4_segment \<Rightarrow> bool" where
  "dataOf S base seg \<longleftrightarrow> (if seg_syn seg then seg_seq seg + 1 = base \<and> seg_payload seg = []
     else piece S base (seg_seq seg) (seg_payload seg))"

lemma acceptSegment_inv:
  assumes "length S < 2 ^ 31" "flow_inv mx S base fs k" "have_next fs"
    and "\<not> seg_syn seg" "piece S base (seg_seq seg) (seg_payload seg)"
  shows "\<exists>k'. k \<le> k' \<and> flow_inv mx S base (acceptSegment mx fs seg ts) k'"
proof -
  have "flow_inv mx S base (fs\<lparr>last_ts := ts\<rparr>) k" using assms(2) by (simp add: flow_inv_def)
  from integrate_inv [OF assms(1) this assms(5)] assms(3,4) this show ?thesis
    by (auto simp: acceptSegment_def Let_def)
qed

lemma integrate_have [simp]: "have_next (integrate mx fs s p) = have_next fs"
proof -
  have a: "have_next (appendInOrder mx fs p) = have_next fs" for mx fs p
    by (simp add: appendInOrder_def Let_def)
  have "have_next (drainPending mx fs) = have_next fs" for mx fs
  proof (induction mx fs rule: drainPending.induct)
    case (1 mx fs)
    then show ?case
      by (cases "map_of (pending fs) (nextSeq fs)") (subst drainPending.simps, simp add: a)+
  qed
  with a show ?thesis by (simp add: integrate_def Let_def)
qed

lemma acceptSegment_have [simp]: "have_next fs \<Longrightarrow> have_next (acceptSegment mx fs seg ts)"
  by (simp add: acceptSegment_def Let_def)

text \<open>Feeding one flow a list of data segments.\<close>

definition feed :: "nat \<Rightarrow> flow_state \<Rightarrow> (l4_segment \<times> int) list \<Rightarrow> flow_state" where
  "feed mx fs segs = foldl (\<lambda>fs (seg, ts). acceptSegment mx fs seg ts) fs segs"

lemma feed_simps [simp]: "feed mx fs [] = fs"
  "feed mx fs ((seg, ts) # segs) = feed mx (acceptSegment mx fs seg ts) segs"
  "feed mx fs (xs @ ys) = feed mx (feed mx fs xs) ys"
  by (simp_all add: feed_def)

lemma feed_inv:
  assumes "length S < 2 ^ 31"
  shows "flow_inv mx S base fs k \<Longrightarrow> have_next fs \<Longrightarrow>
     list_all (\<lambda>(seg, ts). \<not> seg_syn seg \<and> piece S base (seg_seq seg) (seg_payload seg)) segs \<Longrightarrow>
     \<exists>k'. k \<le> k' \<and> flow_inv mx S base (feed mx fs segs) k' \<and> have_next (feed mx fs segs)"
proof (induction segs arbitrary: fs k)
  case (Cons x segs)
  obtain seg ts where x: "x = (seg, ts)" by (cases x)
  with Cons.prems have "\<not> seg_syn seg" "piece S base (seg_seq seg) (seg_payload seg)" by auto
  from acceptSegment_inv [OF assms Cons.prems(1,2) this, of ts] obtain k1 where
    "k \<le> k1" "flow_inv mx S base (acceptSegment mx fs seg ts) k1" by blast
  moreover from this(2) obtain k' where "k1 \<le> k'" "flow_inv mx S base (feed mx (acceptSegment mx fs seg ts) segs) k'"
    "have_next (feed mx (acceptSegment mx fs seg ts) segs)"
    using Cons.IH [of "acceptSegment mx fs seg ts" k1] Cons.prems by auto
  ultimately have "k \<le> k'" by simp
  with \<open>flow_inv mx S base (feed mx (acceptSegment mx fs seg ts) segs) k'\<close>
    \<open>have_next (feed mx (acceptSegment mx fs seg ts) segs)\<close> show ?case
    unfolding x by auto
qed auto

text \<open>The flow that a SYN opens.\<close>

definition openFlow :: "l4_segment \<Rightarrow> int \<Rightarrow> flow_state" where
  "openFlow syn ts = acceptSegment 0 (newFlow syn) syn ts"

lemma open_inv:
  assumes "seg_syn syn" "seg_payload syn = []"
  shows "flow_inv mx S (seg_seq syn + 1) (openFlow syn ts) 0" "have_next (openFlow syn ts)"
    "openFlow syn ts = acceptSegment mx (newFlow syn) syn ts"
  using assms by (auto simp: openFlow_def acceptSegment_def newFlow_def flow_inv_def capped_def)

subsection \<open>Any delivery order\<close>

text \<open>A stream cut into chunks; \<open>seqOf i\<close> is the sequence number of chunk \<open>i\<close>.\<close>

definition offOf :: "bytes list \<Rightarrow> nat \<Rightarrow> nat" where
  "offOf cs i = length (concat (take i cs))"

definition seqOf :: "bytes list \<Rightarrow> u32 \<Rightarrow> nat \<Rightarrow> u32" where
  "seqOf cs base i = base + of_nat (offOf cs i)"

definition wf_chunks :: "bytes list \<Rightarrow> bool" where
  "wf_chunks cs \<longleftrightarrow> [] \<notin> set cs \<and> length (concat cs) < 2 ^ 31 \<and> length cs \<le> maxPendingSegs"

lemma offOf_Suc: "i < length cs \<Longrightarrow> offOf cs (Suc i) = offOf cs i + length (cs ! i)"
  by (simp add: offOf_def take_Suc_conv_app_nth)

lemma offOf_mono: "wf_chunks cs \<Longrightarrow> i < j \<Longrightarrow> j \<le> length cs \<Longrightarrow> offOf cs i < offOf cs j"
proof (induction j)
  case (Suc j)
  have "0 < length (cs ! j)" using Suc.prems by (metis wf_chunks_def length_greater_0_conv nth_mem Suc_le_lessD)
  with Suc show ?case by (cases "i = j") (auto simp: offOf_Suc less_Suc_eq)
qed simp

lemma offOf_bound: "wf_chunks cs \<Longrightarrow> offOf cs i < 2 ^ 31"
proof -
  assume "wf_chunks cs"
  moreover have "length (concat cs) = length (concat (take i cs)) + length (concat (drop i cs))"
    by (metis append_take_drop_id concat_append length_append)
  ultimately show ?thesis by (simp add: offOf_def wf_chunks_def)
qed

lemma offOf_less_iff: "wf_chunks cs \<Longrightarrow> i \<le> length cs \<Longrightarrow> j \<le> length cs \<Longrightarrow> offOf cs i < offOf cs j \<longleftrightarrow> i < j"
  by (metis offOf_mono linorder_neqE_nat order.asym)

lemma seqOf_eq_iff:
  assumes "wf_chunks cs" "i \<le> length cs" "j \<le> length cs"
  shows "seqOf cs base i = seqOf cs base j \<longleftrightarrow> i = j"
proof -
  have "seqOf cs base i = seqOf cs base j \<longleftrightarrow> offOf cs i = offOf cs j"
    using offOf_bound [OF assms(1), of i] offOf_bound [OF assms(1), of j] of_nat_less_32 [of "offOf cs i" "offOf cs j"]
    by (simp add: seqOf_def)
  then show ?thesis using offOf_less_iff [OF assms] offOf_less_iff [OF assms(1,3,2)] by (metis less_irrefl linorder_neqE_nat)
qed

lemma seqAfter_seqOf:
  assumes "wf_chunks cs" "i \<le> length cs" "j \<le> length cs"
  shows "seqAfter (seqOf cs base i) (seqOf cs base j) \<longleftrightarrow> j < i"
  using seqAfter_of_nat [OF offOf_bound [OF assms(1), of i] offOf_bound [OF assms(1), of j]]
    offOf_less_iff [OF assms(1,3,2)] by (simp add: seqOf_def)

definition chunk_inv :: "nat \<Rightarrow> bytes list \<Rightarrow> u32 \<Rightarrow> nat set \<Rightarrow> flow_state \<Rightarrow> nat \<Rightarrow> bool" where
  "chunk_inv mx cs base R fs j \<longleftrightarrow>
     j \<le> length cs \<and> nextSeq fs = seqOf cs base j \<and> buf fs = capped mx (concat (take j cs))
     \<and> distinct (map fst (pending fs))
     \<and> (\<forall>i\<in>R. j \<le> i \<longrightarrow> map_of (pending fs) (seqOf cs base i) = Some (cs ! i))
     \<and> (\<forall>(s, p)\<in>set (pending fs). \<exists>i<length cs. s = seqOf cs base i \<and> p = cs ! i)"

definition drained :: "flow_state \<Rightarrow> bool" where
  "drained fs \<longleftrightarrow> map_of (pending fs) (nextSeq fs) = None"

lemma chunk_append:
  assumes "chunk_inv mx cs base R fs j" "j < length cs"
  shows "chunk_inv mx cs base (insert j R) (appendInOrder mx fs (cs ! j)) (Suc j)"
proof -
  have b: "concat (take (Suc j) cs) = concat (take j cs) @ cs ! j"
    using assms(2) by (simp add: take_Suc_conv_app_nth)
  have "buf (appendInOrder mx fs (cs ! j)) = capped mx (concat (take (Suc j) cs))"
    using assms(1) unfolding b
    by (auto simp: appendInOrder_def Let_def chunk_inv_def capped_def min_def)
  moreover have "nextSeq (appendInOrder mx fs (cs ! j)) = seqOf cs base (Suc j)"
    using assms by (simp add: appendInOrder_def Let_def chunk_inv_def seqOf_def offOf_Suc)
  ultimately show ?thesis using assms by (auto simp: chunk_inv_def)
qed

lemma chunk_delete:
  assumes "wf_chunks cs" "chunk_inv mx cs base R fs j" "R \<subseteq> {..<length cs}" "j < length cs"
  shows "chunk_inv mx cs base (R - {j}) (fs\<lparr>pending := AList.delete (seqOf cs base j) (pending fs)\<rparr>) j"
proof -
  have "seqOf cs base i \<noteq> seqOf cs base j" if "i \<in> R - {j}" for i
    using seqOf_eq_iff [OF assms(1), of i j base] that assms(3,4) by auto
  then show ?thesis
    using assms(2) by (auto simp: chunk_inv_def AList.distinct_delete dest!: set_delete)
qed

lemma chunk_weaken: "chunk_inv mx cs base R fs j \<Longrightarrow> (\<And>i. i \<in> R' \<Longrightarrow> j \<le> i \<Longrightarrow> i \<in> R) \<Longrightarrow> chunk_inv mx cs base R' fs j"
  unfolding chunk_inv_def by blast

lemma chunk_drain:
  assumes wf: "wf_chunks cs"
  shows "chunk_inv mx cs base R fs j \<Longrightarrow> R \<subseteq> {..<length cs} \<Longrightarrow>
    \<exists>j'. chunk_inv mx cs base R (drainPending mx fs) j' \<and> drained (drainPending mx fs)"
proof (induction mx fs arbitrary: j rule: drainPending.induct)
  case (1 mx fs)
  show ?case
  proof (cases "map_of (pending fs) (nextSeq fs)")
    case None
    then have "drainPending mx fs = fs" by (subst drainPending.simps) simp
    with 1(2) None show ?thesis by (auto simp: drained_def)
  next
    case (Some cp)
    then obtain i where i: "i < length cs" "nextSeq fs = seqOf cs base i" "cp = cs ! i"
      using 1(2) map_of_SomeD [OF Some] by (fastforce simp: chunk_inv_def)
    have "i = j" using seqOf_eq_iff [OF wf, of i j base] 1(2) i by (simp add: chunk_inv_def)
    note i = i [unfolded this]
    let ?fs = "fs\<lparr>pending := AList.delete (nextSeq fs) (pending fs)\<rparr>"
    have "chunk_inv mx cs base (R - {j}) ?fs j"
      using chunk_delete [OF wf 1(2,3) i(1)] by (simp add: i(2))
    from chunk_append [OF this i(1)] have "chunk_inv mx cs base R (appendInOrder mx ?fs cp) (Suc j)"
      unfolding i(3) by (rule chunk_weaken) auto
    from 1(1) [OF Some this 1(3)] show ?thesis
      using Some by (subst (1 2) drainPending.simps) simp
  qed
qed

lemma pending_room:
  assumes wf: "wf_chunks cs" and inv: "chunk_inv mx cs base R fs j" and i: "i < length cs"
    and none: "map_of (pending fs) (seqOf cs base i) = None"
  shows "length (pending fs) < maxPendingSegs"
proof -
  let ?K = "fst ` set (pending fs)"
  have sub: "?K \<subseteq> seqOf cs base ` ({..<length cs} - {i})"
  proof
    fix s assume "s \<in> ?K"
    then obtain p where p: "(s, p) \<in> set (pending fs)" by auto
    with inv obtain i' where i': "i' < length cs" "s = seqOf cs base i'" by (fastforce simp: chunk_inv_def)
    have "s \<noteq> seqOf cs base i" using none p by (force simp: map_of_eq_None_iff)
    with i' show "s \<in> seqOf cs base ` ({..<length cs} - {i})" by auto
  qed
  have "length (pending fs) = card ?K"
    using inv distinct_card [of "map fst (pending fs)"] by (simp add: chunk_inv_def)
  also have "\<dots> \<le> card (seqOf cs base ` ({..<length cs} - {i}))" by (rule card_mono [OF _ sub]) simp
  also have "\<dots> \<le> card ({..<length cs} - {i})" by (rule card_image_le) simp
  also have "\<dots> < length cs" using i by simp
  also have "\<dots> \<le> maxPendingSegs" using wf by (simp add: wf_chunks_def)
  finally show ?thesis .
qed

lemma chunk_integrate:
  assumes wf: "wf_chunks cs" and inv: "chunk_inv mx cs base R fs j" and dr: "drained fs"
    and R: "R \<subseteq> {..<length cs}" and i: "i < length cs"
  shows "\<exists>j'. chunk_inv mx cs base (insert i R) (integrate mx fs (seqOf cs base i) (cs ! i)) j'
    \<and> drained (integrate mx fs (seqOf cs base i) (cs ! i))"
proof -
  have j: "j \<le> length cs" "nextSeq fs = seqOf cs base j" using inv by (auto simp: chunk_inv_def)
  have eq: "seqOf cs base i = nextSeq fs \<longleftrightarrow> i = j" using seqOf_eq_iff [OF wf] i j by simp
  have af: "seqAfter (seqOf cs base i) (nextSeq fs) \<longleftrightarrow> j < i" using seqAfter_seqOf [OF wf] i j by simp
  consider "i = j" | "j < i" | "i < j" by linarith
  then show ?thesis
  proof cases
    case 1
    have "chunk_inv mx cs base (insert i R) (appendInOrder mx fs (cs ! i)) (Suc i)"
      using chunk_append [OF inv] 1 i by simp
    from chunk_drain [OF wf this] R i eq 1 show ?thesis by (simp add: integrate_def)
  next
    case 2
    let ?fs = "fs\<lparr>pending := AList.update (seqOf cs base i) (cs ! i) (pending fs)\<rparr>"
    have "\<not> (map_of (pending fs) (seqOf cs base i) = None \<and> length (pending fs) \<ge> maxPendingSegs)"
      using pending_room [OF wf inv i] by auto
    then have r: "integrate mx fs (seqOf cs base i) (cs ! i) = ?fs"
      using 2 eq af by (auto simp: integrate_def)
    have "chunk_inv mx cs base (insert i R) ?fs j"
    proof -
      have "seqOf cs base ia = seqOf cs base i \<longleftrightarrow> ia = i" if "ia \<in> R" for ia
        using seqOf_eq_iff [OF wf] i R that by (auto simp: less_imp_le)
      then show ?thesis
        using inv i by (auto simp: chunk_inv_def AList.distinct_update AList.update_conv' dest!: set_update_subset)
    qed
    moreover have "drained ?fs"
      using dr 2 eq by (auto simp: drained_def AList.update_conv')
    ultimately show ?thesis unfolding r by blast
  next
    case 3
    have e: "seqOf cs base i + of_nat (length (cs ! i)) = seqOf cs base (Suc i)"
      using i by (simp add: seqOf_def offOf_Suc)
    have "\<not> seqAfter (seqOf cs base (Suc i)) (nextSeq fs)"
      using seqAfter_seqOf [OF wf, of "Suc i" j base] i j 3 by simp
    then have r: "integrate mx fs (seqOf cs base i) (cs ! i) = fs"
      using 3 eq af by (simp add: integrate_def e)
    have "chunk_inv mx cs base (insert i R) fs j" by (rule chunk_weaken [OF inv]) (use 3 in auto)
    with dr show ?thesis unfolding r by blast
  qed
qed

definition carries :: "bytes list \<Rightarrow> u32 \<Rightarrow> l4_segment \<Rightarrow> nat \<Rightarrow> bool" where
  "carries cs base seg i \<longleftrightarrow> i < length cs \<and> \<not> seg_syn seg \<and> seg_seq seg = seqOf cs base i
     \<and> seg_payload seg = cs ! i"

lemma chunk_ts [simp]: "chunk_inv mx cs base R (fs\<lparr>last_ts := ts\<rparr>) j = chunk_inv mx cs base R fs j"
  "drained (fs\<lparr>last_ts := ts\<rparr>) = drained fs"
  by (simp_all add: chunk_inv_def drained_def)

lemma feed_chunks:
  assumes wf: "wf_chunks cs"
  shows "chunk_inv mx cs base R fs j \<Longrightarrow> drained fs \<Longrightarrow> have_next fs \<Longrightarrow> R \<subseteq> {..<length cs} \<Longrightarrow>
    list_all (\<lambda>(seg, ts). \<exists>i. carries cs base seg i) segs \<Longrightarrow>
    \<exists>j'. chunk_inv mx cs base (R \<union> {i. \<exists>(seg, ts)\<in>set segs. carries cs base seg i}) (feed mx fs segs) j'
      \<and> drained (feed mx fs segs)"
proof (induction segs arbitrary: fs j R)
  case (Cons x segs)
  obtain seg ts where x: "x = (seg, ts)" by (cases x)
  with Cons.prems(5) obtain i where i: "carries cs base seg i" by auto
  then have ii: "i < length cs" "\<not> seg_syn seg" "seg_seq seg = seqOf cs base i" "seg_payload seg = cs ! i"
    by (simp_all add: carries_def)
  have only: "carries cs base seg i' \<longleftrightarrow> i' = i" for i'
    using ii seqOf_eq_iff [OF wf, of i' i base] by (auto simp: carries_def)
  have "cs ! i \<noteq> []" using wf ii(1) by (metis nth_mem wf_chunks_def)
  then have acc: "acceptSegment mx fs seg ts = integrate mx (fs\<lparr>last_ts := ts\<rparr>) (seqOf cs base i) (cs ! i)"
    using ii Cons.prems(3) by (simp add: acceptSegment_def Let_def)
  obtain j1 where "chunk_inv mx cs base (insert i R) (acceptSegment mx fs seg ts) j1"
    "drained (acceptSegment mx fs seg ts)"
    unfolding acc using chunk_integrate [OF wf _ _ Cons.prems(4) ii(1), of mx base "fs\<lparr>last_ts := ts\<rparr>" j] Cons.prems
    by auto
  then obtain j' where "chunk_inv mx cs base (insert i R \<union> {i. \<exists>(seg, ts)\<in>set segs. carries cs base seg i})
      (feed mx (acceptSegment mx fs seg ts) segs) j'"
    "drained (feed mx (acceptSegment mx fs seg ts) segs)"
    using Cons.IH [of "insert i R" "acceptSegment mx fs seg ts" j1] Cons.prems ii(1) x by auto
  moreover have "insert i R \<union> {i. \<exists>(seg, ts)\<in>set segs. carries cs base seg i}
      = R \<union> {i. \<exists>(seg, ts)\<in>set (x # segs). carries cs base seg i}"
    using only by (auto simp: x)
  ultimately show ?case by (auto simp: x)
qed auto

lemma feed_complete:
  assumes wf: "wf_chunks cs" and syn: "seg_syn syn" "seg_payload syn = []" "seg_seq syn + 1 = base"
    and all: "list_all (\<lambda>(seg, ts). \<exists>i. carries cs base seg i) segs"
    and every: "\<forall>i<length cs. \<exists>(seg, ts)\<in>set segs. carries cs base seg i"
  shows "buf (feed mx (openFlow syn ts0) segs) = capped mx (concat cs)"
proof -
  have 0: "chunk_inv mx cs base {} (openFlow syn ts0) 0" "drained (openFlow syn ts0)"
    "have_next (openFlow syn ts0)"
    using syn by (auto simp: openFlow_def acceptSegment_def newFlow_def chunk_inv_def capped_def seqOf_def
        offOf_def drained_def)
  from feed_chunks [OF wf 0 _ all] obtain j where
    j: "chunk_inv mx cs base {i. \<exists>(seg, ts)\<in>set segs. carries cs base seg i} (feed mx (openFlow syn ts0) segs) j"
    "drained (feed mx (openFlow syn ts0) segs)" by auto
  have "j = length cs"
  proof (rule ccontr)
    assume "j \<noteq> length cs"
    then have "j < length cs" using j(1) by (simp add: chunk_inv_def)
    with every j show False by (auto simp: chunk_inv_def drained_def)
  qed
  with j(1) show ?thesis by (simp add: chunk_inv_def)
qed

subsection \<open>Flows are independent\<close>

text \<open>What one flow does, as a machine of its own: its state (if it is open) and what it emits.\<close>

definition segKey :: "l4_segment \<Rightarrow> flow_key" where
  "segKey seg = (seg_src seg, seg_dst seg)"

definition flowStep :: "nat \<Rightarrow> flow_state option \<Rightarrow> l4_segment \<Rightarrow> int \<Rightarrow> flow_state option \<times> flow_state list" where
  "flowStep mx st seg ts =
     (let fs = acceptSegment mx (case st of None \<Rightarrow> newFlow seg | Some fs \<Rightarrow> fs) seg ts
      in if seg_fin seg \<or> seg_rst seg then (None, [fs]) else (Some fs, []))"

fun flowRun :: "nat \<Rightarrow> flow_state option \<Rightarrow> (l4_segment \<times> int) list \<Rightarrow> flow_state option \<times> flow_state list" where
  "flowRun mx st [] = (st, [])"
| "flowRun mx st ((seg, ts) # rest) =
     (let (st1, out1) = flowStep mx st seg ts; (st2, out2) = flowRun mx st1 rest in (st2, out1 @ out2))"

definition flowName :: "flow_state \<Rightarrow> flow_key" where
  "flowName fs = (fs_src fs, fs_dst fs)"

lemma flowName_append [simp]: "flowName (appendInOrder mx fs p) = flowName fs"
  by (simp add: appendInOrder_def Let_def flowName_def)

lemma flowName_pending [simp]: "flowName (fs\<lparr>pending := x\<rparr>) = flowName fs" "flowName (fs\<lparr>overflow := b\<rparr>) = flowName fs"
  "flowName (fs\<lparr>nextSeq := n\<rparr>) = flowName fs" "flowName (fs\<lparr>have_next := b\<rparr>) = flowName fs"
  "flowName (fs\<lparr>last_ts := t\<rparr>) = flowName fs"
  by (simp_all add: flowName_def)

lemma flowName_drain [simp]: "flowName (drainPending mx fs) = flowName fs"
proof (induction mx fs rule: drainPending.induct)
  case (1 mx fs)
  then show ?case
    by (cases "map_of (pending fs) (nextSeq fs)") (subst drainPending.simps, simp)+
qed

lemma flowName_accept [simp]: "flowName (acceptSegment mx fs seg ts) = flowName fs"
  by (simp add: acceptSegment_def integrate_def Let_def)

definition named :: "reassembler \<Rightarrow> bool" where
  "named r \<longleftrightarrow> (\<forall>k fs. map_of (flows r) k = Some fs \<longrightarrow> flowName fs = k)"

definition accepts :: "reassembler \<Rightarrow> flow_key \<Rightarrow> bool" where
  "accepts r k \<longleftrightarrow> allPorts r \<or> snd (snd k) \<in> set (r_ports r)"

lemma consume_spec:
  assumes "r_idle r \<le> 0"
  shows "consume r seg ts =
    (if accepts r (segKey seg) then
       (let fl = AList.update (segKey seg)
              (acceptSegment (maxFlow r) (case map_of (flows r) (segKey seg) of None \<Rightarrow> newFlow seg | Some fs \<Rightarrow> fs) seg ts)
              (flows r);
            r1 = r\<lparr>latestTS := max ts (latestTS r)\<rparr>
        in if seg_fin seg \<or> seg_rst seg
           then (r1\<lparr>flows := AList.delete (segKey seg) fl\<rparr>, snd (flowStep (maxFlow r) (map_of (flows r) (segKey seg)) seg ts))
           else (r1\<lparr>flows := fl\<rparr>, []))
     else (r, []))"
  using assms
  by (auto simp: consume_def accepts_def segKey_def sweepIdle_def complete_def Let_def flowStep_def
      AList.update_conv' max_def split: option.split)

lemma consume_keeps:
  assumes "r_idle r \<le> 0"
  shows "r_idle (fst (consume r seg ts)) = r_idle r" "maxFlow (fst (consume r seg ts)) = maxFlow r"
    "accepts (fst (consume r seg ts)) k = accepts r k"
  using assms by (simp_all add: consume_spec Let_def accepts_def)

lemma newFlow_name: "flowName (newFlow seg) = segKey seg"
  by (simp add: flowName_def newFlow_def segKey_def)

lemma consume_view:
  assumes "r_idle r \<le> 0" "named r" "accepts r k"
  shows "named (fst (consume r seg ts))"
    and "map_of (flows (fst (consume r seg ts))) k =
      (if segKey seg = k then fst (flowStep (maxFlow r) (map_of (flows r) k) seg ts) else map_of (flows r) k)"
    and "filter (\<lambda>fs. flowName fs = k) (snd (consume r seg ts)) =
      (if segKey seg = k then snd (flowStep (maxFlow r) (map_of (flows r) k) seg ts) else [])"
proof -
  let ?fs0 = "case map_of (flows r) (segKey seg) of None \<Rightarrow> newFlow seg | Some fs \<Rightarrow> fs"
  have nm: "flowName ?fs0 = segKey seg"
  proof (cases "map_of (flows r) (segKey seg)")
    case (Some fs)
    moreover from this have "flowName fs = segKey seg" using assms(2) unfolding named_def by blast
    ultimately show ?thesis by simp
  qed (simp add: newFlow_name)
  then show "named (fst (consume r seg ts))"
    using assms(2) unfolding consume_spec [OF assms(1)]
    by (auto simp: named_def Let_def AList.update_conv' AList.delete_conv' split: if_splits)
  show "map_of (flows (fst (consume r seg ts))) k =
      (if segKey seg = k then fst (flowStep (maxFlow r) (map_of (flows r) k) seg ts) else map_of (flows r) k)"
    using assms(3) unfolding consume_spec [OF assms(1)]
    by (auto simp: Let_def AList.update_conv' AList.delete_conv' flowStep_def split: if_splits)
  show "filter (\<lambda>fs. flowName fs = k) (snd (consume r seg ts)) =
      (if segKey seg = k then snd (flowStep (maxFlow r) (map_of (flows r) k) seg ts) else [])"
    using assms(3) nm unfolding consume_spec [OF assms(1)]
    by (auto simp: Let_def flowStep_def split: if_splits)
qed

lemma consumeAll_view:
  assumes "r_idle r \<le> 0" "named r" "accepts r k"
  shows "map_of (flows (fst (consumeAll r segs))) k
      = fst (flowRun (maxFlow r) (map_of (flows r) k) (filter (\<lambda>x. segKey (fst x) = k) segs))
    \<and> filter (\<lambda>fs. flowName fs = k) (snd (consumeAll r segs))
      = snd (flowRun (maxFlow r) (map_of (flows r) k) (filter (\<lambda>x. segKey (fst x) = k) segs))"
  using assms
proof (induction segs arbitrary: r)
  case (Cons x segs)
  obtain seg ts where x: "x = (seg, ts)" by (cases x)
  let ?r = "fst (consume r seg ts)"
  note v = consume_view [OF Cons.prems, of seg ts] and kp = consume_keeps [OF Cons.prems(1), of seg ts]
  have IH: "map_of (flows (fst (consumeAll ?r segs))) k
      = fst (flowRun (maxFlow r) (map_of (flows ?r) k) (filter (\<lambda>x. segKey (fst x) = k) segs))"
    "filter (\<lambda>fs. flowName fs = k) (snd (consumeAll ?r segs))
      = snd (flowRun (maxFlow r) (map_of (flows ?r) k) (filter (\<lambda>x. segKey (fst x) = k) segs))"
    using Cons.IH [of ?r] Cons.prems v(1) kp by auto
  then show ?case
    using v(2,3) by (cases "segKey seg = k") (auto simp: x case_prod_beta Let_def)
qed simp

lemma flowRun_data:
  "list_all (\<lambda>(seg, ts). \<not> seg_fin seg \<and> \<not> seg_rst seg) segs \<Longrightarrow>
   flowRun mx (Some fs) (segs @ rest) = flowRun mx (Some (feed mx fs segs)) rest"
  by (induction segs arbitrary: fs) (auto simp: flowStep_def Let_def)

lemma flowRun_connection:
  assumes "seg_syn syn" "seg_payload syn = []" "\<not> seg_fin syn" "\<not> seg_rst syn"
    and "list_all (\<lambda>(seg, ts). \<not> seg_fin seg \<and> \<not> seg_rst seg) segs"
    and "seg_fin fin \<or> seg_rst fin" "\<not> seg_syn fin" "seg_payload fin = []"
  shows "flowRun mx None ((syn, t0) # segs @ [(fin, t1)])
    = (None, [(feed mx (openFlow syn t0) segs)\<lparr>last_ts := t1\<rparr>])"
proof -
  have o: "flowStep mx None syn t0 = (Some (openFlow syn t0), [])"
    using assms(1-4) open_inv(3) [of syn t0 mx] by (simp add: flowStep_def)
  have c: "flowStep mx (Some fs) fin t1 = (None, [fs\<lparr>last_ts := t1\<rparr>])" for fs
    using assms(6-8) by (auto simp: flowStep_def acceptSegment_def Let_def)
  show ?thesis using flowRun_data [OF assms(5), of mx "openFlow syn t0" "[(fin, t1)]"] by (simp add: o c)
qed

lemma new_named: "named (newStreamReassembler ports allp mx idl)"
  by (simp add: named_def newStreamReassembler_def)

subsection \<open>Properties\<close>

text \<open>C15: Whatever data segments of a stream shorter than 2 GiB a flow receives after its SYN, in
  any order, duplicated, overlapping or missing, sequence numbers wrapping around included, the bytes it holds are
  exactly a prefix of what the client sent, cut at the per-flow cap; and it never buffers more than
  2048 early segments.\<close>

theorem reassembly_is_prefix:
  assumes "length S < 2 ^ 31" "seg_syn syn" "seg_payload syn = []"
    and "list_all (\<lambda>(seg, ts). \<not> seg_syn seg \<and> piece S (seg_seq syn + 1) (seg_seq seg) (seg_payload seg)) segs"
  shows "\<exists>k \<le> length S. buf (feed mx (openFlow syn t0) segs) = capped mx (take k S)
    \<and> nextSeq (feed mx (openFlow syn t0) segs) = seg_seq syn + 1 + of_nat k
    \<and> length (pending (feed mx (openFlow syn t0) segs)) \<le> 2048"
proof -
  from feed_inv [OF assms(1) open_inv(1) [OF assms(2,3)] open_inv(2) [OF assms(2,3)] assms(4), of mx t0]
  show ?thesis
    by (auto simp: flow_inv_def maxPendingSegs_def)
qed

definition demoSyn :: l4_segment where
  "demoSyn = demoSegment\<lparr>seg_syn := True, seg_seq := 0xfffffffe, seg_payload := []\<rparr>"

text \<open>Data of the stream \<open>1 2 3 4 5 6\<close> whose sequence numbers wrap after the first byte.\<close>

definition demoData :: "u32 \<Rightarrow> bytes \<Rightarrow> l4_segment" where
  "demoData s p = demoSegment\<lparr>seg_seq := s, seg_payload := p\<rparr>"

theorem reassembly_is_prefix_witness:
  "\<exists>k \<le> 6. buf (feed 0 (openFlow demoSyn 0) [(demoData 1 [3, 4], 1), (demoData 0xffffffff [1, 2, 3], 2)])
    = capped 0 (take k [1, 2, 3, 4, 5, 6])"
proof -
  have "piece [1, 2, 3, 4, 5, 6] 0xffffffff 1 [3, 4]"
    unfolding piece_def by (rule exI [of _ 2]) simp
  moreover have "piece [1, 2, 3, 4, 5, 6] 0xffffffff 0xffffffff [1, 2, 3]"
    unfolding piece_def by (rule exI [of _ 0]) simp
  ultimately have "list_all (\<lambda>(seg, ts). \<not> seg_syn seg
      \<and> piece [1, 2, 3, 4, 5, 6] (seg_seq demoSyn + 1) (seg_seq seg) (seg_payload seg))
      [(demoData 1 [3, 4], 1 :: int), (demoData 0xffffffff [1, 2, 3], 2)]"
    by (simp add: demoSyn_def demoData_def demoSegment_def)
  moreover have "length [1, 2, 3, 4, 5, 6 :: byte] < 2 ^ 31" "seg_syn demoSyn" "seg_payload demoSyn = []"
    by (simp_all add: demoSyn_def)
  ultimately obtain k where "k \<le> length [1, 2, 3, 4, 5, 6 :: byte]"
    "buf (feed 0 (openFlow demoSyn 0) [(demoData 1 [3, 4], 1), (demoData 0xffffffff [1, 2, 3], 2)])
      = capped 0 (take k [1, 2, 3, 4, 5, 6])"
    using reassembly_is_prefix by blast
  then show ?thesis by (intro exI [of _ k]) simp
qed



text \<open>A print stream is recovered completely. If a connection opens with a SYN, its stream cut
  into at most 2048 chunks arrives chunk by chunk in any order, with any repetitions and any other
  traffic in between, and it ends with FIN or RST after every chunk has arrived, then exactly one
  stream is emitted for it, holding every byte in order up to the cap.\<close>

theorem stream_recovered:
  assumes "r = newStreamReassembler ports allp mx 0" "accepts r (segKey syn)" "wf_chunks cs"
    and "seg_syn syn" "seg_payload syn = []" "\<not> seg_fin syn" "\<not> seg_rst syn"
    and "list_all (\<lambda>(seg, ts). \<not> seg_fin seg \<and> \<not> seg_rst seg \<and> (\<exists>i. carries cs (seg_seq syn + 1) seg i)) data"
    and "\<forall>i<length cs. \<exists>(seg, ts)\<in>set data. carries cs (seg_seq syn + 1) seg i"
    and "seg_fin fin \<or> seg_rst fin" "\<not> seg_syn fin" "seg_payload fin = []"
    and "filter (\<lambda>x. segKey (fst x) = segKey syn) segs = (syn, t0) # data @ [(fin, t1)]"
  shows "map buf (filter (\<lambda>fs. flowName fs = segKey syn) (snd (consumeAll r segs))) = [capped mx (concat cs)]"
proof -
  have d: "list_all (\<lambda>(seg, ts). \<not> seg_fin seg \<and> \<not> seg_rst seg) data"
    "list_all (\<lambda>(seg, ts). \<exists>i. carries cs (seg_seq syn + 1) seg i) data"
    using assms(8) by (auto simp: list_all_iff)
  have "buf (feed mx (openFlow syn t0) data) = capped mx (concat cs)"
    by (rule feed_complete [OF assms(3-5) refl d(2) assms(9)])
  moreover have "filter (\<lambda>fs. flowName fs = segKey syn) (snd (consumeAll r segs))
      = snd (flowRun mx None ((syn, t0) # data @ [(fin, t1)]))"
    using consumeAll_view [of r "segKey syn" segs] new_named [of ports allp mx 0] assms(1,2,13)
    by (simp add: newStreamReassembler_def)
  ultimately show ?thesis
    using flowRun_connection [OF assms(4-7) d(1) assms(10-12), of mx t0 t1] by simp
qed

theorem stream_recovered_witness:
  "map buf (filter (\<lambda>fs. flowName fs = segKey demoSyn) (snd (consumeAll (newStreamReassembler [9100] False 0 0)
      ([(demoSyn, 0), (demoData 1 [3], 1), (demoData 0xffffffff [1, 2], 2)]
        @ [(demoSegment\<lparr>seg_fin := True, seg_payload := []\<rparr>, 3)])))) = [capped 0 (concat [[1, 2], [3]])]"
proof (rule stream_recovered [OF refl, of "[9100]" False 0 demoSyn "[[1, 2], [3]]"
      "[(demoData 1 [3], 1), (demoData 0xffffffff [1, 2], 2)]" "demoSegment\<lparr>seg_fin := True, seg_payload := []\<rparr>"])
  have c: "carries [[1, 2], [3]] 0xffffffff (demoData 0xffffffff [1, 2]) 0"
    "carries [[1, 2], [3]] 0xffffffff (demoData 1 [3]) 1"
    by (simp_all add: carries_def demoData_def demoSegment_def seqOf_def offOf_def)
  have b: "seg_seq demoSyn + 1 = 0xffffffff" by (simp add: demoSyn_def)
  show "list_all (\<lambda>(seg, ts). \<not> seg_fin seg \<and> \<not> seg_rst seg \<and> (\<exists>i. carries [[1, 2], [3]] (seg_seq demoSyn + 1) seg i))
     [(demoData 1 [3], 1), (demoData 0xffffffff [1, 2], 2)]"
    unfolding b using c by (auto simp: demoData_def demoSegment_def)
  show "\<forall>i<length [[1, 2], [3 :: byte]]. \<exists>(seg, ts)\<in>set [(demoData 1 [3], 1), (demoData 0xffffffff [1, 2], 2)].
     carries [[1, 2], [3]] (seg_seq demoSyn + 1) seg i"
    unfolding b using c by (auto simp: less_Suc_eq)
qed (simp_all add: accepts_def newStreamReassembler_def segKey_def demoSyn_def demoData_def demoSegment_def
    wf_chunks_def maxPendingSegs_def)

text \<open>Bytes that did arrive can still be lost. When a retransmission overlaps the start of a
  segment that is waiting out of order, the stream moves past that segment's key and never looks it
  up again: here every byte of the six-byte stream was received, and only four are recovered.\<close>

theorem overlap_loses_pending_tail:
  "buf (feed 0 (openFlow demoSyn 0)
      [(demoData 2 [4, 5, 6], 1), (demoData 0xffffffff [1, 2, 3, 4], 2)]) = [1, 2, 3, 4]
   \<and> piece [1, 2, 3, 4, 5, 6] 0xffffffff 2 [4, 5, 6]
   \<and> piece [1, 2, 3, 4, 5, 6] 0xffffffff 0xffffffff [1, 2, 3, 4]"
proof -
  have "buf (feed 0 (openFlow demoSyn 0)
      [(demoData 2 [4, 5, 6], 1), (demoData 0xffffffff [1, 2, 3, 4], 2)]) = [1, 2, 3, 4]"
    by (simp add: feed_def openFlow_def acceptSegment_def newFlow_def integrate_def appendInOrder_def Let_def
        demoSyn_def demoData_def demoSegment_def seqAfter_def maxPendingSegs_def drainPending.simps)
  moreover have "piece [1, 2, 3, 4, 5, 6] 0xffffffff 2 [4, 5, 6]"
    unfolding piece_def by (rule exI [of _ 3]) simp
  moreover have "piece [1, 2, 3, 4, 5, 6] 0xffffffff 0xffffffff [1, 2, 3, 4]"
    unfolding piece_def by (rule exI [of _ 0]) simp
  ultimately show ?thesis by blast
qed

end
