(* ===== verification/Pcap_File.thy ===== *)
theory Pcap_File
  imports Go_Prelude
begin

text \<open>
  Capture files: the libpcap writer (\<^verbatim>\<open>pcapfile.go\<close>) and the reader of the dashboard viewer
  (\<^verbatim>\<open>pcapread.go\<close>). The file is the byte string the writer has accepted; write errors, buffering and
  locking are left out. A time stamp is a pair of Unix seconds and nanoseconds below one second.
\<close>

subsection \<open>Writing\<close>

record pcap_writer =
  pw_out :: bytes
  pw_snaplen :: u32
  pw_count :: u64
  pw_bytes :: u64
  pw_closed :: bool

abbreviation defaultSnapLen :: int where "defaultSnapLen \<equiv> 262144"
abbreviation pcapMagic :: u32 where "pcapMagic \<equiv> 0xa1b2c3d4"

definition newPcapWriter :: "int \<Rightarrow> int \<Rightarrow> pcap_writer" where
  "newPcapWriter snaplen0 linkType0 =
     (let snaplen = (if snaplen0 \<le> 0 then defaultSnapLen else snaplen0);
          linkType = (if linkType0 < 0 then 1 else linkType0);
          hdr = le32 pcapMagic @ le16 2 @ le16 4 @ replicate 8 0
                @ le32 (word_of_int snaplen) @ le32 (word_of_int linkType)
      in \<lparr>pw_out = hdr, pw_snaplen = word_of_int snaplen, pw_count = 0, pw_bytes = 0, pw_closed = False\<rparr>)"

text \<open>\<open>None\<close> is the error of a write after Close.\<close>

definition writePacket :: "pcap_writer \<Rightarrow> int \<times> nat \<Rightarrow> bytes \<Rightarrow> pcap_writer option" where
  "writePacket p ts data =
     (if pw_closed p then None
      else (let origLen = of_nat (length data) :: u32;
                inclLen = (if origLen > pw_snaplen p then pw_snaplen p else origLen);
                rec = le32 (word_of_int (fst ts)) @ le32 (of_nat (snd ts div 1000)) @ le32 inclLen @ le32 origLen
            in Some (p\<lparr>pw_out := pw_out p @ rec @ take (unat inclLen) data,
                       pw_count := pw_count p + 1, pw_bytes := pw_bytes p + ucast inclLen\<rparr>)))"

definition stats :: "pcap_writer \<Rightarrow> u64 \<times> u64" where
  "stats p = (pw_count p, pw_bytes p)"

definition closePcap :: "pcap_writer \<Rightarrow> pcap_writer" where
  "closePcap p = (if pw_closed p then p else p\<lparr>pw_closed := True\<rparr>)"

fun writePackets :: "pcap_writer \<Rightarrow> ((int \<times> nat) \<times> bytes) list \<Rightarrow> pcap_writer option" where
  "writePackets p [] = Some p"
| "writePackets p ((ts, data) # rest) = do { p' \<leftarrow> writePacket p ts data; writePackets p' rest }"

subsection \<open>Reading\<close>

abbreviation maxPcapFrame :: nat where "maxPcapFrame \<equiv> 1048576"

record captured_packet =
  cp_ts :: "int \<times> int"
  cp_data :: bytes

record pcap_data =
  pd_linkType :: int
  pd_packets :: "captured_packet list"
  pd_truncated :: bool

datatype pcap_error = ShortGlobalHeader | BadMagic

text \<open>\<^verbatim>\<open>io.ReadFull\<close> of \<open>n\<close> bytes: the bytes and the rest, or an error (nothing more is read after it).\<close>

definition readFull :: "nat \<Rightarrow> bytes \<Rightarrow> (bytes \<times> bytes) option" where
  "readFull n b = (if length b < n then None else Some (take n b, drop n b))"

definition get32 :: "bool \<Rightarrow> bytes \<Rightarrow> nat \<Rightarrow> u32" where
  "get32 big b i = (if big then be_dec (take 4 (drop i b)) else le_dec (take 4 (drop i b)))"

text \<open>\<^verbatim>\<open>time.Unix(sec, nsec)\<close> normalises the nanoseconds into the seconds.\<close>

definition unixTime :: "int \<Rightarrow> int \<Rightarrow> int \<times> int" where
  "unixTime sec nsec = (sec + nsec div 1000000000, nsec mod 1000000000)"

definition byteOrder :: "bytes \<Rightarrow> (bool \<times> bool) option" where
  "byteOrder gh =
     (let m = take 4 gh in
      if m = [0xa1, 0xb2, 0xc3, 0xd4] then Some (True, False)
      else if m = [0xd4, 0xc3, 0xb2, 0xa1] then Some (False, False)
      else if m = [0xa1, 0xb2, 0x3c, 0x4d] then Some (True, True)
      else if m = [0x4d, 0x3c, 0xb2, 0xa1] then Some (False, True)
      else None)"

function readRecords :: "bool \<Rightarrow> bool \<Rightarrow> int \<Rightarrow> bytes \<Rightarrow> captured_packet list \<Rightarrow> captured_packet list \<times> bool" where
  "readRecords big nano mx b packets =
     (if mx > 0 \<and> int (length packets) \<ge> mx then (packets, True)
      else (case readFull 16 b of
        None \<Rightarrow> (packets, False)
      | Some (rh, b1) \<Rightarrow>
          let tsSec = get32 big rh 0; tsFrac = get32 big rh 4; inclLen = unat (get32 big rh 8) in
          if inclLen = 0 \<or> inclLen > maxPcapFrame then (packets, False)
          else (case readFull inclLen b1 of
            None \<Rightarrow> (packets, False)
          | Some (data, b2) \<Rightarrow>
              let ts = (if nano then unixTime (uint tsSec) (uint tsFrac)
                        else unixTime (uint tsSec) (uint tsFrac * 1000))
              in readRecords big nano mx b2 (packets @ [\<lparr>cp_ts = ts, cp_data = data\<rparr>]))))"
  by pat_completeness auto
termination
  by (relation "measure (\<lambda>(big, nano, mx, b, packets). length b)") (auto simp: readFull_def split: if_splits)

declare readRecords.simps [simp del]

definition readPcap :: "bytes \<Rightarrow> int \<Rightarrow> pcap_error + pcap_data" where
  "readPcap file mx =
     (case readFull 24 file of
        None \<Rightarrow> Inl ShortGlobalHeader
      | Some (gh, rest) \<Rightarrow>
          (case byteOrder gh of
             None \<Rightarrow> Inl BadMagic
           | Some (big, nano) \<Rightarrow>
               (case readRecords big nano mx rest [] of (ps, tr) \<Rightarrow>
                  Inr \<lparr>pd_linkType = uint (get32 big gh 20), pd_packets = ps, pd_truncated = tr\<rparr>)))"

subsection \<open>What is written is read back\<close>

text \<open>The packet a reader should see for a captured frame: cut at the snap length, microsecond time.\<close>

definition asRead :: "u32 \<Rightarrow> (int \<times> nat) \<times> bytes \<Rightarrow> captured_packet" where
  "asRead snaplen f = \<lparr>cp_ts = (fst (fst f), int (snd (fst f) div 1000 * 1000)), cp_data = take (unat snaplen) (snd f)\<rparr>"

definition wf_frame :: "(int \<times> nat) \<times> bytes \<Rightarrow> bool" where
  "wf_frame f \<longleftrightarrow> 0 \<le> fst (fst f) \<and> fst (fst f) < 2 ^ 32 \<and> snd (fst f) < 1000000000 \<and> length (snd f) < 2 ^ 32"

definition recordOf :: "u32 \<Rightarrow> (int \<times> nat) \<times> bytes \<Rightarrow> bytes" where
  "recordOf snaplen f =
     le32 (word_of_int (fst (fst f))) @ le32 (of_nat (snd (fst f) div 1000))
       @ le32 (of_nat (min (unat snaplen) (length (snd f)))) @ le32 (of_nat (length (snd f)))
       @ take (unat snaplen) (snd f)"

lemma writePackets_out:
  "\<not> pw_closed p \<Longrightarrow> list_all wf_frame fs \<Longrightarrow>
   \<exists>p'. writePackets p fs = Some p' \<and> pw_out p' = pw_out p @ concat (map (recordOf (pw_snaplen p)) fs)
     \<and> \<not> pw_closed p' \<and> pw_snaplen p' = pw_snaplen p \<and> pw_count p' = pw_count p + of_nat (length fs)"
proof (induction fs arbitrary: p)
  case (Cons f fs)
  obtain ts d where f: "f = (ts, d)" by (cases f)
  have l: "length d < 2 ^ 32" using Cons.prems f by (simp add: wf_frame_def)
  then have u: "unat (of_nat (length d) :: u32) = length d" by (simp add: unat_of_nat)
  have incl: "(if (of_nat (length d) :: u32) > pw_snaplen p then pw_snaplen p else of_nat (length d))
      = of_nat (min (unat (pw_snaplen p)) (length d))"
    using u by (simp add: word_less_nat_alt min_def)
  have um: "unat (of_nat (min (unat (pw_snaplen p)) (length d)) :: u32) = min (unat (pw_snaplen p)) (length d)"
    using l by (simp add: unat_of_nat min_def)
  have "take (min (unat (pw_snaplen p)) (length d)) d = take (unat (pw_snaplen p)) d"
    by (simp add: min_def)
  then obtain p1 where p1: "writePacket p ts d = Some p1" "\<not> pw_closed p1" "pw_snaplen p1 = pw_snaplen p"
    "pw_out p1 = pw_out p @ recordOf (pw_snaplen p) (ts, d)" "pw_count p1 = pw_count p + 1"
    using Cons.prems(1) unfolding writePacket_def Let_def incl um by (simp add: recordOf_def)
  then show ?case using Cons.IH [of p1] Cons.prems f by (auto simp: algebra_simps)
qed simp

lemma readRecords_stop: "\<not> (mx > 0 \<and> int (length ps) \<ge> mx) \<Longrightarrow> readFull 16 b = Some (rh, b1) \<Longrightarrow>
    get32 big rh 8 = 0 \<Longrightarrow> readRecords big nano mx b ps = (ps, False)"
  by (subst readRecords.simps) simp

lemma recordOf_head:
  fixes snaplen :: u32
  assumes "wf_frame f"
  defines "n \<equiv> min (unat snaplen) (length (snd f))"
  shows "readFull 16 (recordOf snaplen f @ rest)
      = Some (take 16 (recordOf snaplen f), take (unat snaplen) (snd f) @ rest)"
    and "get32 False (take 16 (recordOf snaplen f)) 0 = word_of_int (fst (fst f))"
    and "get32 False (take 16 (recordOf snaplen f)) 4 = of_nat (snd (fst f) div 1000)"
    and "unat (get32 False (take 16 (recordOf snaplen f)) 8) = n"
    and "readFull n (take (unat snaplen) (snd f) @ rest) = Some (take (unat snaplen) (snd f), rest)"
proof -
  show "readFull 16 (recordOf snaplen f @ rest)
      = Some (take 16 (recordOf snaplen f), take (unat snaplen) (snd f) @ rest)"
    by (simp add: readFull_def recordOf_def)
  show "get32 False (take 16 (recordOf snaplen f)) 0 = word_of_int (fst (fst f))"
    "get32 False (take 16 (recordOf snaplen f)) 4 = of_nat (snd (fst f) div 1000)"
    by (simp_all add: get32_def recordOf_def)
  have "length (snd f) < 2 ^ 32" using assms(1) by (simp add: wf_frame_def)
  then have "n < 2 ^ 32" by (simp add: n_def min_def)
  then have "unat (of_nat n :: u32) = n" by (simp add: unat_of_nat)
  moreover have "get32 False (take 16 (recordOf snaplen f)) 8 = of_nat n"
    by (simp add: get32_def recordOf_def n_def)
  ultimately show "unat (get32 False (take 16 (recordOf snaplen f)) 8) = n" by simp
  show "readFull n (take (unat snaplen) (snd f) @ rest) = Some (take (unat snaplen) (snd f), rest)"
    by (simp add: readFull_def n_def min_def)
qed

lemma time_roundtrip:
  assumes "wf_frame f"
  shows "unixTime (uint (word_of_int (fst (fst f)) :: u32)) (uint (of_nat (snd (fst f) div 1000) :: u32) * 1000)
    = (fst (fst f), int (snd (fst f) div 1000 * 1000))"
proof -
  let ?us = "snd (fst f) div 1000"
  from assms have b: "0 \<le> fst (fst f)" "fst (fst f) < 2 ^ 32" "snd (fst f) < 1000000000" by (auto simp: wf_frame_def)
  have u: "?us < 1000000" using b(3) by (simp add: less_mult_imp_div_less)
  have "uint (word_of_int (fst (fst f)) :: u32) = fst (fst f)"
    using b by (simp add: uint_word_of_int_eq take_bit_int_eq_self)
  moreover have "uint (of_nat ?us :: u32) = int ?us"
    using u by (simp add: uint_nat unat_of_nat)
  ultimately show ?thesis using u by (simp add: unixTime_def)
qed

text \<open>A frame the reader goes on after: not empty and at most 1 MiB on disk.\<close>

definition readable :: "u32 \<Rightarrow> (int \<times> nat) \<times> bytes \<Rightarrow> bool" where
  "readable snaplen f \<longleftrightarrow> min (unat snaplen) (length (snd f)) \<in> {1..maxPcapFrame}"

lemma readRecords_written:
  "list_all wf_frame fs \<Longrightarrow>
   readRecords False False 0 (concat (map (recordOf snaplen) fs)) ps
     = (ps @ map (asRead snaplen) (takeWhile (readable snaplen) fs), False)"
proof (induction fs arbitrary: ps)
  case Nil
  show ?case by (subst readRecords.simps) (simp add: readFull_def)
next
  case (Cons f fs)
  then have f: "wf_frame f" by simp
  let ?rest = "concat (map (recordOf snaplen) fs)"
  note h = recordOf_head [OF f]
  show ?case
  proof (cases "readable snaplen f")
    case True
    have "readRecords False False 0 (recordOf snaplen f @ ?rest) ps
        = readRecords False False 0 ?rest (ps @ [asRead snaplen f])"
    proof -
      have n: "(min (unat snaplen) (length (snd f)) = 0) = False"
        "(maxPcapFrame < min (unat snaplen) (length (snd f))) = False"
        using True by (auto simp: readable_def)
      show ?thesis
        by (subst readRecords.simps) (simp add: h Let_def time_roundtrip [OF f] asRead_def n del: min_less_iff_conj)
    qed
    with True Cons show ?thesis by simp
  next
    case False
    have "readRecords False False 0 (recordOf snaplen f @ ?rest) ps = (ps, False)"
    proof -
      have n: "(min (unat snaplen) (length (snd f)) = 0 \<or> maxPcapFrame < min (unat snaplen) (length (snd f))) = True"
        using False unfolding readable_def atLeastAtMost_iff eq_True by linarith
      show ?thesis
        by (subst readRecords.simps) (simp only: h option.case prod.case Let_def n if_True, simp)
    qed
    with False show ?thesis by simp
  qed
qed

lemma header_reads:
  assumes "0 \<le> lt" "lt < 2 ^ 32"
  shows "readFull 24 (pw_out (newPcapWriter sl lt) @ rest) = Some (pw_out (newPcapWriter sl lt), rest)"
    and "byteOrder (pw_out (newPcapWriter sl lt)) = Some (False, False)"
    and "uint (get32 False (pw_out (newPcapWriter sl lt)) 20) = lt"
proof -
  have "le32 pcapMagic = [0xd4, 0xc3, 0xb2, 0xa1]" by code_simp
  then show "byteOrder (pw_out (newPcapWriter sl lt)) = Some (False, False)"
    by (simp add: byteOrder_def newPcapWriter_def Let_def)
  show "readFull 24 (pw_out (newPcapWriter sl lt) @ rest) = Some (pw_out (newPcapWriter sl lt), rest)"
    by (simp add: readFull_def newPcapWriter_def Let_def)
  show "uint (get32 False (pw_out (newPcapWriter sl lt)) 20) = lt"
    using assms by (simp add: get32_def newPcapWriter_def Let_def uint_word_of_int_eq take_bit_int_eq_self)
qed

subsection \<open>Properties\<close>

text \<open>C27: What the viewer shows of a capture file. The reader gives back the link type and, in
  order, every frame the writer accepted, cut at the snap length and with its time stamp at
  microsecond resolution, up to the first frame that is empty (or whose stored part exceeds 1 MiB):
  the writer stores such a frame like any other, and it hides everything captured after it.\<close>

theorem pcap_written_then_read:
  assumes "0 \<le> lt" "lt < 2 ^ 32" "list_all wf_frame fs"
  shows "\<exists>p'. writePackets (newPcapWriter sl lt) fs = Some p'
    \<and> pw_count (closePcap p') = of_nat (length fs)
    \<and> readPcap (pw_out (closePcap p')) 0 = Inr \<lparr>pd_linkType = lt,
        pd_packets = map (asRead (pw_snaplen p')) (takeWhile (readable (pw_snaplen p')) fs),
        pd_truncated = False\<rparr>"
proof -
  let ?w = "newPcapWriter sl lt"
  have "\<not> pw_closed ?w" "pw_count ?w = 0" by (simp_all add: newPcapWriter_def Let_def)
  then obtain p' where p': "writePackets ?w fs = Some p'" "pw_snaplen p' = pw_snaplen ?w"
    "pw_out p' = pw_out ?w @ concat (map (recordOf (pw_snaplen ?w)) fs)" "\<not> pw_closed p'"
    "pw_count p' = of_nat (length fs)"
    using writePackets_out [of ?w fs] assms(3) by auto
  then have "pw_out (closePcap p') = pw_out ?w @ concat (map (recordOf (pw_snaplen ?w)) fs)"
    "pw_count (closePcap p') = of_nat (length fs)"
    by (simp_all add: closePcap_def)
  with p' show ?thesis
    using header_reads [OF assms(1,2), of sl] readRecords_written [OF assms(3), of "pw_snaplen ?w" "[]"]
    by (simp add: readPcap_def)
qed

theorem pcap_written_then_read_witness:
  "\<exists>p'. writePackets (newPcapWriter 4 1) [((10, 5000), [1, 2, 3, 4, 5]), ((11, 0), []), ((12, 0), [6])] = Some p'
    \<and> readPcap (pw_out (closePcap p')) 0
        = Inr \<lparr>pd_linkType = 1, pd_packets = [\<lparr>cp_ts = (10, 5000), cp_data = [1, 2, 3, 4]\<rparr>], pd_truncated = False\<rparr>"
proof -
  have "list_all wf_frame [((10, 5000), [1, 2, 3, 4, 5]), ((11, 0), []), ((12, 0), [6])]"
    by (simp add: wf_frame_def)
  from pcap_written_then_read [OF _ _ this, of 1 4] obtain p' where
    p': "writePackets (newPcapWriter 4 1) [((10, 5000), [1, 2, 3, 4, 5]), ((11, 0), []), ((12, 0), [6])] = Some p'"
    "readPcap (pw_out (closePcap p')) 0 = Inr \<lparr>pd_linkType = 1,
        pd_packets = map (asRead (pw_snaplen p')) (takeWhile (readable (pw_snaplen p'))
          [((10, 5000), [1, 2, 3, 4, 5]), ((11, 0), []), ((12, 0), [6])]),
        pd_truncated = False\<rparr>" by auto
  then have "pw_snaplen p' = 4"
    by (auto simp: writePacket_def newPcapWriter_def Let_def)
  with p' show ?thesis by (simp add: asRead_def readable_def)
qed

end
