(* ===== verification/Job_Store.thy ===== *)
theory Job_Store
  imports Byte_Search Config_Types "HOL-Library.List_Lexorder" "HOL-Library.Product_Lexorder" "HOL-Library.Multiset"
begin

text \<open>
  The in-memory job store behind the dashboard (\<^verbatim>\<open>store.go\<close>): a bounded ring of the most recent
  jobs without their payload, running counters, lookup, removal, and the filtered, sorted and
  paged query. The lock makes every operation atomic, so the operations are functions of the state.
\<close>

record job_store =
  storeMax :: nat
  storeJobs :: "job list"
  storeTotal :: nat
  storeBytes :: nat
  byProto :: "bytes \<rightharpoonup> nat"

definition newJobStore :: "nat \<Rightarrow> job_store" where
  "newJobStore m = \<lparr>storeMax = m, storeJobs = [], storeTotal = 0, storeBytes = 0, byProto = Map.empty\<rparr>"

text \<open>Indexing a Go map gives the zero value for an absent key.\<close>

definition countOf :: "(bytes \<rightharpoonup> nat) \<Rightarrow> bytes \<Rightarrow> nat" where
  "countOf m k = (case m k of Some n \<Rightarrow> n | None \<Rightarrow> 0)"

definition addJob :: "job_store \<Rightarrow> job \<Rightarrow> job_store" where
  "addJob s j =
     (let clone = j\<lparr>jobData := []\<rparr>;
          js = storeJobs s @ [clone];
          js' = (if length js > storeMax s then drop (length js - storeMax s) js else js)
      in s\<lparr>storeJobs := js', storeTotal := storeTotal s + 1, storeBytes := storeBytes s + jobBytes j,
           byProto := (byProto s)(jobProtocol j \<mapsto> countOf (byProto s) (jobProtocol j) + 1)\<rparr>)"

definition recentJobs :: "job_store \<Rightarrow> nat \<Rightarrow> job list" where
  "recentJobs s n = take n (rev (storeJobs s))"

definition getJob :: "job_store \<Rightarrow> nat \<Rightarrow> job option" where
  "getJob s i = find (\<lambda>j. jobID j = i) (storeJobs s)"

fun removeFirst :: "nat \<Rightarrow> job list \<Rightarrow> (job list \<times> job) option" where
  "removeFirst i [] = None"
| "removeFirst i (j # js) =
     (if jobID j = i then Some (js, j)
      else (case removeFirst i js of None \<Rightarrow> None | Some (js', r) \<Rightarrow> Some (j # js', r)))"

definition removeJob :: "job_store \<Rightarrow> nat \<Rightarrow> job_store \<times> job option" where
  "removeJob s i = (case removeFirst i (storeJobs s) of
      None \<Rightarrow> (s, None)
    | Some (js, j) \<Rightarrow> (s\<lparr>storeJobs := js\<rparr>, Some j))"

definition storeStats :: "job_store \<Rightarrow> nat \<times> nat \<times> (bytes \<rightharpoonup> nat)" where
  "storeStats s = (storeTotal s, storeBytes s, byProto s)"

subsection \<open>Queries\<close>

record job_filter =
  filterQ :: bytes
  filterProtocol :: bytes
  filterSort :: bytes
  filterDesc :: bool
  filterOffset :: int
  filterLimit :: int

definition jobMatchesText :: "job \<Rightarrow> bytes \<Rightarrow> bool" where
  "jobMatchesText j q =
     list_ex (\<lambda>f. bytesContains (toLower f) q) [jobName j, jobUser j, jobHost j, jobSource j, jobProtocol j]"

definition jobMatches :: "job_filter \<Rightarrow> job \<Rightarrow> bool" where
  "jobMatches f j =
     (let q = toLower (trimSpace (filterQ f)) in
      \<not> (filterProtocol f \<noteq> [] \<and> jobProtocol j \<noteq> filterProtocol f)
      \<and> \<not> (q \<noteq> [] \<and> \<not> jobMatchesText j q))"

definition jobLess :: "bytes \<Rightarrow> job \<Rightarrow> job \<Rightarrow> bool" where
  "jobLess sortKey a b =
     (if sortKey = str ''bytes'' \<and> jobBytes a \<noteq> jobBytes b then jobBytes a < jobBytes b
      else if sortKey = str ''protocol'' \<and> jobProtocol a \<noteq> jobProtocol b then jobProtocol a < jobProtocol b
      else if sortKey = str ''job_name'' \<and> toLower (jobName a) \<noteq> toLower (jobName b)
        then toLower (jobName a) < toLower (jobName b)
      else jobID a < jobID b)"

text \<open>\<^verbatim>\<open>sort.SliceStable\<close>: the stable insertion sort for the caller's \<^verbatim>\<open>less\<close>.\<close>

fun insertBefore :: "('a \<Rightarrow> 'a \<Rightarrow> bool) \<Rightarrow> 'a \<Rightarrow> 'a list \<Rightarrow> 'a list" where
  "insertBefore lt x [] = [x]"
| "insertBefore lt x (y # ys) = (if lt y x then y # insertBefore lt x ys else x # y # ys)"

definition sliceStable :: "('a \<Rightarrow> 'a \<Rightarrow> bool) \<Rightarrow> 'a list \<Rightarrow> 'a list" where
  "sliceStable lt xs = foldr (insertBefore lt) xs []"

definition sortedMatches :: "job_store \<Rightarrow> job_filter \<Rightarrow> job list" where
  "sortedMatches s f =
     (let matched = filter (jobMatches f) (storeJobs s);
          key = (if filterSort f = [] then str ''received'' else filterSort f);
          sorted = sliceStable (jobLess key) matched
      in if filterDesc f then rev sorted else sorted)"

definition queryJobs :: "job_store \<Rightarrow> job_filter \<Rightarrow> job list \<times> nat" where
  "queryJobs s f =
     (let matched = sortedMatches s f;
          total = length matched;
          limit = (if filterLimit f \<le> 0 then 50 else filterLimit f);
          off = (if filterOffset f < 0 then 0 else filterOffset f);
          off' = (if off > int total then int total else off);
          end' = (if off' + limit > int total then int total else off' + limit)
      in (take (nat end' - nat off') (drop (nat off') matched), total))"

section \<open>Correctness\<close>

subsection \<open>The ring\<close>

definition addJobs :: "job_store \<Rightarrow> job list \<Rightarrow> job_store" where
  "addJobs s js = foldl addJob s js"

definition lastN :: "nat \<Rightarrow> 'a list \<Rightarrow> 'a list" where
  "lastN n xs = drop (length xs - n) xs"

lemma lastN_append1: "lastN n (lastN n xs @ [x]) = lastN n (xs @ [x])"
  by (cases "length xs \<le> n") (auto simp: lastN_def Suc_diff_le)

lemma lastN_rev: "rev (lastN n xs) = take n (rev xs)"
  by (cases "n \<le> length xs") (simp_all add: lastN_def rev_drop)

definition stripped :: "job \<Rightarrow> job" where
  "stripped j = j\<lparr>jobData := []\<rparr>"

lemma addJob_ring:
  "storeJobs (addJob s j) = lastN (storeMax s) (storeJobs s @ [stripped j])"
  by (simp add: addJob_def lastN_def Let_def stripped_def)

lemma addJobs_state:
  "storeMax (addJobs (newJobStore m) js) = m
   \<and> storeJobs (addJobs (newJobStore m) js) = lastN m (map stripped js)
   \<and> storeTotal (addJobs (newJobStore m) js) = length js
   \<and> storeBytes (addJobs (newJobStore m) js) = sum_list (map jobBytes js)
   \<and> (\<forall>p. countOf (byProto (addJobs (newJobStore m) js)) p = length (filter (\<lambda>j. jobProtocol j = p) js))"
proof (induction js rule: rev_induct)
  case Nil
  then show ?case by (simp add: addJobs_def newJobStore_def lastN_def countOf_def)
next
  case (snoc j js)
  let ?s = "addJobs (newJobStore m) js"
  have e: "addJobs (newJobStore m) (js @ [j]) = addJob ?s j" by (simp add: addJobs_def)
  have "storeJobs (addJob ?s j) = lastN m (map stripped (js @ [j]))"
    using snoc by (simp add: addJob_ring lastN_append1)
  moreover have "storeMax (addJob ?s j) = m" "storeTotal (addJob ?s j) = length (js @ [j])"
    "storeBytes (addJob ?s j) = sum_list (map jobBytes (js @ [j]))"
    using snoc by (simp_all add: addJob_def Let_def)
  moreover have "countOf (byProto (addJob ?s j)) p = length (filter (\<lambda>j. jobProtocol j = p) (js @ [j]))" for p
    using snoc by (auto simp: addJob_def Let_def countOf_def)
  ultimately show ?case unfolding e by blast
qed

text \<open>The store is a bounded log. After any jobs whatever have been added to a new store of
  capacity \<open>m\<close>, it lists the last \<open>m\<close> of them, newest first and without their document bytes,
  while its counters speak of all of them, in total, in bytes and per protocol.\<close>

theorem store_is_bounded_log:
  "recentJobs (addJobs (newJobStore m) js) n = take n (take m (rev (map stripped js)))
   \<and> storeTotal (addJobs (newJobStore m) js) = length js
   \<and> storeBytes (addJobs (newJobStore m) js) = sum_list (map jobBytes js)
   \<and> countOf (byProto (addJobs (newJobStore m) js)) p = length (filter (\<lambda>j. jobProtocol j = p) js)"
  using addJobs_state [of m js] lastN_rev [of m "map stripped js"] by (simp add: recentJobs_def)

subsection \<open>Lookup and removal\<close>

lemma removeFirst_spec:
  "distinct (map jobID js) \<Longrightarrow>
     removeFirst i js = (case find (\<lambda>j. jobID j = i) js of None \<Rightarrow> None
                         | Some j \<Rightarrow> Some (filter (\<lambda>x. jobID x \<noteq> i) js, j))"
proof (induction js)
  case (Cons j js)
  have "filter (\<lambda>x. jobID x \<noteq> jobID j) js = js"
    using Cons.prems by (intro filter_True) (metis distinct.simps(2) image_eqI list.simps(9) list.set_map)
  with Cons show ?case by (auto split: option.splits)
qed simp

text \<open>With the job numbers the sink hands out (all different), removing a job takes exactly that
  job out of the store: it can no longer be found, every other one still can, the counters keep
  telling what was captured, and removing an absent number changes nothing.\<close>

theorem remove_exact:
  assumes "distinct (map jobID (storeJobs s))"
  shows "snd (removeJob s i) = getJob s i
    \<and> getJob (fst (removeJob s i)) k = (if k = i then None else getJob s k)
    \<and> storeStats (fst (removeJob s i)) = storeStats s"
proof -
  have other: "find (\<lambda>j. jobID j = k) (filter (\<lambda>x. jobID x \<noteq> i) js)
      = (if k = i then None else find (\<lambda>j. jobID j = k) js)" for js :: "job list"
    by (induction js) auto
  have "find (\<lambda>j. jobID j = i) (storeJobs s) = None \<Longrightarrow> getJob s k = (if k = i then None else getJob s k)"
    by (simp add: getJob_def)
  then show ?thesis
    using removeFirst_spec [OF assms, of i] other [of "storeJobs s"]
    by (cases "find (\<lambda>j. jobID j = i) (storeJobs s)") (simp_all add: removeJob_def getJob_def storeStats_def)
qed

theorem remove_exact_witness:
  "snd (removeJob (addJobs (newJobStore 2) [blankJob\<lparr>jobID := 1\<rparr>, blankJob\<lparr>jobID := 2\<rparr>]) 2) = Some (blankJob\<lparr>jobID := 2\<rparr>)"
proof -
  let ?s = "addJobs (newJobStore 2) [blankJob\<lparr>jobID := 1\<rparr>, blankJob\<lparr>jobID := 2\<rparr>]"
  have js: "storeJobs ?s = [blankJob\<lparr>jobID := 1\<rparr>, blankJob\<lparr>jobID := 2\<rparr>]"
    by (simp add: addJobs_def newJobStore_def addJob_def Let_def blankJob_def)
  then have "snd (removeJob ?s 2) = getJob ?s 2"
    by (intro conjunct1 [OF remove_exact [of ?s 2 1]]) simp
  then show ?thesis using js by (simp add: getJob_def)
qed

subsection \<open>Queries\<close>

definition jobKey :: "bytes \<Rightarrow> job \<Rightarrow> nat \<times> bytes \<times> nat" where
  "jobKey sortKey j =
     (if sortKey = str ''bytes'' then (jobBytes j, [], jobID j)
      else if sortKey = str ''protocol'' then (0, jobProtocol j, jobID j)
      else if sortKey = str ''job_name'' then (0, toLower (jobName j), jobID j)
      else (0, [], jobID j))"

lemma jobLess_key: "jobLess k a b \<longleftrightarrow> jobKey k a < jobKey k b"
  by (auto simp: jobLess_def jobKey_def less_prod_def' str_def)

lemma sliceStable_sort_key: "sliceStable (\<lambda>a b. f a < f b) xs = sort_key f xs"
proof -
  have "insertBefore (\<lambda>a b. f a < f b) x ys = insort_key f x ys" for x ys
    by (induction ys) auto
  then have "insertBefore (\<lambda>a b. f a < f b) = insort_key f" by blast
  then show ?thesis by (simp add: sliceStable_def sort_key_def)
qed

definition keyOf :: "job_filter \<Rightarrow> job \<Rightarrow> nat \<times> bytes \<times> nat" where
  "keyOf f = jobKey (if filterSort f = [] then str ''received'' else filterSort f)"

lemma sortedMatches_sort:
  "sortedMatches s f = (if filterDesc f then rev else (\<lambda>x. x)) (sort_key (keyOf f) (filter (jobMatches f) (storeJobs s)))"
proof -
  have "jobLess k = (\<lambda>a b. jobKey k a < jobKey k b)" for k by (intro ext) (rule jobLess_key)
  then show ?thesis by (simp add: sortedMatches_def keyOf_def sliceStable_sort_key Let_def)
qed

definition page :: "job_filter \<Rightarrow> nat \<Rightarrow> nat \<Rightarrow> job_filter" where
  "page f psz k = f\<lparr>filterOffset := int (k * psz), filterLimit := int psz\<rparr>"

lemma queryJobs_window:
  assumes "filterOffset f = int off" "filterLimit f = int lim" "lim > 0"
  shows "queryJobs s f = (take lim (drop off (sortedMatches s f)), length (sortedMatches s f))"
proof -
  let ?n = "length (sortedMatches s f)"
  have "nat (int off + int lim) = off + lim" by simp
  then show ?thesis using assms by (auto simp: queryJobs_def Let_def)
qed

lemma queryJobs_page:
  "psz > 0 \<Longrightarrow> queryJobs s (page f psz k) = (take psz (drop (k * psz) (sortedMatches s f)), length (sortedMatches s f))"
proof -
  assume "psz > 0"
  have "sortedMatches s (page f psz k) = sortedMatches s f"
    by (simp add: sortedMatches_def page_def jobMatches_def [abs_def] Let_def)
  then show ?thesis using queryJobs_window [of "page f psz k" "k * psz" psz s] \<open>psz > 0\<close>
    by (simp add: page_def)
qed

lemma pages_concat: "length xs \<le> n * psz \<Longrightarrow> concat (map (\<lambda>k. take psz (drop (k * psz) xs)) [0..<n]) = xs"
proof (induction n arbitrary: xs)
  case (Suc n)
  have "concat (map (\<lambda>k. take psz (drop (k * psz) xs)) [0..<Suc n])
      = take psz xs @ concat (map (\<lambda>k. take psz (drop (k * psz) (drop psz xs))) [0..<n])"
    by (subst upt_conv_Cons) (simp_all add: map_Suc_upt [symmetric] o_def add.commute del: upt_Suc)
  also have "\<dots> = xs" using Suc.prems by (subst Suc.IH) auto
  finally show ?case .
qed simp



end
