(* ===== verification/Live_View.thy ===== *)
theory Live_View
  imports Pcap_File Job_Store
begin

text \<open>
  The live capture view (\<^verbatim>\<open>live.go\<close>): a bounded ring of the newest packets, each cut to its
  headers, read with a cursor. The 64-bit packet counter is a natural number here: it would wrap
  only after \<open>2 ^ 64\<close> packets of one capture run.
\<close>

record live_rec =
  liveTs :: "int \<times> int"
  liveData :: bytes
  liveOrigLen :: nat

record live_tap =
  liveBuf :: "live_rec list"
  liveLink :: int
  liveSeq :: nat
  liveMax :: nat

definition liveSnapLen :: nat where
  "liveSnapLen = 256"

definition resetTap :: "live_tap \<Rightarrow> int \<Rightarrow> live_tap" where
  "resetTap t link = t\<lparr>liveBuf := [], liveLink := link, liveSeq := 0\<rparr>"

definition liveRec :: "captured_packet \<Rightarrow> live_rec" where
  "liveRec p =
     (let n = length (cp_data p);
          keep = (if n > liveSnapLen then liveSnapLen else n)
      in \<lparr>liveTs = cp_ts p, liveData = take keep (cp_data p), liveOrigLen = n\<rparr>)"

definition recordPacket :: "live_tap \<Rightarrow> captured_packet \<Rightarrow> live_tap" where
  "recordPacket t p =
     (let b = liveBuf t @ [liveRec p];
          b' = (if length b > liveMax t then drop (length b - liveMax t) b else b)
      in t\<lparr>liveBuf := b', liveSeq := liveSeq t + 1\<rparr>)"

record live_page =
  pageRecs :: "live_rec list"
  pageLink :: int
  pageCursor :: nat
  pageFirst :: nat
  pageDropped :: nat

definition sinceTap :: "live_tap \<Rightarrow> nat \<Rightarrow> int \<Rightarrow> live_page" where
  "sinceTap t cursor limit =
     (let firstIdx = liveSeq t - length (liveBuf t);
          dropped = (if cursor < firstIdx then firstIdx - cursor else 0);
          start = (if cursor < firstIdx then firstIdx else cursor)
      in if start \<ge> liveSeq t then
           \<lparr>pageRecs = [], pageLink = liveLink t, pageCursor = liveSeq t, pageFirst = liveSeq t, pageDropped = dropped\<rparr>
         else
           let off = start - firstIdx;
               avail = drop off (liveBuf t);
               off' = (if limit > 0 \<and> int (length avail) > limit then off + (length avail - nat limit) else off)
           in \<lparr>pageRecs = drop off' (liveBuf t), pageLink = liveLink t, pageCursor = liveSeq t,
               pageFirst = firstIdx + off' + 1, pageDropped = dropped\<rparr>)"

definition atTap :: "live_tap \<Rightarrow> nat \<Rightarrow> live_rec option option" where
  "atTap t no =
     (let firstIdx = liveSeq t - length (liveBuf t) in
      if no < firstIdx + 1 \<or> no > liveSeq t then Some None
      else do { r \<leftarrow> idx (liveBuf t) (no - 1 - firstIdx); Some (Some r) })"

definition tapStats :: "live_tap \<Rightarrow> nat \<times> nat" where
  "tapStats t = (liveSeq t, length (liveBuf t))"

section \<open>Correctness\<close>

definition newTap :: "nat \<Rightarrow> live_tap" where
  "newTap m = \<lparr>liveBuf = [], liveLink = 0, liveSeq = 0, liveMax = m\<rparr>"

definition tapOf :: "nat \<Rightarrow> int \<Rightarrow> captured_packet list \<Rightarrow> live_tap" where
  "tapOf m link ps = foldl recordPacket (resetTap (newTap m) link) ps"

lemma tapOf_state:
  "tapOf m link ps = \<lparr>liveBuf = lastN m (map liveRec ps), liveLink = link, liveSeq = length ps, liveMax = m\<rparr>"
proof (induction ps rule: rev_induct)
  case Nil
  then show ?case by (simp add: tapOf_def resetTap_def newTap_def lastN_def)
next
  case (snoc p ps)
  have "recordPacket (tapOf m link ps) p
      = \<lparr>liveBuf = lastN m (lastN m (map liveRec ps) @ [liveRec p]), liveLink = link, liveSeq = length ps + 1, liveMax = m\<rparr>"
    unfolding snoc.IH by (simp add: recordPacket_def Let_def) (simp add: lastN_def)
  then show ?case by (simp add: tapOf_def lastN_append1)
qed

definition oldest :: "nat \<Rightarrow> nat \<Rightarrow> nat" where
  "oldest m n = n - min m n"



end
