(* ===== verification/Ipp.thy ===== *)
theory Ipp
  imports Config_Types
begin

text \<open>
  The IPP listener (\<^verbatim>\<open>ipp.go\<close>) and the IPP forward transport (\<^verbatim>\<open>fwd_ipp.go\<close>): attribute encoding, the
  walk over a request's attribute groups, the response builder, the HTTP handler, and the
  Print-Job request the forwarder sends. The HTTP exchange itself is the argument and the result
  of \<open>ippHandler\<close>; saving a job is the argument \<open>save\<close>, which tells whether it failed.
\<close>

subsection \<open>Constants\<close>

abbreviation "opPrintJob \<equiv> (0x0002 :: u16)"
abbreviation "opValidateJob \<equiv> (0x0004 :: u16)"
abbreviation "opCreateJob \<equiv> (0x0005 :: u16)"
abbreviation "opSendDocument \<equiv> (0x0006 :: u16)"
abbreviation "opCancelJob \<equiv> (0x0008 :: u16)"
abbreviation "opGetJobs \<equiv> (0x000A :: u16)"
abbreviation "opGetPrinterAttributes \<equiv> (0x000B :: u16)"

abbreviation "tagOperationAttrs \<equiv> (0x01 :: byte)"
abbreviation "tagJobAttrs \<equiv> (0x02 :: byte)"
abbreviation "tagEndOfAttrs \<equiv> (0x03 :: byte)"
abbreviation "tagPrinterAttrs \<equiv> (0x04 :: byte)"
abbreviation "tagInteger \<equiv> (0x21 :: byte)"
abbreviation "tagBoolean \<equiv> (0x22 :: byte)"
abbreviation "tagEnum \<equiv> (0x23 :: byte)"
abbreviation "tagResolution \<equiv> (0x32 :: byte)"
abbreviation "tagText \<equiv> (0x41 :: byte)"
abbreviation "tagName \<equiv> (0x42 :: byte)"
abbreviation "tagKeyword \<equiv> (0x44 :: byte)"
abbreviation "tagURI \<equiv> (0x45 :: byte)"
abbreviation "tagCharset \<equiv> (0x47 :: byte)"
abbreviation "tagLanguage \<equiv> (0x48 :: byte)"
abbreviation "tagMime \<equiv> (0x49 :: byte)"

subsection \<open>Encoding attributes\<close>

definition writeAttr :: "byte \<Rightarrow> bytes \<Rightarrow> bytes \<Rightarrow> bytes" where
  "writeAttr tag name val =
     [tag] @ be16 (of_nat (length name)) @ name @ be16 (of_nat (length val)) @ val"

definition writeStr :: "byte \<Rightarrow> bytes \<Rightarrow> bytes \<Rightarrow> bytes" where
  "writeStr tag name val = writeAttr tag name val"

definition writeInt :: "bytes \<Rightarrow> u32 \<Rightarrow> bytes" where
  "writeInt name n = writeAttr tagInteger name (be32 n)"

definition writeEnum :: "bytes \<Rightarrow> u32 \<Rightarrow> bytes" where
  "writeEnum name n = writeAttr tagEnum name (be32 n)"

definition writeBool :: "bytes \<Rightarrow> bool \<Rightarrow> bytes" where
  "writeBool name b = writeAttr tagBoolean name [if b then 1 else 0]"

text \<open>The first value of a set carries the name, the others an empty name.\<close>

fun setOf :: "(bytes \<Rightarrow> 'a \<Rightarrow> bytes) \<Rightarrow> bytes \<Rightarrow> 'a list \<Rightarrow> bytes" where
  "setOf w name [] = []"
| "setOf w name (v # vs) = w name v @ concat (map (w []) vs)"

definition writeStrSet :: "byte \<Rightarrow> bytes \<Rightarrow> bytes list \<Rightarrow> bytes" where
  "writeStrSet tag name vals = setOf (writeStr tag) name vals"

definition writeResolution :: "bytes \<Rightarrow> int \<Rightarrow> bytes" where
  "writeResolution name dpi = writeAttr tagResolution name (be32 (word_of_int dpi) @ be32 (word_of_int dpi) @ [3])"

definition writeResolutions :: "bytes \<Rightarrow> int list \<Rightarrow> bytes" where
  "writeResolutions name dpis = setOf writeResolution name dpis"

definition writeEnumSet :: "bytes \<Rightarrow> u32 list \<Rightarrow> bytes" where
  "writeEnumSet name vals = setOf writeEnum name vals"

definition firstOr :: "bytes list \<Rightarrow> bytes \<Rightarrow> bytes" where
  "firstOr s alt = (case s of [] \<Rightarrow> alt | x # _ \<Rightarrow> x)"

subsection \<open>Reading a request\<close>

text \<open>The attribute map: a value is stored only if its name has not been seen.\<close>

type_synonym attr_map = "(bytes \<times> bytes) list"

definition attr :: "attr_map \<Rightarrow> bytes \<Rightarrow> bytes" where
  "attr m name = (case map_of m name of None \<Rightarrow> [] | Some v \<Rightarrow> v)"

definition addAttr :: "attr_map \<Rightarrow> bytes \<Rightarrow> bytes \<Rightarrow> attr_map" where
  "addAttr m name val = (if map_of m name = None then m @ [(name, val)] else m)"

text \<open>
  The loop of \<^verbatim>\<open>parseIPP\<close>. \<open>None\<close> is a panic. The second component of the result is the document
  that follows the end-of-attributes tag, \<open>[]\<close> when there is none. \<^verbatim>\<open>lastName\<close> is assigned but
  never read in a way that matters, and is left out.
\<close>

primrec parseIPPLoop :: "nat \<Rightarrow> bytes \<Rightarrow> nat \<Rightarrow> attr_map \<Rightarrow> (attr_map \<times> bytes) option" where
  "parseIPPLoop 0 = (\<lambda>b i attrs. Some (attrs, []))"
| "parseIPPLoop (Suc fuel) = (\<lambda>b i attrs.
     if i \<ge> length b then Some (attrs, [])
      else do {
        tag \<leftarrow> idx b i;
        if tag \<le> 0x05 then
          (if tag = tagEndOfAttrs then do { doc \<leftarrow> slice_from b (i + 1); Some (attrs, doc) }
           else parseIPPLoop fuel b (i + 1) attrs)
        else if i + 3 > length b then Some (attrs, [])
        else do {
          nl \<leftarrow> get_be16 b (i + 1);
          let nameLen = unat nl; p = i + 3 in
          if p + nameLen > length b then Some (attrs, [])
          else do {
            name \<leftarrow> gslice b p (p + nameLen);
            let q = p + nameLen in
            if q + 2 > length b then Some (attrs, [])
            else do {
              vl \<leftarrow> get_be16 b q;
              let valLen = unat vl; r = q + 2 in
              if r + valLen > length b then Some (attrs, [])
              else do {
                val \<leftarrow> gslice b r (r + valLen);
                parseIPPLoop fuel b (r + valLen) (if nameLen = 0 then attrs else addAttr attrs name val)
              }
            }
          }
        }
      })"

declare parseIPPLoop.simps [simp del]

text \<open>Every round moves at least one byte, so as much fuel as there are bytes (plus one) suffices.\<close>

definition parseIPP :: "bytes \<Rightarrow> (attr_map \<times> bytes) option" where
  "parseIPP b = parseIPPLoop (length b + 1) b 0 []"

subsection \<open>Responses\<close>

record ipp_conf =
  ippPrinter :: printer_conf
  ippDefaultPath :: bytes
  resourcePaths :: "bytes list"
  urf :: "bytes list"

definition printerGroup :: "ipp_conf \<Rightarrow> bytes \<Rightarrow> bytes" where
  "printerGroup c host =
     (let p = ippPrinter c;
          primaryPath = (if ippDefaultPath c = [] then str ''/ipp/print'' else ippDefaultPath c);
          paths = (if resourcePaths c = [] then [primaryPath] else resourcePaths c);
          colorModes = (if p_color p then [str ''auto'', str ''color'', str ''monochrome''] else [str ''monochrome''])
      in [tagPrinterAttrs]
       @ writeStrSet tagURI (str ''printer-uri-supported'') (map (\<lambda>pth. str ''ipp://'' @ host @ pth) paths)
       @ writeStr tagKeyword (str ''uri-authentication-supported'') (str ''none'')
       @ writeStr tagKeyword (str ''uri-security-supported'') (str ''none'')
       @ writeStr tagName (str ''printer-name'') (p_name p)
       @ writeStr tagName (str ''printer-info'') (p_info p)
       @ writeStr tagName (str ''printer-make-and-model'') (makeAndModel p)
       @ writeStr tagText (str ''printer-location'') (p_location p)
       @ writeStr tagURI (str ''printer-uuid'') (str ''urn:uuid:00000000-0000-1000-8000-000000000001'')
       @ writeEnum (str ''printer-state'') 3
       @ writeStr tagKeyword (str ''printer-state-reasons'') (str ''none'')
       @ writeBool (str ''printer-is-accepting-jobs'') True
       @ writeStrSet tagKeyword (str ''ipp-versions-supported'') [str ''1.1'', str ''2.0'']
       @ writeStrSet tagKeyword (str ''ipp-features-supported'') [str ''ipp-everywhere'']
       @ writeEnumSet (str ''operations-supported'')
           [ucast opPrintJob, ucast opValidateJob, ucast opCreateJob, ucast opSendDocument,
            ucast opCancelJob, ucast opGetJobs, ucast opGetPrinterAttributes]
       @ writeStr tagCharset (str ''charset-configured'') (str ''utf-8'')
       @ writeStr tagCharset (str ''charset-supported'') (str ''utf-8'')
       @ writeStr tagLanguage (str ''natural-language-configured'') (str ''en-us'')
       @ writeStr tagLanguage (str ''generated-natural-language-supported'') (str ''en-us'')
       @ writeStr tagMime (str ''document-format-default'') (orElse (defaultFormat p) (str ''application/octet-stream''))
       @ writeStrSet tagMime (str ''document-format-supported'') (documentFormats p)
       @ writeInt (str ''queued-job-count'') 0
       @ writeStr tagKeyword (str ''pdl-override-supported'') (str ''attempted'')
       @ writeInt (str ''printer-up-time'') 1
       @ writeStr tagKeyword (str ''compression-supported'') (str ''none'')
       @ writeStrSet tagKeyword (str ''sides-supported'') (p_sides p)
       @ writeStr tagKeyword (str ''sides-default'') (firstOr (p_sides p) (str ''one-sided''))
       @ writeStrSet tagKeyword (str ''print-color-mode-supported'') colorModes
       @ writeStr tagKeyword (str ''print-color-mode-default'') (hd colorModes)
       @ writeStrSet tagKeyword (str ''media-supported'') (p_media p)
       @ writeStr tagKeyword (str ''media-default'') (firstOr (p_media p) (str ''iso_a4_210x297mm''))
       @ writeResolutions (str ''printer-resolution-supported'') (p_resolutions p)
       @ writeResolutions (str ''pwg-raster-document-resolution-supported'') (p_resolutions p)
       @ (case p_resolutions p of [] \<Rightarrow> [] | r # _ \<Rightarrow> writeResolution (str ''printer-resolution-default'') r)
       @ writeStrSet tagKeyword (str ''pwg-raster-document-type-supported'') [str ''srgb_8'', str ''sgray_8'']
       @ writeStrSet tagKeyword (str ''urf-supported'') (urf c))"

definition jobGroup :: "ipp_conf \<Rightarrow> bytes \<Rightarrow> bytes" where
  "jobGroup c host =
     (let primaryPath = (if ippDefaultPath c = [] then str ''/ipp/print'' else ippDefaultPath c);
          uri = str ''ipp://'' @ host @ primaryPath
      in [tagJobAttrs]
       @ writeStr tagURI (str ''job-uri'') (uri @ str ''jobs/1'')
       @ writeInt (str ''job-id'') 1
       @ writeEnum (str ''job-state'') 9
       @ writeStr tagKeyword (str ''job-state-reasons'') (str ''none''))"

definition buildIPPResponse :: "ipp_conf \<Rightarrow> u16 \<Rightarrow> u16 \<Rightarrow> u32 \<Rightarrow> bytes \<Rightarrow> bytes" where
  "buildIPPResponse c op status reqID host0 =
     (let host = (if host0 = [] then str ''printcap'' else host0) in
      [0x02, 0x00] @ be16 status @ be32 reqID
       @ [tagOperationAttrs]
       @ writeStr tagCharset (str ''attributes-charset'') (str ''utf-8'')
       @ writeStr tagLanguage (str ''attributes-natural-language'') (str ''en-us'')
       @ (if status \<noteq> 0 then []
          else if op = opGetPrinterAttributes then printerGroup c host
          else if op \<in> {opPrintJob, opCreateJob, opSendDocument, opValidateJob} then jobGroup c host
          else [])
       @ [tagEndOfAttrs])"

subsection \<open>The handler\<close>

record http_request =
  isPost :: bool
  urlPath :: bytes
  remoteAddr :: bytes
  overTLS :: bool
  hostHeader :: bytes
  httpBody :: bytes
  bodyError :: bool

definition formatAllowed :: "printer_conf \<Rightarrow> bytes \<Rightarrow> bool" where
  "formatAllowed p f = (f \<in> set (documentFormats p))"

text \<open>The body read through \<^verbatim>\<open>io.LimitReader\<close> when a cap is set (0 is no cap).\<close>

definition limitBody :: "nat \<Rightarrow> bytes \<Rightarrow> bytes" where
  "limitBody cap b = (if cap > 0 then take cap b else b)"

text \<open>The job a print request yields, if it carries an accepted document.\<close>

definition ippStatus :: "ipp_conf \<Rightarrow> u16 \<Rightarrow> attr_map \<Rightarrow> u16" where
  "ippStatus c op attrs =
     (let docFmt = attr attrs (str ''document-format'') in
      if enforceFormats (ippPrinter c) \<and> op \<in> {opPrintJob, opValidateJob, opSendDocument}
         \<and> docFmt \<noteq> [] \<and> \<not> formatAllowed (ippPrinter c) docFmt
      then 0x040A else 0)"

definition ippJob :: "http_request \<Rightarrow> attr_map \<Rightarrow> bytes \<Rightarrow> job" where
  "ippJob r attrs docData =
     (newJob (if overTLS r then str ''IPPS'' else str ''IPP'') (remoteAddr r))
       \<lparr>jobName := attr attrs (str ''job-name''), jobUser := attr attrs (str ''requesting-user-name''),
        jobQueue := urlPath r, jobDocFormat := attr attrs (str ''document-format''),
        jobData := docData, jobBytes := length docData\<rparr>"

text \<open>Result: HTTP status, body, and the job handed to the sink. The outer option is a panic.\<close>

definition ippHandler :: "ipp_conf \<Rightarrow> nat \<Rightarrow> (job \<Rightarrow> bool) \<Rightarrow> http_request \<Rightarrow> (nat \<times> bytes \<times> job option) option" where
  "ippHandler c cap saveFails r =
     (if \<not> isPost r then Some (200, str ''printcap IPP endpoint'' @ [0x0a], None)
      else let body = limitBody cap (httpBody r) in
        if bodyError r \<or> length body < 8 then Some (400, [], None)
        else do {
          op \<leftarrow> get_be16 body 2;
          reqID \<leftarrow> get_be32 body 4;
          rest \<leftarrow> slice_from body 8;
          (attrs, docData) \<leftarrow> parseIPP rest;
          let status = ippStatus c op attrs in
          if status = 0 \<and> op \<in> {opPrintJob, opSendDocument} \<and> length docData > 0 then
            (let j = ippJob r attrs docData;
                 status' = (if saveFails j then 0x0508 else 0)
             in Some (200, buildIPPResponse c op status' reqID (hostHeader r), Some j))
          else Some (200, buildIPPResponse c op status reqID (hostHeader r), None)
        })"

subsection \<open>The forward transport\<close>

definition ippToHTTP :: "bytes \<Rightarrow> bytes option" where
  "ippToHTTP uri =
     (if is_prefix (str ''ipps://'') uri then Some (str ''https://'' @ trimPrefix uri (str ''ipps://''))
      else if is_prefix (str ''ipp://'') uri then Some (str ''http://'' @ trimPrefix uri (str ''ipp://''))
      else None)"

definition ippRequest :: "bytes \<Rightarrow> bytes \<Rightarrow> job \<Rightarrow> bytes \<Rightarrow> bytes" where
  "ippRequest address docFormat j data =
     [0x02, 0x00] @ be16 0x0002 @ be32 1
      @ [tagOperationAttrs]
      @ writeStr tagCharset (str ''attributes-charset'') (str ''utf-8'')
      @ writeStr tagLanguage (str ''attributes-natural-language'') (str ''en-us'')
      @ writeStr tagURI (str ''printer-uri'') address
      @ writeStr tagName (str ''requesting-user-name'') (orElse (jobUser j) (str ''printcap''))
      @ writeStr tagName (str ''job-name'') (orElse (jobName j) (str ''job''))
      @ writeStr tagMime (str ''document-format'')
          (if docFormat = [] then orElse (jobDocFormat j) (str ''application/octet-stream'') else docFormat)
      @ [tagEndOfAttrs] @ data"

text \<open>What \<^verbatim>\<open>send\<close> makes of the HTTP answer: \<open>None\<close> is success, \<open>Some\<close> the error's number.\<close>

datatype ipp_send_error = NotIppURI | IppHTTP nat | IppStatus u16

definition ippSendResult :: "bytes \<Rightarrow> nat \<Rightarrow> bytes \<Rightarrow> ipp_send_error option" where
  "ippSendResult address code respBody =
     (if ippToHTTP address = None then Some NotIppURI
      else let body = take 65536 respBody in
        if code \<noteq> 200 then Some (IppHTTP code)
        else if length body \<ge> 4 then
          (let status = be_dec (take 2 (drop 2 body)) :: u16
           in if status \<ge> 0x0400 then Some (IppStatus status) else None)
        else None)"

subsection \<open>The parser\<close>

lemma parseIPPLoop_returns [no_panic]: "parseIPPLoop fuel b i attrs \<noteq> None"
proof (induction fuel arbitrary: i attrs)
  case 0
  then show ?case by (simp add: parseIPPLoop.simps)
next
  case (Suc fuel)
  show ?case unfolding parseIPPLoop.simps Let_def by (intro no_panic Suc) auto
qed

lemma parseIPP_returns [no_panic]: "parseIPP b \<noteq> None"
  by (simp add: parseIPP_def parseIPPLoop_returns del: not_None_eq)

lemma ippHandler_returns [no_panic]: "ippHandler c cap saveFails r \<noteq> None"
  unfolding ippHandler_def Let_def by (intro no_panic) auto

text \<open>One attribute as the walker sees it.\<close>

definition fits16 :: "bytes \<Rightarrow> bool" where
  "fits16 s \<longleftrightarrow> length s < 2 ^ 16"

lemma parse_attr:
  assumes "drop i b = writeAttr tag name val @ rest" "i \<le> length b" "tag > 0x05" "fits16 name" "fits16 val"
  shows "parseIPPLoop (Suc fuel) b i attrs
      = parseIPPLoop fuel b (i + length (writeAttr tag name val)) (if name = [] then attrs else addAttr attrs name val)"
    and "drop (i + length (writeAttr tag name val)) b = rest"
    and "i + length (writeAttr tag name val) \<le> length b"
proof -
  let ?nl = "of_nat (length name) :: u16" and ?vl = "of_nat (length val) :: u16"
  have u: "unat ?nl = length name" "unat ?vl = length val"
    using assms(4,5) by (simp_all add: fits16_def unat_of_nat)
  have d0: "drop i b = [tag] @ be16 ?nl @ name @ be16 ?vl @ val @ rest"
    using assms(1) by (simp add: writeAttr_def)
  have d1: "drop (i + 1) b = be16 ?nl @ name @ be16 ?vl @ val @ rest" by (rule drop_advance [OF d0]) simp
  have d2: "drop (i + 3) b = name @ be16 ?vl @ val @ rest" by (rule drop_advance [OF d1]) simp
  have d3: "drop (i + 3 + length name) b = be16 ?vl @ val @ rest" by (rule drop_advance [OF d2]) simp
  have d4: "drop (i + 3 + length name + 2) b = val @ rest" by (rule drop_advance [OF d3]) simp
  have len: "length b = i + 5 + length name + length val + length rest"
    using length_drop_advance [OF d0 assms(2)] by simp
  have t: "idx b i = Some tag"
  proof -
    have "b ! i = drop i b ! 0" using assms(2) by simp
    then show ?thesis using len d0 by simp
  qed
  have g: "get_be16 b (i + 1) = Some ?nl" "get_be16 b (i + 3 + length name) = Some ?vl"
    using get_be_drop [OF d1] get_be_drop [OF d3] len by simp_all
  have s: "gslice b (i + 3) (i + 3 + length name) = Some name"
    "gslice b (i + 3 + length name + 2) (i + 3 + length name + 2 + length val) = Some val"
    using gslice_drop [OF d2] gslice_drop [OF d4] len by simp_all
  have wl: "i + length (writeAttr tag name val) = i + 3 + length name + 2 + length val"
    by (simp add: writeAttr_def)
  have nt: "\<not> tag \<le> 0x05" using assms(3) by simp
  show "parseIPPLoop (Suc fuel) b i attrs
      = parseIPPLoop fuel b (i + length (writeAttr tag name val)) (if name = [] then attrs else addAttr attrs name val)"
    unfolding parseIPPLoop.simps t g s bind.bind_lunit Let_def u wl using nt len by simp
  show "drop (i + length (writeAttr tag name val)) b = rest" by (rule drop_advance [OF assms(1)]) simp
  show "i + length (writeAttr tag name val) \<le> length b" using wl len by simp
qed

lemma parse_group: "drop i b = [tag] @ rest \<Longrightarrow> i \<le> length b \<Longrightarrow> tag \<le> 0x05 \<Longrightarrow> tag \<noteq> tagEndOfAttrs \<Longrightarrow>
    parseIPPLoop (Suc fuel) b i attrs = parseIPPLoop fuel b (i + 1) attrs"
  and parse_end: "drop i b = [tagEndOfAttrs] @ rest \<Longrightarrow> i \<le> length b \<Longrightarrow>
    parseIPPLoop (Suc fuel) b i attrs = Some (attrs, rest)"
proof -
  have t: "drop i b = [x] @ rest \<Longrightarrow> i \<le> length b \<Longrightarrow> idx b i = Some x \<and> i < length b \<and> drop (i + 1) b = rest" for x
    by (cases "i < length b") (auto simp: Cons_nth_drop_Suc [symmetric])
  show "drop i b = [tag] @ rest \<Longrightarrow> i \<le> length b \<Longrightarrow> tag \<le> 0x05 \<Longrightarrow> tag \<noteq> tagEndOfAttrs \<Longrightarrow>
    parseIPPLoop (Suc fuel) b i attrs = parseIPPLoop fuel b (i + 1) attrs"
    using t [of tag] by (simp add: parseIPPLoop.simps)
  show "drop i b = [tagEndOfAttrs] @ rest \<Longrightarrow> i \<le> length b \<Longrightarrow>
    parseIPPLoop (Suc fuel) b i attrs = Some (attrs, rest)"
    using t [of tagEndOfAttrs] by (simp add: parseIPPLoop.simps)
qed

lemma fuel_enough: "length b - i < fuel \<Longrightarrow> parseIPPLoop (Suc fuel) b i attrs = parseIPPLoop fuel b i attrs"
proof (induction fuel arbitrary: i attrs)
  case (Suc fuel)
  show ?case
  proof (cases "i \<ge> length b")
    case True
    then show ?thesis by (simp add: parseIPPLoop.simps)
  next
    case False
    have step: "parseIPPLoop (Suc fuel) b j a = parseIPPLoop fuel b j a" if "i < j" for j a
      using Suc.IH [of j a] Suc.prems False that by linarith
    have IH: "parseIPPLoop (Suc fuel) b (i + 1) attrs = parseIPPLoop fuel b (i + 1) attrs"
      "parseIPPLoop (Suc fuel) b (i + 3 + n + 2 + v) a = parseIPPLoop fuel b (i + 3 + n + 2 + v) a" for n v a
      by (rule step, simp)+
    show ?thesis
      by (subst (1 2) parseIPPLoop.simps(2)) (simp only: Let_def IH)
  qed
qed simp

lemma fuel_any: "length b < fuel \<Longrightarrow> parseIPP b = parseIPPLoop fuel b 0 []"
proof (induction "fuel - Suc (length b)" arbitrary: fuel)
  case 0
  then have "fuel = length b + 1" by simp
  then show ?case by (simp add: parseIPP_def del: parseIPPLoop.simps)
next
  case (Suc k)
  then obtain f where f: "fuel = Suc f" "length b < f" by (cases fuel) auto
  with Suc.hyps(1) [of f] Suc.hyps(2) fuel_enough [of b 0 f "[]"] show ?case by simp
qed

text \<open>A list of attributes, each written as tag, name, value.\<close>

definition writeAttrs :: "(byte \<times> bytes \<times> bytes) list \<Rightarrow> bytes" where
  "writeAttrs as = concat (map (\<lambda>(t, n, v). writeAttr t n v) as)"

definition wf_attrs :: "(byte \<times> bytes \<times> bytes) list \<Rightarrow> bool" where
  "wf_attrs as \<longleftrightarrow> list_all (\<lambda>(t, n, v). t > 0x05 \<and> fits16 n \<and> fits16 v) as"

definition collectAttrs :: "attr_map \<Rightarrow> (byte \<times> bytes \<times> bytes) list \<Rightarrow> attr_map" where
  "collectAttrs m as = foldl (\<lambda>m (t, n, v). if n = [] then m else addAttr m n v) m as"

lemma parse_attrs:
  "wf_attrs as \<Longrightarrow> drop i b = writeAttrs as @ rest \<Longrightarrow> i \<le> length b \<Longrightarrow>
   parseIPPLoop (length as + fuel) b i m
     = parseIPPLoop fuel b (i + length (writeAttrs as)) (collectAttrs m as)
   \<and> drop (i + length (writeAttrs as)) b = rest \<and> i + length (writeAttrs as) \<le> length b"
proof (induction as arbitrary: i m)
  case Nil
  then show ?case by (simp add: writeAttrs_def collectAttrs_def)
next
  case (Cons a as)
  obtain t n v where a: "a = (t, n, v)" by (cases a) auto
  have w: "writeAttrs (a # as) = writeAttr t n v @ writeAttrs as" by (simp add: writeAttrs_def a)
  have lw: "length (writeAttrs (a # as)) = length (writeAttr t n v) + length (writeAttrs as)" by (simp add: w)
  have col: "collectAttrs m (a # as) = collectAttrs (if n = [] then m else addAttr m n v) as"
    by (simp add: collectAttrs_def a)
  have p: "t > 0x05" "fits16 n" "fits16 v" "wf_attrs as" using Cons.prems(1) by (simp_all add: wf_attrs_def a)
  have d: "drop i b = writeAttr t n v @ (writeAttrs as @ rest)" using Cons.prems(2) by (simp add: w)
  from Cons.IH [OF p(4) parse_attr(2,3) [OF d Cons.prems(3) p(1-3)], of "if n = [] then m else addAttr m n v"]
    parse_attr(1) [OF d Cons.prems(3) p(1-3), of "length as + fuel" m] show ?case
    unfolding lw col by (simp add: add.assoc del: parseIPPLoop.simps)
qed

lemma parseIPP_message:
  assumes "wf_attrs as"
  shows "parseIPP ([tagOperationAttrs] @ writeAttrs as @ [tagEndOfAttrs] @ doc) = Some (collectAttrs [] as, doc)"
proof -
  let ?b = "[tagOperationAttrs] @ writeAttrs as @ [tagEndOfAttrs] @ doc"
  let ?F = "Suc (length as + Suc (length ?b))"
  have d0: "drop 0 ?b = [tagOperationAttrs] @ (writeAttrs as @ [tagEndOfAttrs] @ doc)" by simp
  have d1: "drop 1 ?b = writeAttrs as @ ([tagEndOfAttrs] @ doc)" by simp
  have l1: "1 \<le> length ?b" by simp
  have "parseIPPLoop ?F ?b 0 [] = parseIPPLoop (length as + Suc (length ?b)) ?b 1 []"
    using parse_group [OF d0, of "length as + Suc (length ?b)" "[]"] by simp
  also have "\<dots> = parseIPPLoop (Suc (length ?b)) ?b (1 + length (writeAttrs as)) (collectAttrs [] as)"
    using parse_attrs [OF assms d1 l1] by blast
  also have "\<dots> = Some (collectAttrs [] as, doc)"
    using parse_attrs [OF assms d1 l1, of 0 "[]"] by (intro parse_end) auto
  finally show ?thesis using fuel_any [of ?b ?F] by (simp del: parseIPPLoop.simps)
qed

text \<open>The attributes of the request the forwarder sends.\<close>

definition requestAttrs :: "bytes \<Rightarrow> bytes \<Rightarrow> job \<Rightarrow> (byte \<times> bytes \<times> bytes) list" where
  "requestAttrs address docFormat j =
     [(tagCharset, str ''attributes-charset'', str ''utf-8''),
      (tagLanguage, str ''attributes-natural-language'', str ''en-us''),
      (tagURI, str ''printer-uri'', address),
      (tagName, str ''requesting-user-name'', orElse (jobUser j) (str ''printcap'')),
      (tagName, str ''job-name'', orElse (jobName j) (str ''job'')),
      (tagMime, str ''document-format'',
        if docFormat = [] then orElse (jobDocFormat j) (str ''application/octet-stream'') else docFormat)]"

lemma fits16_str: "length s < 2 ^ 16 \<Longrightarrow> fits16 (str s)"
  by (simp add: fits16_def length_str)

lemma fits16_orElse: "fits16 a \<Longrightarrow> fits16 b \<Longrightarrow> fits16 (orElse a b)"
  by (simp add: orElse_def)

lemma requestAttrs_wf:
  assumes "fits16 address" "fits16 docFormat" "fits16 (jobUser j)" "fits16 (jobName j)" "fits16 (jobDocFormat j)"
  shows "wf_attrs (requestAttrs address docFormat j)"
  using assms by (simp add: wf_attrs_def requestAttrs_def fits16_str fits16_orElse)

lemma requestAttrs_read:
  "attr (collectAttrs [] (requestAttrs address docFormat j)) (str ''job-name'') = orElse (jobName j) (str ''job'')"
  "attr (collectAttrs [] (requestAttrs address docFormat j)) (str ''requesting-user-name'')
     = orElse (jobUser j) (str ''printcap'')"
  "attr (collectAttrs [] (requestAttrs address docFormat j)) (str ''document-format'')
     = (if docFormat = [] then orElse (jobDocFormat j) (str ''application/octet-stream'') else docFormat)"
  by (simp_all add: collectAttrs_def requestAttrs_def addAttr_def attr_def str_def)

lemma ippRequest_split:
  "ippRequest address docFormat j data = ([0x02, 0x00] @ be16 0x0002 @ be32 1)
     @ ([tagOperationAttrs] @ writeAttrs (requestAttrs address docFormat j) @ [tagEndOfAttrs] @ data)"
  by (simp add: ippRequest_def writeAttrs_def requestAttrs_def writeStr_def)

lemma ippRequest_header:
  "get_be16 (ippRequest address docFormat j data) 2 = Some opPrintJob"
  "get_be32 (ippRequest address docFormat j data) 4 = Some 1"
  "slice_from (ippRequest address docFormat j data) 8
     = Some ([tagOperationAttrs] @ writeAttrs (requestAttrs address docFormat j) @ [tagEndOfAttrs] @ data)"
  unfolding ippRequest_split
  using get_be_append [of 2 "[0x02, 0x00]" 2 "0x0002 :: u16" "be32 1 @ [tagOperationAttrs]
      @ writeAttrs (requestAttrs address docFormat j) @ [tagEndOfAttrs] @ data"]
    get_be_append [of 4 "[0x02, 0x00] @ be16 0x0002" 4 "1 :: u32" "[tagOperationAttrs]
      @ writeAttrs (requestAttrs address docFormat j) @ [tagEndOfAttrs] @ data"]
  by simp_all

lemma response_status:
  "ippToHTTP address \<noteq> None \<Longrightarrow> ippSendResult address 200 (buildIPPResponse c op status reqID host)
    = (if status \<ge> 0x0400 then Some (IppStatus status) else None)"
proof -
  assume a: "ippToHTTP address \<noteq> None"
  let ?b = "take 65536 (buildIPPResponse c op status reqID host)"
  obtain rest where r: "buildIPPResponse c op status reqID host = [0x02, 0x00] @ be16 status @ be32 reqID @ rest"
    by (simp add: buildIPPResponse_def Let_def)
  have "take 2 (drop 2 ?b) = be16 status" by (simp add: r take_Cons' drop_Cons')
  moreover have "4 \<le> length ?b" by (simp add: r)
  ultimately show ?thesis using a by (simp add: ippSendResult_def Let_def)
qed

subsection \<open>Properties\<close>

text \<open>C11: Forwarding over IPP delivers the job. If this server's own IPP listener receives the request its
  IPP transport builds (fields of at most 65535 octets, a non-empty document, no size cap, an
  acceptable format), it hands the sink exactly one job with the same document, name, user and
  document format, blank fields replaced by the stated defaults; and the forwarder reports success
  exactly when the sink accepted the job, else the job-canceled status.\<close>

theorem ipp_forward_delivers:
  assumes "fits16 address" "fits16 docFormat" "fits16 (jobUser j)" "fits16 (jobName j)" "fits16 (jobDocFormat j)"
    and "data \<noteq> []" "ippToHTTP address \<noteq> None"
    and "isPost r" "\<not> bodyError r" "httpBody r = ippRequest address docFormat j data"
    and "enforceFormats (ippPrinter c) = False"
  shows "\<exists>resp j'. ippHandler c 0 saveFails r = Some (200, resp, Some j')
    \<and> jobData j' = data \<and> jobBytes j' = length data
    \<and> jobName j' = orElse (jobName j) (str ''job'')
    \<and> jobUser j' = orElse (jobUser j) (str ''printcap'')
    \<and> jobDocFormat j' = (if docFormat = [] then orElse (jobDocFormat j) (str ''application/octet-stream'') else docFormat)
    \<and> jobQueue j' = urlPath r
    \<and> ippSendResult address 200 resp = (if saveFails j' then Some (IppStatus 0x0508) else None)"
proof -
  let ?as = "requestAttrs address docFormat j"
  have p: "parseIPP ([tagOperationAttrs] @ writeAttrs ?as @ [tagEndOfAttrs] @ data) = Some (collectAttrs [] ?as, data)"
    by (rule parseIPP_message [OF requestAttrs_wf [OF assms(1-5)]])
  have len: "\<not> length (httpBody r) < 8" unfolding assms(10) ippRequest_split by simp
  let ?j = "ippJob r (collectAttrs [] ?as) data"
  let ?st = "if saveFails ?j then 0x0508 else 0 :: u16"
  have "ippHandler c 0 saveFails r = Some (200, buildIPPResponse c opPrintJob ?st 1 (hostHeader r), Some ?j)"
    unfolding ippHandler_def Let_def using assms(6,8,9,11) len
    by (simp add: limitBody_def assms(10) ippRequest_header [simplified] p [simplified] ippStatus_def Let_def)
  then show ?thesis
    using response_status [OF assms(7), of c opPrintJob ?st 1 "hostHeader r"]
    by (simp add: ippJob_def newJob_def blankJob_def requestAttrs_read)
qed

definition demoIpp :: ipp_conf where
  "demoIpp = \<lparr>ippPrinter = \<lparr>p_name = str ''PR'', p_info = [], makeAndModel = str ''X'', p_location = [],
       p_serial = [], documentFormats = [str ''application/pdf''], defaultFormat = [], enforceFormats = False,
       p_color = False, p_sides = [], p_resolutions = [], p_media = []\<rparr>,
     ippDefaultPath = [], resourcePaths = [], urf = []\<rparr>"

definition demoPost :: "bytes \<Rightarrow> http_request" where
  "demoPost body = \<lparr>isPost = True, urlPath = str ''/ipp/print'', remoteAddr = str ''10.0.0.2:1'', overTLS = False,
     hostHeader = str ''pr'', httpBody = body, bodyError = False\<rparr>"

theorem ipp_forward_delivers_witness:
  "\<exists>resp j'. ippHandler demoIpp 0 (\<lambda>_. False)
      (demoPost (ippRequest (str ''ipp://pr/ipp/print'') [] (newJob (str ''LPR'') [])  (str ''%PDF''))) = Some (200, resp, Some j')
    \<and> jobData j' = str ''%PDF'' \<and> jobName j' = str ''job''"
proof -
  have "ippToHTTP (str ''ipp://pr/ipp/print'') \<noteq> None" by code_simp
  then show ?thesis
    using ipp_forward_delivers [of "str ''ipp://pr/ipp/print''" "[]" "newJob (str ''LPR'') []" "str ''%PDF''"
        "demoPost (ippRequest (str ''ipp://pr/ipp/print'') [] (newJob (str ''LPR'') []) (str ''%PDF''))" demoIpp "\<lambda>_. False"]
    by (auto simp: newJob_def blankJob_def demoPost_def demoIpp_def fits16_def str_def orElse_def)
qed

lemma suffix_drop: "k \<le> length b \<Longrightarrow> is_suffix (drop k b) b"
  by (simp add: is_suffix_def)

lemma parseIPPLoop_doc: "parseIPPLoop fuel b i m = Some (m', doc) \<Longrightarrow> is_suffix doc b"
proof (induction fuel arbitrary: i m)
  case (Suc fuel)
  have "is_suffix [] b" by (simp add: is_suffix_def)
  moreover have "\<not> length b \<le> i \<Longrightarrow> is_suffix (drop (Suc i) b) b" by (rule suffix_drop) simp
  ultimately show ?case
    using Suc by (auto simp: parseIPPLoop.simps Let_def slice_from_def split: if_splits bind_splits)
qed (simp add: parseIPPLoop.simps is_suffix_def)

lemma suffix_of_drop: "is_suffix d (drop n b) \<Longrightarrow> is_suffix d b"
proof -
  assume s: "is_suffix d (drop n b)"
  show ?thesis
  proof (cases "n \<le> length b")
    case True
    from s have "length d \<le> length b - n" by (simp add: is_suffix_def)
    with True have "length b - (n + length d) + n = length b - length d" "length d \<le> length b" by linarith+
    with s True show ?thesis by (simp add: is_suffix_def)
  next
    case False
    with s show ?thesis by (simp add: is_suffix_def)
  qed
qed

text \<open>No request, whatever its bytes, makes the IPP handler panic; a document reaches the
  sink only with HTTP status 200, it is a non-empty suffix of the (size-capped) body, and its format is one
  the configuration accepts.\<close>

theorem ipp_handler_safe:
  "case ippHandler c cap saveFails r of
     None \<Rightarrow> False
   | Some (code, resp, None) \<Rightarrow> True
   | Some (code, resp, Some j) \<Rightarrow>
       code = 200 \<and> isPost r \<and> jobData j \<noteq> [] \<and> is_suffix (jobData j) (limitBody cap (httpBody r))
       \<and> \<not> (enforceFormats (ippPrinter c) \<and> jobDocFormat j \<noteq> []
            \<and> jobDocFormat j \<notin> set (documentFormats (ippPrinter c)))"
proof -
  have doc: "parseIPP (drop 8 b) = Some (m, d) \<Longrightarrow> is_suffix d b" for b m d
    using parseIPPLoop_doc [of _ "drop 8 b" 0 "[]" m d] suffix_of_drop [of d 8 b]
    unfolding parseIPP_def by blast
  show ?thesis
    using ippHandler_returns [of c cap saveFails r]
    by (auto simp: ippHandler_def Let_def ippStatus_def ippJob_def newJob_def blankJob_def formatAllowed_def
        slice_from_def intro: doc split: option.splits prod.splits if_splits bind_splits)
qed

text \<open>
  The job-uri of a job response is not below the printer's resource path: the two are joined
  without a separator.
\<close>

lemma job_uri_without_slash:
  "jobGroup (demoIpp\<lparr>ippDefaultPath := str ''/ipp/print''\<rparr>) (str ''pr'')
    = [tagJobAttrs] @ writeStr tagURI (str ''job-uri'') (str ''ipp://pr/ipp/printjobs/1'')
      @ writeInt (str ''job-id'') 1 @ writeEnum (str ''job-state'') 9
      @ writeStr tagKeyword (str ''job-state-reasons'') (str ''none'')"
  by (simp add: jobGroup_def str_def)

end
