(* ===== verification/Lpd.thy ===== *)
theory Lpd
  imports Config_Types
begin

text \<open>
  The LPD daemon (\<^verbatim>\<open>lpd.go\<close>) and the LPR client of the forwarder (\<^verbatim>\<open>fwd_lpr.go\<close>). A connection is the
  byte stream the peer sends before it closes; the daemon's result is the bytes it answers, in
  order, and the job it hands to the sink, if any. The PJL scan is the argument \<open>pjl\<close>. Time-outs
  and logging are left out.
\<close>

subsection \<open>Reading\<close>

definition nl :: byte where "nl = 0x0a"

text \<open>\<^verbatim>\<open>readLine\<close>: through the next newline, without trailing CR and LF.\<close>

definition readLine :: "bytes \<Rightarrow> bytes \<times> bytes" where
  "readLine r =
     (let line = takeWhile (\<lambda>c. c \<noteq> nl) r
      in (trimRight line (\<lambda>c. c = 0x0d \<or> c = nl), drop (length line + 1) r))"

text \<open>\<^verbatim>\<open>readChunk\<close>: the data, whether the cap clipped it, and what is left of the stream.\<close>

definition readChunk :: "bytes \<Rightarrow> int \<Rightarrow> nat \<Rightarrow> bytes \<times> bool \<times> bytes" where
  "readChunk r count cap =
     (if count > 0 then
        (if cap > 0 \<and> count > int cap then (take cap r, True, drop cap r)
         else (take (nat count) r, False, drop (nat count) r))
      else if cap > 0 then (take cap r, length (take cap r) = cap, drop cap r)
      else (r, False, []))"

definition splitFirst :: "byte \<Rightarrow> bytes \<Rightarrow> bytes \<times> bytes" where
  "splitFirst c s = (takeWhile (\<lambda>x. x \<noteq> c) s, drop (length (takeWhile (\<lambda>x. x \<noteq> c) s) + 1) s)"

definition parseCountName :: "bytes \<Rightarrow> int \<times> bytes" where
  "parseCountName s = (case splitFirst 0x20 (trimSpace s) of (n, name) \<Rightarrow> (atoi n, name))"

subsection \<open>The control file\<close>

definition controlLine :: "job \<Rightarrow> bytes \<Rightarrow> job" where
  "controlLine j line =
     (case line of [] \<Rightarrow> j
      | key # rest \<Rightarrow>
          let val = trimRight rest (\<lambda>c. c = 0x0d) in
          if key = 0x48 then j\<lparr>jobHost := val\<rparr>
          else if key = 0x50 then j\<lparr>jobUser := val\<rparr>
          else if key = 0x4a then j\<lparr>jobName := val\<rparr>
          else if key = 0x43 then j\<lparr>jobClass := val\<rparr>
          else if key = 0x54 then j\<lparr>jobTitle := val\<rparr>
          else j)"

definition parseControlFile :: "bytes \<Rightarrow> job \<Rightarrow> job" where
  "parseControlFile ctrl j = foldl controlLine j (split1 nl ctrl)"

definition controlCarriageHint :: "bytes \<Rightarrow> bytes" where
  "controlCarriageHint ctrl =
     (if list_ex (\<lambda>line. line \<noteq> [] \<and> hd line = 0x72) (split1 nl ctrl) then str ''asa'' else [])"

subsection \<open>The daemon\<close>

definition queueAllowed :: "lpd_conf \<Rightarrow> bytes \<Rightarrow> bool" where
  "queueAllowed c queue =
     (acceptAnyQueue c \<or> allowedQueues c = [] \<or> list_ex (\<lambda>q. equalFold q queue) (allowedQueues c))"

definition isPrivilegedSource :: "int option \<Rightarrow> bool" where
  "isPrivilegedSource port = (case port of None \<Rightarrow> False | Some p \<Rightarrow> p > 0 \<and> p < 1024)"

abbreviation maxControlFileBytes :: nat where "maxControlFileBytes \<equiv> 1048576"

text \<open>What happens when the peer has closed: PJL fills the gaps and a job with data is saved.\<close>

definition finishLPD :: "lpd_conf \<Rightarrow> (bytes \<Rightarrow> bytes \<times> bytes) \<Rightarrow> job \<Rightarrow> job option" where
  "finishLPD c pjl j =
     (if jobData j = [] then None
      else if lpdParsePJL c \<and> (jobName j = [] \<or> jobUser j = []) then
        (case pjl (jobData j) of (name, user) \<Rightarrow>
           let j1 = (if jobName j = [] then j\<lparr>jobName := name\<rparr> else j);
               j2 = (if jobUser j1 = [] then j1\<lparr>jobUser := user\<rparr> else j1)
           in Some j2)
      else Some j)"

lemma readLine_shorter: "length (snd (readLine r)) \<le> length r"
  by (simp add: readLine_def Let_def)

lemma readChunk_shorter: "readChunk r n cap = (d, cpd, r') \<Longrightarrow> length r' \<le> length r"
  by (auto simp: readChunk_def split: if_splits)

lemma round_shorter:
  "(line, r2) = readLine r1 \<Longrightarrow> (d, cpd, r3) = readChunk r2 n cap \<Longrightarrow> length r3 < Suc (length r1)"
  using readLine_shorter [of r1] readChunk_shorter [of r2 n cap d cpd r3] by (metis le_imp_less_Suc le_trans snd_conv)

text \<open>
  The sub-command loop. Each round returns the acknowledgements it writes, in front of those of
  the rest.
\<close>

function lpdLoop :: "lpd_conf \<Rightarrow> nat \<Rightarrow> (bytes \<Rightarrow> bytes \<times> bytes) \<Rightarrow> job \<Rightarrow> bytes \<Rightarrow> bytes \<times> job option" where
  "lpdLoop c cap pjl j r =
     (case r of
        [] \<Rightarrow> ([], finishLPD c pjl j)
      | sub # r1 \<Rightarrow>
          if sub = 0x01 then
            (case lpdLoop c cap pjl j r1 of (acks, out) \<Rightarrow> (0x00 # acks, out))
          else if sub = 0x02 then
            (case readLine r1 of (line, r2) \<Rightarrow>
             case readChunk r2 (fst (parseCountName line)) maxControlFileBytes of (ctrl, _, r3) \<Rightarrow>
               let j' = (parseControlFile ctrl j)\<lparr>carriageHint := controlCarriageHint ctrl\<rparr> in
               (case lpdLoop c cap pjl j' (drop 1 r3) of (acks, out) \<Rightarrow> (0x00 # 0x00 # acks, out)))
          else if sub = 0x03 then
            (case readLine r1 of (line, r2) \<Rightarrow>
             let count = fst (parseCountName line) in
             case readChunk r2 count cap of (data, capped, r3) \<Rightarrow>
               let j' = j\<lparr>jobData := data, jobBytes := length data\<rparr> in
               if capped then ([0x00, 0x00], if data = [] then None else Some j')
               else (case lpdLoop c cap pjl j' (if count > 0 then drop 1 r3 else r3) of
                       (acks, out) \<Rightarrow> (0x00 # 0x00 # acks, out)))
          else ([], None))"
  by pat_completeness auto

termination
  by (relation "measure (\<lambda>(c, cap, pjl, j, r). length r)")
    (auto dest: round_shorter intro: le_less_trans [OF diff_le_self])

declare lpdLoop.simps [simp del]

definition handleLPD :: "lpd_conf \<Rightarrow> nat \<Rightarrow> (bytes \<Rightarrow> bytes \<times> bytes) \<Rightarrow> bytes \<Rightarrow> int option \<Rightarrow> bytes \<Rightarrow> bytes \<times> job option" where
  "handleLPD c cap pjl source port r =
     (if requirePrivilegedSourcePort c \<and> \<not> isPrivilegedSource port then ([], None)
      else (case r of
        [] \<Rightarrow> ([], None)
      | cmd # r1 \<Rightarrow>
          if cmd \<noteq> 0x02 then ([0x00], None)
          else (case readLine r1 of (line, r2) \<Rightarrow>
            let queue = trimSpace line in
            if \<not> queueAllowed c queue then ([0x01], None)
            else (case lpdLoop c cap pjl ((newJob (str ''LPR'') source)\<lparr>jobQueue := queue\<rparr>) r2 of
                    (acks, out) \<Rightarrow> (0x00 # acks, out)))))"

subsection \<open>The client\<close>

definition lprFile :: "byte \<Rightarrow> bytes \<Rightarrow> bytes \<Rightarrow> bytes" where
  "lprFile sub name body = [sub] @ itoa (length body) @ [0x20] @ name @ [nl] @ body @ [0x00]"

definition lprQueue :: "bytes \<Rightarrow> job \<Rightarrow> bytes" where
  "lprQueue queue j = (if queue = [] \<or> queue = str ''auto'' then orElse (jobQueue j) (str ''lp'') else queue)"

definition lprControl :: "job \<Rightarrow> bytes" where
  "lprControl j =
     (let host = orElse (jobHost j) (str ''printcap''); user = orElse (jobUser j) (str ''printcap'');
          name = orElse (jobName j) (str ''job'')
      in str ''H'' @ host @ [nl] @ str ''P'' @ user @ [nl] @ str ''J'' @ name @ [nl]
         @ str ''f'' @ str ''dfA001'' @ host @ [nl])"

text \<open>Everything \<^verbatim>\<open>send\<close> writes when every step is acknowledged, and what it makes of the answers.\<close>

definition lprSend :: "bytes \<Rightarrow> bytes \<Rightarrow> job \<Rightarrow> bytes" where
  "lprSend queue data j =
     (let host = orElse (jobHost j) (str ''printcap'') in
      [0x02] @ lprQueue queue j @ [nl]
       @ lprFile 0x02 (str ''cfA001'' @ host) (lprControl j)
       @ lprFile 0x03 (str ''dfA001'' @ host) data)"

datatype lpr_error = ReceiveJobRejected | ControlFile | DataFile

definition lprResult :: "bytes \<Rightarrow> lpr_error option" where
  "lprResult acks =
     (let ok = (\<lambda>i. i < length acks \<and> acks ! i = 0x00) in
      if \<not> ok 0 then Some ReceiveJobRejected
      else if \<not> ok 1 \<or> \<not> ok 2 then Some ControlFile
      else if \<not> ok 3 \<or> \<not> ok 4 then Some DataFile
      else None)"

subsection \<open>Lines\<close>

lemma trimRight_id: "s = [] \<or> \<not> P (last s) \<Longrightarrow> trimRight s P = s"
  by (cases s rule: rev_cases) (auto simp: trimRight_def)

lemma trimRight_keep:
  assumes "d \<noteq> []" "\<not> P (last d)"
  obtains y' where "trimRight (d @ y) P = d @ y'" "y' = [] \<or> (y \<noteq> [] \<and> hd y' = hd y)"
proof (cases "list_all P y")
  case True
  then have "trimRight (d @ y) P = trimRight d P"
    by (simp add: trimRight_def dropWhile_append list_all_iff)
  then show thesis using that [of "[]"] trimRight_id [of d P] assms by simp
next
  case False
  then have r: "trimRight (d @ y) P = d @ trimRight y P"
    by (auto simp: trimRight_def dropWhile_append list_all_iff)
  have "trimRight y P \<noteq> []" using False by (auto simp: trimRight_def list_all_iff)
  moreover have "\<exists>z. y = trimRight y P @ z"
    unfolding trimRight_def by (metis rev_append rev_rev_ident takeWhile_dropWhile_id)
  ultimately have "y \<noteq> [] \<and> hd (trimRight y P) = hd y" by (metis append_is_Nil_conv hd_append2)
  with r show thesis using that by blast
qed

lemma digit_not_space: "isDigit c \<Longrightarrow> \<not> isSpace c \<and> c \<noteq> 0x20 \<and> c \<noteq> 0x0d \<and> c \<noteq> nl"
  by (auto simp: isDigit_def isSpace_def nl_def word_le_nat_alt)

lemma itoa_not_nil: "itoa n \<noteq> []"
  by (simp add: itoa_def itoaAcc_nonempty)

lemma itoa_chars: "c \<in> set (itoa n) \<Longrightarrow> isDigit c"
  using itoa_digits [of n] by (simp add: list_all_iff)

lemma count_read:
  assumes "n < 2 ^ 63"
  shows "fst (parseCountName (trimRight (itoa n @ 0x20 # name) (\<lambda>c. c = 0x0d \<or> c = nl))) = int n"
proof -
  have l: "isDigit (last (itoa n))" using itoa_chars [OF last_in_set [OF itoa_not_nil]] .
  obtain y1 where y1: "trimRight (itoa n @ 0x20 # name) (\<lambda>c. c = 0x0d \<or> c = nl) = itoa n @ y1"
    "y1 = [] \<or> (0x20 # name \<noteq> [] \<and> hd y1 = hd (0x20 # name))"
    by (rule trimRight_keep [OF itoa_not_nil, of "\<lambda>c. c = 0x0d \<or> c = nl" n "0x20 # name"])
      (use digit_not_space [OF l] in auto)
  obtain y2 where y2: "trimRight (itoa n @ y1) isSpace = itoa n @ y2" "y2 = [] \<or> (y1 \<noteq> [] \<and> hd y2 = hd y1)"
    by (rule trimRight_keep [OF itoa_not_nil, of isSpace n y1]) (use digit_not_space [OF l] in auto)
  have h: "\<not> isSpace (hd (itoa n))" using itoa_chars [OF hd_in_set [OF itoa_not_nil]] digit_not_space by blast
  have "dropWhile isSpace (itoa n @ y1) = itoa n @ y1"
    using h itoa_not_nil [of n] by (cases "itoa n") auto
  then have t: "trimSpace (itoa n @ y1) = itoa n @ y2" by (simp add: trimSpace_def y2(1))
  have "takeWhile (\<lambda>x. x \<noteq> 0x20) (itoa n @ y2) = itoa n"
  proof -
    have "takeWhile (\<lambda>x. x \<noteq> 0x20) (itoa n @ y2) = itoa n @ takeWhile (\<lambda>x. x \<noteq> 0x20) y2"
      using itoa_chars digit_not_space by (intro takeWhile_append2) blast
    moreover have "takeWhile (\<lambda>x. x \<noteq> 0x20) y2 = []" using y1(2) y2(2) by (cases y2) auto
    ultimately show ?thesis by simp
  qed
  then show ?thesis using assms by (simp add: parseCountName_def splitFirst_def y1(1) t atoi_itoa)
qed

lemma readLine_line: "nl \<notin> set l \<Longrightarrow> readLine (l @ nl # rest) = (trimRight l (\<lambda>c. c = 0x0d \<or> c = nl), rest)"
proof -
  assume "nl \<notin> set l"
  then have "takeWhile (\<lambda>c. c \<noteq> nl) (l @ nl # rest) = l @ takeWhile (\<lambda>c. c \<noteq> nl) (nl # rest)"
    by (intro takeWhile_append2) auto
  then show ?thesis by (simp add: readLine_def)
qed

text \<open>Text that survives as one line.\<close>

definition lineSafe :: "bytes \<Rightarrow> bool" where
  "lineSafe s \<longleftrightarrow> nl \<notin> set s \<and> 0x0d \<notin> set s"

lemma file_header:
  assumes "lineSafe name" "length body < 2 ^ 63"
  shows "readLine (tl (lprFile sub name body) @ rest)
      = (trimRight (itoa (length body) @ 0x20 # name) (\<lambda>c. c = 0x0d \<or> c = nl), body @ [0x00] @ rest)"
    and "fst (parseCountName (trimRight (itoa (length body) @ 0x20 # name) (\<lambda>c. c = 0x0d \<or> c = nl))) = int (length body)"
proof -
  have "nl \<notin> set (itoa (length body) @ 0x20 # name)"
    using assms(1) itoa_chars digit_not_space by (auto simp: lineSafe_def nl_def)
  from readLine_line [OF this, of "body @ [0x00] @ rest"]
  show "readLine (tl (lprFile sub name body) @ rest)
      = (trimRight (itoa (length body) @ 0x20 # name) (\<lambda>c. c = 0x0d \<or> c = nl), body @ [0x00] @ rest)"
    by (simp add: lprFile_def)
qed (rule count_read [OF assms(2)])

lemma lprFile_cons: "lprFile sub name body @ rest = sub # (tl (lprFile sub name body) @ rest)"
  by (simp add: lprFile_def)

lemma lpdLoop_Nil: "lpdLoop c cap pjl j [] = ([], finishLPD c pjl j)"
  by (subst lpdLoop.simps) simp

text \<open>One control file and one data file, whatever follows them.\<close>

lemma lpd_control_file:
  assumes "lineSafe name" "0 < length body" "length body \<le> maxControlFileBytes"
  shows "lpdLoop c cap pjl j (lprFile 0x02 name body @ rest) =
    (case lpdLoop c cap pjl ((parseControlFile body j)\<lparr>carriageHint := controlCarriageHint body\<rparr>) rest of
       (acks, out) \<Rightarrow> (0x00 # 0x00 # acks, out))"
proof -
  have l: "length body < 2 ^ 63" using assms(3) by simp
  note h = file_header(1) [OF assms(1) l, of "0x02"] file_header(2) [OF assms(1) l]
  have ch: "readChunk (body @ [0x00] @ rest) (int (length body)) maxControlFileBytes = (body, False, 0x00 # rest)"
    using assms(2,3) by (simp add: readChunk_def)
  show ?thesis
    unfolding lprFile_cons by (subst lpdLoop.simps) (simp add: h ch [simplified] Let_def)
qed

lemma lpd_data_file:
  assumes "lineSafe name" "data \<noteq> []" "length data < 2 ^ 63" "cap = 0 \<or> length data \<le> cap"
  shows "lpdLoop c cap pjl j (lprFile 0x03 name data @ rest) =
    (case lpdLoop c cap pjl (j\<lparr>jobData := data, jobBytes := length data\<rparr>) rest of
       (acks, out) \<Rightarrow> (0x00 # 0x00 # acks, out))"
proof -
  note h = file_header(1) [OF assms(1,3), of "0x03"] file_header(2) [OF assms(1,3)]
  have ch: "readChunk (data @ [0x00] @ rest) (int (length data)) cap = (data, False, 0x00 # rest)"
    using assms(2,4) by (auto simp: readChunk_def)
  show ?thesis
    unfolding lprFile_cons using assms(2) by (subst lpdLoop.simps) (simp add: h ch [simplified] Let_def)
qed

lemma lpd_empty_data_file:
  assumes "lineSafe name"
  shows "lpdLoop c 0 pjl j (lprFile 0x03 name [] @ rest) =
    ([0x00, 0x00], finishLPD c pjl (j\<lparr>jobData := 0x00 # rest, jobBytes := Suc (length rest)\<rparr>))"
proof -
  have "length ([] :: bytes) < 2 ^ 63" by simp
  note h = file_header(1) [OF assms this, of "0x03"] file_header(2) [OF assms this]
  show ?thesis
    unfolding lprFile_cons
    by (subst lpdLoop.simps) (simp add: h(1) h(2) [simplified] readChunk_def Let_def lpdLoop_Nil)
qed

lemma control_roundtrip:
  assumes "lineSafe host" "lineSafe user" "lineSafe name"
  shows "parseControlFile (str ''H'' @ host @ [nl] @ str ''P'' @ user @ [nl] @ str ''J'' @ name @ [nl]
         @ str ''f'' @ str ''dfA001'' @ host @ [nl]) j
      = j\<lparr>jobHost := host, jobUser := user, jobName := name\<rparr>"
    and "controlCarriageHint (str ''H'' @ host @ [nl] @ str ''P'' @ user @ [nl] @ str ''J'' @ name @ [nl]
         @ str ''f'' @ str ''dfA001'' @ host @ [nl]) = []"
proof -
  let ?c = "str ''H'' @ host @ [nl] @ str ''P'' @ user @ [nl] @ str ''J'' @ name @ [nl]
         @ str ''f'' @ str ''dfA001'' @ host @ [nl]"
  have s: "split1 nl ?c = [0x48 # host, 0x50 # user, 0x4a # name, 0x66 # str ''dfA001'' @ host, []]"
  proof -
    have "split1 nl ((0x48 # host) @ nl # (0x50 # user) @ nl # (0x4a # name) @ nl # (0x66 # str ''dfA001'' @ host) @ nl # [])
        = [0x48 # host, 0x50 # user, 0x4a # name, 0x66 # str ''dfA001'' @ host, []]"
      using assms by (subst split1_append, simp add: lineSafe_def nl_def,
          subst split1_append, simp add: lineSafe_def nl_def,
          subst split1_append, simp add: lineSafe_def nl_def,
          subst split1_append, auto simp: lineSafe_def nl_def str_def)
    then show ?thesis by (simp add: str_def)
  qed
  have t: "lineSafe x \<Longrightarrow> trimRight x (\<lambda>c. c = 0x0d) = x" for x
    by (rule trimRight_id) (auto simp: lineSafe_def dest: last_in_set)
  show "parseControlFile ?c j = j\<lparr>jobHost := host, jobUser := user, jobName := name\<rparr>"
    unfolding parseControlFile_def s using assms by (simp add: controlLine_def t)
  show "controlCarriageHint ?c = []"
    unfolding controlCarriageHint_def s by simp
qed

lemma length_lprControl_pos: "0 < length (lprControl j)"
  by (simp add: lprControl_def Let_def str_def)

lemma lineSafe_default: "lineSafe s \<Longrightarrow> lineSafe d \<Longrightarrow> lineSafe (orElse s d)"
  by (simp add: orElse_def)

lemma lineSafe_append [simp]: "lineSafe (a @ b) \<longleftrightarrow> lineSafe a \<and> lineSafe b"
  by (auto simp: lineSafe_def)

lemma lineSafe_consts: "lineSafe (str ''printcap'')" "lineSafe (str ''job'')" "lineSafe (str ''cfA001'')"
  "lineSafe (str ''dfA001'')" "lineSafe (str ''lp'')"
  by (simp_all add: lineSafe_def str_def nl_def)

lemma orElse_nonempty: "d \<noteq> [] \<Longrightarrow> orElse s d \<noteq> []"
  by (simp add: orElse_def)

lemma queue_line:
  assumes "lineSafe q" "trimSpace q = q"
  shows "readLine (q @ [nl] @ rest) = (q, rest)"
proof -
  have "trimRight q (\<lambda>c. c = 0x0d \<or> c = nl) = q"
    using assms(1) by (intro trimRight_id) (auto simp: lineSafe_def dest: last_in_set)
  then show ?thesis using readLine_line [of q rest] assms(1) by (simp add: lineSafe_def)
qed

definition deliveredJob :: "bytes \<Rightarrow> bytes \<Rightarrow> bytes \<Rightarrow> job \<Rightarrow> job" where
  "deliveredJob source queue data j =
     (newJob (str ''LPR'') source)\<lparr>jobQueue := lprQueue queue j, jobHost := orElse (jobHost j) (str ''printcap''),
       jobUser := orElse (jobUser j) (str ''printcap''), jobName := orElse (jobName j) (str ''job''),
       jobData := data, jobBytes := length data\<rparr>"

subsection \<open>Properties\<close>

text \<open>C10: Forwarding over LPR delivers the job. The daemon, reading what the client of the forwarder
  sends for a non-empty document within the cap (fields without line breaks, a queue the daemon
  allows), answers exactly the five positive acknowledgements the client waits for, so the client
  reports success, and hands the sink one job with the same document, queue, host, user and name.\<close>

theorem lpr_forward_delivers:
  assumes "lineSafe (jobHost j)" "lineSafe (jobUser j)" "lineSafe (jobName j)"
    and "lineSafe (lprQueue queue j)" "trimSpace (lprQueue queue j) = lprQueue queue j"
    and "queueAllowed c (lprQueue queue j)" "\<not> requirePrivilegedSourcePort c"
    and "data \<noteq> []" "length data < 2 ^ 63" "cap = 0 \<or> length data \<le> cap"
    and "length (lprControl j) \<le> maxControlFileBytes"
  shows "handleLPD c cap pjl source port (lprSend queue data j)
      = (replicate 5 0x00, Some (deliveredJob source queue data j))
    \<and> lprResult (fst (handleLPD c cap pjl source port (lprSend queue data j))) = None"
proof -
  let ?host = "orElse (jobHost j) (str ''printcap'')" and ?user = "orElse (jobUser j) (str ''printcap'')"
    and ?name = "orElse (jobName j) (str ''job'')"
  let ?j0 = "(newJob (str ''LPR'') source)\<lparr>jobQueue := lprQueue queue j\<rparr>"
  let ?j1 = "?j0\<lparr>jobHost := ?host, jobUser := ?user, jobName := ?name, carriageHint := []\<rparr>"
  have safe: "lineSafe ?host" "lineSafe ?user" "lineSafe ?name"
    using assms(1-3) lineSafe_consts by (auto intro: lineSafe_default)
  note cr = control_roundtrip [OF safe]
  have pc: "parseControlFile (lprControl j) ?j0 = ?j0\<lparr>jobHost := ?host, jobUser := ?user, jobName := ?name\<rparr>"
    and ch: "controlCarriageHint (lprControl j) = []"
    unfolding lprControl_def Let_def using cr by blast+
  have cf: "lineSafe (str ''cfA001'' @ ?host)" and df: "lineSafe (str ''dfA001'' @ ?host)"
    using safe lineSafe_consts by simp_all
  have d: "lpdLoop c cap pjl ?j1 (lprFile 0x03 (str ''dfA001'' @ ?host) data @ [])
      = ([0x00, 0x00], Some (?j1\<lparr>jobData := data, jobBytes := length data\<rparr>))"
    unfolding lpd_data_file [OF df assms(8-10)] lpdLoop_Nil
    using assms(8) orElse_nonempty by (simp add: finishLPD_def str_def)
  have "lpdLoop c cap pjl ?j0 (lprFile 0x02 (str ''cfA001'' @ ?host) (lprControl j)
        @ lprFile 0x03 (str ''dfA001'' @ ?host) data @ [])
      = ([0x00, 0x00, 0x00, 0x00], Some (?j1\<lparr>jobData := data, jobBytes := length data\<rparr>))"
    unfolding lpd_control_file [OF cf length_lprControl_pos assms(11)] pc ch
    using d by simp
  then have "handleLPD c cap pjl source port (lprSend queue data j)
      = (replicate 5 0x00, Some (?j1\<lparr>jobData := data, jobBytes := length data\<rparr>))"
    using queue_line [OF assms(4,5)] assms(6,7)
    by (simp add: handleLPD_def lprSend_def Let_def assms(5) eval_nat_numeral)
  moreover have "?j1\<lparr>jobData := data, jobBytes := length data\<rparr> = deliveredJob source queue data j"
    by (simp add: deliveredJob_def newJob_def blankJob_def)
  ultimately show ?thesis by (simp add: lprResult_def Let_def nth_Cons' eval_nat_numeral)
qed

definition anyLpd :: lpd_conf where
  "anyLpd = \<lparr>acceptAnyQueue = True, allowedQueues = [], requirePrivilegedSourcePort = False, lpdParsePJL = False\<rparr>"

theorem lpr_forward_delivers_witness:
  "lprResult (fst (handleLPD anyLpd 0 (\<lambda>_. ([], [])) [] None
     (lprSend (str ''lp'') (str ''hello'') (newJob (str ''IPP'') [])))) = None"
proof -
  let ?j = "newJob (str ''IPP'') []"
  have "lprQueue (str ''lp'') ?j = str ''lp''" by (simp add: lprQueue_def str_def)
  moreover have "trimSpace (str ''lp'') = str ''lp''" by code_simp
  moreover have "lineSafe (jobHost ?j)" "lineSafe (jobUser ?j)" "lineSafe (jobName ?j)"
    by (simp_all add: newJob_def blankJob_def lineSafe_def)
  moreover have "length (lprControl ?j) \<le> maxControlFileBytes"
    by (simp add: lprControl_def Let_def newJob_def blankJob_def orElse_def str_def)
  moreover have "queueAllowed anyLpd (str ''lp'')" "str ''hello'' \<noteq> []" "\<not> requirePrivilegedSourcePort anyLpd"
      "length (str ''hello'') < 2 ^ 63"
    by (simp_all add: queueAllowed_def anyLpd_def str_def)
  ultimately show ?thesis
    by (intro conjunct2 [OF lpr_forward_delivers]) (simp_all add: lineSafe_consts)
qed

text \<open>An empty document breaks the exchange. For a data file whose declared length is 0 the
  daemon reads to the end of the connection before it answers, so the client's terminator and
  everything after it becomes the document: it captures one octet that was never printed.\<close>

theorem empty_document_captures_terminator:
  assumes "lineSafe name" "jobName j \<noteq> []" "jobUser j \<noteq> []"
  shows "lpdLoop c 0 pjl j (lprFile 0x03 name [] @ rest)
    = ([0x00, 0x00], Some (j\<lparr>jobData := 0x00 # rest, jobBytes := Suc (length rest)\<rparr>))"
  unfolding lpd_empty_data_file [OF assms(1)] using assms(2,3) by (simp add: finishLPD_def)

theorem empty_document_captures_terminator_witness:
  "lpdLoop anyLpd 0 (\<lambda>_. ([], [])) (blankJob\<lparr>jobName := str ''a'', jobUser := str ''b''\<rparr>) (lprFile 0x03 (str ''df'') [] @ [])
    = ([0x00, 0x00], Some (blankJob\<lparr>jobName := str ''a'', jobUser := str ''b'', jobData := [0x00], jobBytes := 1\<rparr>))"
  using empty_document_captures_terminator [of "str ''df''" "blankJob\<lparr>jobName := str ''a'', jobUser := str ''b''\<rparr>" anyLpd
      "\<lambda>_. ([], [])" "[]"]
  by (simp add: lineSafe_def str_def nl_def)

text \<open>Only one document per connection survives. A second data file replaces the first, though
  both were acknowledged; and an unknown sub-command after a document discards it.\<close>

theorem second_data_file_replaces_first:
  assumes "lineSafe n1" "lineSafe n2" "d1 \<noteq> []" "d2 \<noteq> []" "length d1 < 2 ^ 63" "length d2 < 2 ^ 63"
    and "cap = 0 \<or> max (length d1) (length d2) \<le> cap" "jobName j \<noteq> []" "jobUser j \<noteq> []"
  shows "lpdLoop c cap pjl j (lprFile 0x03 n1 d1 @ lprFile 0x03 n2 d2)
      = (replicate 4 0x00, Some (j\<lparr>jobData := d2, jobBytes := length d2\<rparr>))
    \<and> lpdLoop c cap pjl j (lprFile 0x03 n1 d1 @ [0x04]) = (replicate 2 0x00, None)"
proof -
  have caps: "cap = 0 \<or> length d1 \<le> cap" "cap = 0 \<or> length d2 \<le> cap" using assms(7) by auto
  let ?j1 = "j\<lparr>jobData := d1, jobBytes := length d1\<rparr>"
  have "lpdLoop c cap pjl ?j1 (lprFile 0x03 n2 d2 @ [])
      = ([0x00, 0x00], Some (j\<lparr>jobData := d2, jobBytes := length d2\<rparr>))"
    unfolding lpd_data_file [OF assms(2,4,6) caps(2)] lpdLoop_Nil using assms(4,8,9) by (simp add: finishLPD_def)
  moreover have "lpdLoop c cap pjl ?j1 [0x04] = ([], None)" by (subst lpdLoop.simps) simp
  ultimately show ?thesis
    unfolding lpd_data_file [OF assms(1,3,5) caps(1)] by (simp add: eval_nat_numeral)
qed

theorem second_data_file_replaces_first_witness:
  "lpdLoop anyLpd 0 (\<lambda>_. ([], [])) (blankJob\<lparr>jobName := str ''a'', jobUser := str ''b''\<rparr>)
     (lprFile 0x03 [] [1] @ lprFile 0x03 [] [2]) = (replicate 4 0x00,
        Some (blankJob\<lparr>jobName := str ''a'', jobUser := str ''b'', jobData := [2], jobBytes := 1\<rparr>))"
  using second_data_file_replaces_first [of "[]" "[]" "[1]" "[2]" 0 "blankJob\<lparr>jobName := str ''a'', jobUser := str ''b''\<rparr>"
      anyLpd "\<lambda>_. ([], [])"]
  by (simp add: lineSafe_def str_def)

end
