(* ===== verification/Pdl.thy ===== *)
theory Pdl
  imports Byte_Search Config_Types
begin

text \<open>
  Page-description languages (\<^verbatim>\<open>pdl.go\<close>): stepping over a PJL preamble, detecting the language
  of a document by its magic bytes, splitting a connection into jobs at the Universal Exit
  Language sequence, and the file extension of a job (\<^verbatim>\<open>extForFormat\<close> of \<^verbatim>\<open>sink.go\<close>). The
  metadata of the preamble (\<^verbatim>\<open>parsePJL\<close>, two regular expressions) is an argument of the
  definitions that use it.
\<close>

subsection \<open>The preamble\<close>

definition uel :: bytes where
  "uel = 0x1b # str ''%-12345X''"

definition pjl :: bytes where
  "pjl = str ''@PJL''"

definition isBlank :: "byte \<Rightarrow> bool" where
  "isBlank c = (c = 0x0d \<or> c = 0x0a \<or> c = 0x20 \<or> c = 0x09)"

text \<open>The loop of \<^verbatim>\<open>skipPJL\<close>, on the rest of the slice.\<close>

function skipLoop :: "bytes \<Rightarrow> bytes" where
  "skipLoop b =
     (if b = [] then []
      else if is_prefix uel b then skipLoop (drop (length uel) b)
      else if isBlank (hd b) then skipLoop (tl b)
      else if is_prefix pjl b then
        (case bytesIndex b [0x0a] of None \<Rightarrow> b | Some nl \<Rightarrow> skipLoop (drop (nl + 1) b))
      else b)"
  by pat_completeness auto
termination
  by (relation "measure length") (auto simp: uel_def)

declare skipLoop.simps [simp del]

definition skipPJL :: "bytes \<Rightarrow> bytes" where
  "skipPJL b = (if \<not> is_prefix uel b \<and> \<not> bytesContains (take 16 b) pjl then b else skipLoop b)"

subsection \<open>Detection\<close>

record pdl_sig =
  sigName :: bytes
  sigExt :: bytes
  sigMime :: bytes
  sigMatch :: "bytes \<Rightarrow> bool"

definition pdlEntry :: "string \<Rightarrow> string \<Rightarrow> string \<Rightarrow> (bytes \<Rightarrow> bool) \<Rightarrow> pdl_sig" where
  "pdlEntry n e m f = \<lparr>sigName = str n, sigExt = str e, sigMime = str m, sigMatch = f\<rparr>"

definition pdlTable :: "pdl_sig list" where
  "pdlTable = [
     pdlEntry ''PDF'' ''.pdf'' ''application/pdf'' (is_prefix (str ''%PDF'')),
     pdlEntry ''PostScript'' ''.ps'' ''application/postscript'' (is_prefix (str ''%!'')),
     pdlEntry ''PCL-XL (PCL6)'' ''.pclxl'' ''application/vnd.hp-PCLXL''
       (\<lambda>b. bytesContains (take 64 b) (str ''HP-PCL XL'')),
     pdlEntry ''PCL'' ''.pcl'' ''application/vnd.hp-PCL''
       (\<lambda>b. length b \<ge> 2 \<and> b ! 0 = 0x1b \<and> b ! 1 \<in> {0x45, 0x26, 0x28, 0x2a}),
     pdlEntry ''PWG Raster'' ''.pwg'' ''image/pwg-raster''
       (\<lambda>b. is_prefix (str ''RaS2'') b \<or> is_prefix (str ''RaS3'') b
          \<or> is_prefix (str ''2SaR'') b \<or> is_prefix (str ''3SaR'') b),
     pdlEntry ''Apple Raster (URF)'' ''.urf'' ''image/urf'' (is_prefix (str ''UNIRAST'')),
     pdlEntry ''XPS / OpenXPS'' ''.xps'' ''application/oxps'' (is_prefix [0x50, 0x4b, 0x03, 0x04]),
     pdlEntry ''ZPL (Zebra)'' ''.zpl'' ''application/vnd.zebra-zpl''
       (\<lambda>b. is_prefix (str ''^XA'') (dropWhile isBlank b) \<or> bytesContains (take 32 b) (str ''^XA'')),
     pdlEntry ''EPL (Eltron)'' ''.epl'' ''application/vnd.eltron-epl''
       (\<lambda>b. let t = dropWhile isBlank b in
          length t > 1 \<and> (t ! 0 = 0x4e \<or> t ! 0 = 0x4f) \<and> (t ! 1 = 0x0a \<or> t ! 1 = 0x0d)),
     pdlEntry ''Prescribe (Kyocera)'' ''.pre'' ''application/vnd.kyocera-prescribe'' (is_prefix (str ''!R!'')),
     pdlEntry ''AFP (MO:DCA)'' ''.afp'' ''application/vnd.ibm.modcap'' (is_prefix [0x5a]),
     pdlEntry ''TIFF'' ''.tif'' ''image/tiff''
       (\<lambda>b. is_prefix [0x49, 0x49, 0x2a, 0x00] b \<or> is_prefix [0x4d, 0x4d, 0x00, 0x2a] b),
     pdlEntry ''JPEG'' ''.jpg'' ''image/jpeg'' (is_prefix [0xff, 0xd8, 0xff]),
     pdlEntry ''PNG'' ''.png'' ''image/png'' (is_prefix [0x89, 0x50, 0x4e, 0x47]),
     pdlEntry ''ESC/P or ESC/POS'' ''.escp'' ''application/octet-stream'' (is_prefix [0x1b, 0x40])]"

definition isText :: "bytes \<Rightarrow> bool" where
  "isText b = (b \<noteq> [] \<and> list_all (\<lambda>c. c \<noteq> 0x00 \<and> \<not> ((c < 0x09 \<or> (c > 0x0d \<and> c < 0x20)) \<and> c \<noteq> 0x1b))
     (take 512 b))"

fun firstSig :: "pdl_sig list \<Rightarrow> bytes \<Rightarrow> (bytes \<times> bytes \<times> bytes) option" where
  "firstSig [] b = None"
| "firstSig (sg # sgs) b =
     (if sigMatch sg b then Some (sigName sg, sigExt sg, sigMime sg) else firstSig sgs b)"

definition detectPDL :: "bytes \<Rightarrow> bytes \<times> bytes \<times> bytes" where
  "detectPDL data =
     (let b = skipPJL data in
      case firstSig pdlTable b of
        Some r \<Rightarrow> r
      | None \<Rightarrow>
          if isText b then (str ''Text'', str ''.txt'', str ''text/plain'')
          else (str ''Unknown'', str ''.prn'', str ''application/octet-stream''))"

text \<open>\<^verbatim>\<open>extForFormat\<close> of \<^verbatim>\<open>sink.go\<close>: the advertised format decides only where the bytes did not.\<close>

definition formatHint :: "bytes \<Rightarrow> bytes \<times> bytes \<Rightarrow> bytes \<times> bytes" where
  "formatHint f detected =
     (if bytesContains f (str ''pdf'') then (str ''PDF'', str ''.pdf'')
      else if bytesContains f (str ''postscript'') then (str ''PostScript'', str ''.ps'')
      else if bytesContains f (str ''pwg-raster'') then (str ''PWG Raster'', str ''.pwg'')
      else if bytesContains f (str ''urf'') then (str ''Apple Raster (URF)'', str ''.urf'')
      else if bytesContains f (str ''pclxl'') then (str ''PCL-XL (PCL6)'', str ''.pclxl'')
      else if bytesContains f (str ''pcl'') then (str ''PCL'', str ''.pcl'')
      else if bytesContains f (str ''jpeg'') then (str ''JPEG'', str ''.jpg'')
      else detected)"

definition extForFormat :: "job \<Rightarrow> job \<times> bytes" where
  "extForFormat j =
     (let (name, ext, mime) = detectPDL (jobData j);
          (pdl, ext') = (if name = str ''Unknown'' \<or> name = str ''Text''
            then formatHint (toLower (jobDocFormat j)) (name, ext) else (name, ext))
      in (j\<lparr>jobPDL := pdl\<rparr>, ext'))"

subsection \<open>Job splitting\<close>

definition splitUEL :: "bytes \<Rightarrow> bytes list" where
  "splitUEL data =
     (if \<not> bytesContains data uel then [data]
      else let out = map ((@) uel) (filter (\<lambda>p. trimSpace p \<noteq> []) (splitOn uel data))
           in if out = [] then [data] else out)"

section \<open>Correctness\<close>

lemma length_uel [simp]: "length uel = 9" by (simp add: uel_def str_def)
lemma uel_nonempty [simp]: "uel \<noteq> []" by (simp add: uel_def)
lemma uel_unbordered: "unbordered uel" by (simp add: uel_def str_def unbordered_def)

text \<open>Where the document itself starts: not with anything the preamble loop would step over.\<close>

definition startsDoc :: "bytes \<Rightarrow> bool" where
  "startsDoc b = (b \<noteq> [] \<and> \<not> is_prefix uel b \<and> \<not> isBlank (hd b) \<and> \<not> is_prefix pjl b)"

lemma skipLoop_doc: "startsDoc b \<Longrightarrow> skipLoop b = b"
  by (subst skipLoop.simps) (simp add: startsDoc_def)

lemma skipLoop_uel: "skipLoop (uel @ b) = skipLoop b"
  by (subst skipLoop.simps) simp

lemma skipLoop_blank: "isBlank c \<Longrightarrow> skipLoop (c # b) = skipLoop b"
  by (subst skipLoop.simps) (auto simp: uel_def isBlank_def)

lemma skipLoop_line:
  assumes "0x0a \<notin> set l"
  shows "skipLoop (pjl @ l @ 0x0a # b) = skipLoop b"
proof -
  have "0x0a \<notin> set (pjl @ l)" using assms by (simp add: pjl_def str_def)
  then have i: "bytesIndex (pjl @ l @ 0x0a # b) [0x0a] = Some (length (pjl @ l))"
    using bytesIndex_char [of "0x0a" "pjl @ l" b] by simp
  have p: "\<not> is_prefix uel (pjl @ l @ 0x0a # b)" "\<not> isBlank (hd pjl)" "pjl \<noteq> []"
    by (simp_all add: pjl_def uel_def str_def isBlank_def)
  show ?thesis by (subst skipLoop.simps) (simp add: i p)
qed

text \<open>A well-formed preamble: UEL sequences, white space and complete PJL lines.\<close>

datatype pjl_item = Exit | Blank byte | Line bytes

fun renderItem :: "pjl_item \<Rightarrow> bytes" where
  "renderItem Exit = uel"
| "renderItem (Blank c) = [c]"
| "renderItem (Line l) = pjl @ l @ [0x0a]"

fun wf_item :: "pjl_item \<Rightarrow> bool" where
  "wf_item Exit = True"
| "wf_item (Blank c) = isBlank c"
| "wf_item (Line l) = (0x0a \<notin> set l)"

definition preamble :: "pjl_item list \<Rightarrow> bytes" where
  "preamble items = concat (map renderItem items)"

lemma skipLoop_preamble: "list_all wf_item items \<Longrightarrow> skipLoop (preamble items @ b) = skipLoop b"
proof (induction items)
  case (Cons x items)
  then show ?case
    by (cases x) (simp_all add: preamble_def skipLoop_uel skipLoop_blank skipLoop_line)
qed (simp add: preamble_def)

lemma skipPJL_doc: "startsDoc b \<Longrightarrow> skipPJL b = b"
  by (simp add: skipPJL_def skipLoop_doc)

lemma skipPJL_preamble:
  assumes "list_all wf_item items" "startsDoc b" "items \<noteq> []" "hd items = Exit \<or> (\<exists>l. hd items = Line l)"
  shows "skipPJL (preamble items @ b) = b"
proof -
  obtain x xs where items: "items = x # xs" using assms(3) by (cases items) auto
  have "is_prefix uel (preamble items @ b) \<or> is_prefix pjl (preamble items @ b)"
    using assms(4) unfolding items by (auto simp: preamble_def)
  moreover have "bytesContains (take 16 c) pjl" if "is_prefix pjl c" for c
  proof -
    from that obtain d where "c = pjl @ d" by (auto simp: is_prefix_iff)
    then have "take 16 c = [] @ pjl @ take 12 d" by (simp add: pjl_def str_def)
    then show ?thesis unfolding bytesContains_iff by blast
  qed
  ultimately have "is_prefix uel (preamble items @ b) \<or> bytesContains (take 16 (preamble items @ b)) pjl"
    by blast
  then have "skipPJL (preamble items @ b) = skipLoop (preamble items @ b)" unfolding skipPJL_def by argo
  then show ?thesis using skipLoop_preamble [OF assms(1)] skipLoop_doc [OF assms(2)] by simp
qed

text \<open>The preamble is transparent. Whatever well-formed PJL preamble stands before a document
  (any number of exit sequences, blanks and complete \<^verbatim>\<open>@PJL\<close> lines, starting with an exit
  sequence or a PJL line), the language detected is that of the document alone.\<close>

theorem pdl_seen_through_preamble:
  assumes "list_all wf_item items" "startsDoc b" "items \<noteq> []" "hd items = Exit \<or> (\<exists>l. hd items = Line l)"
  shows "detectPDL (preamble items @ b) = detectPDL b"
  using skipPJL_preamble [OF assms] skipPJL_doc [OF assms(2)] by (simp add: detectPDL_def)

theorem pdl_seen_through_preamble_witness:
  "detectPDL (preamble [Exit, Line (str '' SET JOBNAME=x''), Exit, Blank 0x0a] @ str ''%PDF-1.4'')
    = (str ''PDF'', str ''.pdf'', str ''application/pdf'')"
proof -
  have d: "startsDoc (str ''%PDF-1.4'')" by (simp add: startsDoc_def uel_def pjl_def str_def isBlank_def)
  have "detectPDL (str ''%PDF-1.4'') = (str ''PDF'', str ''.pdf'', str ''application/pdf'')"
    unfolding detectPDL_def skipPJL_doc [OF d] by (simp add: pdlTable_def pdlEntry_def str_def)
  with pdl_seen_through_preamble [of "[Exit, Line (str '' SET JOBNAME=x''), Exit, Blank 0x0a]", OF _ d]
  show ?thesis by (simp add: isBlank_def str_def)
qed

definition jobStream :: "bytes list \<Rightarrow> bytes" where
  "jobStream ps = concat (map ((@) uel) ps)"

lemma jobStream_join: "ps \<noteq> [] \<Longrightarrow> jobStream ps = joinWith uel ([] # ps)"
  by (induction ps rule: list_nonempty_induct) (auto simp: jobStream_def joinWith_Cons)

text \<open>\<^verbatim>\<open>split_on_uel\<close> finds the jobs. A connection carrying several jobs back to back, each
  introduced by the exit sequence, is split into exactly those jobs, in order, each with its
  introduction; blank stretches between two exit sequences make no job.\<close>

theorem jobs_split_at_uel:
  assumes "\<And>p. p \<in> set ps \<Longrightarrow> \<not> bytesContains p uel" and "\<exists>p\<in>set ps. trimSpace p \<noteq> []"
  shows "splitUEL (jobStream ps) = map ((@) uel) (filter (\<lambda>p. trimSpace p \<noteq> []) ps)"
proof -
  have ne: "ps \<noteq> []" using assms(2) by auto
  have "\<not> bytesContains [] uel" by (simp add: bytesContains_def bytesIndex_Nil)
  then have "splitOn uel (joinWith uel ([] # ps)) = [] # ps"
    using assms(1) by (intro splitOn_joinWith uel_unbordered) auto
  moreover have "bytesContains (jobStream ps) uel"
    using ne by (cases ps) (force simp: jobStream_def bytesContains_iff)+
  moreover have "filter (\<lambda>p. trimSpace p \<noteq> []) ps \<noteq> []" using assms(2) by (auto simp: filter_empty_conv)
  ultimately show ?thesis
    by (simp add: splitUEL_def Let_def jobStream_join [OF ne] trimSpace_def trimRight_def)
qed

theorem jobs_split_at_uel_witness:
  "splitUEL (jobStream [str ''one'', str '' '', str ''two'']) = [uel @ str ''one'', uel @ str ''two'']"
proof -
  let ?ps = "[str ''one'', str '' '', str ''two'']"
  have "\<And>p. p \<in> set ?ps \<Longrightarrow> \<not> bytesContains p uel"
    by (auto simp: bytesContains_def bytesIndex_def uel_def str_def)
  moreover have "trimSpace (str ''one'') \<noteq> []" "trimSpace (str ''two'') \<noteq> []" "trimSpace (str '' '') = []"
    by (simp_all add: trimSpace_def trimRight_def str_def isSpace_def)
  ultimately show ?thesis using jobs_split_at_uel [of ?ps] by simp
qed

text \<open>The document class of a job never overrides its bytes. When the detection recognises a
  language, the advertised format changes nothing; when it does not, the PDL recorded and the
  extension follow the first advertised format that is recognised. Detection also takes any text
  starting with the letter Z for an AFP stream (0x5A is also the AFP introducer).\<close>

lemma firstSig_append: "firstSig (xs @ ys) b = (case firstSig xs b of Some r \<Rightarrow> Some r | None \<Rightarrow> firstSig ys b)"
  by (induction xs) auto

theorem bytes_win_over_hint:
  "fst (detectPDL (jobData j)) \<notin> {str ''Unknown'', str ''Text''} \<Longrightarrow>
     extForFormat j = (j\<lparr>jobPDL := fst (detectPDL (jobData j))\<rparr>, fst (snd (detectPDL (jobData j))))"
  by (cases "detectPDL (jobData j)") (auto simp: extForFormat_def)

theorem bytes_win_over_hint_witness:
  "extForFormat (blankJob\<lparr>jobData := str ''Zebra report'', jobDocFormat := str ''application/pdf''\<rparr>)
    = (blankJob\<lparr>jobData := str ''Zebra report'', jobDocFormat := str ''application/pdf'',
        jobPDL := str ''AFP (MO:DCA)''\<rparr>, str ''.afp'')"
proof -
  let ?j = "blankJob\<lparr>jobData := str ''Zebra report'', jobDocFormat := str ''application/pdf''\<rparr>"
  have d: "startsDoc (str ''Zebra report'')" by (simp add: startsDoc_def uel_def pjl_def str_def isBlank_def)
  have "detectPDL (jobData ?j) = (str ''AFP (MO:DCA)'', str ''.afp'', str ''application/vnd.ibm.modcap'')"
    unfolding detectPDL_def by (simp add: skipPJL_doc [OF d])
      (simp add: pdlTable_def pdlEntry_def str_def bytesContains_def bytesIndex_def isBlank_def)
  then show ?thesis using bytes_win_over_hint [of ?j] by (simp add: str_def)
qed

end
