(* ===== verification/Ebcdic.thy ===== *)
theory Ebcdic
  imports Byte_Search Config_Types "HOL-Library.Multiset"
begin

text \<open>
  Mainframe text (\<^verbatim>\<open>ebcdic.go\<close>, \<^verbatim>\<open>ebcdic_resolve.go\<close>): the six code-page tables, decoding to
  UTF-8, the detection heuristic and the choice of code page for a job. The tables are those of
  the source, entry for entry, as Unicode scalar values.
\<close>

subsection \<open>The tables\<close>

definition cp037 :: "int list" where
  "cp037 = [
    0, 1, 2, 3, 156, 9, 134, 127, 151, 141, 142, 11, 12, 13, 14, 15,
    16, 17, 18, 19, 157, 133, 8, 135, 24, 25, 146, 143, 28, 29, 30, 31,
    128, 129, 130, 131, 132, 10, 23, 27, 136, 137, 138, 139, 140, 5, 6, 7,
    144, 145, 22, 147, 148, 149, 150, 4, 152, 153, 154, 155, 20, 21, 158, 26,
    32, 160, 226, 228, 224, 225, 227, 229, 231, 241, 162, 46, 60, 40, 43, 124,
    38, 233, 234, 235, 232, 237, 238, 239, 236, 223, 33, 36, 42, 41, 59, 172,
    45, 47, 194, 196, 192, 193, 195, 197, 199, 209, 166, 44, 37, 95, 62, 63,
    248, 201, 202, 203, 200, 205, 206, 207, 204, 96, 58, 35, 64, 39, 61, 34,
    216, 97, 98, 99, 100, 101, 102, 103, 104, 105, 171, 187, 240, 253, 254, 177,
    176, 106, 107, 108, 109, 110, 111, 112, 113, 114, 170, 186, 230, 184, 198, 164,
    181, 126, 115, 116, 117, 118, 119, 120, 121, 122, 161, 191, 208, 221, 222, 174,
    94, 163, 165, 183, 169, 167, 182, 188, 189, 190, 91, 93, 175, 168, 180, 215,
    123, 65, 66, 67, 68, 69, 70, 71, 72, 73, 173, 244, 246, 242, 243, 245,
    125, 74, 75, 76, 77, 78, 79, 80, 81, 82, 185, 251, 252, 249, 250, 255,
    92, 247, 83, 84, 85, 86, 87, 88, 89, 90, 178, 212, 214, 210, 211, 213,
    48, 49, 50, 51, 52, 53, 54, 55, 56, 57, 179, 219, 220, 217, 218, 159]"

definition cp500 :: "int list" where
  "cp500 = [
    0, 1, 2, 3, 156, 9, 134, 127, 151, 141, 142, 11, 12, 13, 14, 15,
    16, 17, 18, 19, 157, 133, 8, 135, 24, 25, 146, 143, 28, 29, 30, 31,
    128, 129, 130, 131, 132, 10, 23, 27, 136, 137, 138, 139, 140, 5, 6, 7,
    144, 145, 22, 147, 148, 149, 150, 4, 152, 153, 154, 155, 20, 21, 158, 26,
    32, 160, 226, 228, 224, 225, 227, 229, 231, 241, 91, 46, 60, 40, 43, 33,
    38, 233, 234, 235, 232, 237, 238, 239, 236, 223, 93, 36, 42, 41, 59, 94,
    45, 47, 194, 196, 192, 193, 195, 197, 199, 209, 166, 44, 37, 95, 62, 63,
    248, 201, 202, 203, 200, 205, 206, 207, 204, 96, 58, 35, 64, 39, 61, 34,
    216, 97, 98, 99, 100, 101, 102, 103, 104, 105, 171, 187, 240, 253, 254, 177,
    176, 106, 107, 108, 109, 110, 111, 112, 113, 114, 170, 186, 230, 184, 198, 164,
    181, 126, 115, 116, 117, 118, 119, 120, 121, 122, 161, 191, 208, 221, 222, 174,
    162, 163, 165, 183, 169, 167, 182, 188, 189, 190, 172, 124, 175, 168, 180, 215,
    123, 65, 66, 67, 68, 69, 70, 71, 72, 73, 173, 244, 246, 242, 243, 245,
    125, 74, 75, 76, 77, 78, 79, 80, 81, 82, 185, 251, 252, 249, 250, 255,
    92, 247, 83, 84, 85, 86, 87, 88, 89, 90, 178, 212, 214, 210, 211, 213,
    48, 49, 50, 51, 52, 53, 54, 55, 56, 57, 179, 219, 220, 217, 218, 159]"

definition cp1047 :: "int list" where
  "cp1047 = [
    0, 1, 2, 3, 156, 9, 134, 127, 151, 141, 142, 11, 12, 13, 14, 15,
    16, 17, 18, 19, 157, 133, 8, 135, 24, 25, 146, 143, 28, 29, 30, 31,
    128, 129, 130, 131, 132, 10, 23, 27, 136, 137, 138, 139, 140, 5, 6, 7,
    144, 145, 22, 147, 148, 149, 150, 4, 152, 153, 154, 155, 20, 21, 158, 26,
    32, 160, 226, 228, 224, 225, 227, 229, 231, 241, 162, 46, 60, 40, 43, 124,
    38, 233, 234, 235, 232, 237, 238, 239, 236, 223, 33, 36, 42, 41, 59, 94,
    45, 47, 194, 196, 192, 193, 195, 197, 199, 209, 166, 44, 37, 95, 62, 63,
    248, 201, 202, 203, 200, 205, 206, 207, 204, 96, 58, 35, 64, 39, 61, 34,
    216, 97, 98, 99, 100, 101, 102, 103, 104, 105, 171, 187, 240, 253, 254, 177,
    176, 106, 107, 108, 109, 110, 111, 112, 113, 114, 170, 186, 230, 184, 198, 164,
    181, 126, 115, 116, 117, 118, 119, 120, 121, 122, 161, 191, 208, 91, 222, 174,
    172, 163, 165, 183, 169, 167, 182, 188, 189, 190, 221, 168, 175, 93, 180, 215,
    123, 65, 66, 67, 68, 69, 70, 71, 72, 73, 173, 244, 246, 242, 243, 245,
    125, 74, 75, 76, 77, 78, 79, 80, 81, 82, 185, 251, 252, 249, 250, 255,
    92, 247, 83, 84, 85, 86, 87, 88, 89, 90, 178, 212, 214, 210, 211, 213,
    48, 49, 50, 51, 52, 53, 54, 55, 56, 57, 179, 219, 220, 217, 218, 159]"

definition cp273 :: "int list" where
  "cp273 = [
    0, 1, 2, 3, 156, 9, 134, 127, 151, 141, 142, 11, 12, 13, 14, 15,
    16, 17, 18, 19, 157, 133, 8, 135, 24, 25, 146, 143, 28, 29, 30, 31,
    128, 129, 130, 131, 132, 10, 23, 27, 136, 137, 138, 139, 140, 5, 6, 7,
    144, 145, 22, 147, 148, 149, 150, 4, 152, 153, 154, 155, 20, 21, 158, 26,
    32, 160, 226, 123, 224, 225, 227, 229, 231, 241, 196, 46, 60, 40, 43, 33,
    38, 233, 234, 235, 232, 237, 238, 239, 236, 126, 220, 36, 42, 41, 59, 94,
    45, 47, 194, 91, 192, 193, 195, 197, 199, 209, 246, 44, 37, 95, 62, 63,
    248, 201, 202, 203, 200, 205, 206, 207, 204, 96, 58, 35, 167, 39, 61, 34,
    216, 97, 98, 99, 100, 101, 102, 103, 104, 105, 171, 187, 240, 253, 254, 177,
    176, 106, 107, 108, 109, 110, 111, 112, 113, 114, 170, 186, 230, 184, 198, 164,
    181, 223, 115, 116, 117, 118, 119, 120, 121, 122, 161, 191, 208, 221, 222, 174,
    162, 163, 165, 183, 169, 64, 182, 188, 189, 190, 172, 124, 175, 168, 180, 215,
    228, 65, 66, 67, 68, 69, 70, 71, 72, 73, 173, 244, 166, 242, 243, 245,
    252, 74, 75, 76, 77, 78, 79, 80, 81, 82, 185, 251, 125, 249, 250, 255,
    214, 247, 83, 84, 85, 86, 87, 88, 89, 90, 178, 212, 92, 210, 211, 213,
    48, 49, 50, 51, 52, 53, 54, 55, 56, 57, 179, 219, 93, 217, 218, 159]"

definition cp285 :: "int list" where
  "cp285 = [
    0, 1, 2, 3, 156, 9, 134, 127, 151, 141, 142, 11, 12, 13, 14, 15,
    16, 17, 18, 19, 157, 133, 8, 135, 24, 25, 146, 143, 28, 29, 30, 31,
    128, 129, 130, 131, 132, 10, 23, 27, 136, 137, 138, 139, 140, 5, 6, 7,
    144, 145, 22, 147, 148, 149, 150, 4, 152, 153, 154, 155, 20, 21, 158, 26,
    32, 160, 226, 228, 224, 225, 227, 229, 231, 241, 36, 46, 60, 40, 43, 124,
    38, 233, 234, 235, 232, 237, 238, 239, 236, 223, 33, 163, 42, 41, 59, 172,
    45, 47, 194, 196, 192, 193, 195, 197, 199, 209, 166, 44, 37, 95, 62, 63,
    248, 201, 202, 203, 200, 205, 206, 207, 204, 96, 58, 35, 64, 39, 61, 34,
    216, 97, 98, 99, 100, 101, 102, 103, 104, 105, 171, 187, 240, 253, 254, 177,
    176, 106, 107, 108, 109, 110, 111, 112, 113, 114, 170, 186, 230, 184, 198, 164,
    181, 175, 115, 116, 117, 118, 119, 120, 121, 122, 161, 191, 208, 221, 222, 174,
    162, 91, 165, 183, 169, 167, 182, 188, 189, 190, 94, 93, 126, 168, 180, 215,
    123, 65, 66, 67, 68, 69, 70, 71, 72, 73, 173, 244, 246, 242, 243, 245,
    125, 74, 75, 76, 77, 78, 79, 80, 81, 82, 185, 251, 252, 249, 250, 255,
    92, 247, 83, 84, 85, 86, 87, 88, 89, 90, 178, 212, 214, 210, 211, 213,
    48, 49, 50, 51, 52, 53, 54, 55, 56, 57, 179, 219, 220, 217, 218, 159]"

definition cp297 :: "int list" where
  "cp297 = [
    0, 1, 2, 3, 156, 9, 134, 127, 151, 141, 142, 11, 12, 13, 14, 15,
    16, 17, 18, 19, 157, 133, 8, 135, 24, 25, 146, 143, 28, 29, 30, 31,
    128, 129, 130, 131, 132, 10, 23, 27, 136, 137, 138, 139, 140, 5, 6, 7,
    144, 145, 22, 147, 148, 149, 150, 4, 152, 153, 154, 155, 20, 21, 158, 26,
    32, 160, 226, 228, 64, 225, 227, 229, 92, 241, 176, 46, 60, 40, 43, 33,
    38, 123, 234, 235, 125, 237, 238, 239, 236, 223, 167, 36, 42, 41, 59, 94,
    45, 47, 194, 196, 192, 193, 195, 197, 199, 209, 249, 44, 37, 95, 62, 63,
    248, 201, 202, 203, 200, 205, 206, 207, 204, 181, 58, 163, 224, 39, 61, 34,
    216, 97, 98, 99, 100, 101, 102, 103, 104, 105, 171, 187, 240, 253, 254, 177,
    91, 106, 107, 108, 109, 110, 111, 112, 113, 114, 170, 186, 230, 184, 198, 164,
    96, 168, 115, 116, 117, 118, 119, 120, 121, 122, 161, 191, 208, 221, 222, 174,
    162, 35, 165, 183, 169, 93, 182, 188, 189, 190, 172, 124, 175, 126, 180, 215,
    233, 65, 66, 67, 68, 69, 70, 71, 72, 73, 173, 244, 246, 242, 243, 245,
    232, 74, 75, 76, 77, 78, 79, 80, 81, 82, 185, 251, 252, 166, 250, 255,
    231, 247, 83, 84, 85, 86, 87, 88, 89, 90, 178, 212, 214, 210, 211, 213,
    48, 49, 50, 51, 52, 53, 54, 55, 56, 57, 179, 219, 220, 217, 218, 159]"

definition ebcdicTables :: "bytes \<Rightarrow> int list option" where
  "ebcdicTables = map_of [(str ''CP037'', cp037), (str ''CP500'', cp500), (str ''CP1047'', cp1047),
     (str ''CP273'', cp273), (str ''CP285'', cp285), (str ''CP297'', cp297)]"

subsection \<open>Decoding\<close>

text \<open>Go's conversion of runes to a string: UTF-8 (for scalar values below \<open>0x10000\<close>).\<close>

definition utf8 :: "nat \<Rightarrow> bytes" where
  "utf8 r =
     (if r < 128 then [of_nat r]
      else if r < 2048 then [of_nat (192 + r div 64), of_nat (128 + r mod 64)]
      else [of_nat (224 + r div 4096), of_nat (128 + r div 64 mod 64), of_nat (128 + r mod 64)])"

definition replacementChar :: nat where
  "replacementChar = 65533"

definition decodeByte :: "int list \<Rightarrow> byte \<Rightarrow> nat" where
  "decodeByte tbl b = (let r = tbl ! unat b in if r = 0 then replacementChar else nat r)"

definition decodeEBCDIC :: "bytes \<Rightarrow> bytes \<Rightarrow> bytes" where
  "decodeEBCDIC d page = (case ebcdicTables page of
      None \<Rightarrow> []
    | Some tbl \<Rightarrow> concat (map (\<lambda>b. utf8 (decodeByte tbl b)) d))"

subsection \<open>Detection\<close>

definition isEBCDICPrintable :: "byte \<Rightarrow> bool" where
  "isEBCDICPrintable b =
     (b = 0x40
      \<or> (0x4A \<le> b \<and> b \<le> 0x50) \<or> (0x5A \<le> b \<and> b \<le> 0x61) \<or> (0x6A \<le> b \<and> b \<le> 0x6F) \<or> (0x7A \<le> b \<and> b \<le> 0x7F)
      \<or> (0x81 \<le> b \<and> b \<le> 0x89) \<or> (0x91 \<le> b \<and> b \<le> 0x99) \<or> (0xA2 \<le> b \<and> b \<le> 0xA9)
      \<or> (0xC1 \<le> b \<and> b \<le> 0xC9) \<or> (0xD1 \<le> b \<and> b \<le> 0xD9) \<or> (0xE2 \<le> b \<and> b \<le> 0xE9)
      \<or> (0xF0 \<le> b \<and> b \<le> 0xF9))"

definition countBytes :: "(byte \<Rightarrow> bool) \<Rightarrow> bytes \<Rightarrow> nat" where
  "countBytes P d = length (filter P d)"

definition looksEBCDIC :: "bytes \<Rightarrow> bool" where
  "looksEBCDIC d =
     (if d = [] then False
      else
        let s = take 4096 d;
            n = length s;
            spaces = countBytes (\<lambda>b. b = 0x40) s;
            ebcPrintable = countBytes isEBCDICPrintable s;
            asciiPrintable = countBytes (\<lambda>b. 0x20 \<le> b \<and> b \<le> 0x7e \<and> b \<noteq> 0x40) s
        in spaces * 100 div n \<ge> 8 \<and> ebcPrintable * 100 div n \<ge> 80 \<and> asciiPrintable * 100 div n < 50)"

subsection \<open>Which page for which job\<close>

record queue_default =
  qdCodePage :: bytes
  qdCarriage :: bytes
  qdEBCDIC :: bool

record ebcdic_conf =
  ebEnabled :: bool
  ebDefaultPage :: bytes
  ebAutoDetect :: bool
  ebSidecar :: bool
  ebCarriage :: bytes

text \<open>\<^verbatim>\<open>resolveCarriage\<close>; its result is at most \<open>auto\<close> where nothing was configured.\<close>

definition resolveCarriage :: "bytes \<Rightarrow> job \<Rightarrow> bytes" where
  "resolveCarriage mode j =
     (if (mode = [] \<or> mode = str ''auto'') \<and> carriageHint j \<noteq> [] then carriageHint j
      else if mode = [] then str ''auto''
      else mode)"

text \<open>\<^verbatim>\<open>cfg.LPD.QueueDefaults\<close> is a Go map, walked in an unspecified order: the list is the order of
  this walk. \<open>glob\<close> is \<^verbatim>\<open>filepath.Match\<close>.\<close>

fun queueDefault :: "(bytes \<Rightarrow> bytes \<Rightarrow> bool) \<Rightarrow> ebcdic_conf \<Rightarrow> job \<Rightarrow> (bytes \<times> queue_default) list
    \<Rightarrow> (bytes \<times> bytes) option" where
  "queueDefault glob c j [] = None"
| "queueDefault glob c j ((pattern, qd) # rest) =
     (if glob pattern (jobQueue j) \<and> (qdEBCDIC qd \<or> qdCodePage qd \<noteq> []) then
        Some (orElse (qdCodePage qd) (ebDefaultPage c), resolveCarriage (orElse (qdCarriage qd) (ebCarriage c)) j)
      else queueDefault glob c j rest)"

definition resolveEBCDIC :: "(bytes \<Rightarrow> bytes \<Rightarrow> bool) \<Rightarrow> ebcdic_conf \<Rightarrow> (bytes \<times> queue_default) list \<Rightarrow> job \<Rightarrow> bytes
    \<Rightarrow> (bytes \<times> bytes) option" where
  "resolveEBCDIC glob c defaults j raw =
     (if \<not> ebEnabled c then None
      else case queueDefault glob c j defaults of
        Some r \<Rightarrow> Some r
      | None \<Rightarrow>
          if ebAutoDetect c \<and> looksEBCDIC raw then Some (ebDefaultPage c, resolveCarriage (ebCarriage c) j)
          else None)"

section \<open>Correctness\<close>

subsection \<open>UTF-8 is uniquely decodable\<close>

lemma unat_byte: "n < 256 \<Longrightarrow> unat (of_nat n :: byte) = n"
  by (simp add: unat_of_nat take_bit_nat_eq_self)

definition utf8Head :: "bytes \<Rightarrow> nat \<times> bytes" where
  "utf8Head s =
     (let a = unat (s ! 0) in
      if a < 128 then (a, drop 1 s)
      else if a < 224 then ((a - 192) * 64 + (unat (s ! 1) - 128), drop 2 s)
      else ((a - 224) * 4096 + (unat (s ! 1) - 128) * 64 + (unat (s ! 2) - 128), drop 3 s))"

lemma utf8Head_utf8: "r < 65536 \<Longrightarrow> utf8Head (utf8 r @ s) = (r, s)"
proof -
  assume r: "r < 65536"
  consider "r < 128" | "128 \<le> r" "r < 2048" | "2048 \<le> r" by linarith
  then show ?thesis
  proof cases
    case 1
    then show ?thesis by (simp add: utf8_def utf8Head_def unat_byte)
  next
    case 2
    have d: "192 + r div 64 < 224" "128 + r mod 64 < 256" using 2 by auto
    have u: "unat (of_nat (192 + r div 64) :: byte) = 192 + r div 64" "unat (of_nat (128 + r mod 64) :: byte) = 128 + r mod 64"
      using d by (intro unat_byte; linarith)+
    have e: "utf8 r = [of_nat (192 + r div 64), of_nat (128 + r mod 64)]" using 2 by (simp add: utf8_def del: of_nat_add)
    have "r div 64 * 64 + r mod 64 = r" by (rule div_mult_mod_eq)
    with d show ?thesis unfolding e utf8Head_def Let_def nth_Cons_0 append_Cons append_Nil One_nat_def nth_Cons_Suc u
      by (simp del: of_nat_add)
  next
    case 3
    have d: "\<not> 224 + r div 4096 < 224" "224 + r div 4096 < 256" "128 + r div 64 mod 64 < 256" "128 + r mod 64 < 256"
      using r by auto
    have u: "unat (of_nat (224 + r div 4096) :: byte) = 224 + r div 4096"
      "unat (of_nat (128 + r div 64 mod 64) :: byte) = 128 + r div 64 mod 64"
      "unat (of_nat (128 + r mod 64) :: byte) = 128 + r mod 64"
      using d by (intro unat_byte; linarith)+
    have e: "utf8 r = [of_nat (224 + r div 4096), of_nat (128 + r div 64 mod 64), of_nat (128 + r mod 64)]"
      using 3 by (simp add: utf8_def del: of_nat_add)
    have n: "(a # b # c # t) ! 2 = c" for a b c :: byte and t by simp
    have "r div 4096 = r div 64 div 64" by (simp add: div_mult2_eq)
    then have "r div 4096 * 4096 + r div 64 mod 64 * 64 + r mod 64 = r"
      using div_mult_mod_eq [of r 64] div_mult_mod_eq [of "r div 64" 64] by linarith
    then show ?thesis unfolding e utf8Head_def Let_def nth_Cons_0 append_Cons append_Nil One_nat_def nth_Cons_Suc n u
      by (simp del: of_nat_add)
  qed
qed

lemma utf8_nonempty [simp]: "utf8 r \<noteq> []"
  by (simp add: utf8_def)

lemma utf8_concat_inj:
  assumes "\<And>b. f b < 65536" "concat (map (\<lambda>b. utf8 (f b)) xs) = concat (map (\<lambda>b. utf8 (f b)) ys)"
  shows "map f xs = map f ys"
  using assms(2)
proof (induction xs arbitrary: ys)
  case Nil
  then show ?case by (cases ys) auto
next
  case (Cons x xs)
  then obtain y ys' where ys: "ys = y # ys'" by (cases ys) auto
  with Cons.prems have "utf8Head (utf8 (f x) @ concat (map (\<lambda>b. utf8 (f b)) xs))
      = utf8Head (utf8 (f y) @ concat (map (\<lambda>b. utf8 (f b)) ys'))" by simp
  then show ?case using Cons.IH [of ys'] assms(1) ys by (simp add: utf8Head_utf8)
qed

subsection \<open>Every code page is a permutation of Latin-1\<close>

definition latin1 :: "int list" where
  "latin1 = [0..255]"

definition isPermutation :: "int list \<Rightarrow> bool" where
  "isPermutation t = (sort t = latin1)"

lemma tables_permutation:
  "isPermutation cp037" "isPermutation cp500" "isPermutation cp1047"
  "isPermutation cp273" "isPermutation cp285" "isPermutation cp297"
  by code_simp+

lemma ebcdicTables_permutation: "ebcdicTables page = Some tbl \<Longrightarrow> isPermutation tbl"
  by (auto simp: ebcdicTables_def tables_permutation split: if_splits)

lemma latin1_facts: "length latin1 = 256" "distinct latin1" "set latin1 = {0..255}"
  unfolding latin1_def by (simp_all only: length_upto distinct_upto set_upto)

lemma unat_byte_less: "unat (b :: byte) < 256"
  using unsigned_less [of b] by simp

lemma permutation_facts:
  assumes "isPermutation t"
  shows "length t = 256" "distinct t" "set t = {0..255}"
proof -
  have s: "sort t = latin1" using assms by (simp add: isPermutation_def)
  show "length t = 256" by (metis length_sort latin1_facts(1) s)
  show "distinct t" by (metis distinct_sort latin1_facts(2) s)
  show "set t = {0..255}" by (metis set_sort latin1_facts(3) s)
qed

lemma decodeByte_inj:
  assumes "isPermutation t" "decodeByte t a = decodeByte t b"
  shows "a = b"
proof -
  note f = permutation_facts [OF assms(1)]
  have lt: "unat x < length t" for x :: byte using unat_byte_less [of x] f(1) by simp
  have range: "0 \<le> t ! unat x" "t ! unat x \<le> 255" for x :: byte using nth_mem [OF lt [of x]] f(3) by auto
  have "t ! unat a = t ! unat b"
    using assms(2) range [of a] range [of b]
    by (auto simp: decodeByte_def replacementChar_def Let_def split: if_splits)
  then have "unat a = unat b" using nth_eq_iff_index_eq [OF f(2) lt lt] by blast
  then show ?thesis by (rule unsigned_word_eqI)
qed

lemma decodeByte_bound:
  assumes "isPermutation t"
  shows "decodeByte t b < 65536"
proof -
  note f = permutation_facts [OF assms]
  have "unat b < length t" using unat_byte_less [of b] f(1) by simp
  then have "t ! unat b \<le> 255" using f(3) nth_mem by fastforce
  then show ?thesis by (auto simp: decodeByte_def replacementChar_def Let_def)
qed

text \<open>C32: Decoding loses nothing. For each of the six code pages, two different documents never
  decode to the same text, the replacement of NUL by a printable character included; an unknown
  page decodes to nothing.\<close>

theorem ebcdic_decoding_injective:
  "decodeEBCDIC d page = decodeEBCDIC d' page \<Longrightarrow> d = d' \<or> ebcdicTables page = None"
proof (cases "ebcdicTables page")
  case (Some t)
  assume "decodeEBCDIC d page = decodeEBCDIC d' page"
  then have "concat (map (\<lambda>b. utf8 (decodeByte t b)) d) = concat (map (\<lambda>b. utf8 (decodeByte t b)) d')"
    by (simp add: decodeEBCDIC_def Some)
  then have "map (decodeByte t) d = map (decodeByte t) d'"
    using decodeByte_bound [OF ebcdicTables_permutation [OF Some]] by (rule utf8_concat_inj [rotated])
  then have "d = d'"
    by (rule map_injective) (rule injI, rule decodeByte_inj [OF ebcdicTables_permutation [OF Some]])
  then show ?thesis by simp
qed simp

theorem ebcdic_decoding_injective_witness:
  "[] \<noteq> ([0x40] :: bytes) \<and> decodeEBCDIC [] (str ''CP037'') \<noteq> decodeEBCDIC [0x40] (str ''CP037'')"
proof -
  have "ebcdicTables (str ''CP037'') \<noteq> None" by (simp add: ebcdicTables_def del: not_None_eq)
  then show ?thesis using ebcdic_decoding_injective [of "[]" "str ''CP037''" "[0x40]"] by auto
qed

text \<open>The mainframe's record delimiters: only LF (\<open>0x25\<close>) becomes a newline. NEL (\<open>0x15\<close>), the usual
  one, decodes to U+0085, which neither the carriage control nor a text viewer takes for a line end.\<close>

lemma delimiter_entries:
  "list_all (\<lambda>t. t ! 37 = 10 \<and> t ! 21 = 133) [cp037, cp500, cp1047, cp273, cp285, cp297]"
  by code_simp

lemma record_delimiters:
  assumes "ebcdicTables page = Some t"
  shows "decodeEBCDIC [0x25] page = [0x0a]" "decodeEBCDIC [0x15] page = [0xc2, 0x85]"
proof -
  have "t ! 37 = 10 \<and> t ! 21 = 133"
    using assms delimiter_entries by (auto simp: ebcdicTables_def split: if_splits)
  then show "decodeEBCDIC [0x25] page = [0x0a]" "decodeEBCDIC [0x15] page = [0xc2, 0x85]"
    by (simp_all add: decodeEBCDIC_def assms decodeByte_def utf8_def)
qed

text \<open>The code page of a job whose queue matches two patterns is not determined by the configuration:
  it depends on the order in which the Go map is walked.\<close>

lemma queue_default_depends_on_order:
  assumes "p \<noteq> q" "p \<noteq> []" "q \<noteq> []"
    and "d = \<lparr>qdCodePage = p, qdCarriage = [], qdEBCDIC = True\<rparr>" "d' = \<lparr>qdCodePage = q, qdCarriage = [], qdEBCDIC = True\<rparr>"
    and "ebEnabled c" "glob a (jobQueue j)" "glob b (jobQueue j)"
  shows "resolveEBCDIC glob c [(a, d), (b, d')] j raw \<noteq> resolveEBCDIC glob c [(b, d'), (a, d)] j raw"
  using assms by (simp add: resolveEBCDIC_def orElse_def)

end
