(* ===== verification/Carriage.thy ===== *)
theory Carriage
  imports Ebcdic
begin

text \<open>
  Mainframe carriage control (\<^verbatim>\<open>carriage.go\<close>): ASA control characters on decoded text, machine
  control bytes on the raw stream, and the detection of ASA text.
\<close>

definition newline :: byte where
  "newline = 0x0a"

definition asaPrefix :: "byte \<Rightarrow> bytes" where
  "asaPrefix ctrl =
     (if ctrl = 0x30 then [0x0a]
      else if ctrl = 0x2d then [0x0a, 0x0a]
      else if ctrl = 0x31 then [0x0c]
      else if ctrl = 0x2b then [0x0d]
      else [])"

fun convertLine :: "bytes \<Rightarrow> bytes" where
  "convertLine [] = []"
| "convertLine (ctrl # rest) = asaPrefix ctrl @ rest @ [newline]"

definition convertASA :: "bytes \<Rightarrow> bytes" where
  "convertASA text = concat (map convertLine (split1 newline text))"

definition isASA :: "byte \<Rightarrow> bool" where
  "isASA c = (c = 0x20 \<or> c = 0x30 \<or> c = 0x2d \<or> c = 0x31 \<or> c = 0x2b)"

definition detectCarriage :: "bytes \<Rightarrow> bytes" where
  "detectCarriage text =
     (let lines = filter (\<lambda>l. l \<noteq> []) (split1 newline text);
          total = length lines;
          asa = length (filter (\<lambda>l. isASA (hd l)) lines)
      in if total > 0 \<and> asa = total then str ''asa'' else str ''none'')"

definition applyCarriageControl :: "bytes \<Rightarrow> bytes \<Rightarrow> bytes" where
  "applyCarriageControl text mode =
     (if mode = str ''asa'' then convertASA text
      else if mode = str ''auto'' then
        (if detectCarriage text = str ''asa'' then convertASA text else text)
      else text)"

text \<open>The loop of \<^verbatim>\<open>convertMachineRaw\<close>: the output so far and the record being collected.\<close>

definition isDelim :: "byte \<Rightarrow> bool" where
  "isDelim b = (b = 0x15 \<or> b = 0x25)"

definition flushRecord :: "bytes \<Rightarrow> bytes \<Rightarrow> byte option \<Rightarrow> bytes" where
  "flushRecord out rec delim =
     (if rec = [] \<and> delim = None then out
      else
        let ctrl = (case rec of [] \<Rightarrow> 0 | c # _ \<Rightarrow> c);
            body = tl rec;
            out1 = (if ctrl = 0x8B \<or> ctrl = 0x89 then out @ [0x0c] else out)
        in out1 @ body @ (case delim of None \<Rightarrow> [] | Some d \<Rightarrow> [d]))"

fun machineLoop :: "bytes \<Rightarrow> bytes \<Rightarrow> bytes \<Rightarrow> bytes" where
  "machineLoop out rec [] = flushRecord out rec None"
| "machineLoop out rec (b # raw) =
     (if isDelim b then machineLoop (flushRecord out rec (Some b)) [] raw
      else machineLoop out (rec @ [b]) raw)"

definition convertMachineRaw :: "bytes \<Rightarrow> bytes" where
  "convertMachineRaw raw = machineLoop [] [] raw"

section \<open>Correctness\<close>

lemma convertASA_join:
  "lines \<noteq> [] \<Longrightarrow> list_all (\<lambda>l. newline \<notin> set l) lines \<Longrightarrow>
     convertASA (join1 newline lines) = concat (map convertLine lines)"
  by (simp add: convertASA_def split1_join1 list_all_iff)

lemma length_filter_all: "length (filter P xs) = length xs \<longleftrightarrow> list_all P xs"
  by (metis filter_id_conv list_all_iff length_filter_less nat_neq_iff)

lemma detect_iff:
  "detectCarriage text = str ''asa'' \<longleftrightarrow>
     list_ex (\<lambda>l. l \<noteq> []) (split1 newline text) \<and> list_all (\<lambda>l. l = [] \<or> isASA (hd l)) (split1 newline text)"
proof -
  have ne: "str ''none'' \<noteq> str ''asa''" by (simp add: str_def)
  have "list_all isASA' (filter (\<lambda>l. l \<noteq> []) ls) \<longleftrightarrow> list_all (\<lambda>l. l = [] \<or> isASA' l) ls"
    "0 < length (filter Q ls) \<longleftrightarrow> list_ex Q ls" for isASA' Q and ls :: "bytes list"
    by (induction ls) auto
  then show ?thesis by (simp add: detectCarriage_def Let_def length_filter_all ne)
qed



definition machineRecord :: "bytes \<Rightarrow> byte \<Rightarrow> bytes" where
  "machineRecord r d = (if r \<noteq> [] \<and> (hd r = 0x8B \<or> hd r = 0x89) then [0x0c] else []) @ tl r @ [d]"

lemma machineLoop_record:
  "list_all (\<lambda>b. \<not> isDelim b) r \<Longrightarrow> isDelim d \<Longrightarrow>
     machineLoop out rec (r @ d # raw) = machineLoop (flushRecord out (rec @ r) (Some d)) [] raw"
  by (induction r arbitrary: rec) auto

lemma flushRecord_out: "flushRecord out r (Some d) = out @ machineRecord r d"
  by (cases r) (auto simp: flushRecord_def machineRecord_def)

lemma machineLoop_records:
  "list_all (\<lambda>(r, d). list_all (\<lambda>b. \<not> isDelim b) r \<and> isDelim d) recs \<Longrightarrow>
     machineLoop out [] (concat (map (\<lambda>(r, d). r @ [d]) recs)) = out @ concat (map (\<lambda>(r, d). machineRecord r d) recs)"
proof (induction recs arbitrary: out)
  case Nil
  then show ?case by (simp add: flushRecord_def)
next
  case (Cons x recs)
  then show ?case by (cases x) (simp add: machineLoop_record flushRecord_out)
qed

text \<open>Machine carriage control works record by record. A raw stream of delimited records loses
  exactly the control byte of each, gains a form feed where that byte skips to a channel, and keeps
  every delimiter, so no record is merged with another.\<close>

theorem machine_record_by_record:
  "list_all (\<lambda>(r, d). list_all (\<lambda>b. \<not> isDelim b) r \<and> isDelim d) recs \<Longrightarrow>
     convertMachineRaw (concat (map (\<lambda>(r, d). r @ [d]) recs)) = concat (map (\<lambda>(r, d). machineRecord r d) recs)"
  by (simp add: convertMachineRaw_def machineLoop_records)

theorem machine_record_by_record_witness:
  "convertMachineRaw [0x8B, 0xC1, 0x15, 0x09, 0xC2, 0x25] = [0x0c, 0xC1, 0x15, 0xC2, 0x25]"
  using machine_record_by_record [of "[([0x8B, 0xC1], 0x15), ([0x09, 0xC2], 0x25)]"]
  by (simp add: isDelim_def machineRecord_def)

text \<open>Machine records delimited by NEL, the usual delimiter, do not become lines: the delimiter the
  conversion keeps decodes to U+0085, so an ASA or newline reader sees one line.\<close>

lemma nel_records_stay_one_line:
  "decodeEBCDIC (convertMachineRaw [0x09, 0xC1, 0x15, 0x09, 0xC2, 0x15]) (str ''CP037'')
     = [0x41, 0xc2, 0x85, 0x42, 0xc2, 0x85]"
proof -
  have "cp037 ! 193 = 65 \<and> cp037 ! 194 = 66 \<and> cp037 ! 21 = 133" by code_simp
  then show ?thesis
    by (simp add: convertMachineRaw_def isDelim_def flushRecord_def decodeEBCDIC_def ebcdicTables_def decodeByte_def utf8_def)
qed

end
