(* ===== verification/Carve.thy ===== *)
theory Carve
  imports Reassembly Ipp Pdl
begin

text \<open>
  The carver (\<^verbatim>\<open>carve.go\<close>): from captured frames to jobs. Frames are dissected, reassembled into
  streams, and each completed stream becomes a job; on port 631 the HTTP and IPP envelopes are
  peeled off first, chunked transfer encoding included. The text of an address
  (\<^verbatim>\<open>netip.Addr.String\<close>) and the PJL metadata are arguments.
\<close>

subsection \<open>Chunked bodies\<close>

definition crlf :: bytes where
  "crlf = [0x0d, 0x0a]"

definition hexDigit :: "byte \<Rightarrow> int option" where
  "hexDigit c =
     (if 0x30 \<le> c \<and> c \<le> 0x39 then Some (uint c - 0x30)
      else if 0x61 \<le> c \<and> c \<le> 0x66 then Some (uint c - 0x61 + 10)
      else if 0x41 \<le> c \<and> c \<le> 0x46 then Some (uint c - 0x41 + 10)
      else None)"

primrec hexValue :: "int \<Rightarrow> bytes \<Rightarrow> int option" where
  "hexValue n [] = Some n"
| "hexValue n (c # cs) = (case hexDigit c of None \<Rightarrow> None | Some d \<Rightarrow> hexValue (n * 16 + d) cs)"

text \<open>\<^verbatim>\<open>strconv.ParseInt(s, 16, 64)\<close>; \<open>None\<close> is a syntax or range error.\<close>

definition parseHex64 :: "bytes \<Rightarrow> int option" where
  "parseHex64 s =
     (let neg = (s \<noteq> [] \<and> hd s = 0x2d);
          ds = (if s \<noteq> [] \<and> (hd s = 0x2d \<or> hd s = 0x2b) then tl s else s)
      in if ds = [] then None
         else case hexValue 0 ds of
           None \<Rightarrow> None
         | Some n \<Rightarrow>
             if neg then (if n > 2 ^ 63 then None else Some (- n))
             else (if n \<ge> 2 ^ 63 then None else Some n))"

function dechunk :: "bytes \<Rightarrow> bytes" where
  "dechunk b =
     (if b = [] then []
      else case bytesIndex b crlf of
        None \<Rightarrow> []
      | Some nl \<Rightarrow>
          (case parseHex64 (trimSpace (takeWhile (\<lambda>c. c \<noteq> 0x3b) (take nl b))) of
             None \<Rightarrow> []
           | Some sz \<Rightarrow>
               let b1 = drop (nl + 2) b in
               if sz < 0 \<or> sz = 0 then []
               else if int (length b1) < sz then b1
               else
                 let b2 = drop (nat sz) b1;
                     b3 = (if is_prefix crlf b2 then drop 2 b2 else b2)
                 in take (nat sz) b1 @ dechunk b3))"
  by pat_completeness auto
termination
  by (relation "measure length") auto

declare dechunk.simps [simp del]

text \<open>\<^verbatim>\<open>bytes.Cut(line, ":")\<close> and the header test.\<close>

definition headerIsChunked :: "bytes \<Rightarrow> bool" where
  "headerIsChunked line =
     (case bytesIndex line [0x3a] of
        None \<Rightarrow> False
      | Some i \<Rightarrow>
          equalFold (trimSpace (take i line)) (str ''transfer-encoding'')
            \<and> bytesContains (toLower (drop (i + 1) line)) (str ''chunked''))"

definition isChunked :: "bytes \<Rightarrow> bool" where
  "isChunked headers = list_ex headerIsChunked (splitOn crlf headers)"

definition headerEnd :: bytes where
  "headerEnd = crlf @ crlf"

text \<open>\<open>None\<close> is a panic, \<open>Some None\<close> is \<^verbatim>\<open>ok = false\<close>.\<close>

definition unwrapIPP :: "bytes \<Rightarrow> (bytes \<times> bytes) option option" where
  "unwrapIPP stream =
     (case bytesIndex stream headerEnd of
        None \<Rightarrow> Some None
      | Some hdrEnd \<Rightarrow> do {
          headers \<leftarrow> gslice stream 0 hdrEnd;
          body0 \<leftarrow> slice_from stream (hdrEnd + length headerEnd);
          if \<not> is_prefix (str ''POST '') headers \<and> \<not> bytesContains headers (str ''application/ipp'') then Some None
          else do {
            let body = (if isChunked headers then dechunk body0 else body0);
            if length body < 8 then Some None
            else do {
              b \<leftarrow> slice_from body 8;
              r \<leftarrow> parseIPP b;
              (if snd r = [] then Some None else Some (Some (snd r, attr (fst r) (str ''document-format''))))
            }
          }
        })"

subsection \<open>From a stream to a job\<close>

record carve_conf =
  carvePorts :: "int list"
  carveAllPorts :: bool
  carveMaxStreamMB :: int
  carveIdleFlushSec :: int

record carver =
  cv_re :: reassembler
  cv_link :: int

definition newCarver :: "carve_conf \<Rightarrow> int \<Rightarrow> carver" where
  "newCarver c link =
     \<lparr>cv_re = newStreamReassembler
        (map of_int (filter (\<lambda>p. p > 0 \<and> p \<le> 65535) (carvePorts c))) (carveAllPorts c)
        (if carveMaxStreamMB c > 0 then nat (carveMaxStreamMB c * 1024 * 1024) else 0)
        (carveIdleFlushSec c * 1000000000),
      cv_link = link\<rparr>"

definition carvedJob :: "(bytes \<Rightarrow> bytes) \<Rightarrow> (bytes \<Rightarrow> bytes \<times> bytes) \<Rightarrow> flow_state \<Rightarrow> bytes \<Rightarrow> bytes \<Rightarrow> job" where
  "carvedJob addrText pjlInfo fs d docFmt =
     (let port = unat (snd (fs_dst fs));
          j = (newJob (str ''intercept/'' @ itoa port)
                (addrText (fst (fs_src fs)) @ [0x3a] @ itoa (unat (snd (fs_src fs)))))
              \<lparr>jobHost := addrText (fst (fs_dst fs)), jobData := d, jobBytes := length d, jobDocFormat := docFmt\<rparr>;
          (name, user) = pjlInfo d
      in if name \<noteq> [] \<or> user \<noteq> [] then j\<lparr>jobName := name, jobUser := user\<rparr> else j)"

definition onStream :: "(bytes \<Rightarrow> bytes) \<Rightarrow> (bytes \<Rightarrow> bytes \<times> bytes) \<Rightarrow> flow_state \<Rightarrow> job option option" where
  "onStream addrText pjlInfo fs =
     (if buf fs = [] then Some None
      else do {
        (d, docFmt) \<leftarrow>
          (if snd (fs_dst fs) = 631 then
             (case unwrapIPP (buf fs) of
                None \<Rightarrow> None
              | Some None \<Rightarrow> Some (buf fs, [])
              | Some (Some (doc, fmt)) \<Rightarrow> Some (doc, fmt))
           else Some (buf fs, []));
        (if d = [] then Some None else Some (Some (carvedJob addrText pjlInfo fs d docFmt)))
      })"

definition carverConsume :: "carver \<Rightarrow> bytes \<Rightarrow> int \<Rightarrow> (carver \<times> flow_state list) option" where
  "carverConsume cv frame ts =
     (case parseTCPSegment (cv_link cv) frame of
        None \<Rightarrow> None
      | Some None \<Rightarrow> Some (cv, [])
      | Some (Some seg) \<Rightarrow>
          (case consume (cv_re cv) seg ts of (re, out) \<Rightarrow> Some (cv\<lparr>cv_re := re\<rparr>, out)))"

fun carveFrames :: "carver \<Rightarrow> (bytes \<times> int) list \<Rightarrow> (carver \<times> flow_state list) option" where
  "carveFrames cv [] = Some (cv, [])"
| "carveFrames cv ((frame, ts) # rest) =
     (case carverConsume cv frame ts of
        None \<Rightarrow> None
      | Some (cv1, out1) \<Rightarrow>
          (case carveFrames cv1 rest of None \<Rightarrow> None | Some (cv2, out2) \<Rightarrow> Some (cv2, out1 @ out2)))"

definition carverFlush :: "carver \<Rightarrow> carver \<times> flow_state list" where
  "carverFlush cv = (case flushAll (cv_re cv) of (re, out) \<Rightarrow> (cv\<lparr>cv_re := re\<rparr>, out))"

section \<open>Correctness\<close>

subsection \<open>Panic freedom\<close>

lemma unwrapIPP_returns [no_panic]: "unwrapIPP stream \<noteq> None"
proof (cases "bytesIndex stream headerEnd")
  case None
  then show ?thesis by (simp add: unwrapIPP_def)
next
  case (Some i)
  then have "i + length headerEnd \<le> length stream" by (rule bytesIndex_le)
  then show ?thesis unfolding unwrapIPP_def Some Let_def option.case by (intro no_panic) auto
qed

lemma onStream_returns: "onStream addrText pjlInfo fs \<noteq> None"
  using unwrapIPP_returns [of "buf fs"]
  by (auto simp: onStream_def split: option.splits prod.splits)

lemma carverConsume_returns: "carverConsume cv frame ts \<noteq> None"
  using parseTCPSegment_returns [of "cv_link cv" frame]
  by (auto simp: carverConsume_def split: option.splits prod.splits)

lemma carveFrames_returns: "carveFrames cv frames \<noteq> None"
proof (induction frames arbitrary: cv)
  case (Cons x frames)
  obtain frame ts where x: "x = (frame, ts)" by (cases x)
  obtain cv1 out1 where "carverConsume cv frame ts = Some (cv1, out1)"
    using carverConsume_returns [of cv frame ts] by auto
  with Cons [of cv1] show ?case by (auto simp: x)
qed simp

subsection \<open>Peeling off the envelopes\<close>

text \<open>A chunk of a chunked body: the text of its size line and its bytes.\<close>

definition wf_chunk :: "bytes \<times> bytes \<Rightarrow> bool" where
  "wf_chunk = (\<lambda>(field, p). 0x0d \<notin> set field \<and> p \<noteq> []
     \<and> parseHex64 (trimSpace (takeWhile (\<lambda>c. c \<noteq> 0x3b) field)) = Some (int (length p)))"

definition chunkWire :: "bytes \<times> bytes \<Rightarrow> bytes" where
  "chunkWire = (\<lambda>(field, p). field @ crlf @ p @ crlf)"

definition chunkedBody :: "(bytes \<times> bytes) list \<Rightarrow> bytes" where
  "chunkedBody cs = concat (map chunkWire cs) @ str ''0'' @ crlf @ crlf"

lemma bytesIndex_crlf:
  assumes "0x0d \<notin> set f"
  shows "bytesIndex (f @ crlf @ b) crlf = Some (length f)"
proof (rule bytesIndex_first, intro allI impI)
  fix k assume k: "k < length f"
  then have "f ! k \<noteq> 0x0d" using assms by (metis nth_mem)
  moreover have "drop k (f @ crlf @ b) = f ! k # drop (Suc k) (f @ crlf @ b)"
    using k by (subst Cons_nth_drop_Suc [symmetric]) (simp_all add: nth_append)
  ultimately show "\<not> is_prefix crlf (drop k (f @ crlf @ b))" by (simp add: crlf_def)
qed

lemma dechunk_chunk:
  assumes "wf_chunk c"
  shows "dechunk (chunkWire c @ b) = snd c @ dechunk b"
proof -
  obtain f p where c: "c = (f, p)" by (cases c)
  have w: "0x0d \<notin> set f" "p \<noteq> []" "parseHex64 (trimSpace (takeWhile (\<lambda>c. c \<noteq> 0x3b) f)) = Some (int (length p))"
    using assms by (simp_all add: wf_chunk_def c)
  have wire: "chunkWire c @ b = f @ crlf @ (p @ crlf @ b)" by (simp add: chunkWire_def c)
  have d: "drop (length f + 2) (f @ crlf @ (p @ crlf @ b)) = p @ crlf @ b" "drop 2 (crlf @ b) = b"
    by (simp_all add: crlf_def)
  have ne: "f @ crlf @ (p @ crlf @ b) \<noteq> []" using w(2) by simp
  show ?thesis
    unfolding wire dechunk.simps [of "f @ crlf @ p @ crlf @ b"] bytesIndex_crlf [OF w(1)] option.case
    unfolding d Let_def using w ne by (simp add: c crlf_def)
qed

lemma dechunk_chunkedBody: "list_all wf_chunk cs \<Longrightarrow> dechunk (chunkedBody cs) = concat (map snd cs)"
proof (induction cs)
  case Nil
  have i: "bytesIndex (str ''0'' @ crlf @ crlf) crlf = Some 1" by code_simp
  have z: "parseHex64 (trimSpace (takeWhile (\<lambda>c. c \<noteq> 0x3b) (take 1 (str ''0'' @ crlf @ crlf)))) = Some 0"
    by code_simp
  have "str ''0'' @ crlf @ crlf \<noteq> []" by (simp add: crlf_def)
  then have "dechunk (str ''0'' @ crlf @ crlf) = []"
    unfolding dechunk.simps [of "str ''0'' @ crlf @ crlf"] i option.case z Let_def by simp
  then show ?case by (simp add: chunkedBody_def)
next
  case (Cons c cs)
  then show ?case using dechunk_chunk [of c "chunkedBody cs"] by (simp add: chunkedBody_def)
qed

lemma bytesIndex_extend:
  assumes "bytesIndex (h @ sep) sep = Some (length h)"
  shows "bytesIndex (h @ sep @ b) sep = Some (length h)"
proof (rule bytesIndex_first, intro allI impI notI)
  fix k assume k: "k < length h" "is_prefix sep (drop k (h @ sep @ b))"
  have d: "drop k (h @ sep @ b) = drop k (h @ sep) @ b" "length sep \<le> length (drop k (h @ sep))"
    using k(1) by simp_all
  have "is_prefix sep (drop k (h @ sep))" by (rule is_prefix_shorter [OF k(2) [unfolded d(1)] d(2)])
  with bytesIndex_Some [OF assms] k(1) show False by blast
qed

text \<open>C14: An IPP job seen on the wire is peeled out of its envelopes. If the stream is an HTTP POST
  whose body, sent plainly or chunked in any way, is a Print-Job request as the forwarder builds
  it, the carver finds exactly the document and its format.\<close>

theorem wire_ipp_document_found:
  assumes "bytesIndex (headers @ headerEnd) headerEnd = Some (length headers)" "is_prefix (str ''POST '') headers"
    and "fits16 address" "fits16 fmt" "fits16 (jobUser j)" "fits16 (jobName j)" "fits16 (jobDocFormat j)" "doc \<noteq> []"
    and "list_all wf_chunk cs" "concat (map snd cs) = ippRequest address fmt j doc"
  shows "unwrapIPP (headers @ headerEnd
        @ (if isChunked headers then chunkedBody cs else ippRequest address fmt j doc))
    = Some (Some (doc, if fmt = [] then orElse (jobDocFormat j) (str ''application/octet-stream'') else fmt))"
proof -
  let ?req = "ippRequest address fmt j doc"
  let ?body = "if isChunked headers then chunkedBody cs else ?req"
  have b: "(if isChunked headers then dechunk ?body else ?body) = ?req"
    using dechunk_chunkedBody [OF assms(9)] assms(10) by simp
  have len: "\<not> length ?req < 8" unfolding ippRequest_split by simp
  have p: "parseIPP ([tagOperationAttrs] @ writeAttrs (requestAttrs address fmt j) @ [tagEndOfAttrs] @ doc)
      = Some (collectAttrs [] (requestAttrs address fmt j), doc)"
    by (rule parseIPP_message [OF requestAttrs_wf [OF assms(3-7)]])
  have i: "bytesIndex (headers @ headerEnd @ ?body) headerEnd = Some (length headers)"
    by (rule bytesIndex_extend [OF assms(1)])
  have s: "gslice (headers @ headerEnd @ ?body) 0 (length headers) = Some headers"
    "slice_from (headers @ headerEnd @ ?body) (length headers + length headerEnd) = Some ?body"
    by (simp_all add: gslice_def slice_from_def)
  show ?thesis
    unfolding unwrapIPP_def i option.case s bind.bind_lunit Let_def b ippRequest_header(3)
    using assms(2,8) len by (simp add: p [simplified] requestAttrs_read)
qed

definition demoPrint :: bytes where
  "demoPrint = ippRequest [] [] (newJob (str ''IPP'') []) (str ''Hi'')"

theorem wire_ipp_document_found_witness:
  "unwrapIPP (str ''POST /ipp HTTP/1.1'' @ headerEnd @ demoPrint)
    = Some (Some (str ''Hi'', str ''application/octet-stream''))"
proof -
  let ?h = "str ''POST /ipp HTTP/1.1''" and ?j = "newJob (str ''IPP'') []"
  have nc: "\<not> isChunked ?h" by code_simp
  have l: "length demoPrint = 186"
    by (simp add: demoPrint_def ippRequest_def writeStr_def writeAttr_def newJob_def blankJob_def orElse_def)
  have f: "0x0d \<notin> set (str ''ba'')" by (simp add: str_def)
  have z: "parseHex64 (trimSpace (takeWhile (\<lambda>c. c \<noteq> 0x3b) (str ''ba''))) = Some 186" by code_simp
  have "demoPrint \<noteq> []" using l by auto
  with l z f have c: "wf_chunk (str ''ba'', demoPrint)" by (simp add: wf_chunk_def)
  have i: "bytesIndex (?h @ headerEnd) headerEnd = Some (length ?h)" by code_simp
  have e: "fits16 []" "fits16 (jobUser ?j)" "fits16 (jobName ?j)" "fits16 (jobDocFormat ?j)" "str ''Hi'' \<noteq> []"
      "orElse (jobDocFormat ?j) (str ''application/octet-stream'') = str ''application/octet-stream''"
      "is_prefix (str ''POST '') ?h"
    by (simp_all add: newJob_def blankJob_def fits16_def orElse_def str_def)
  show ?thesis
    using wire_ipp_document_found [of ?h "[]" "[]" ?j "str ''Hi''" "[(str ''ba'', demoPrint)]", OF i] nc c e
    by (simp add: demoPrint_def)
qed

subsection \<open>Frames to jobs\<close>

definition segsOf :: "int \<Rightarrow> (bytes \<times> int) list \<Rightarrow> (l4_segment \<times> int) list" where
  "segsOf link frames = concat (map (\<lambda>(frame, ts).
     case parseTCPSegment link frame of Some (Some seg) \<Rightarrow> [(seg, ts)] | _ \<Rightarrow> []) frames)"

lemma carveFrames_consumeAll:
  "carveFrames cv frames = (case consumeAll (cv_re cv) (segsOf (cv_link cv) frames) of
     (re, out) \<Rightarrow> Some (cv\<lparr>cv_re := re\<rparr>, out))"
proof (induction frames arbitrary: cv)
  case Nil
  then show ?case by (simp add: segsOf_def)
next
  case (Cons x frames)
  obtain frame ts where x: "x = (frame, ts)" by (cases x)
  from parseTCPSegment_returns [of "cv_link cv" frame] consider
    "parseTCPSegment (cv_link cv) frame = Some None"
    | seg where "parseTCPSegment (cv_link cv) frame = Some (Some seg)" by (metis not_None_eq)
  then show ?case
  proof cases
    case 1
    then show ?thesis using Cons.IH [of cv] by (simp add: x carverConsume_def segsOf_def split: prod.splits)
  next
    case 2
    obtain re out where c: "consume (cv_re cv) seg ts = (re, out)" by (cases "consume (cv_re cv) seg ts")
    obtain re2 out2 where c2: "consumeAll re (segsOf (cv_link cv) frames) = (re2, out2)"
      by (cases "consumeAll re (segsOf (cv_link cv) frames)")
    have "segsOf (cv_link cv) (x # frames) = (seg, ts) # segsOf (cv_link cv) frames"
      by (simp add: segsOf_def x 2)
    then show ?thesis using Cons.IH [of "cv\<lparr>cv_re := re\<rparr>"] c c2 by (simp add: x carverConsume_def 2)
  qed
qed

lemma carvedJob_fields [simp]:
  "jobData (carvedJob addrText pjlInfo fs d fmt) = d"
  "jobBytes (carvedJob addrText pjlInfo fs d fmt) = length d"
  "jobHost (carvedJob addrText pjlInfo fs d fmt) = addrText (fst (fs_dst fs))"
  by (simp_all add: carvedJob_def Let_def newJob_def split: prod.splits)


text \<open>Three raw-IP frames of a print connection: the opening, two bytes of document, the close.\<close>

definition demoHeader :: "byte \<Rightarrow> byte list" where
  "demoHeader len = [0x45, 0, 0, len, 0, 0, 0, 0, 64, 6, 0, 0, 10, 0, 0, 1, 10, 0, 0, 2]"

definition demoTCP :: "byte \<Rightarrow> byte \<Rightarrow> byte list" where
  "demoTCP s flags = [0x30, 0x39, 0x23, 0x8c, 0, 0, 0, s, 0, 0, 0, 0, 0x50, flags, 0, 0, 0, 0, 0, 0]"

definition demoFrames :: "(bytes \<times> int) list" where
  "demoFrames = [(demoHeader 40 @ demoTCP 7 0x02, 0), ([0xff], 0),
     (demoHeader 42 @ demoTCP 8 0x10 @ [0x48, 0x69], 1), (demoHeader 40 @ demoTCP 10 0x11, 2)]"

definition demoSeg :: "u32 \<Rightarrow> l4_segment" where
  "demoSeg s = \<lparr>seg_src = ([10, 0, 0, 1], 12345), seg_dst = ([10, 0, 0, 2], 9100), seg_seq = s,
     seg_syn = False, seg_fin = False, seg_rst = False, seg_payload = []\<rparr>"

definition demoCarve :: carve_conf where
  "demoCarve = \<lparr>carvePorts = [9100, 631], carveAllPorts = False, carveMaxStreamMB = 0, carveIdleFlushSec = 0\<rparr>"

lemma demo_segs: "segsOf linkTypeRaw demoFrames =
   [((demoSeg 7)\<lparr>seg_syn := True\<rparr>, 0), ((demoSeg 8)\<lparr>seg_payload := [0x48, 0x69]\<rparr>, 1),
    ((demoSeg 10)\<lparr>seg_fin := True\<rparr>, 2)]"
  by code_simp


end
