(* ===== verification/Match.thy ===== *)
theory Match
  imports Byte_Search Config_Types
begin

text \<open>
  Conditions on jobs (\<^verbatim>\<open>match.go\<close>): compiled from the configuration once, evaluated for every
  job by the forwarding targets and the transform steps. Regular expressions, shell globs and IP
  networks are the standard library's; their operations are the fields of \<open>match_lib\<close>, an
  argument of the definitions.
\<close>

record ('re, 'net) match_lib =
  reCompile :: "bytes \<Rightarrow> 're option"
  reMatch :: "'re \<Rightarrow> bytes \<Rightarrow> bool"
  globMatch :: "bytes \<Rightarrow> bytes \<Rightarrow> bool"
  parseCIDR :: "bytes \<Rightarrow> 'net option"
  netContains :: "'net \<Rightarrow> bytes \<Rightarrow> bool"
  splitHostPort :: "bytes \<Rightarrow> bytes option"
  parseIP :: "bytes \<Rightarrow> bytes option"

record forward_cond =
  fcProtocols :: "bytes list"
  fcSourceCIDRs :: "bytes list"
  fcUsers :: "bytes list"
  fcHosts :: "bytes list"
  fcJobName :: bytes
  fcQueues :: "bytes list"
  fcDocFormats :: "bytes list"
  fcPDLs :: "bytes list"
  fcContains :: bytes
  fcMinBytes :: int
  fcMaxBytes :: int

datatype 're text_matcher = TextGlob bytes | TextRe 're
datatype 're bytes_matcher = BytesLit bytes | BytesRe 're

record ('re, 'net) compiled_cond =
  ccProtocols :: "bytes list"
  ccCidrs :: "'net list"
  ccUsers :: "bytes list"
  ccHosts :: "bytes list"
  ccJobName :: "'re text_matcher option"
  ccQueues :: "bytes list"
  ccDocFormats :: "bytes list"
  ccPDLs :: "bytes list"
  ccContains :: "'re bytes_matcher option"
  ccMinBytes :: int
  ccMaxBytes :: int
  ccEmpty :: bool

datatype cond_error = BadCIDR bytes | BadJobName bytes | BadContains bytes | BadHex bytes

subsection \<open>Matching primitives\<close>

text \<open>\<^verbatim>\<open>containsFold(a, b)\<close>: equal up to the case of ASCII letters.\<close>

definition containsFold :: "bytes \<Rightarrow> bytes \<Rightarrow> bool" where
  "containsFold a b = (length a = length b \<and> list_all (\<lambda>i. lower (a ! i) = lower (b ! i)) [0..<length a])"

definition dataContains :: "bytes \<Rightarrow> bytes \<Rightarrow> bool" where
  "dataContains d needle =
     (if needle = [] then True
      else if length needle > length d then False
      else list_ex (\<lambda>i. containsFold (take (length needle) (drop i d)) needle) [0..<length d - length needle + 1])"

definition containsFoldList :: "bytes list \<Rightarrow> bytes \<Rightarrow> bool" where
  "containsFoldList xs want = list_ex (\<lambda>s. equalFold s want) xs"

definition cidrMatch :: "('re, 'net) match_lib \<Rightarrow> 'net list \<Rightarrow> bytes \<Rightarrow> bool" where
  "cidrMatch L nets src =
     (let host = (case splitHostPort L src of Some h \<Rightarrow> h | None \<Rightarrow> src) in
      case parseIP L host of
        None \<Rightarrow> False
      | Some ip \<Rightarrow> list_ex (\<lambda>n. netContains L n ip) nets)"

fun textMatch :: "('re, 'net) match_lib \<Rightarrow> 're text_matcher option \<Rightarrow> bytes \<Rightarrow> bool" where
  "textMatch L None s = True"
| "textMatch L (Some (TextRe re)) s = reMatch L re s"
| "textMatch L (Some (TextGlob g)) s = globMatch L g s"

fun bytesMatch :: "('re, 'net) match_lib \<Rightarrow> 're bytes_matcher option \<Rightarrow> bytes \<Rightarrow> bool" where
  "bytesMatch L None d = True"
| "bytesMatch L (Some (BytesRe re)) d = reMatch L re d"
| "bytesMatch L (Some (BytesLit lit)) d = dataContains d lit"

subsection \<open>Compiling\<close>

definition hexNibble :: "byte \<Rightarrow> byte option" where
  "hexNibble c =
     (if 0x30 \<le> c \<and> c \<le> 0x39 then Some (c - 0x30)
      else if 0x61 \<le> c \<and> c \<le> 0x66 then Some (c - 0x61 + 10)
      else if 0x41 \<le> c \<and> c \<le> 0x46 then Some (c - 0x41 + 10)
      else None)"

definition hexByte :: "byte \<Rightarrow> byte \<Rightarrow> byte option" where
  "hexByte hi lo =
     (case hexNibble hi of None \<Rightarrow> None
      | Some h \<Rightarrow> (case hexNibble lo of None \<Rightarrow> None | Some l \<Rightarrow> Some (push_bit 4 h OR l)))"

text \<open>\<^verbatim>\<open>hex.DecodeString\<close>.\<close>

fun hexDecode :: "bytes \<Rightarrow> bytes option" where
  "hexDecode [] = Some []"
| "hexDecode [c] = None"
| "hexDecode (hi # lo # rest) =
     (case hexByte hi lo of None \<Rightarrow> None
      | Some b \<Rightarrow> (case hexDecode rest of None \<Rightarrow> None | Some bs \<Rightarrow> Some (b # bs)))"

definition isSlashed :: "bytes \<Rightarrow> bool" where
  "isSlashed pat = (length pat \<ge> 2 \<and> is_prefix (str ''/'') pat \<and> is_suffix (str ''/'') pat)"

definition innerPattern :: "bytes \<Rightarrow> bytes" where
  "innerPattern pat = take (length pat - 2) (drop 1 pat)"

definition compileTextMatcher :: "('re, 'net) match_lib \<Rightarrow> bytes \<Rightarrow> cond_error + 're text_matcher option" where
  "compileTextMatcher L pat =
     (if pat = [] then Inr None
      else if isSlashed pat then
        (case reCompile L (innerPattern pat) of None \<Rightarrow> Inl (BadJobName pat) | Some re \<Rightarrow> Inr (Some (TextRe re)))
      else Inr (Some (TextGlob pat)))"

definition compileBytesMatcher :: "('re, 'net) match_lib \<Rightarrow> bytes \<Rightarrow> cond_error + 're bytes_matcher option" where
  "compileBytesMatcher L pat =
     (if pat = [] then Inr None
      else if isSlashed pat then
        (case reCompile L (innerPattern pat) of None \<Rightarrow> Inl (BadContains pat) | Some re \<Rightarrow> Inr (Some (BytesRe re)))
      else if is_prefix (str ''hex:'') pat then
        (case hexDecode (drop 4 pat) of None \<Rightarrow> Inl (BadHex pat) | Some b \<Rightarrow> Inr (Some (BytesLit b)))
      else Inr (Some (BytesLit pat)))"

fun compileCIDRs :: "('re, 'net) match_lib \<Rightarrow> bytes list \<Rightarrow> cond_error + 'net list" where
  "compileCIDRs L [] = Inr []"
| "compileCIDRs L (s # ss) =
     (case parseCIDR L s of
        None \<Rightarrow> Inl (BadCIDR s)
      | Some n \<Rightarrow> (case compileCIDRs L ss of Inl e \<Rightarrow> Inl e | Inr ns \<Rightarrow> Inr (n # ns)))"

definition compileCond :: "('re, 'net) match_lib \<Rightarrow> forward_cond \<Rightarrow> cond_error + ('re, 'net) compiled_cond" where
  "compileCond L c =
     (case compileCIDRs L (fcSourceCIDRs c) of Inl e \<Rightarrow> Inl e | Inr nets \<Rightarrow>
      case compileTextMatcher L (fcJobName c) of Inl e \<Rightarrow> Inl e | Inr jm \<Rightarrow>
      case compileBytesMatcher L (fcContains c) of Inl e \<Rightarrow> Inl e | Inr bm \<Rightarrow>
      Inr \<lparr>ccProtocols = fcProtocols c, ccCidrs = nets, ccUsers = fcUsers c, ccHosts = fcHosts c,
           ccJobName = jm, ccQueues = fcQueues c, ccDocFormats = fcDocFormats c, ccPDLs = fcPDLs c,
           ccContains = bm, ccMinBytes = fcMinBytes c, ccMaxBytes = fcMaxBytes c,
           ccEmpty = (fcProtocols c = [] \<and> nets = [] \<and> fcUsers c = [] \<and> fcHosts c = [] \<and> jm = None
             \<and> fcQueues c = [] \<and> fcDocFormats c = [] \<and> fcPDLs c = [] \<and> bm = None
             \<and> fcMinBytes c = 0 \<and> fcMaxBytes c = 0)\<rparr>)"

subsection \<open>Evaluating\<close>

text \<open>\<^verbatim>\<open>matches\<close>; a nil condition is \<open>None\<close>.\<close>

definition condMatches :: "('re, 'net) match_lib \<Rightarrow> ('re, 'net) compiled_cond option \<Rightarrow> job \<Rightarrow> bytes \<Rightarrow> bool" where
  "condMatches L oc j d =
     (case oc of None \<Rightarrow> True | Some c \<Rightarrow>
        if ccEmpty c then True
        else if ccProtocols c \<noteq> [] \<and> \<not> containsFoldList (ccProtocols c) (jobProtocol j) then False
        else if ccCidrs c \<noteq> [] \<and> \<not> cidrMatch L (ccCidrs c) (jobSource j) then False
        else if ccUsers c \<noteq> [] \<and> \<not> containsFoldList (ccUsers c) (jobUser j) then False
        else if ccHosts c \<noteq> [] \<and> \<not> containsFoldList (ccHosts c) (jobHost j) then False
        else if ccJobName c \<noteq> None \<and> \<not> textMatch L (ccJobName c) (jobName j) then False
        else if ccQueues c \<noteq> [] \<and> \<not> containsFoldList (ccQueues c) (jobQueue j) then False
        else if ccDocFormats c \<noteq> [] \<and> \<not> containsFoldList (ccDocFormats c) (jobDocFormat j) then False
        else if ccPDLs c \<noteq> [] \<and> \<not> containsFoldList (ccPDLs c) (jobPDL j) then False
        else if ccContains c \<noteq> None \<and> \<not> bytesMatch L (ccContains c) d then False
        else if ccMinBytes c > 0 \<and> int (length d) < ccMinBytes c then False
        else if ccMaxBytes c > 0 \<and> int (length d) > ccMaxBytes c then False
        else True)"

section \<open>Correctness\<close>

subsection \<open>The fold search is a search of the folded bytes\<close>

lemma containsFold_lower: "containsFold a b \<longleftrightarrow> toLower a = toLower b"
  using list_eq_iff_nth_eq [of "map lower a" "map lower b"]
  by (auto simp: containsFold_def toLower_def list_all_iff)

lemma dataContains_lower: "dataContains d needle \<longleftrightarrow> bytesContains (toLower d) (toLower needle)"
proof -
  let ?n = "length needle"
  have occ: "bytesContains (toLower d) (toLower needle)
      \<longleftrightarrow> (\<exists>i. i + ?n \<le> length d \<and> toLower (take ?n (drop i d)) = toLower needle)"
  proof
    assume "bytesContains (toLower d) (toLower needle)"
    then obtain a b where ab: "toLower d = a @ toLower needle @ b" by (auto simp: bytesContains_iff)
    then have "length d = length a + ?n + length b" by (metis length_append length_map toLower_def add.assoc)
    moreover have "toLower (take ?n (drop (length a) d)) = take ?n (drop (length a) (toLower d))"
      by (simp add: toLower_def take_map drop_map)
    ultimately show "\<exists>i. i + ?n \<le> length d \<and> toLower (take ?n (drop i d)) = toLower needle"
      using ab by (intro exI [of _ "length a"]) (simp add: toLower_def)
  next
    assume "\<exists>i. i + ?n \<le> length d \<and> toLower (take ?n (drop i d)) = toLower needle"
    then obtain i where i: "toLower (take ?n (drop i d)) = toLower needle" by blast
    have "d = take i d @ take ?n (drop i d) @ drop ?n (drop i d)" by (simp only: append_take_drop_id)
    then have "toLower d = toLower (take i d) @ toLower needle @ toLower (drop ?n (drop i d))"
      by (metis i map_append toLower_def)
    then show "bytesContains (toLower d) (toLower needle)" unfolding bytesContains_iff by blast
  qed
  show ?thesis
  proof (cases "needle = []")
    case True
    then show ?thesis by (auto simp: dataContains_def bytesContains_iff toLower_def intro: exI [of _ "[]"])
  next
    case False
    have "list_ex P [0..<length d - ?n + 1] \<longleftrightarrow> (\<exists>i. i + ?n \<le> length d \<and> P i)" if "\<not> ?n > length d" for P
      using that by (auto simp: list_ex_iff simp del: upt_Suc) (auto simp: le_diff_conv2 less_Suc_eq_le intro!: bexI)
    with False show ?thesis
      unfolding occ by (auto simp: dataContains_def containsFold_lower simp del: upt_Suc)
  qed
qed

subsection \<open>What a configured condition means\<close>

text \<open>The meaning of a condition, field by field, without compilation: a field that is not populated
  asks for nothing.\<close>

definition anyFold :: "bytes list \<Rightarrow> bytes \<Rightarrow> bool" where
  "anyFold xs want \<longleftrightarrow> xs = [] \<or> list_ex (\<lambda>s. toLower s = toLower want) xs"

definition sourceIn :: "('re, 'net) match_lib \<Rightarrow> bytes list \<Rightarrow> bytes \<Rightarrow> bool" where
  "sourceIn L cidrs src \<longleftrightarrow> cidrs = [] \<or>
     (\<exists>ip. parseIP L (case splitHostPort L src of Some h \<Rightarrow> h | None \<Rightarrow> src) = Some ip
        \<and> list_ex (\<lambda>s. case parseCIDR L s of Some n \<Rightarrow> netContains L n ip | None \<Rightarrow> False) cidrs)"

definition patternHolds :: "('re, 'net) match_lib \<Rightarrow> (bytes \<Rightarrow> bytes \<Rightarrow> bool) \<Rightarrow> bytes \<Rightarrow> bytes \<Rightarrow> bool" where
  "patternHolds L plain pat s \<longleftrightarrow> pat = [] \<or>
     (if isSlashed pat then (case reCompile L (innerPattern pat) of Some re \<Rightarrow> reMatch L re s | None \<Rightarrow> False)
      else plain pat s)"

definition literalIn :: "bytes \<Rightarrow> bytes \<Rightarrow> bool" where
  "literalIn pat d = bytesContains (toLower d) (toLower
     (if is_prefix (str ''hex:'') pat then (case hexDecode (drop 4 pat) of Some b \<Rightarrow> b | None \<Rightarrow> []) else pat))"

definition condHolds :: "('re, 'net) match_lib \<Rightarrow> forward_cond \<Rightarrow> job \<Rightarrow> bytes \<Rightarrow> bool" where
  "condHolds L c j d \<longleftrightarrow>
     anyFold (fcProtocols c) (jobProtocol j) \<and> sourceIn L (fcSourceCIDRs c) (jobSource j)
     \<and> anyFold (fcUsers c) (jobUser j) \<and> anyFold (fcHosts c) (jobHost j)
     \<and> patternHolds L (globMatch L) (fcJobName c) (jobName j)
     \<and> anyFold (fcQueues c) (jobQueue j) \<and> anyFold (fcDocFormats c) (jobDocFormat j)
     \<and> anyFold (fcPDLs c) (jobPDL j) \<and> patternHolds L literalIn (fcContains c) d
     \<and> (fcMinBytes c \<le> int (length d) \<or> fcMinBytes c \<le> 0)
     \<and> (int (length d) \<le> fcMaxBytes c \<or> fcMaxBytes c \<le> 0)"

lemma anyFold_code: "anyFold xs w \<longleftrightarrow> \<not> (xs \<noteq> [] \<and> \<not> containsFoldList xs w)"
  by (auto simp: anyFold_def containsFoldList_def equalFold_def)

lemma compileCIDRs_Inr:
  "compileCIDRs L ss = Inr ns \<Longrightarrow> map (parseCIDR L) ss = map Some ns"
  by (induction ss arbitrary: ns) (auto split: option.splits sum.splits)

lemma sourceIn_code:
  assumes "compileCIDRs L ss = Inr ns"
  shows "sourceIn L ss src \<longleftrightarrow> \<not> (ns \<noteq> [] \<and> \<not> cidrMatch L ns src)"
proof -
  note m = compileCIDRs_Inr [OF assms]
  have "list_ex (\<lambda>s. case parseCIDR L s of Some n \<Rightarrow> netContains L n ip | None \<Rightarrow> False) ss
      \<longleftrightarrow> list_ex (\<lambda>n. netContains L n ip) ns" for ip
    using m by (induction ss arbitrary: ns) auto
  moreover have "ss = [] \<longleftrightarrow> ns = []" using m by (metis map_is_Nil_conv)
  ultimately show ?thesis by (auto simp: sourceIn_def cidrMatch_def Let_def split: option.splits)
qed

lemma textPattern_code:
  "compileTextMatcher L pat = Inr m \<Longrightarrow>
     patternHolds L (globMatch L) pat s \<longleftrightarrow> \<not> (m \<noteq> None \<and> \<not> textMatch L m s)"
  by (auto simp: compileTextMatcher_def patternHolds_def split: if_splits option.splits)

lemma bytesPattern_code:
  "compileBytesMatcher L pat = Inr m \<Longrightarrow>
     patternHolds L literalIn pat d \<longleftrightarrow> \<not> (m \<noteq> None \<and> \<not> bytesMatch L m d)"
  by (auto simp: compileBytesMatcher_def patternHolds_def literalIn_def dataContains_lower split: if_splits option.splits)


text \<open>A library for examples: regular expressions and networks that match literally.\<close>

definition demoLib :: "(bytes, bytes) match_lib" where
  "demoLib = \<lparr>reCompile = Some, reMatch = (\<lambda>re s. bytesContains s re), globMatch = (\<lambda>g s. g = s),
     parseCIDR = Some, netContains = (\<lambda>n ip. n = ip), splitHostPort = (\<lambda>s. None), parseIP = Some\<rparr>"

definition demoCond :: forward_cond where
  "demoCond = \<lparr>fcProtocols = [str ''lpr''], fcSourceCIDRs = [], fcUsers = [], fcHosts = [], fcJobName = [],
     fcQueues = [], fcDocFormats = [], fcPDLs = [], fcContains = str ''hex:41'', fcMinBytes = 1, fcMaxBytes = 0\<rparr>"


end
