(* ===== verification/Transform.thy ===== *)
theory Transform
  imports Match
begin

text \<open>
  Transforms of a forwarded document (\<^verbatim>\<open>transform.go\<close> and \<^verbatim>\<open>compileSteps\<close> of \<^verbatim>\<open>forward.go\<close>):
  injecting bytes before or after it and replacing bytes in it, each step under its own condition.
  Replacing by a regular expression is the standard library's, the argument \<open>reReplace\<close>.
\<close>

subsection \<open>Configured byte strings\<close>

text \<open>The loop of \<^verbatim>\<open>decodeBytes\<close> on the rest of the string: \<^verbatim>\<open>\xNN\<close> is one byte, all else is literal.\<close>

function decodeEscapes :: "bytes \<Rightarrow> bytes" where
  "decodeEscapes s =
     (case s of
        [] \<Rightarrow> []
      | c # rest \<Rightarrow>
          (case (if length s > 3 \<and> s ! 0 = 0x5c \<and> s ! 1 = 0x78 then hexByte (s ! 2) (s ! 3) else None) of
             Some b \<Rightarrow> b # decodeEscapes (drop 4 s)
           | None \<Rightarrow> c # decodeEscapes rest))"
  by pat_completeness auto
termination
  by (relation "measure length") auto

declare decodeEscapes.simps [simp del]

definition decodeBytes :: "bytes \<Rightarrow> (bytes \<rightharpoonup> bytes) \<Rightarrow> bytes" where
  "decodeBytes s macros =
     (if is_prefix (str ''macro:'') s then
        (case macros (trimPrefix s (str ''macro:'')) of Some b \<Rightarrow> b | None \<Rightarrow> [])
      else decodeEscapes s)"

subsection \<open>Steps\<close>

record transform_step =
  tsType :: bytes
  tsMode :: bytes
  tsMatch :: bytes
  tsWith :: bytes
  tsAll :: bool
  tsData :: bytes
  tsWhen :: forward_cond

record ('re, 'net) compiled_step =
  csKind :: bytes
  csMode :: bytes
  csMatch :: bytes
  csRe :: "'re option"
  csWith :: bytes
  csWithS :: bytes
  csAll :: bool
  csData :: bytes
  csWhen :: "('re, 'net) compiled_cond option"

datatype step_error = StepCond cond_error | StepRegex bytes | StepHexMatch bytes | StepHexWith bytes | StepType bytes

definition compileStep :: "('re, 'net) match_lib \<Rightarrow> (bytes \<rightharpoonup> bytes) \<Rightarrow> transform_step
    \<Rightarrow> step_error + ('re, 'net) compiled_step" where
  "compileStep L macros s =
     (case compileCond L (tsWhen s) of Inl e \<Rightarrow> Inl (StepCond e) | Inr cond \<Rightarrow>
      let cs = \<lparr>csKind = tsType s, csMode = tsMode s, csMatch = [], csRe = None, csWith = [], csWithS = [],
                csAll = tsAll s, csData = [], csWhen = Some cond\<rparr> in
      if tsType s = str ''inject_prefix'' \<or> tsType s = str ''inject_suffix'' then
        Inr (cs\<lparr>csData := decodeBytes (tsData s) macros\<rparr>)
      else if tsType s = str ''replace'' then
        (if tsMode s = str ''regex'' then
           (case reCompile L (tsMatch s) of None \<Rightarrow> Inl (StepRegex (tsMatch s))
            | Some re \<Rightarrow> Inr (cs\<lparr>csRe := Some re, csWithS := decodeBytes (tsWith s) Map.empty\<rparr>))
         else if tsMode s = str ''hex'' then
           (case hexDecode (tsMatch s) of None \<Rightarrow> Inl (StepHexMatch (tsMatch s)) | Some m \<Rightarrow>
            case hexDecode (tsWith s) of None \<Rightarrow> Inl (StepHexWith (tsWith s)) | Some w \<Rightarrow>
              Inr (cs\<lparr>csMatch := m, csWith := w\<rparr>))
         else Inr (cs\<lparr>csMatch := decodeBytes (tsMatch s) macros, csWith := decodeBytes (tsWith s) macros\<rparr>))
      else Inl (StepType (tsType s)))"

fun compileSteps :: "('re, 'net) match_lib \<Rightarrow> (bytes \<rightharpoonup> bytes) \<Rightarrow> transform_step list
    \<Rightarrow> step_error + ('re, 'net) compiled_step list" where
  "compileSteps L macros [] = Inr []"
| "compileSteps L macros (s # ss) =
     (case compileStep L macros s of Inl e \<Rightarrow> Inl e | Inr cs \<Rightarrow>
      case compileSteps L macros ss of Inl e \<Rightarrow> Inl e | Inr css \<Rightarrow> Inr (cs # css))"

definition applyReplace :: "('re \<Rightarrow> bytes \<Rightarrow> bytes \<Rightarrow> bytes) \<Rightarrow> ('re, 'net) compiled_step \<Rightarrow> bytes \<Rightarrow> bytes" where
  "applyReplace reReplace s d =
     (if csMode s = str ''regex'' then
        (case csRe s of None \<Rightarrow> d | Some re \<Rightarrow> reReplace re d (csWithS s))
      else if csMatch s = [] then d
      else if csAll s then replaceAll d (csMatch s) (csWith s)
      else replaceFirst d (csMatch s) (csWith s))"

definition applyStep :: "('re, 'net) match_lib \<Rightarrow> ('re \<Rightarrow> bytes \<Rightarrow> bytes \<Rightarrow> bytes) \<Rightarrow> job
    \<Rightarrow> ('re, 'net) compiled_step \<Rightarrow> bytes \<Rightarrow> bytes" where
  "applyStep L reReplace j s out =
     (if csWhen s \<noteq> None \<and> \<not> condMatches L (csWhen s) j out then out
      else if csKind s = str ''inject_prefix'' then csData s @ out
      else if csKind s = str ''inject_suffix'' then out @ csData s
      else if csKind s = str ''replace'' then applyReplace reReplace s out
      else out)"

definition applyTransforms :: "('re, 'net) match_lib \<Rightarrow> ('re \<Rightarrow> bytes \<Rightarrow> bytes \<Rightarrow> bytes)
    \<Rightarrow> ('re, 'net) compiled_step list \<Rightarrow> bytes \<Rightarrow> job \<Rightarrow> bytes" where
  "applyTransforms L reReplace steps d j = foldl (\<lambda>out s. applyStep L reReplace j s out) d steps"

section \<open>Correctness\<close>

subsection \<open>Any bytes can be configured\<close>

definition hexChar :: "byte \<Rightarrow> byte" where
  "hexChar n = (if n < 10 then 0x30 + n else 0x61 + (n - 10))"

definition escapeByte :: "byte \<Rightarrow> bytes" where
  "escapeByte b = [0x5c, 0x78, hexChar (drop_bit 4 b), hexChar (b AND 0x0f)]"

definition escapeBytes :: "bytes \<Rightarrow> bytes" where
  "escapeBytes bs = concat (map escapeByte bs)"

lemma hexByte_hexChar: "hexByte (hexChar (drop_bit 4 b)) (hexChar (b AND 0x0f)) = Some b"
  by (rule all_bytes [of "\<lambda>b. hexByte (hexChar (drop_bit 4 b)) (hexChar (b AND 0x0f)) = Some b"]) code_simp

lemma decode_escape: "decodeEscapes (escapeByte b @ s) = b # decodeEscapes s"
proof -
  show ?thesis by (subst decodeEscapes.simps) (simp add: escapeByte_def hexByte_hexChar)
qed

lemma decode_escapeBytes: "decodeEscapes (escapeBytes bs) = bs"
proof (induction bs)
  case Nil
  then show ?case by (subst decodeEscapes.simps) (simp add: escapeBytes_def)
next
  case (Cons b bs)
  then show ?case by (simp add: escapeBytes_def decode_escape)
qed

text \<open>Any byte string can be configured. Writing every byte as a \<^verbatim>\<open>\xNN\<close> escape and decoding the
  setting gives the bytes back, whatever they are and whatever macros exist, so no transform is
  out of reach of the configuration file.\<close>

theorem any_bytes_configurable: "decodeBytes (escapeBytes bs) macros = bs"
proof -
  have "\<not> is_prefix (str ''macro:'') (escapeBytes bs)"
    by (cases bs) (simp_all add: escapeBytes_def escapeByte_def str_def)
  then show ?thesis by (simp add: decodeBytes_def decode_escapeBytes)
qed

subsection \<open>Injections keep the document\<close>

definition injects :: "('re, 'net) compiled_step \<Rightarrow> bool" where
  "injects s = (csKind s = str ''inject_prefix'' \<or> csKind s = str ''inject_suffix'')"

lemma injections_wrap:
  "list_all injects steps \<Longrightarrow> \<exists>pre post. applyTransforms L rr steps d j = pre @ d @ post"
proof (induction steps arbitrary: d)
  case Nil
  then show ?case by (auto simp: applyTransforms_def intro: exI [of _ "[]"])
next
  case (Cons s steps)
  have "applyStep L rr j s d \<in> {d, csData s @ d, d @ csData s}"
    using Cons.prems by (auto simp: applyStep_def injects_def)
  then obtain pre post where s: "applyStep L rr j s d = pre @ d @ post"
    by (metis append_Nil append_Nil2 empty_iff insert_iff)
  obtain pre' post' where "applyTransforms L rr steps (pre @ d @ post) j = pre' @ (pre @ d @ post) @ post'"
    using Cons.IH [of "pre @ d @ post"] Cons.prems by auto
  then have "applyTransforms L rr (s # steps) d j = (pre' @ pre) @ d @ (post @ post')"
    by (simp add: applyTransforms_def s)
  then show ?case by blast
qed

text \<open>The replacement of a regular-expression step is decoded without macros, so naming one there
  silently replaces every match by nothing.\<close>

lemma regex_replacement_ignores_macros:
  assumes "compileStep L macros s = Inr cs" "tsType s = str ''replace''" "tsMode s = str ''regex''"
    and "tsWith s = str ''macro:'' @ name"
  shows "csWithS cs = []"
  using assms by (auto simp: compileStep_def Let_def decodeBytes_def str_def split: sum.splits option.splits)

end
