(* ===== verification/Spool.thy ===== *)
theory Spool
  imports Go_Prelude
begin

text \<open>
  The durable retry queue of the forwarder (\<^verbatim>\<open>fwd_spool.go\<close>): two files per item, the metadata
  \<^verbatim>\<open>id.json\<close> and the payload \<^verbatim>\<open>id.data\<close>, and a \<^verbatim>\<open>dead\<close> subdirectory for items given up.
  An operation is the list of file-system steps it takes, in the order of the code, each of which
  is atomic (files are written beside their place and renamed into it); a step can fail, and the
  process can stop between two steps. \<open>json.Marshal\<close> and \<open>Unmarshal\<close> are taken to be
  inverse on this struct, so a metadata file is its value, or \<open>None\<close> for one that does not parse.
\<close>

subsection \<open>State\<close>

record spool_meta =
  smID :: bytes
  smTarget :: bytes
  smAttempts :: nat
  smFirstSeen :: int
  smNextAttempt :: int
  smDeadline :: "int option"
  smHost :: bytes
  smUser :: bytes
  smJobName :: bytes
  smQueue :: bytes

record spool_dir =
  jsonFiles :: "bytes \<rightharpoonup> spool_meta option"
  dataFiles :: "bytes \<rightharpoonup> bytes"
  deadJson :: "bytes \<rightharpoonup> spool_meta option"
  deadData :: "bytes \<rightharpoonup> bytes"

record spool_store =
  spDir :: spool_dir
  spSeq :: nat

text \<open>\<^verbatim>\<open>newSpoolStore\<close> opens a directory, which may hold the items of an earlier run.\<close>

definition newSpoolStore :: "spool_dir \<Rightarrow> spool_store" where
  "newSpoolStore d = \<lparr>spDir = d, spSeq = 0\<rparr>"

subsection \<open>File-system steps\<close>

datatype fs_step =
    WriteData bytes bytes
  | WriteMeta bytes spool_meta
  | RemoveMeta bytes
  | RemoveData bytes
  | KillMeta bytes
  | KillData bytes

text \<open>Removing or renaming a file that does not exist is an error the operations ignore.\<close>

fun fsStep :: "fs_step \<Rightarrow> spool_dir \<Rightarrow> spool_dir" where
  "fsStep (WriteData i d) s = s\<lparr>dataFiles := (dataFiles s)(i \<mapsto> d)\<rparr>"
| "fsStep (WriteMeta i m) s = s\<lparr>jsonFiles := (jsonFiles s)(i \<mapsto> Some m)\<rparr>"
| "fsStep (RemoveMeta i) s = s\<lparr>jsonFiles := (jsonFiles s)(i := None)\<rparr>"
| "fsStep (RemoveData i) s = s\<lparr>dataFiles := (dataFiles s)(i := None)\<rparr>"
| "fsStep (KillMeta i) s = (case jsonFiles s i of
      None \<Rightarrow> s
    | Some m \<Rightarrow> s\<lparr>jsonFiles := (jsonFiles s)(i := None), deadJson := (deadJson s)(i \<mapsto> m)\<rparr>)"
| "fsStep (KillData i) s = (case dataFiles s i of
      None \<Rightarrow> s
    | Some d \<Rightarrow> s\<lparr>dataFiles := (dataFiles s)(i := None), deadData := (deadData s)(i \<mapsto> d)\<rparr>)"

text \<open>
  Running the steps of an operation that stops at a failing write: \<open>oks\<close> says which steps succeed.
  \<^verbatim>\<open>put\<close> returns at its first error; \<^verbatim>\<open>remove\<close> and \<^verbatim>\<open>deadLetter\<close> always attempt both files.
\<close>

fun runUntil :: "fs_step list \<Rightarrow> bool list \<Rightarrow> spool_dir \<Rightarrow> spool_dir \<times> bool" where
  "runUntil [] oks s = (s, True)"
| "runUntil (x # xs) [] s = runUntil xs [] (fsStep x s)"
| "runUntil (x # xs) (ok # oks) s = (if ok then runUntil xs oks (fsStep x s) else (s, False))"

fun runBoth :: "fs_step list \<Rightarrow> bool list \<Rightarrow> spool_dir \<Rightarrow> spool_dir \<times> bool" where
  "runBoth [] oks s = (s, True)"
| "runBoth (x # xs) [] s = runBoth xs [] (fsStep x s)"
| "runBoth (x # xs) (ok # oks) s =
     (case runBoth xs oks (if ok then fsStep x s else s) of (s', r) \<Rightarrow> (s', ok \<and> r))"

subsection \<open>Operations\<close>

text \<open>The identifier \<^verbatim>\<open>put\<close> assigns: the clock's nanoseconds and the sequence number.\<close>

definition spoolID :: "nat \<Rightarrow> nat \<Rightarrow> bytes" where
  "spoolID nanos s = itoa nanos @ [0x2d] @ itoa s"

definition putSteps :: "spool_meta \<Rightarrow> bytes \<Rightarrow> fs_step list" where
  "putSteps m d = [WriteData (smID m) d, WriteMeta (smID m) m]"

definition spoolPut :: "nat \<Rightarrow> bool list \<Rightarrow> spool_store \<Rightarrow> spool_meta \<Rightarrow> bytes \<Rightarrow> spool_store \<times> spool_meta \<times> bool" where
  "spoolPut nanos oks s m d =
     (let s1 = (if smID m = [] then s\<lparr>spSeq := spSeq s + 1\<rparr> else s);
          m1 = (if smID m = [] then m\<lparr>smID := spoolID nanos (spSeq s1)\<rparr> else m);
          (dir, ok) = runUntil (putSteps m1 d) oks (spDir s1)
      in (s1\<lparr>spDir := dir\<rparr>, m1, ok))"

definition updateSteps :: "spool_meta \<Rightarrow> fs_step list" where
  "updateSteps m = [WriteMeta (smID m) m]"

definition spoolUpdate :: "bool list \<Rightarrow> spool_store \<Rightarrow> spool_meta \<Rightarrow> spool_store \<times> bool" where
  "spoolUpdate oks s m = (case runUntil (updateSteps m) oks (spDir s) of (dir, ok) \<Rightarrow> (s\<lparr>spDir := dir\<rparr>, ok))"

definition removeSteps :: "bytes \<Rightarrow> fs_step list" where
  "removeSteps i = [RemoveMeta i, RemoveData i]"

definition spoolRemove :: "bool list \<Rightarrow> spool_store \<Rightarrow> bytes \<Rightarrow> spool_store \<times> bool" where
  "spoolRemove oks s i = (case runBoth (removeSteps i) oks (spDir s) of (dir, ok) \<Rightarrow> (s\<lparr>spDir := dir\<rparr>, ok))"

definition deadSteps :: "bytes \<Rightarrow> fs_step list" where
  "deadSteps i = [KillMeta i, KillData i]"

definition spoolDeadLetter :: "bool list \<Rightarrow> spool_store \<Rightarrow> bytes \<Rightarrow> spool_store \<times> bool" where
  "spoolDeadLetter oks s i = (case runBoth (deadSteps i) oks (spDir s) of (dir, ok) \<Rightarrow> (s\<lparr>spDir := dir\<rparr>, ok))"

definition spoolPayload :: "spool_store \<Rightarrow> bytes \<Rightarrow> bytes option" where
  "spoolPayload s i = dataFiles (spDir s) i"

text \<open>What \<^verbatim>\<open>load\<close> makes of one directory entry: unreadable metadata and metadata without its payload
  are skipped. \<open>names\<close> are the entries ending in \<^verbatim>\<open>.json\<close>, without that suffix.\<close>

definition loadItem :: "spool_dir \<Rightarrow> bytes \<Rightarrow> spool_meta option" where
  "loadItem s i = (case jsonFiles s i of
      None \<Rightarrow> None
    | Some None \<Rightarrow> None
    | Some (Some m) \<Rightarrow>
        let m' = (if smID m = [] then m\<lparr>smID := i\<rparr> else m) in
        if dataFiles s (smID m') = None then None else Some m')"

definition spoolLoad :: "spool_store \<Rightarrow> bytes list \<Rightarrow> spool_meta list" where
  "spoolLoad s names = List.map_filter (loadItem (spDir s)) names"

section \<open>Correctness\<close>

text \<open>The item \<open>i\<close> as the next start will see it: its metadata and its payload.\<close>

definition liveItem :: "spool_dir \<Rightarrow> bytes \<Rightarrow> (spool_meta \<times> bytes) option" where
  "liveItem s i = (case loadItem s i of
      None \<Rightarrow> None
    | Some m \<Rightarrow> (case dataFiles s (smID m) of None \<Rightarrow> None | Some d \<Rightarrow> Some (m, d)))"

text \<open>A directory is sound if every readable metadata file carries its own name and has its payload.\<close>

definition sound_dir :: "spool_dir \<Rightarrow> bool" where
  "sound_dir s \<longleftrightarrow> (\<forall>i m. jsonFiles s i = Some (Some m) \<longrightarrow> smID m = i \<and> dataFiles s i \<noteq> None)"

fun itemOf :: "spool_meta option option \<Rightarrow> bytes option \<Rightarrow> (spool_meta \<times> bytes) option" where
  "itemOf (Some (Some m)) d = map_option (Pair m) d"
| "itemOf _ d = None"

lemma sound_live:
  assumes "sound_dir s" "i \<noteq> []"
  shows "liveItem s i = itemOf (jsonFiles s i) (dataFiles s i)"
proof (cases "jsonFiles s i")
  case (Some f)
  show ?thesis
  proof (cases f)
    case (Some m)
    then have "smID m = i" using assms(1) \<open>jsonFiles s i = Some f\<close> by (simp add: sound_dir_def)
    then show ?thesis
      using assms(2) Some \<open>jsonFiles s i = Some f\<close>
      by (cases "dataFiles s i") (simp_all add: liveItem_def loadItem_def)
  qed (simp add: liveItem_def loadItem_def \<open>jsonFiles s i = Some f\<close>)
qed (simp add: liveItem_def loadItem_def)

lemma runUntil_ok: "list_all (\<lambda>b. b) oks \<Longrightarrow> runUntil xs oks s = (fold fsStep xs s, True)"
proof (induction xs arbitrary: oks s)
  case (Cons x xs)
  then show ?case using Cons.IH [of "[]"] by (cases oks) auto
qed simp

lemma runBoth_ok: "list_all (\<lambda>b. b) oks \<Longrightarrow> runBoth xs oks s = (fold fsStep xs s, True)"
proof (induction xs arbitrary: oks s)
  case (Cons x xs)
  then show ?case using Cons.IH [of "[]"] by (cases oks) auto
qed simp

text \<open>Whatever fails and wherever the process stops, an operation has run some of its steps, in order:
  \<open>runUntil\<close> a prefix, \<open>runBoth\<close> any of them.\<close>

definition partialRun :: "fs_step list \<Rightarrow> spool_dir \<Rightarrow> spool_dir \<Rightarrow> bool" where
  "partialRun xs s s' \<longleftrightarrow> (\<exists>n. s' = fold fsStep (take n xs) s)"

lemma runUntil_partial: "partialRun xs s (fst (runUntil xs oks s))"
proof (induction xs arbitrary: oks s)
  case (Cons x xs)
  have st: "partialRun (x # xs) s s" unfolding partialRun_def by (rule exI [of _ 0]) simp
  have go: "partialRun (x # xs) s s'" if "partialRun xs (fsStep x s) s'" for s'
  proof -
    from that obtain n where "s' = fold fsStep (take n xs) (fsStep x s)" by (auto simp: partialRun_def)
    then show ?thesis unfolding partialRun_def by (intro exI [of _ "Suc n"]) simp
  qed
  show ?case
  proof (cases oks)
    case Nil
    then show ?thesis using go Cons.IH by simp
  next
    case (Cons ok oks')
    then show ?thesis using go st Cons.IH by simp
  qed
qed (simp add: partialRun_def)

lemma take_steps: "take n [a, b] \<in> {[], [a], [a, b]}" "take n [a] \<in> {[], [a]}"
  by (auto simp: take_Cons' numeral_2_eq_2)

definition partialOps :: "spool_dir \<Rightarrow> spool_meta \<Rightarrow> bytes \<Rightarrow> fs_step list set" where
  "partialOps s m d =
     {[], [WriteData (smID m) d], [WriteData (smID m) d, WriteMeta (smID m) m], [RemoveMeta (smID m)],
      [RemoveMeta (smID m), RemoveData (smID m)], [KillMeta (smID m)], [KillMeta (smID m), KillData (smID m)]}
     \<union> (if dataFiles s (smID m) = None then {} else {[WriteMeta (smID m) m]})"

lemma partialOps_sound: "sound_dir s \<Longrightarrow> ys \<in> partialOps s m d \<Longrightarrow> sound_dir (fold fsStep ys s)"
  by (auto simp: partialOps_def sound_dir_def split: option.splits if_splits)

lemma partialOps_other:
  "ys \<in> partialOps s m d \<Longrightarrow> k \<noteq> smID m \<Longrightarrow>
     jsonFiles (fold fsStep ys s) k = jsonFiles s k \<and> dataFiles (fold fsStep ys s) k = dataFiles s k"
  by (auto simp: partialOps_def split: option.splits if_splits)

lemma operation_partial:
  "xs = putSteps m d \<or> (xs = updateSteps m \<and> dataFiles s (smID m) \<noteq> None)
      \<or> xs = removeSteps (smID m) \<or> xs = deadSteps (smID m) \<Longrightarrow> take n xs \<in> partialOps s m d"
  using take_steps(1) [of n "WriteData (smID m) d" "WriteMeta (smID m) m"] take_steps(2) [of n "WriteMeta (smID m) m"]
    take_steps(1) [of n "RemoveMeta (smID m)" "RemoveData (smID m)"]
    take_steps(1) [of n "KillMeta (smID m)" "KillData (smID m)"]
  unfolding putSteps_def updateSteps_def removeSteps_def deadSteps_def partialOps_def by auto

text \<open>C6: The queue survives a crash at any point. Whatever prefix of its file-system steps a \<^verbatim>\<open>put\<close>,
  an \<^verbatim>\<open>update\<close> of a queued item, a \<^verbatim>\<open>remove\<close> or a \<^verbatim>\<open>deadLetter\<close> has run when the process stops, the
  directory stays sound (no metadata file without its payload) and every other item is exactly what
  it was.\<close>

theorem spool_crash_safe:
  assumes "sound_dir s"
    and "xs = putSteps m d \<or> (xs = updateSteps m \<and> dataFiles s (smID m) \<noteq> None)
      \<or> xs = removeSteps (smID m) \<or> xs = deadSteps (smID m)"
    and "k \<noteq> smID m" "k \<noteq> []"
  shows "sound_dir (fold fsStep (take n xs) s) \<and> liveItem (fold fsStep (take n xs) s) k = liveItem s k"
proof -
  note p = operation_partial [OF assms(2), of n]
  have sd: "sound_dir (fold fsStep (take n xs) s)" by (rule partialOps_sound [OF assms(1) p])
  then show ?thesis
    using sound_live [OF assms(1,4)] sound_live [OF sd assms(4)] partialOps_other [OF p assms(3)] by simp
qed

definition demoMeta :: spool_meta where
  "demoMeta = \<lparr>smID = str ''1-1'', smTarget = str ''t'', smAttempts = 0, smFirstSeen = 0, smNextAttempt = 0,
     smDeadline = None, smHost = [], smUser = [], smJobName = [], smQueue = []\<rparr>"

definition emptyDir :: spool_dir where
  "emptyDir = \<lparr>jsonFiles = Map.empty, dataFiles = Map.empty, deadJson = Map.empty, deadData = Map.empty\<rparr>"

theorem spool_crash_safe_witness:
  "sound_dir (fold fsStep (take 1 (putSteps demoMeta [0x41])) emptyDir)
    \<and> liveItem (fold fsStep (take 1 (putSteps demoMeta [0x41])) emptyDir) (str ''2-2'') = None"
proof -
  have s: "sound_dir emptyDir" and e: "liveItem emptyDir (str ''2-2'') = None"
    by (simp_all add: sound_dir_def emptyDir_def liveItem_def loadItem_def)
  have k: "str ''2-2'' \<noteq> smID demoMeta" "str ''2-2'' \<noteq> []" by (simp_all add: demoMeta_def str_def)
  show ?thesis
    using spool_crash_safe [OF s _ k, of "putSteps demoMeta [0x41]" "[0x41]" 1] e by simp
qed

subsection \<open>The queue as an interface\<close>

text \<open>
  What the forwarder relies on, whatever the store: an accepted item can be read back, updating it
  keeps its payload, the other operations end it, and no operation touches another item. \<open>live\<close> is
  what a restart will find.
\<close>

locale retry_queue =
  fixes live :: "'s \<Rightarrow> bytes \<Rightarrow> (spool_meta \<times> bytes) option"
    and ok :: "'s \<Rightarrow> bool"
    and enqueue :: "'s \<Rightarrow> spool_meta \<Rightarrow> bytes \<Rightarrow> 's"
    and refresh :: "'s \<Rightarrow> spool_meta \<Rightarrow> 's"
    and drop_item :: "'s \<Rightarrow> bytes \<Rightarrow> 's"
    and kill :: "'s \<Rightarrow> bytes \<Rightarrow> 's"
  assumes enqueue_ok: "ok s \<Longrightarrow> smID m \<noteq> [] \<Longrightarrow> ok (enqueue s m d)"
    and enqueue_live: "ok s \<Longrightarrow> smID m \<noteq> [] \<Longrightarrow> live (enqueue s m d) (smID m) = Some (m, d)"
    and enqueue_other: "ok s \<Longrightarrow> smID m \<noteq> [] \<Longrightarrow> k \<noteq> smID m \<Longrightarrow> k \<noteq> [] \<Longrightarrow> live (enqueue s m d) k = live s k"
    and refresh_ok: "ok s \<Longrightarrow> live s (smID m) \<noteq> None \<Longrightarrow> smID m \<noteq> [] \<Longrightarrow> ok (refresh s m)"
    and refresh_live: "ok s \<Longrightarrow> live s (smID m) = Some (m', d) \<Longrightarrow> smID m \<noteq> [] \<Longrightarrow>
      live (refresh s m) (smID m) = Some (m, d)"
    and refresh_other: "ok s \<Longrightarrow> live s (smID m) \<noteq> None \<Longrightarrow> k \<noteq> smID m \<Longrightarrow> smID m \<noteq> [] \<Longrightarrow> k \<noteq> [] \<Longrightarrow>
      live (refresh s m) k = live s k"
    and drop_ok: "ok s \<Longrightarrow> i \<noteq> [] \<Longrightarrow> ok (drop_item s i)"
    and drop_live: "ok s \<Longrightarrow> i \<noteq> [] \<Longrightarrow> k \<noteq> [] \<Longrightarrow> live (drop_item s i) k = (if k = i then None else live s k)"
    and kill_ok: "ok s \<Longrightarrow> i \<noteq> [] \<Longrightarrow> ok (kill s i)"
    and kill_live: "ok s \<Longrightarrow> i \<noteq> [] \<Longrightarrow> k \<noteq> [] \<Longrightarrow> live (kill s i) k = (if k = i then None else live s k)"
begin

text \<open>An item survives any number of updates of itself and any operations on the others.\<close>

lemma refreshes_keep_payload:
  assumes "ok s" "live s i = Some (m, d)" "i \<noteq> []" "list_all (\<lambda>m. smID m = i) ms"
  shows "ok (foldl refresh s ms) \<and> live (foldl refresh s ms) i = Some (last (m # ms), d)"
  using assms
proof (induction ms arbitrary: s m)
  case (Cons m' ms)
  have i: "smID m' = i" using Cons.prems(4) by simp
  have "ok (refresh s m')" "live (refresh s m') i = Some (m', d)"
    using refresh_ok [of s m'] refresh_live [of s m' m d] Cons.prems(1-3) i by auto
  with Cons show ?case by simp
qed simp

lemma refreshes_other:
  assumes "ok s" "live s i = Some (m, d)" "i \<noteq> []" "list_all (\<lambda>m. smID m = i) ms" "k \<noteq> i" "k \<noteq> []"
  shows "live (foldl refresh s ms) k = live s k"
  using assms
proof (induction ms arbitrary: s m)
  case (Cons m' ms)
  have i: "smID m' = i" using Cons.prems(4) by simp
  have "ok (refresh s m')" "live (refresh s m') i = Some (m', d)" "live (refresh s m') k = live s k"
    using refresh_ok [of s m'] refresh_live [of s m' m d] refresh_other [of s m' k] Cons.prems i by auto
  with Cons show ?case by simp
qed simp

end

definition enqueueDir :: "spool_dir \<Rightarrow> spool_meta \<Rightarrow> bytes \<Rightarrow> spool_dir" where
  "enqueueDir s m d = fold fsStep (putSteps m d) s"

definition refreshDir :: "spool_dir \<Rightarrow> spool_meta \<Rightarrow> spool_dir" where
  "refreshDir s m = fold fsStep (updateSteps m) s"

definition dropDir :: "spool_dir \<Rightarrow> bytes \<Rightarrow> spool_dir" where
  "dropDir s i = fold fsStep (removeSteps i) s"

definition killDir :: "spool_dir \<Rightarrow> bytes \<Rightarrow> spool_dir" where
  "killDir s i = fold fsStep (deadSteps i) s"

lemmas dir_ops = enqueueDir_def refreshDir_def dropDir_def killDir_def
  putSteps_def updateSteps_def removeSteps_def deadSteps_def

lemma dir_ops_sound:
  "sound_dir s \<Longrightarrow> sound_dir (enqueueDir s m d)"
  "sound_dir s \<Longrightarrow> dataFiles s (smID m) \<noteq> None \<Longrightarrow> sound_dir (refreshDir s m)"
  "sound_dir s \<Longrightarrow> sound_dir (dropDir s i)"
  "sound_dir s \<Longrightarrow> sound_dir (killDir s i)"
  by (auto simp: dir_ops sound_dir_def split: option.splits if_splits)

lemma live_data: "sound_dir s \<Longrightarrow> i \<noteq> [] \<Longrightarrow> liveItem s i = Some (m, d) \<Longrightarrow> dataFiles s i = Some d \<and> smID m = i"
  by (cases "(jsonFiles s i, dataFiles s i)" rule: itemOf.cases) (auto simp: sound_live sound_dir_def)

lemma live_has_data: "sound_dir s \<Longrightarrow> i \<noteq> [] \<Longrightarrow> liveItem s i \<noteq> None \<Longrightarrow> dataFiles s i \<noteq> None"
  using live_data [of s i] by fastforce

interpretation spool: retry_queue liveItem sound_dir enqueueDir refreshDir dropDir killDir
proof unfold_locales
  fix s :: spool_dir and m m' d i k
  assume s: "sound_dir s"
  show "smID m \<noteq> [] \<Longrightarrow> sound_dir (enqueueDir s m d)" by (rule dir_ops_sound(1) [OF s])
  show "smID m \<noteq> [] \<Longrightarrow> liveItem (enqueueDir s m d) (smID m) = Some (m, d)"
    using sound_live [of "enqueueDir s m d" "smID m"] dir_ops_sound(1) [OF s, of m d] by (simp add: dir_ops)
  show "smID m \<noteq> [] \<Longrightarrow> k \<noteq> smID m \<Longrightarrow> k \<noteq> [] \<Longrightarrow> liveItem (enqueueDir s m d) k = liveItem s k"
    using sound_live [of "enqueueDir s m d" k] sound_live [OF s, of k] dir_ops_sound(1) [OF s, of m d] by (simp add: dir_ops)
  show "liveItem s (smID m) \<noteq> None \<Longrightarrow> smID m \<noteq> [] \<Longrightarrow> sound_dir (refreshDir s m)"
    by (rule dir_ops_sound(2) [OF s]) (rule live_has_data [OF s])
  show "liveItem s (smID m) = Some (m', d) \<Longrightarrow> smID m \<noteq> [] \<Longrightarrow> liveItem (refreshDir s m) (smID m) = Some (m, d)"
    using live_data [OF s, of "smID m" m' d] sound_live [of "refreshDir s m" "smID m"] dir_ops_sound(2) [OF s, of m]
    by (simp add: dir_ops)
  show "liveItem s (smID m) \<noteq> None \<Longrightarrow> k \<noteq> smID m \<Longrightarrow> smID m \<noteq> [] \<Longrightarrow> k \<noteq> [] \<Longrightarrow> liveItem (refreshDir s m) k = liveItem s k"
    using live_has_data [OF s, of "smID m"] sound_live [of "refreshDir s m" k] sound_live [OF s, of k] dir_ops_sound(2) [OF s, of m]
    by (auto simp: dir_ops)
  show "i \<noteq> [] \<Longrightarrow> sound_dir (dropDir s i)" by (rule dir_ops_sound(3) [OF s])
  show "i \<noteq> [] \<Longrightarrow> k \<noteq> [] \<Longrightarrow> liveItem (dropDir s i) k = (if k = i then None else liveItem s k)"
    using sound_live [of "dropDir s i" k] sound_live [OF s, of k] dir_ops_sound(3) [OF s, of i] by (simp add: dir_ops)
  show "i \<noteq> [] \<Longrightarrow> sound_dir (killDir s i)" by (rule dir_ops_sound(4) [OF s])
  show "i \<noteq> [] \<Longrightarrow> k \<noteq> [] \<Longrightarrow> liveItem (killDir s i) k = (if k = i then None else liveItem s k)"
    using sound_live [of "killDir s i" k] sound_live [OF s, of k] dir_ops_sound(4) [OF s, of i]
    by (auto simp: dir_ops split: option.splits)
qed

end
