(* ===== verification/Forward.thy ===== *)
theory Forward
  imports Transform Spool Ipp
begin

text \<open>
  The forwarder (\<^verbatim>\<open>forward.go\<close>): compiling the configured targets, teeing a job to every target
  whose condition holds, the three failure policies, and the retry workers. What a transport's
  \<^verbatim>\<open>send\<close> answers is an argument (\<open>None\<close> is success); so are the clock and the success of each
  file-system step. A worker is a goroutine of its own: delivering hands out the workers to start,
  and each is run against the list of the rounds it goes through.
\<close>

subsection \<open>Targets\<close>

record forward_retry =
  maxAttempts :: int
  backoffMS :: int
  ttlMin :: int

record forward_target =
  ftName :: bytes
  ftTransport :: bytes
  ftAddress :: bytes
  ftTimeoutMS :: int
  ftQueue :: bytes
  ftPrivPort :: bool
  ftTLSSkip :: bool
  ftDocFormat :: bytes
  ftWhen :: forward_cond
  ftFailure :: bytes
  ftRetry :: forward_retry
  ftTransforms :: "transform_step list"

record forward_conf =
  fwdEnabled :: bool
  fwdCapture :: bytes
  fwdMacros :: "bytes \<rightharpoonup> bytes"
  fwdTargets :: "forward_target list"

datatype transport = RawTransport | LprTransport | IppTransport

record ('re, 'net) target =
  tgName :: bytes
  tgTransport :: bytes
  tgAddress :: bytes
  tgTimeout :: int
  tgQueue :: bytes
  tgPrivPort :: bool
  tgTLSSkip :: bool
  tgDocFormat :: bytes
  tgWhen :: "('re, 'net) compiled_cond option"
  tgFailure :: bytes
  tgRetry :: forward_retry
  tgSteps :: "('re, 'net) compiled_step list"
  tgSend :: transport

record ('re, 'net) forwarder =
  fwCapture :: bytes
  fwMacros :: "bytes \<rightharpoonup> bytes"
  fwTargets :: "('re, 'net) target list"
  fwSpool :: "spool_store option"

definition transportFor :: "bytes \<Rightarrow> transport option" where
  "transportFor n =
     (if n = str ''raw'' then Some RawTransport
      else if n = str ''lpr'' then Some LprTransport
      else if n = str ''ipp'' \<or> n = str ''ipps'' then Some IppTransport
      else None)"

text \<open>One configured target; \<open>None\<close> is a target disabled with a warning.\<close>

definition compileTarget :: "('re, 'net) match_lib \<Rightarrow> (bytes \<rightharpoonup> bytes) \<Rightarrow> forward_target \<Rightarrow> ('re, 'net) target option" where
  "compileTarget L macros tc =
     (case transportFor (ftTransport tc) of None \<Rightarrow> None | Some tr \<Rightarrow>
      case compileCond L (ftWhen tc) of Inl e \<Rightarrow> None | Inr cond \<Rightarrow>
      case compileSteps L macros (ftTransforms tc) of Inl e \<Rightarrow> None | Inr steps \<Rightarrow>
      Some \<lparr>tgName = ftName tc, tgTransport = ftTransport tc, tgAddress = ftAddress tc,
            tgTimeout = ftTimeoutMS tc * 1000000, tgQueue = ftQueue tc, tgPrivPort = ftPrivPort tc,
            tgTLSSkip = ftTLSSkip tc, tgDocFormat = ftDocFormat tc, tgWhen = Some cond,
            tgFailure = orElse (ftFailure tc) (str ''best_effort''), tgRetry = ftRetry tc,
            tgSteps = steps, tgSend = tr\<rparr>)"

definition targetByName :: "('re, 'net) target list \<Rightarrow> bytes \<Rightarrow> ('re, 'net) target option" where
  "targetByName ts n = find (\<lambda>t. tgName t = n) ts"

datatype ('re, 'net) worker =
    DurableWorker "('re, 'net) target" spool_meta
  | MemoryWorker "('re, 'net) target" bytes spool_meta

text \<open>\<^verbatim>\<open>replaySpool\<close>: the workers resumed at the start; items of unknown targets stay on disk.\<close>

definition replaySpool :: "('re, 'net) target list \<Rightarrow> spool_store \<Rightarrow> bytes list \<Rightarrow> ('re, 'net) worker list" where
  "replaySpool ts s names = List.map_filter (\<lambda>m. map_option (\<lambda>t. DurableWorker t m) (targetByName ts (smTarget m)))
     (spoolLoad s names)"

definition newForwarder :: "('re, 'net) match_lib \<Rightarrow> forward_conf \<Rightarrow> spool_dir option \<Rightarrow> bytes list
    \<Rightarrow> ('re, 'net) forwarder \<times> ('re, 'net) worker list" where
  "newForwarder L c dir names =
     (let macros = (\<lambda>n. map_option (\<lambda>raw. decodeBytes raw Map.empty) (fwdMacros c n));
          ts = List.map_filter (compileTarget L macros) (fwdTargets c);
          sp = map_option newSpoolStore dir
      in (\<lparr>fwCapture = orElse (fwdCapture c) (str ''both''), fwMacros = macros, fwTargets = ts, fwSpool = sp\<rparr>,
          case sp of None \<Rightarrow> [] | Some s \<Rightarrow> replaySpool ts s names))"

subsection \<open>Delivering\<close>

definition resultOf :: "('re, 'net) target \<Rightarrow> bytes \<Rightarrow> string \<Rightarrow> bytes option \<Rightarrow> forward_result" where
  "resultOf t d status err =
     \<lparr>fr_target = tgName t, fr_transport = tgTransport t, fr_address = tgAddress t,
      fr_status = str status, fr_bytes = length d, fr_error = err\<rparr>"

definition recordResult :: "job \<Rightarrow> forward_result \<Rightarrow> job" where
  "recordResult j r = j\<lparr>jobForwards := jobForwards j @ [r]\<rparr>"

definition newMeta :: "int \<Rightarrow> ('re, 'net) target \<Rightarrow> job \<Rightarrow> spool_meta" where
  "newMeta now t j =
     \<lparr>smID = [], smTarget = tgName t, smAttempts = 0, smFirstSeen = now, smNextAttempt = now,
      smDeadline = (if ttlMin (tgRetry t) > 0 then Some (now + ttlMin (tgRetry t) * 60000000000) else None),
      smHost = jobHost j, smUser = jobUser j, smJobName = jobName j, smQueue = jobQueue j\<rparr>"

type_synonym ('re, 'net) send = "('re, 'net) target \<Rightarrow> bytes \<Rightarrow> job \<Rightarrow> bytes option"

text \<open>\<open>now\<close> is the clock in nanoseconds and \<open>oks\<close> the success of the two writes of \<^verbatim>\<open>put\<close>.\<close>

definition deliver :: "('re, 'net) send \<Rightarrow> nat \<Rightarrow> bool list \<Rightarrow> ('re, 'net) forwarder \<Rightarrow> ('re, 'net) target \<Rightarrow> bytes \<Rightarrow> job
    \<Rightarrow> ('re, 'net) forwarder \<times> job \<times> ('re, 'net) worker list \<times> bytes option" where
  "deliver send now oks f t d j =
     (if tgFailure t = str ''block'' then
        (case send t d j of
           Some e \<Rightarrow> (f, recordResult j (resultOf t d ''failed'' (Some e)), [], Some e)
         | None \<Rightarrow> (f, recordResult j (resultOf t d ''ok'' None), [], None))
      else if tgFailure t = str ''spool_retry'' then
        (let j1 = recordResult j (resultOf t d ''queued'' None);
             m = newMeta (int now) t j1
         in case fwSpool f of
              None \<Rightarrow> (f, j1, [MemoryWorker t d m], None)
            | Some s \<Rightarrow>
                (case spoolPut now oks s m d of (s1, m1, ok) \<Rightarrow>
                   (f\<lparr>fwSpool := Some s1\<rparr>, j1, [if ok then DurableWorker t m1 else MemoryWorker t d m1], None)))
      else
        (case send t d j of
           Some e \<Rightarrow> (f, recordResult j (resultOf t d ''failed'' (Some e)), [], None)
         | None \<Rightarrow> (f, recordResult j (resultOf t d ''ok'' None), [], None)))"

text \<open>The copy of the sent bytes \<^verbatim>\<open>captureTransformed\<close> writes: file name and content.\<close>

definition unsafeNameByte :: "byte \<Rightarrow> bool" where
  "unsafeNameByte c = (\<not> ((0x41 \<le> c \<and> c \<le> 0x5a) \<or> (0x61 \<le> c \<and> c \<le> 0x7a) \<or> (0x30 \<le> c \<and> c \<le> 0x39)
     \<or> c = 0x2e \<or> c = 0x5f \<or> c = 0x2d))"

text \<open>\<^verbatim>\<open>unsafeName.ReplaceAllString(s, "_")\<close>: each maximal run of other bytes becomes one underscore.\<close>

fun replaceUnsafeName :: "bool \<Rightarrow> bytes \<Rightarrow> bytes" where
  "replaceUnsafeName inRun [] = []"
| "replaceUnsafeName inRun (c # cs) =
     (if unsafeNameByte c then (if inRun then [] else [0x5f]) @ replaceUnsafeName True cs
      else c # replaceUnsafeName False cs)"

definition safeName :: "bytes \<Rightarrow> bytes" where
  "safeName s = replaceUnsafeName False s"

definition captureTransformed :: "bytes \<Rightarrow> job \<Rightarrow> bytes \<Rightarrow> bytes \<Rightarrow> (bytes \<times> bytes) list" where
  "captureTransformed mode j targetName d =
     (if mode = str ''orig'' \<or> captureBase j = [] then []
      else [(captureBase j @ str ''-sent-'' @ safeName targetName @ captureExt j, d)])"

text \<open>The environment of one job's round of deliveries: the clock and the spool's writes, per target.\<close>

record fwd_env =
  feNow :: "nat \<Rightarrow> nat"
  fePutOK :: "nat \<Rightarrow> bool list"

record ('re, 'net) fwd_state =
  fsForwarder :: "('re, 'net) forwarder"
  fsJob :: job
  fsWorkers :: "('re, 'net) worker list"
  fsWrites :: "(bytes \<times> bytes) list"
  fsBlockErr :: "bytes option"

definition forwardTarget :: "('re, 'net) match_lib \<Rightarrow> ('re \<Rightarrow> bytes \<Rightarrow> bytes \<Rightarrow> bytes) \<Rightarrow> ('re, 'net) send \<Rightarrow> fwd_env
    \<Rightarrow> bytes \<Rightarrow> ('re, 'net) fwd_state \<Rightarrow> nat \<times> ('re, 'net) target \<Rightarrow> ('re, 'net) fwd_state" where
  "forwardTarget L rr send env original st it =
     (case it of (i, t) \<Rightarrow>
      if tgWhen t \<noteq> None \<and> \<not> condMatches L (tgWhen t) (fsJob st) original then st
      else
        let out = applyTransforms L rr (tgSteps t) original (fsJob st);
            w = captureTransformed (fwCapture (fsForwarder st)) (fsJob st) (tgName t) out
        in case deliver send (feNow env i) (fePutOK env i) (fsForwarder st) t out (fsJob st) of
             (f1, j1, ws, err) \<Rightarrow>
               st\<lparr>fsForwarder := f1, fsJob := j1, fsWorkers := fsWorkers st @ ws, fsWrites := fsWrites st @ w,
                  fsBlockErr := (if err \<noteq> None \<and> tgFailure t = str ''block'' \<and> fsBlockErr st = None
                    then err else fsBlockErr st)\<rparr>)"

definition forwardJob :: "('re, 'net) match_lib \<Rightarrow> ('re \<Rightarrow> bytes \<Rightarrow> bytes \<Rightarrow> bytes) \<Rightarrow> ('re, 'net) send \<Rightarrow> fwd_env
    \<Rightarrow> ('re, 'net) forwarder \<Rightarrow> job \<Rightarrow> bytes \<Rightarrow> ('re, 'net) fwd_state" where
  "forwardJob L rr send env f j original =
     foldl (forwardTarget L rr send env original)
       \<lparr>fsForwarder = f, fsJob = j, fsWorkers = [], fsWrites = [], fsBlockErr = None\<rparr>
       (zip [0..<length (fwTargets f)] (fwTargets f))"

subsection \<open>The retry workers\<close>

definition retryLimits :: "forward_retry \<Rightarrow> nat \<times> int" where
  "retryLimits r =
     (if maxAttempts r \<le> 0 then 3 else nat (maxAttempts r),
      if backoffMS r * 1000000 \<le> 0 then 2000000000 else backoffMS r * 1000000)"

definition jobFromMeta :: "spool_meta \<Rightarrow> job" where
  "jobFromMeta m = blankJob\<lparr>jobHost := smHost m, jobUser := smUser m, jobName := smJobName m, jobQueue := smQueue m\<rparr>"

text \<open>
  One round of a worker: the clock at the deadline check, what the transport answers, the clock
  afterwards, the success of the file operations of each kind, and whether the shutdown comes
  during the wait.
\<close>

record retry_round =
  rdNow :: int
  rdSend :: "bytes option"
  rdAfter :: int
  rdUpdateOK :: "bool list"
  rdEndOK :: "bool list"
  rdStop :: bool

datatype retry_outcome = Delivered | DeadLettered | Stopped | Waiting

definition expired :: "spool_meta \<Rightarrow> int \<Rightarrow> bool" where
  "expired m now = (case smDeadline m of None \<Rightarrow> False | Some dl \<Rightarrow> now > dl)"

text \<open>The loop of \<^verbatim>\<open>retryLoopPersisted\<close>; the number counts the calls of \<^verbatim>\<open>send\<close>. Where the rounds given
  run out the worker is still waiting (or the process was killed there).\<close>

fun retryRounds :: "nat \<Rightarrow> int \<Rightarrow> spool_store \<Rightarrow> spool_meta \<Rightarrow> retry_round list
    \<Rightarrow> spool_store \<times> spool_meta \<times> nat \<times> retry_outcome" where
  "retryRounds mx backoff s m [] = (s, m, 0, Waiting)"
| "retryRounds mx backoff s m (r # rs) =
     (if expired m (rdNow r) then (fst (spoolDeadLetter (rdEndOK r) s (smID m)), m, 0, DeadLettered)
      else if rdSend r = None then (fst (spoolRemove (rdEndOK r) s (smID m)), m, 1, Delivered)
      else
        let m1 = m\<lparr>smAttempts := smAttempts m + 1, smNextAttempt := rdAfter r + backoff\<rparr>;
            s1 = fst (spoolUpdate (rdUpdateOK r) s m1)
        in if smAttempts m1 \<ge> mx then (fst (spoolDeadLetter (rdEndOK r) s1 (smID m1)), m1, 1, DeadLettered)
           else if rdStop r then (s1, m1, 1, Stopped)
           else (case retryRounds mx backoff s1 m1 rs of (s2, m2, n, out) \<Rightarrow> (s2, m2, n + 1, out)))"

text \<open>\<open>stop0\<close>: the shutdown comes while the worker sleeps until the next attempt is due.\<close>

definition retryLoopPersisted :: "forward_retry \<Rightarrow> bool \<Rightarrow> bool list \<Rightarrow> spool_store \<Rightarrow> spool_meta \<Rightarrow> retry_round list
    \<Rightarrow> spool_store \<times> spool_meta \<times> nat \<times> retry_outcome" where
  "retryLoopPersisted rt stop0 oks s m rounds =
     (case retryLimits rt of (mx, backoff) \<Rightarrow>
      case spoolPayload s (smID m) of
        None \<Rightarrow> (fst (spoolDeadLetter oks s (smID m)), m, 0, DeadLettered)
      | Some payload \<Rightarrow> if stop0 then (s, m, 0, Stopped) else retryRounds mx backoff s m rounds)"

fun memRounds :: "nat \<Rightarrow> spool_meta \<Rightarrow> retry_round list \<Rightarrow> nat \<times> retry_outcome" where
  "memRounds 0 m rs = (0, DeadLettered)"
| "memRounds (Suc k) m [] = (0, Waiting)"
| "memRounds (Suc k) m (r # rs) =
     (if expired m (rdNow r) then (0, DeadLettered)
      else if rdSend r = None then (1, Delivered)
      else if rdStop r then (1, Stopped)
      else (case memRounds k m rs of (n, out) \<Rightarrow> (n + 1, out)))"

definition retryLoopMem :: "forward_retry \<Rightarrow> spool_meta \<Rightarrow> retry_round list \<Rightarrow> nat \<times> retry_outcome" where
  "retryLoopMem rt m rounds = memRounds (fst (retryLimits rt)) m rounds"

section \<open>Correctness\<close>

subsection \<open>Every target is served and reported\<close>

text \<open>Neither the conditions nor the transforms look at the results recorded so far.\<close>

lemma condMatches_forwards [simp]: "condMatches L c (j\<lparr>jobForwards := fs\<rparr>) d = condMatches L c j d"
  by (cases c) (simp_all add: condMatches_def)

lemma applyTransforms_forwards [simp]: "applyTransforms L rr steps d (j\<lparr>jobForwards := fs\<rparr>) = applyTransforms L rr steps d j"
  unfolding applyTransforms_def applyStep_def condMatches_forwards ..

lemma condMatches_None [simp]: "condMatches L None j d"
  by (simp add: condMatches_def)

definition reported :: "('re, 'net) match_lib \<Rightarrow> ('re \<Rightarrow> bytes \<Rightarrow> bytes \<Rightarrow> bytes) \<Rightarrow> ('re, 'net) send \<Rightarrow> bytes \<Rightarrow> job
    \<Rightarrow> ('re, 'net) target \<Rightarrow> forward_result" where
  "reported L rr send original j t =
     (let out = applyTransforms L rr (tgSteps t) original j in
      if tgFailure t = str ''spool_retry'' then resultOf t out ''queued'' None
      else case send t out j of Some e \<Rightarrow> resultOf t out ''failed'' (Some e) | None \<Rightarrow> resultOf t out ''ok'' None)"

definition blockError :: "('re, 'net) match_lib \<Rightarrow> ('re \<Rightarrow> bytes \<Rightarrow> bytes \<Rightarrow> bytes) \<Rightarrow> ('re, 'net) send \<Rightarrow> bytes \<Rightarrow> job
    \<Rightarrow> ('re, 'net) target \<Rightarrow> bytes option" where
  "blockError L rr send original j t =
     (if tgFailure t = str ''block'' then send t (applyTransforms L rr (tgSteps t) original j) j else None)"

definition firstError :: "bytes option list \<Rightarrow> bytes option" where
  "firstError es = (case List.map_filter (\<lambda>e. e) es of [] \<Rightarrow> None | e # _ \<Rightarrow> Some e)"

lemma firstError_simps:
  "firstError [] = None" "firstError (None # es) = firstError es" "firstError (Some e # es) = Some e"
  by (simp_all add: firstError_def map_filter_simps)

lemma deliver_reports:
  assumes "\<And>t d j fs. send t d (j\<lparr>jobForwards := fs\<rparr>) = send t d j"
  shows "deliver send now oks f t (applyTransforms L rr (tgSteps t) original j) (j\<lparr>jobForwards := fs\<rparr>) = (f', j', ws, err)
    \<Longrightarrow> j' = j\<lparr>jobForwards := fs @ [reported L rr send original j t]\<rparr> \<and> err = blockError L rr send original j t"
proof -
  have ne: "str ''block'' \<noteq> str ''spool_retry''" by (simp add: str_def)
  assume "deliver send now oks f t (applyTransforms L rr (tgSteps t) original j) (j\<lparr>jobForwards := fs\<rparr>) = (f', j', ws, err)"
  then show ?thesis
    using ne by (auto simp: deliver_def reported_def blockError_def recordResult_def Let_def assms
        split: if_splits option.splits prod.splits)
qed

lemma forward_fold:
  assumes send: "\<And>t d j fs. send t d (j\<lparr>jobForwards := fs\<rparr>) = send t d j"
    and "fsJob st = j\<lparr>jobForwards := fs\<rparr>"
  shows "let st' = foldl (forwardTarget L rr send env original) st its;
             ts = filter (\<lambda>t. condMatches L (tgWhen t) j original) (map snd its)
         in fsJob st' = j\<lparr>jobForwards := fs @ map (reported L rr send original j) ts\<rparr>
           \<and> fsBlockErr st' = (case fsBlockErr st of Some e \<Rightarrow> Some e
               | None \<Rightarrow> firstError (map (blockError L rr send original j) ts))"
  using assms(2)
proof (induction its arbitrary: st fs)
  case Nil
  then show ?case by (simp add: firstError_simps split: option.split)
next
  case (Cons it its)
  obtain i t where it: "it = (i, t)" by (cases it)
  show ?case
  proof (cases "condMatches L (tgWhen t) j original")
    case False
    then have "tgWhen t \<noteq> None" by (cases "tgWhen t") simp_all
    with False have "forwardTarget L rr send env original st it = st"
      by (simp add: forwardTarget_def it Cons.prems)
    then show ?thesis using Cons.IH [OF Cons.prems] False by (simp add: it)
  next
    case True
    define st1 where "st1 = forwardTarget L rr send env original st it"
    obtain f' j' ws err where d: "deliver send (feNow env i) (fePutOK env i) (fsForwarder st) t
        (applyTransforms L rr (tgSteps t) original j) (j\<lparr>jobForwards := fs\<rparr>) = (f', j', ws, err)"
      by (metis prod.exhaust)
    note r = deliver_reports [OF send d]
    have blk: "err \<noteq> None \<Longrightarrow> tgFailure t = str ''block''"
      using r by (auto simp: blockError_def split: if_splits)
    have "st1 = st\<lparr>fsForwarder := f', fsJob := j', fsWorkers := fsWorkers st @ ws,
        fsWrites := fsWrites st @ captureTransformed (fwCapture (fsForwarder st)) (fsJob st) (tgName t)
          (applyTransforms L rr (tgSteps t) original j),
        fsBlockErr := (if err \<noteq> None \<and> tgFailure t = str ''block'' \<and> fsBlockErr st = None then err else fsBlockErr st)\<rparr>"
      using True unfolding st1_def by (simp add: forwardTarget_def it Cons.prems Let_def d)
    then have j1: "fsJob st1 = j\<lparr>jobForwards := fs @ [reported L rr send original j t]\<rparr>"
      and b1: "fsBlockErr st1 = (if err \<noteq> None \<and> tgFailure t = str ''block'' \<and> fsBlockErr st = None then err else fsBlockErr st)"
      using r by simp_all
    have e1: "fsBlockErr st1 = (case fsBlockErr st of Some e \<Rightarrow> Some e | None \<Rightarrow> err)"
      using blk unfolding b1 by (cases err; cases "fsBlockErr st") simp_all
    have st1: "foldl (forwardTarget L rr send env original) st (it # its)
        = foldl (forwardTarget L rr send env original) st1 its" by (simp add: st1_def)
    have fl: "filter (\<lambda>t. condMatches L (tgWhen t) j original) (map snd (it # its))
        = t # filter (\<lambda>t. condMatches L (tgWhen t) j original) (map snd its)"
      using True by (simp add: it)
    have "err = blockError L rr send original j t" using r by blast
    then show ?thesis
      using Cons.IH [OF j1] e1 unfolding st1 fl Let_def
      by (cases "fsBlockErr st"; cases "blockError L rr send original j t") (simp_all add: firstError_simps)
  qed
qed

lemma map_snd_zip_upt: "map snd (zip [0..<length xs] xs) = xs"
  by simp


definition demoTarget :: "(bytes, bytes) target" where
  "demoTarget = \<lparr>tgName = str ''t'', tgTransport = str ''raw'', tgAddress = [], tgTimeout = 0, tgQueue = [],
     tgPrivPort = False, tgTLSSkip = False, tgDocFormat = [], tgWhen = None, tgFailure = str ''block'',
     tgRetry = \<lparr>maxAttempts = 2, backoffMS = 1, ttlMin = 0\<rparr>, tgSteps = [], tgSend = RawTransport\<rparr>"

definition demoForwarder :: "(bytes, bytes) forwarder" where
  "demoForwarder = \<lparr>fwCapture = str ''both'', fwMacros = Map.empty, fwTargets = [demoTarget], fwSpool = None\<rparr>"


text \<open>Whatever the transports do, forwarding changes only the results recorded on the job, and the
  copies it writes are named after the job's own base name.\<close>

definition sentName :: "job \<Rightarrow> bytes \<Rightarrow> bool" where
  "sentName j n \<longleftrightarrow> (\<exists>x. n = captureBase j @ str ''-sent-'' @ x @ captureExt j)"

lemma deliver_job: "deliver send now oks f t d j = (f', j', ws, err) \<Longrightarrow> \<exists>fs. j' = j\<lparr>jobForwards := fs\<rparr>"
  by (auto simp: deliver_def recordResult_def Let_def split: if_splits option.splits prod.splits)

lemma forwardTarget_frame:
  "(\<exists>fs. fsJob (forwardTarget L rr send env original st it) = (fsJob st)\<lparr>jobForwards := fs\<rparr>)
    \<and> (\<forall>w\<in>set (fsWrites (forwardTarget L rr send env original st it)) - set (fsWrites st). sentName (fsJob st) (fst w))"
proof -
  obtain i t where it: "it = (i, t)" by (cases it)
  let ?out = "applyTransforms L rr (tgSteps t) original (fsJob st)"
  obtain f' j' ws err where d: "deliver send (feNow env i) (fePutOK env i) (fsForwarder st) t ?out (fsJob st) = (f', j', ws, err)"
    by (metis prod.exhaust)
  obtain fs where j': "j' = (fsJob st)\<lparr>jobForwards := fs\<rparr>" using deliver_job [OF d] by blast
  show ?thesis
  proof (cases "tgWhen t \<noteq> None \<and> \<not> condMatches L (tgWhen t) (fsJob st) original")
    case True
    then have "forwardTarget L rr send env original st it = st" by (simp add: forwardTarget_def it)
    then show ?thesis by (auto intro: exI [of _ "jobForwards (fsJob st)"])
  next
    case False
    then have "fsJob (forwardTarget L rr send env original st it) = (fsJob st)\<lparr>jobForwards := fs\<rparr>"
      "fsWrites (forwardTarget L rr send env original st it)
        = fsWrites st @ captureTransformed (fwCapture (fsForwarder st)) (fsJob st) (tgName t) ?out"
      unfolding forwardTarget_def it prod.case Let_def d if_not_P [OF False] by (simp_all add: j')
    then show ?thesis by (auto simp: captureTransformed_def sentName_def)
  qed
qed

lemma forward_frame:
  "(\<exists>fs. fsJob (foldl (forwardTarget L rr send env original) st its) = (fsJob st)\<lparr>jobForwards := fs\<rparr>)
    \<and> (\<forall>w\<in>set (fsWrites (foldl (forwardTarget L rr send env original) st its)) - set (fsWrites st). sentName (fsJob st) (fst w))"
proof (induction its arbitrary: st)
  case Nil
  have "fsJob st = (fsJob st)\<lparr>jobForwards := jobForwards (fsJob st)\<rparr>" by simp
  then show ?case by (metis Diff_cancel empty_iff foldl_Nil)
next
  case (Cons it its)
  define st1 where "st1 = forwardTarget L rr send env original st it"
  obtain fs where j1: "fsJob st1 = (fsJob st)\<lparr>jobForwards := fs\<rparr>"
    using forwardTarget_frame unfolding st1_def by blast
  have w1: "\<forall>w\<in>set (fsWrites st1) - set (fsWrites st). sentName (fsJob st) (fst w)"
    using forwardTarget_frame unfolding st1_def by blast
  have n1: "sentName (fsJob st1) n = sentName (fsJob st) n" for n by (simp add: sentName_def j1)
  have fl: "foldl (forwardTarget L rr send env original) st (it # its) = foldl (forwardTarget L rr send env original) st1 its"
    by (simp add: st1_def)
  obtain fs' where j2: "fsJob (foldl (forwardTarget L rr send env original) st1 its) = (fsJob st1)\<lparr>jobForwards := fs'\<rparr>"
    using Cons.IH [of st1] by blast
  have "fsJob (foldl (forwardTarget L rr send env original) st1 its) = (fsJob st)\<lparr>jobForwards := fs'\<rparr>"
    unfolding j2 j1 by simp
  moreover have "\<forall>w\<in>set (fsWrites (foldl (forwardTarget L rr send env original) st1 its)) - set (fsWrites st).
      sentName (fsJob st) (fst w)"
    using Cons.IH [of st1] w1 unfolding n1 by blast
  ultimately show ?case unfolding fl by blast
qed

lemma forwardJob_frame:
  "\<exists>fs. fsJob (forwardJob L rr send env f j original) = j\<lparr>jobForwards := fs\<rparr>"
  "w \<in> set (fsWrites (forwardJob L rr send env f j original)) \<Longrightarrow> sentName j (fst w)"
  using forward_frame [of L rr send env original "\<lparr>fsForwarder = f, fsJob = j, fsWorkers = [], fsWrites = [], fsBlockErr = None\<rparr>"]
  by (simp_all add: forwardJob_def)

text \<open>What a spooled job loses: the metadata of the queue has no document format, so a retried IPP
  delivery advertises the default format whatever the job's was.\<close>

lemma retried_job_loses_format:
  "ippRequest address [] (jobFromMeta (newMeta now t j)) d
     = ippRequest address (str ''application/octet-stream'') (jobFromMeta (newMeta now t j)) d"
  by (simp add: ippRequest_def jobFromMeta_def blankJob_def orElse_def str_def)

end
