(* ===== verification/Retry.thy ===== *)
theory Retry
  imports Forward
begin

text \<open>
  The retry worker over restarts (\<^verbatim>\<open>retryLoopPersisted\<close> of \<^verbatim>\<open>forward.go\<close> with the store of
  \<^verbatim>\<open>fwd_spool.go\<close>): each session of the process loads the queue and resumes the item's worker, which
  may be stopped by a shutdown or killed, and whose file operations may fail. No session loses the
  payload unless it delivered it, and without faults the number of attempts is bounded over all
  sessions together.
\<close>

section \<open>Sessions\<close>

text \<open>One session, as one item sees it: whether the shutdown comes before its first attempt is due,
  the success of the file operations of an early end, and the rounds of the worker.\<close>

record session =
  seStop0 :: bool
  seOK :: "bool list"
  seRounds :: "retry_round list"

text \<open>The item \<open>i\<close> in one session of the process; \<open>None\<close> where the item is not loaded.\<close>

definition runSession :: "forward_retry \<Rightarrow> bytes \<Rightarrow> spool_dir \<Rightarrow> session \<Rightarrow> spool_dir \<times> (nat \<times> retry_outcome) option" where
  "runSession rt i dir se =
     (case loadItem dir i of
        None \<Rightarrow> (dir, None)
      | Some m \<Rightarrow> (case retryLoopPersisted rt (seStop0 se) (seOK se) (newSpoolStore dir) m (seRounds se) of
          (s, m', n, out) \<Rightarrow> (spDir s, Some (n, out))))"

fun runSessions :: "forward_retry \<Rightarrow> bytes \<Rightarrow> spool_dir \<Rightarrow> session list \<Rightarrow> spool_dir \<times> (nat \<times> retry_outcome) option list" where
  "runSessions rt i dir [] = (dir, [])"
| "runSessions rt i dir (se # ses) =
     (case runSession rt i dir se of (dir1, r) \<Rightarrow>
      case runSessions rt i dir1 ses of (dir2, rs) \<Rightarrow> (dir2, r # rs))"

section \<open>The payload is never lost\<close>

text \<open>The item's payload is in the queue or among the dead letters, and its metadata, where there is
  any, names it.\<close>

definition payloadKept :: "bytes \<Rightarrow> bytes \<Rightarrow> spool_dir \<Rightarrow> bool" where
  "payloadKept i d s \<longleftrightarrow>
     (dataFiles s i = Some d \<or> (dataFiles s i = None \<and> deadData s i = Some d))
     \<and> (\<forall>m. jsonFiles s i = Some (Some m) \<longrightarrow> smID m = i)"

lemma kept_step:
  "payloadKept i d s \<Longrightarrow> x \<in> {KillMeta i, KillData i} \<or> (\<exists>m. x = WriteMeta (smID m) m \<and> smID m = i) \<Longrightarrow>
     payloadKept i d (fsStep x s)"
  by (auto simp: payloadKept_def split: option.splits)

lemma kept_runBoth:
  "payloadKept i d s \<Longrightarrow> set xs \<subseteq> {KillMeta i, KillData i} \<Longrightarrow> payloadKept i d (fst (runBoth xs oks s))"
  by (induction xs oks s rule: runBoth.induct) (auto simp: kept_step simp del: fsStep.simps split: prod.splits)

lemma kept_dead: "payloadKept i d (spDir s) \<Longrightarrow> payloadKept i d (spDir (fst (spoolDeadLetter oks s i)))"
  using kept_runBoth [of i d "spDir s" "deadSteps i" oks]
  by (auto simp: spoolDeadLetter_def deadSteps_def split: prod.split)

lemma kept_update: "payloadKept i d (spDir s) \<Longrightarrow> smID m = i \<Longrightarrow> payloadKept i d (spDir (fst (spoolUpdate oks s m)))"
  using kept_step [of i d "spDir s" "WriteMeta (smID m) m"]
  by (cases oks) (auto simp: spoolUpdate_def updateSteps_def split: prod.split)

text \<open>The metadata after a failed attempt, and one round of the worker by cases.\<close>

definition nextTry :: "int \<Rightarrow> retry_round \<Rightarrow> spool_meta \<Rightarrow> spool_meta" where
  "nextTry b r m = m\<lparr>smAttempts := smAttempts m + 1, smNextAttempt := rdAfter r + b\<rparr>"

lemma nextTry_simps [simp]: "smID (nextTry b r m) = smID m" "smAttempts (nextTry b r m) = Suc (smAttempts m)"
  by (simp_all add: nextTry_def)

lemma retryRounds_round:
  "retryRounds mx b s m (r # rs) =
     (if expired m (rdNow r) then (fst (spoolDeadLetter (rdEndOK r) s (smID m)), m, 0, DeadLettered)
      else if rdSend r = None then (fst (spoolRemove (rdEndOK r) s (smID m)), m, 1, Delivered)
      else if mx \<le> Suc (smAttempts m) then
        (fst (spoolDeadLetter (rdEndOK r) (fst (spoolUpdate (rdUpdateOK r) s (nextTry b r m))) (smID m)), nextTry b r m, 1, DeadLettered)
      else if rdStop r then (fst (spoolUpdate (rdUpdateOK r) s (nextTry b r m)), nextTry b r m, 1, Stopped)
      else (case retryRounds mx b (fst (spoolUpdate (rdUpdateOK r) s (nextTry b r m))) (nextTry b r m) rs of
          (s2, m2, n, out) \<Rightarrow> (s2, m2, n + 1, out)))"
  by (simp add: nextTry_def Let_def)

declare retryRounds.simps(2) [simp del]

lemma kept_rounds:
  "payloadKept i d (spDir s) \<Longrightarrow> smID m = i \<Longrightarrow> retryRounds mx b s m rs = (s', m', n, out) \<Longrightarrow> out \<noteq> Delivered \<Longrightarrow>
     payloadKept i d (spDir s')"
proof (induction rs arbitrary: s m s' m' n out)
  case (Cons r rs)
  define s1 where "s1 = fst (spoolUpdate (rdUpdateOK r) s (nextTry b r m))"
  have m1: "smID (nextTry b r m) = i" using Cons.prems(2) by simp
  have k1: "payloadKept i d (spDir s1)" unfolding s1_def by (rule kept_update [OF Cons.prems(1) m1])
  obtain s2 m2 n2 out2 where rec: "retryRounds mx b s1 (nextTry b r m) rs = (s2, m2, n2, out2)" by (metis prod_cases4)
  show ?case
    using Cons.prems(3) [unfolded retryRounds_round, folded s1_def, unfolded rec]
      kept_dead [OF Cons.prems(1)] kept_dead [OF k1] k1 Cons.IH [OF k1 m1 rec] Cons.prems(2,4)
    by (auto split: if_splits)
qed simp

lemma kept_session:
  assumes "payloadKept i d dir" "i \<noteq> []" "runSession rt i dir se = (dir', r)" "\<And>n. r \<noteq> Some (n, Delivered)"
  shows "payloadKept i d dir'"
proof (cases "loadItem dir i")
  case (Some m)
  have m: "smID m = i"
    using Some assms(1,2) by (auto simp: loadItem_def payloadKept_def Let_def split: option.splits if_splits)
  obtain s m' n out where l: "retryLoopPersisted rt (seStop0 se) (seOK se) (newSpoolStore dir) m (seRounds se) = (s, m', n, out)"
    by (metis prod_cases4)
  have o: "out \<noteq> Delivered" "dir' = spDir s" using assms(3,4) Some l by (auto simp: runSession_def)
  have k: "payloadKept i d (spDir (newSpoolStore dir))" using assms(1) by (simp add: newSpoolStore_def)
  obtain mx b where lim: "retryLimits rt = (mx, b)" by (cases "retryLimits rt")
  show ?thesis
    using l o k m kept_rounds [OF k m _ o(1)] kept_dead [OF k] unfolding retryLoopPersisted_def lim
    by (auto split: option.splits if_splits)
qed (use assms in \<open>simp add: runSession_def\<close>)

lemma kept_sessions:
  assumes "payloadKept i d dir" "i \<noteq> []" "runSessions rt i dir ses = (dir', rs)" "\<And>n. Some (n, Delivered) \<notin> set rs"
  shows "payloadKept i d dir'"
  using assms
proof (induction ses arbitrary: dir dir' rs)
  case (Cons se ses)
  obtain dir1 r where r: "runSession rt i dir se = (dir1, r)" by (cases "runSession rt i dir se")
  obtain dir2 rs1 where rs: "runSessions rt i dir1 ses = (dir2, rs1)" by (cases "runSessions rt i dir1 ses")
  have eqs: "rs = r # rs1" "dir' = dir2" using Cons.prems(3) r rs by simp_all
  have "payloadKept i d dir1"
    using kept_session [OF Cons.prems(1,2) r] Cons.prems(4) unfolding eqs(1) by (metis list.set_intros(1))
  then show ?case
    unfolding eqs(2) by (rule Cons.IH [OF _ Cons.prems(2) rs]) (use Cons.prems(4) in \<open>simp add: eqs(1)\<close>)
qed simp

text \<open>An item \<^verbatim>\<open>put\<close> accepted.\<close>

lemma spoolID_nonempty: "spoolID a b \<noteq> []"
  by (simp add: spoolID_def)

lemma put_accepted:
  assumes "spoolPut nanos oks s m d = (s1, m1, True)" "smID m = []"
  shows "jsonFiles (spDir s1) (smID m1) = Some (Some m1) \<and> dataFiles (spDir s1) (smID m1) = Some d
    \<and> smID m1 \<noteq> [] \<and> m1 = m\<lparr>smID := smID m1\<rparr>"
  using assms
  by (cases oks; cases "tl oks")
    (auto simp: spoolPut_def putSteps_def Let_def spoolID_nonempty split: prod.splits if_splits)

text \<open>C3: A queued job is never lost. Once \<^verbatim>\<open>put\<close> has accepted an item, then over any number of
  sessions, with shutdowns, kills and failing file operations anywhere, either some session's worker
  got the payload delivered, or the payload is still on disk, in the queue or among the dead letters.\<close>

theorem queued_job_never_lost:
  assumes "spoolPut nanos oks s m d = (s1, m1, True)" "smID m = []"
    and "runSessions rt (smID m1) (spDir s1) ses = (dir, rs)" "\<forall>n. Some (n, Delivered) \<notin> set rs"
  shows "dataFiles dir (smID m1) = Some d \<or> deadData dir (smID m1) = Some d"
proof -
  note a = put_accepted [OF assms(1,2)]
  then have "payloadKept (smID m1) d (spDir s1)" by (simp add: payloadKept_def)
  from kept_sessions [OF this _ assms(3)] a assms(4) have "payloadKept (smID m1) d dir" by blast
  then show ?thesis by (auto simp: payloadKept_def)
qed

section \<open>The attempts are bounded\<close>

definition faultless :: "session \<Rightarrow> bool" where
  "faultless se \<longleftrightarrow> list_all (\<lambda>b. b) (seOK se)
     \<and> list_all (\<lambda>r. list_all (\<lambda>b. b) (rdUpdateOK r) \<and> list_all (\<lambda>b. b) (rdEndOK r)) (seRounds se)"

definition finished :: "retry_outcome \<Rightarrow> bool" where
  "finished out \<longleftrightarrow> out = Delivered \<or> out = DeadLettered"

text \<open>The item as the queue holds it while it is being retried.\<close>

definition queued :: "bytes \<Rightarrow> spool_meta \<Rightarrow> bytes \<Rightarrow> spool_dir \<Rightarrow> bool" where
  "queued i m d s \<longleftrightarrow> jsonFiles s i = Some (Some m) \<and> dataFiles s i = Some d \<and> smID m = i"

lemma queued_load: "queued i m d s \<Longrightarrow> i \<noteq> [] \<Longrightarrow> loadItem s i = Some m"
  by (simp add: queued_def loadItem_def)

lemma faultless_ops:
  "list_all (\<lambda>b. b) oks \<Longrightarrow> jsonFiles (spDir (fst (spoolDeadLetter oks s i))) i = None"
  "list_all (\<lambda>b. b) oks \<Longrightarrow> jsonFiles (spDir (fst (spoolRemove oks s i))) i = None"
  "list_all (\<lambda>b. b) oks \<Longrightarrow> queued i m0 d (spDir s) \<Longrightarrow> smID m = i \<Longrightarrow> queued i m d (spDir (fst (spoolUpdate oks s m)))"
  by (auto simp: spoolDeadLetter_def spoolRemove_def spoolUpdate_def deadSteps_def removeSteps_def updateSteps_def
      runBoth_ok runUntil_ok queued_def split: option.split)

lemma rounds_bounded:
  "queued i m d (spDir s) \<Longrightarrow> smAttempts m < mx \<Longrightarrow>
   list_all (\<lambda>r. list_all (\<lambda>b. b) (rdUpdateOK r) \<and> list_all (\<lambda>b. b) (rdEndOK r)) rs \<Longrightarrow>
   retryRounds mx b s m rs = (s', m', n, out) \<Longrightarrow>
     n + smAttempts m \<le> mx
     \<and> (if finished out then jsonFiles (spDir s') i = None
        else queued i m' d (spDir s') \<and> smAttempts m' = smAttempts m + n \<and> smAttempts m' < mx)
     \<and> (list_all (\<lambda>r. \<not> rdStop r) rs \<and> mx \<le> smAttempts m + length rs \<longrightarrow> finished out)"
proof (induction rs arbitrary: s m s' m' n out)
  case Nil
  then show ?case by (auto simp: finished_def)
next
  case (Cons r rs)
  have id: "smID m = i" using Cons.prems(1) by (simp add: queued_def)
  define s1 where "s1 = fst (spoolUpdate (rdUpdateOK r) s (nextTry b r m))"
  have m1: "smID (nextTry b r m) = i" by (simp add: id)
  have q1: "queued i (nextTry b r m) d (spDir s1)"
    unfolding s1_def using faultless_ops(3) [OF _ Cons.prems(1) m1] Cons.prems(3) by simp
  note step = Cons.prems(4) [unfolded retryRounds_round, folded s1_def]
  consider (e) "expired m (rdNow r)" | (d) "\<not> expired m (rdNow r)" "rdSend r = None"
    | (g) "\<not> expired m (rdNow r)" "rdSend r \<noteq> None" "mx \<le> smAttempts m + 1"
    | (st) "\<not> expired m (rdNow r)" "rdSend r \<noteq> None" "smAttempts m + 1 < mx" "rdStop r"
    | (go) "\<not> expired m (rdNow r)" "rdSend r \<noteq> None" "smAttempts m + 1 < mx" "\<not> rdStop r"
    by linarith
  then show ?case
  proof cases
    case e
    then show ?thesis using Cons.prems(2,3) step by (auto simp: finished_def faultless_ops id)
  next
    case d
    then show ?thesis using Cons.prems(2,3) step by (auto simp: finished_def faultless_ops id)
  next
    case g
    then show ?thesis using Cons.prems(2,3) step by (auto simp: finished_def faultless_ops id)
  next
    case st
    then show ?thesis using step q1 by (auto simp: finished_def)
  next
    case go
    obtain s2 m2 n2 out2 where rec: "retryRounds mx b s1 (nextTry b r m) rs = (s2, m2, n2, out2)" by (metis prod_cases4)
    have eqs: "s' = s2" "m' = m2" "n = n2 + 1" "out = out2" using go step rec by auto
    show ?thesis
      using Cons.IH [OF q1 _ _ rec] go(3) Cons.prems(3) unfolding eqs by auto
  qed
qed

lemma retryLimits_pos: "0 < fst (retryLimits rt)"
  by (simp add: retryLimits_def)

definition sends :: "(nat \<times> retry_outcome) option list \<Rightarrow> nat" where
  "sends rs = sum_list (map (\<lambda>r. case r of None \<Rightarrow> 0 | Some (n, out) \<Rightarrow> n) rs)"

lemma session_bounded:
  assumes "queued i m d dir" "i \<noteq> []" "smAttempts m < fst (retryLimits rt)" "faultless se"
    and "runSession rt i dir se = (dir', r)"
  shows "\<exists>n out. r = Some (n, out) \<and> n + smAttempts m \<le> fst (retryLimits rt)
    \<and> (if finished out then jsonFiles dir' i = None
       else \<exists>m'. queued i m' d dir' \<and> smAttempts m' = smAttempts m + n \<and> smAttempts m' < fst (retryLimits rt))
    \<and> (\<not> seStop0 se \<and> list_all (\<lambda>r. \<not> rdStop r) (seRounds se) \<and> fst (retryLimits rt) \<le> smAttempts m + length (seRounds se)
         \<longrightarrow> finished out)"
proof -
  obtain mx b where lim: "retryLimits rt = (mx, b)" by (cases "retryLimits rt")
  have q: "queued i m d (spDir (newSpoolStore dir))" and id: "smID m = i"
    using assms(1) by (simp_all add: newSpoolStore_def queued_def)
  have pay: "spoolPayload (newSpoolStore dir) (smID m) = Some d" using q id by (simp add: spoolPayload_def queued_def)
  show ?thesis
  proof (cases "seStop0 se")
    case True
    then have "dir' = spDir (newSpoolStore dir)" "r = Some (0, Stopped)"
      using assms(5) by (simp_all add: runSession_def queued_load [OF assms(1,2)] retryLoopPersisted_def lim pay)
    then show ?thesis using True q assms(3) by (auto simp: finished_def)
  next
    case False
    obtain s' m' n out where rr: "retryRounds mx b (newSpoolStore dir) m (seRounds se) = (s', m', n, out)" by (metis prod_cases4)
    have "dir' = spDir s'" "r = Some (n, out)"
      using assms(5) False rr by (simp_all add: runSession_def queued_load [OF assms(1,2)] retryLoopPersisted_def lim pay)
    moreover have "smAttempts m < mx" using assms(3) lim by simp
    moreover note rounds_bounded [OF q this _ rr]
    ultimately show ?thesis using assms(4) False lim by (auto simp: faultless_def)
  qed
qed

lemma unloaded_sessions: "jsonFiles dir i = None \<Longrightarrow> runSessions rt i dir ses = (dir, replicate (length ses) None)"
  by (induction ses) (simp_all add: runSession_def loadItem_def)

lemma sessions_bounded:
  assumes "queued i m d dir" "i \<noteq> []" "smAttempts m < fst (retryLimits rt)" "list_all faultless ses"
    and "runSessions rt i dir ses = (dir', rs)"
  shows "sends rs + smAttempts m \<le> fst (retryLimits rt)
    \<and> ((\<exists>n out. Some (n, out) \<in> set rs \<and> finished out) \<or>
        (\<exists>m'. queued i m' d dir' \<and> smAttempts m' = smAttempts m + sends rs \<and> smAttempts m' < fst (retryLimits rt)))"
  using assms
proof (induction ses arbitrary: dir m dir' rs)
  case Nil
  then show ?case by (auto simp: sends_def)
next
  case (Cons se ses)
  obtain dir1 r where r: "runSession rt i dir se = (dir1, r)" by (cases "runSession rt i dir se")
  obtain dir2 rs1 where rs: "runSessions rt i dir1 ses = (dir2, rs1)" by (cases "runSessions rt i dir1 ses")
  have eqs: "rs = r # rs1" "dir' = dir2" using Cons.prems(5) r rs by simp_all
  obtain n out where b: "r = Some (n, out)" "n + smAttempts m \<le> fst (retryLimits rt)"
    "if finished out then jsonFiles dir1 i = None
       else \<exists>m'. queued i m' d dir1 \<and> smAttempts m' = smAttempts m + n \<and> smAttempts m' < fst (retryLimits rt)"
    using session_bounded [OF Cons.prems(1-3) _ r] Cons.prems(4) by auto
  show ?case
  proof (cases "finished out")
    case True
    then have "rs1 = replicate (length ses) None" using unloaded_sessions [of dir1 i rt ses] b(3) rs by simp
    then have "sends rs = n" unfolding eqs b by (simp add: sends_def sum_list_replicate)
    then show ?thesis using b True unfolding eqs by auto
  next
    case False
    then obtain m' where m': "queued i m' d dir1" "smAttempts m' = smAttempts m + n" "smAttempts m' < fst (retryLimits rt)"
      using b(3) by auto
    have "sends rs = n + sends rs1" by (simp add: eqs b sends_def)
    then show ?thesis
      using Cons.IH [OF m'(1) Cons.prems(2) m'(3) _ rs] Cons.prems(4) m'(2) unfolding eqs by auto
  qed
qed

text \<open>C4: Retrying is bounded over restarts. Where the file operations succeed, an accepted item is sent
  at most \<^verbatim>\<open>max_attempts\<close> times over all sessions together, the attempts of earlier sessions
  counting; until it is delivered or dead-lettered it stays in the queue with its payload and its
  exact number of attempts; and a further session that is not shut down and lasts as many rounds as
  are left finishes it.\<close>

theorem retries_bounded_over_restarts:
  assumes "spoolPut nanos oks s m d = (s1, m1, True)" "smID m = []" "smAttempts m = 0"
    and "list_all faultless ses" "runSessions rt (smID m1) (spDir s1) ses = (dir, rs)"
  shows "sends rs \<le> fst (retryLimits rt)
    \<and> ((\<exists>n out. Some (n, out) \<in> set rs \<and> finished out)
       \<or> liveItem dir (smID m1) = Some (the (loadItem dir (smID m1)), d)
         \<and> smAttempts (the (loadItem dir (smID m1))) = sends rs
         \<and> (\<forall>se. faultless se \<and> \<not> seStop0 se \<and> list_all (\<lambda>r. \<not> rdStop r) (seRounds se)
               \<and> fst (retryLimits rt) \<le> sends rs + length (seRounds se) \<longrightarrow>
             (\<exists>n out. snd (runSession rt (smID m1) dir se) = Some (n, out) \<and> finished out)))"
proof -
  note a = put_accepted [OF assms(1,2)]
  have q: "queued (smID m1) m1 d (spDir s1)" using a by (simp add: queued_def)
  have at: "smAttempts m1 = 0" using a assms(3) by (metis spool_meta.select_convs(3) spool_meta.surjective spool_meta.update_convs(1))
  have i: "smID m1 \<noteq> []" using a by simp
  have lt: "smAttempts m1 < fst (retryLimits rt)" using at retryLimits_pos by simp
  note b = sessions_bounded [OF q i lt assms(4,5)]
  show ?thesis
  proof (cases "\<exists>n out. Some (n, out) \<in> set rs \<and> finished out")
    case True
    then show ?thesis using b at by simp
  next
    case False
    then obtain m' where m': "queued (smID m1) m' d dir" "smAttempts m' = sends rs" "smAttempts m' < fst (retryLimits rt)"
      using b at by auto
    have ld: "loadItem dir (smID m1) = Some m'" by (rule queued_load [OF m'(1) i])
    have "liveItem dir (smID m1) = Some (m', d)"
      using m'(1) ld by (simp add: liveItem_def queued_def)
    moreover have "\<exists>n out. snd (runSession rt (smID m1) dir se) = Some (n, out) \<and> finished out"
      if se: "faultless se" "\<not> seStop0 se" "list_all (\<lambda>r. \<not> rdStop r) (seRounds se)"
        "fst (retryLimits rt) \<le> sends rs + length (seRounds se)" for se
      using session_bounded [OF m'(1) i m'(3) se(1) prod.collapse [symmetric]] se(2-4) unfolding m'(2) by blast
    ultimately show ?thesis using b at ld m'(2) by simp
  qed
qed

subsection \<open>Witnesses\<close>

definition demoRetry :: forward_retry where
  "demoRetry = \<lparr>maxAttempts = 2, backoffMS = 1, ttlMin = 0\<rparr>"

definition failingRound :: "bool list \<Rightarrow> retry_round" where
  "failingRound oks = \<lparr>rdNow = 0, rdSend = Some [], rdAfter = 1, rdUpdateOK = oks, rdEndOK = oks, rdStop = False\<rparr>"

definition demoSession :: "bool list \<Rightarrow> session" where
  "demoSession oks = \<lparr>seStop0 = False, seOK = [], seRounds = [failingRound oks, failingRound oks]\<rparr>"

definition demoQueued :: "spool_store \<times> spool_meta \<times> bool" where
  "demoQueued = spoolPut 1 [] (newSpoolStore emptyDir) (demoMeta\<lparr>smID := []\<rparr>) [0x41]"

lemmas demo_retry_defs = demoQueued_def demoSession_def failingRound_def demoRetry_def demoMeta_def emptyDir_def
  newSpoolStore_def spoolPut_def putSteps_def spoolID_def itoa_def str_def

text \<open>Two failing attempts whose updates fail: the dead letter still holds the payload.\<close>

theorem queued_job_never_lost_witness:
  "case demoQueued of (s1, m1, ok) \<Rightarrow>
     deadData (fst (runSessions demoRetry (smID m1) (spDir s1) [demoSession [False, True]])) (smID m1) = Some [0x41]
     \<or> dataFiles (fst (runSessions demoRetry (smID m1) (spDir s1) [demoSession [False, True]])) (smID m1) = Some [0x41]"
proof -
  obtain s1 m1 ok where q: "demoQueued = (s1, m1, ok)" by (cases demoQueued)
  have p: "demoQueued = (s1, m1, True)" using q by (auto simp: demoQueued_def spoolPut_def Let_def putSteps_def demoMeta_def)
  obtain dir rs where r: "runSessions demoRetry (smID m1) (spDir s1) [demoSession [False, True]] = (dir, rs)"
    by (cases "runSessions demoRetry (smID m1) (spDir s1) [demoSession [False, True]]")
  have nd: "\<forall>n. Some (n, Delivered) \<notin> set rs"
    using r by (auto simp: runSession_def retryLoopPersisted_def demoSession_def failingRound_def retryRounds_round
        split: prod.splits option.splits if_splits)
  show ?thesis
    using queued_job_never_lost [OF p [unfolded demoQueued_def] _ r nd] unfolding q prod.case r fst_conv
    by (simp add: demoMeta_def disj_commute)
qed

theorem retries_bounded_over_restarts_witness:
  "case demoQueued of (s1, m1, ok) \<Rightarrow>
     sends (snd (runSessions demoRetry (smID m1) (spDir s1) [demoSession [], demoSession []])) \<le> 2"
proof -
  obtain s1 m1 ok where q: "demoQueued = (s1, m1, ok)" by (cases demoQueued)
  have p: "demoQueued = (s1, m1, True)" using q by (auto simp: demoQueued_def spoolPut_def Let_def putSteps_def demoMeta_def)
  obtain dir rs where r: "runSessions demoRetry (smID m1) (spDir s1) [demoSession [], demoSession []] = (dir, rs)"
    by (cases "runSessions demoRetry (smID m1) (spDir s1) [demoSession [], demoSession []]")
  have f: "list_all faultless [demoSession [], demoSession []]"
    by (simp add: faultless_def demoSession_def failingRound_def)
  have "fst (retryLimits demoRetry) = 2" by (simp add: retryLimits_def demoRetry_def)
  then show ?thesis
    using retries_bounded_over_restarts [OF p [unfolded demoQueued_def] _ _ f r]
    unfolding q prod.case r snd_conv by (simp add: demoMeta_def)
qed

end
