(* ===== verification/Dlp.thy ===== *)
theory Dlp
  imports Match
begin

text \<open>
  The content scan (\<^verbatim>\<open>dlp.go\<close>): compiling the configured rules and searching the raw bytes of a
  document and its decoded text. The regular expressions come from \<open>match_lib\<close>; \<open>low\<close> is
  \<^verbatim>\<open>bytes.ToLower\<close>/\<^verbatim>\<open>strings.ToLower\<close> (which also fold the letters beyond ASCII).
\<close>

record dlp_rule =
  dlpName :: bytes
  dlpMode :: bytes
  dlpPattern :: bytes

record 're compiled_dlp =
  cdName :: bytes
  cdRe :: "'re option"
  cdKeyword :: bytes

text \<open>The compiled rules, and the patterns that did not compile.\<close>

fun compileDLPRules :: "('re, 'net) match_lib \<Rightarrow> (bytes \<Rightarrow> bytes) \<Rightarrow> dlp_rule list \<Rightarrow> 're compiled_dlp list \<times> bytes list" where
  "compileDLPRules L low [] = ([], [])"
| "compileDLPRules L low (r # rs) =
     (case compileDLPRules L low rs of (cs, errs) \<Rightarrow>
        if low (dlpMode r) = str ''keyword'' then
          (\<lparr>cdName = dlpName r, cdRe = None, cdKeyword = low (dlpPattern r)\<rparr> # cs, errs)
        else if low (dlpMode r) = str ''regex'' then
          (case reCompile L (dlpPattern r) of
             None \<Rightarrow> (cs, dlpPattern r # errs)
           | Some re \<Rightarrow> (\<lparr>cdName = dlpName r, cdRe = Some re, cdKeyword = []\<rparr> # cs, errs))
        else (cs, errs))"

definition rebuildDLP :: "('re, 'net) match_lib \<Rightarrow> (bytes \<Rightarrow> bytes) \<Rightarrow> bool \<Rightarrow> dlp_rule list \<Rightarrow> 're compiled_dlp list" where
  "rebuildDLP L low enabled rules = (if enabled then fst (compileDLPRules L low rules) else [])"

definition ruleHits :: "('re, 'net) match_lib \<Rightarrow> (bytes \<Rightarrow> bytes) \<Rightarrow> bytes \<Rightarrow> bytes \<Rightarrow> 're compiled_dlp \<Rightarrow> bool" where
  "ruleHits L low data decoded rule =
     (case cdRe rule of
        Some re \<Rightarrow> reMatch L re data \<or> (decoded \<noteq> [] \<and> reMatch L re decoded)
      | None \<Rightarrow> bytesContains (low data) (cdKeyword rule)
          \<or> (decoded \<noteq> [] \<and> bytesContains (low decoded) (cdKeyword rule)))"

fun scanRules :: "('re, 'net) match_lib \<Rightarrow> (bytes \<Rightarrow> bytes) \<Rightarrow> bytes \<Rightarrow> bytes \<Rightarrow> bytes set \<Rightarrow> 're compiled_dlp list \<Rightarrow> bytes list" where
  "scanRules L low data decoded seen [] = []"
| "scanRules L low data decoded seen (rule # rules) =
     (if cdName rule \<in> seen then scanRules L low data decoded seen rules
      else if ruleHits L low data decoded rule then
        cdName rule # scanRules L low data decoded (insert (cdName rule) seen) rules
      else scanRules L low data decoded seen rules)"

definition scanDLP :: "('re, 'net) match_lib \<Rightarrow> (bytes \<Rightarrow> bytes) \<Rightarrow> bool \<Rightarrow> 're compiled_dlp list \<Rightarrow> bytes \<Rightarrow> bytes \<Rightarrow> bytes list" where
  "scanDLP L low enabled rules data decoded = (if \<not> enabled then [] else scanRules L low data decoded {} rules)"

section \<open>Correctness\<close>

text \<open>What a configured rule means: its keyword occurs, whatever the case, or its expression matches,
  in the bytes or in the decoded text.\<close>

definition ruleFires :: "('re, 'net) match_lib \<Rightarrow> (bytes \<Rightarrow> bytes) \<Rightarrow> bytes \<Rightarrow> bytes \<Rightarrow> dlp_rule \<Rightarrow> bool" where
  "ruleFires L low data decoded r \<longleftrightarrow>
     (\<exists>txt\<in>{data} \<union> (if decoded = [] then {} else {decoded}).
        if low (dlpMode r) = str ''keyword'' then bytesContains (low txt) (low (dlpPattern r))
        else low (dlpMode r) = str ''regex'' \<and> (\<exists>re. reCompile L (dlpPattern r) = Some re \<and> reMatch L re txt))"

definition compileRule :: "('re, 'net) match_lib \<Rightarrow> (bytes \<Rightarrow> bytes) \<Rightarrow> dlp_rule \<Rightarrow> 're compiled_dlp option" where
  "compileRule L low r =
     (if low (dlpMode r) = str ''keyword'' then Some \<lparr>cdName = dlpName r, cdRe = None, cdKeyword = low (dlpPattern r)\<rparr>
      else if low (dlpMode r) = str ''regex'' then
        map_option (\<lambda>re. \<lparr>cdName = dlpName r, cdRe = Some re, cdKeyword = []\<rparr>) (reCompile L (dlpPattern r))
      else None)"

lemma compiled_rules: "fst (compileDLPRules L low rs) = List.map_filter (compileRule L low) rs"
proof (induction rs)
  case (Cons r rs)
  obtain cs errs where c: "compileDLPRules L low rs = (cs, errs)" by (cases "compileDLPRules L low rs")
  show ?case
    using Cons by (cases "reCompile L (dlpPattern r)") (simp_all add: c compileRule_def map_filter_simps)
qed (simp add: map_filter_simps)

lemma rule_fires:
  "ruleFires L low data decoded r \<longleftrightarrow>
     (\<exists>c. compileRule L low r = Some c \<and> ruleHits L low data decoded c \<and> cdName c = dlpName r)"
  by (cases "reCompile L (dlpPattern r)") (auto simp: ruleFires_def compileRule_def ruleHits_def)

lemma compiled_name: "compileRule L low r = Some c \<Longrightarrow> cdName c = dlpName r"
  by (auto simp: compileRule_def split: if_splits)

lemma hit_names:
  "map cdName (filter (ruleHits L low data decoded) (List.map_filter (compileRule L low) rs))
     = map dlpName (filter (ruleFires L low data decoded) rs)"
proof (induction rs)
  case (Cons r rs)
  then show ?case
    using rule_fires [of L low data decoded r] compiled_name [of L low r]
    by (cases "compileRule L low r") (auto simp: map_filter_simps)
qed (simp add: map_filter_simps)

text \<open>Each name once, where it first occurs.\<close>

fun firsts :: "'a set \<Rightarrow> 'a list \<Rightarrow> 'a list" where
  "firsts seen [] = []"
| "firsts seen (x # xs) = (if x \<in> seen then firsts seen xs else x # firsts (insert x seen) xs)"

lemma firsts_props: "set (firsts seen xs) = set xs - seen \<and> distinct (firsts seen xs)"
  by (induction seen xs rule: firsts.induct) auto

lemma scanRules_firsts:
  "scanRules L low data decoded seen rules = firsts seen (map cdName (filter (ruleHits L low data decoded) rules))"
  by (induction L low data decoded seen rules rule: scanRules.induct) auto


end
