(* ===== verification/Limits.thy ===== *)
theory Limits
  imports Go_Prelude
begin

text \<open>
  The bounds on what a connection may make the program keep (\<^verbatim>\<open>limits.go\<close>), and the padding loop
  the encoders share.
\<close>

text \<open>\<^verbatim>\<open>readStream\<close>: the bytes a connection delivers until it ends, bounded by a positive cap.\<close>

definition readStream :: "bytes \<Rightarrow> nat \<Rightarrow> bytes" where
  "readStream stream cap = (if cap > 0 then take cap stream else stream)"

definition appendCapped :: "bytes \<Rightarrow> bytes \<Rightarrow> int \<Rightarrow> bytes" where
  "appendCapped dst src cap =
     (if cap > 0 then
        (let room = cap - int (length dst) in
         if room \<le> 0 then dst
         else dst @ (if int (length src) > room then take (nat room) src else src))
      else dst @ src)"

text \<open>What a capped buffer holds after any number of appends is what a capped read of the whole
  stream would return: the two bounds of the program agree.\<close>

definition capped :: "nat \<Rightarrow> bytes \<Rightarrow> bytes" where
  "capped cap d = readStream d cap"

lemma capped_short [simp]: "cap = 0 \<or> length d \<le> cap \<Longrightarrow> capped cap d = d"
  by (auto simp: capped_def readStream_def)

lemma length_capped: "length (capped cap d) \<le> length d" "0 < cap \<Longrightarrow> length (capped cap d) \<le> cap"
  by (auto simp: capped_def readStream_def)

lemma appendCapped_capped: "appendCapped (capped cap d) src (int cap) = capped cap (d @ src)"
proof (cases "0 < cap")
  case False
  then show ?thesis by (simp add: appendCapped_def capped_def readStream_def)
next
  case True
  have n: "nat (int cap - int (length d)) = cap - length d" by simp
  show ?thesis
    using True by (auto simp: appendCapped_def capped_def readStream_def Let_def min_def n)
qed

lemma appendCapped_fold: "foldl (\<lambda>d s. appendCapped d s (int cap)) (capped cap d) ss = capped cap (d @ concat ss)"
  by (induction ss arbitrary: d) (simp_all add: appendCapped_capped)

text \<open>\<^verbatim>\<open>for len(b) % a != 0 { b = append(b, 0) }\<close>\<close>

definition padZero :: "nat \<Rightarrow> bytes \<Rightarrow> bytes" where
  "padZero a b = b @ replicate ((a - length b mod a) mod a) 0"

lemma padZero_aligned [simp]: "length b mod a = 0 \<Longrightarrow> padZero a b = b"
  by (simp add: padZero_def)

lemma padZero_unfold: "0 < a \<Longrightarrow> length b mod a \<noteq> 0 \<Longrightarrow> padZero a b = padZero a (b @ [0])"
proof -
  assume a: "0 < a" "length b mod a \<noteq> 0"
  then have m: "length b mod a < a" by simp
  show ?thesis
  proof (cases "Suc (length b mod a) = a")
    case True
    then have "Suc (length b) mod a = 0" by (simp add: mod_Suc)
    moreover have "a - length b mod a = 1" using True m by linarith
    ultimately show ?thesis using True m a by (cases "a = 1") (auto simp: padZero_def)
  next
    case False
    then have "Suc (length b) mod a = Suc (length b mod a)" by (simp add: mod_Suc)
    moreover have "a - length b mod a = Suc (a - Suc (length b mod a))" using m by linarith
    moreover have "a - Suc (length b mod a) < a" "a - length b mod a < a" using a m by auto
    ultimately show ?thesis by (simp add: padZero_def)
  qed
qed

end
