(* ===== verification/Sink.thy ===== *)
theory Sink
  imports Forward Dlp Job_Store Pdl Ebcdic Carriage Limits
begin

text \<open>
  The capture sink (\<^verbatim>\<open>sink.go\<close>), where every listener hands off a finished job: the size cap, the
  identifier, the spool file, the forwarder, the decoded sidecar, the content scan, the metadata
  file and the job store; and the raw listener in front of it (\<^verbatim>\<open>raw9100.go\<close>, \<^verbatim>\<open>limits.go\<close>).
  The files of the output directory are a map from names to contents. The clock, the outcome of each
  write, \<open>json.MarshalIndent\<close> and what the transports answer are arguments.
\<close>

subsection \<open>State and environment\<close>

datatype save_mode = SaveBoth | SaveRaw | SaveMeta

definition saveMode :: "bytes \<Rightarrow> save_mode" where
  "saveMode s =
     (let l = toLower s in
      if l = str ''raw'' then SaveRaw
      else if l = str ''meta'' \<or> l = str ''metadata'' then SaveMeta
      else SaveBoth)"

record raw_opts =
  rawParsePJL :: bool
  splitOnUEL :: bool

record 're sink_conf =
  maxJobMB :: int
  saveConf :: bytes
  sinkEBCDIC :: ebcdic_conf
  dlpEnabled :: bool
  dlpRules :: "'re compiled_dlp list"

text \<open>What the standard library and the network do.\<close>

record ('re, 'net) sink_lib =
  slMatch :: "('re, 'net) match_lib"
  slReplace :: "'re \<Rightarrow> bytes \<Rightarrow> bytes \<Rightarrow> bytes"
  slLower :: "bytes \<Rightarrow> bytes"
  slMarshal :: "job \<Rightarrow> bytes option"
  slSend :: "('re, 'net) send"

text \<open>One call of \<^verbatim>\<open>save\<close>: the two readings of the clock, the names that can be written, what a failing
  write leaves behind, the deliveries, and the order in which the queue defaults are walked.\<close>

record sink_env =
  seStamp :: bytes
  seReceived :: bytes
  seWriteOK :: "bytes \<Rightarrow> bool"
  sePartial :: "bytes \<Rightarrow> bytes option"
  seFwd :: fwd_env
  seDefaults :: "(bytes \<times> queue_default) list"

record ('re, 'net) sink_world =
  swFiles :: "bytes \<rightharpoonup> bytes"
  swSeq :: nat
  swStore :: job_store
  swForward :: "('re, 'net) forwarder option"
  swWorkers :: "('re, 'net) worker list"

definition writeFile :: "sink_env \<Rightarrow> bytes \<Rightarrow> bytes \<Rightarrow> (bytes \<rightharpoonup> bytes) \<Rightarrow> (bytes \<rightharpoonup> bytes) \<times> bool" where
  "writeFile env name d fs =
     (if seWriteOK env name then (fs(name \<mapsto> d), True)
      else (case sePartial env name of None \<Rightarrow> (fs, False) | Some p \<Rightarrow> (fs(name \<mapsto> p), False)))"

subsection \<open>The steps of \<^verbatim>\<open>save\<close>\<close>

definition capJob :: "'re sink_conf \<Rightarrow> job \<Rightarrow> job" where
  "capJob c j =
     (if maxJobMB c > 0 \<and> length (jobData j) > nat (maxJobMB c) * 1024 * 1024
      then j\<lparr>jobData := take (nat (maxJobMB c) * 1024 * 1024) (jobData j), jobBytes := nat (maxJobMB c) * 1024 * 1024\<rparr>
      else j)"

definition identify :: "sink_env \<Rightarrow> nat \<Rightarrow> job \<Rightarrow> job" where
  "identify env n j = j\<lparr>jobID := n, jobReceived := orElse (jobReceived j) (seReceived env)\<rparr>"

text \<open>\<^verbatim>\<open>%04d\<close> of a non-negative number.\<close>

definition pad4 :: "nat \<Rightarrow> bytes" where
  "pad4 n = replicate (4 - length (itoa n)) 0x30 @ itoa n"

definition baseName :: "bytes \<Rightarrow> job \<Rightarrow> bytes" where
  "baseName stamp j =
     take 120 (stamp @ [0x2d] @ pad4 (jobID j) @ [0x2d] @ jobProtocol j
       @ (if jobName j \<noteq> [] then [0x2d] @ safeName (jobName j) else []))"

definition nameJob :: "sink_env \<Rightarrow> job \<Rightarrow> job" where
  "nameJob env j = (case extForFormat j of (j1, ext) \<Rightarrow>
     j1\<lparr>captureBase := baseName (seStamp env) j1, captureExt := ext\<rparr>)"

definition saveData :: "'re sink_conf \<Rightarrow> sink_env \<Rightarrow> job \<Rightarrow> (bytes \<rightharpoonup> bytes) \<Rightarrow> job \<times> (bytes \<rightharpoonup> bytes)" where
  "saveData c env j fs =
     (if saveMode (saveConf c) \<noteq> SaveMeta \<and> jobData j \<noteq> [] then
        (case writeFile env (captureBase j @ captureExt j) (jobData j) fs of
           (fs1, ok) \<Rightarrow> (if ok then j\<lparr>jobSavedAs := captureBase j @ captureExt j\<rparr> else j, fs1))
      else (j, fs))"

definition teeJob :: "('re, 'net) sink_lib \<Rightarrow> sink_env \<Rightarrow> ('re, 'net) forwarder option \<Rightarrow> job \<Rightarrow> (bytes \<rightharpoonup> bytes)
    \<Rightarrow> ('re, 'net) forwarder option \<times> ('re, 'net) worker list \<times> job \<times> (bytes \<rightharpoonup> bytes) \<times> bytes option" where
  "teeJob sl env f j fs =
     (case f of
        None \<Rightarrow> (None, [], j, fs, None)
      | Some f0 \<Rightarrow>
          (let st = forwardJob (slMatch sl) (slReplace sl) (slSend sl) (seFwd env) f0 j (jobData j)
           in (Some (fsForwarder st), fsWorkers st, fsJob st,
               fold (\<lambda>(n, d) fs. fst (writeFile env n d fs)) (fsWrites st) fs, fsBlockErr st)))"

text \<open>The decoded text and its code page, where the job is decoded.\<close>

definition decodedText :: "('re, 'net) sink_lib \<Rightarrow> 're sink_conf \<Rightarrow> sink_env \<Rightarrow> job \<Rightarrow> (bytes \<times> bytes) option" where
  "decodedText sl c env j =
     (case resolveEBCDIC (globMatch (slMatch sl)) (sinkEBCDIC c) (seDefaults env) j (jobData j) of
        None \<Rightarrow> None
      | Some (cp, carriage) \<Rightarrow>
          (let raw = (if carriage = str ''machine'' then convertMachineRaw (jobData j) else jobData j);
               decoded = decodeEBCDIC raw cp
           in if decoded = [] then None
              else Some (if carriage \<noteq> str ''machine'' then applyCarriageControl decoded carriage else decoded, cp)))"

definition decodeJob :: "('re, 'net) sink_lib \<Rightarrow> 're sink_conf \<Rightarrow> sink_env \<Rightarrow> job \<Rightarrow> (bytes \<rightharpoonup> bytes)
    \<Rightarrow> bytes \<times> job \<times> (bytes \<rightharpoonup> bytes)" where
  "decodeJob sl c env j fs =
     (case decodedText sl c env j of
        None \<Rightarrow> ([], j, fs)
      | Some (decoded, cp) \<Rightarrow>
          (let j1 = j\<lparr>jobCodePage := cp\<rparr> in
           if ebSidecar (sinkEBCDIC c) \<and> saveMode (saveConf c) \<noteq> SaveMeta then
             (let name = captureBase j1 @ str ''-decoded.txt'' in
              case writeFile env name decoded fs of
                (fs1, ok) \<Rightarrow> (decoded, if ok then j1\<lparr>jobDecodedAs := name\<rparr> else j1, fs1))
           else (decoded, j1, fs)))"

definition scanJob :: "('re, 'net) sink_lib \<Rightarrow> 're sink_conf \<Rightarrow> bytes \<Rightarrow> job \<Rightarrow> job" where
  "scanJob sl c decoded j =
     (let matches = scanDLP (slMatch sl) (slLower sl) (dlpEnabled c) (dlpRules c) (jobData j) decoded in
      if dlpEnabled c \<and> matches \<noteq> [] then j\<lparr>jobDLPMatches := matches\<rparr> else j)"

definition saveMetadata :: "('re, 'net) sink_lib \<Rightarrow> 're sink_conf \<Rightarrow> sink_env \<Rightarrow> job \<Rightarrow> (bytes \<rightharpoonup> bytes) \<Rightarrow> (bytes \<rightharpoonup> bytes)" where
  "saveMetadata sl c env j fs =
     (if saveMode (saveConf c) \<noteq> SaveRaw then
        (case slMarshal sl j of None \<Rightarrow> fs | Some b \<Rightarrow> fst (writeFile env (captureBase j @ str ''.json'') b fs))
      else fs)"

definition saveJob :: "('re, 'net) sink_lib \<Rightarrow> 're sink_conf \<Rightarrow> sink_env \<Rightarrow> ('re, 'net) sink_world \<Rightarrow> job
    \<Rightarrow> ('re, 'net) sink_world \<times> job \<times> bytes option" where
  "saveJob sl c env w j =
     (let j1 = nameJob env (identify env (swSeq w + 1) (capJob c j)) in
      case saveData c env j1 (swFiles w) of (j2, fs2) \<Rightarrow>
      case teeJob sl env (swForward w) j2 fs2 of (f3, ws, j3, fs3, fwdErr) \<Rightarrow>
      case decodeJob sl c env j3 fs3 of (decoded, j4, fs4) \<Rightarrow>
      let j5 = scanJob sl c decoded j4 in
      (w\<lparr>swFiles := saveMetadata sl c env j5 fs4, swSeq := swSeq w + 1, swStore := addJob (swStore w) j5,
         swForward := f3, swWorkers := swWorkers w @ ws\<rparr>, j5, fwdErr))"

subsection \<open>The raw listener\<close>

definition jobByteCap :: "'re sink_conf \<Rightarrow> nat" where
  "jobByteCap c = (if maxJobMB c > 0 then nat (maxJobMB c) * 2 ^ 20 else 0)"

text \<open>\<^verbatim>\<open>saveRawStream\<close> over the segments; \<open>parsePJL\<close> is the scan of the preamble by regular expressions. The remaining segments are dropped where
  a blocking target fails. Each segment has its own environment.\<close>

definition rawJob :: "raw_opts \<Rightarrow> (bytes \<Rightarrow> bytes \<times> bytes) \<Rightarrow> bytes \<Rightarrow> bytes \<Rightarrow> sink_env \<Rightarrow> bytes \<Rightarrow> job" where
  "rawJob ro parsePJL proto src env seg =
     (let j = (newJob proto src)\<lparr>jobReceived := seReceived env\<rparr>;
          (name, user) = parsePJL seg;
          j1 = (if rawParsePJL ro \<and> (name \<noteq> [] \<or> user \<noteq> []) then j\<lparr>jobName := name, jobUser := user\<rparr> else j)
      in j1\<lparr>jobData := seg, jobBytes := length seg\<rparr>)"

fun saveSegments :: "('re, 'net) sink_lib \<Rightarrow> 're sink_conf \<Rightarrow> raw_opts \<Rightarrow> (bytes \<Rightarrow> bytes \<times> bytes) \<Rightarrow> bytes \<Rightarrow> bytes
    \<Rightarrow> ('re, 'net) sink_world \<Rightarrow> (sink_env \<times> bytes) list \<Rightarrow> ('re, 'net) sink_world \<times> job list" where
  "saveSegments sl c ro parsePJL proto src w [] = (w, [])"
| "saveSegments sl c ro parsePJL proto src w ((env, seg) # segs) =
     (case saveJob sl c env w (rawJob ro parsePJL proto src env seg) of
        (w1, j2, Some e) \<Rightarrow> (w1, [j2])
      | (w1, j2, None) \<Rightarrow>
          (case saveSegments sl c ro parsePJL proto src w1 segs of (w2, js) \<Rightarrow> (w2, j2 # js)))"

definition saveRawStream :: "('re, 'net) sink_lib \<Rightarrow> 're sink_conf \<Rightarrow> raw_opts \<Rightarrow> (bytes \<Rightarrow> bytes \<times> bytes) \<Rightarrow> bytes \<Rightarrow> bytes
    \<Rightarrow> (nat \<Rightarrow> sink_env) \<Rightarrow> ('re, 'net) sink_world \<Rightarrow> bytes \<Rightarrow> ('re, 'net) sink_world \<times> job list" where
  "saveRawStream sl c ro parsePJL proto src envs w data =
     (let segments = (if splitOnUEL ro then splitUEL data else [data]) in
      saveSegments sl c ro parsePJL proto src w (zip (map envs [0..<length segments]) segments))"

definition handleRaw9100 :: "('re, 'net) sink_lib \<Rightarrow> 're sink_conf \<Rightarrow> raw_opts \<Rightarrow> (bytes \<Rightarrow> bytes \<times> bytes) \<Rightarrow> bytes
    \<Rightarrow> (nat \<Rightarrow> sink_env) \<Rightarrow> ('re, 'net) sink_world \<Rightarrow> bytes \<Rightarrow> ('re, 'net) sink_world \<times> job list" where
  "handleRaw9100 sl c ro parsePJL src envs w stream =
     (let data = readStream stream (jobByteCap c) in
      if data = [] then (w, []) else saveRawStream sl c ro parsePJL (str ''9100'') src envs w data)"

section \<open>Correctness\<close>

subsection \<open>File names\<close>

text \<open>Every extension starts with a dot, and none is the metadata file's.\<close>

definition dotted :: "bytes \<Rightarrow> bool" where
  "dotted ext \<longleftrightarrow> is_prefix [0x2e] ext \<and> ext \<noteq> str ''.json''"

lemma firstSig_mem: "firstSig sgs b = Some (n, e, m) \<Longrightarrow> e \<in> set (map sigExt sgs)"
  by (induction sgs) (auto split: if_splits)

lemma table_dotted: "list_all dotted (map sigExt pdlTable)"
  by (simp add: pdlTable_def pdlEntry_def dotted_def is_prefix_def str_def)

lemma ext_dotted: "extForFormat j = (j', ext) \<Longrightarrow> dotted ext"
proof -
  assume e: "extForFormat j = (j', ext)"
  obtain n x m where d: "detectPDL (jobData j) = (n, x, m)" by (metis prod.exhaust)
  have lit: "dotted (str ''.txt'')" "dotted (str ''.prn'')" by (simp_all add: dotted_def is_prefix_def str_def)
  have tbl: "firstSig pdlTable b = Some (n', x', m') \<Longrightarrow> dotted x'" for b n' x' m'
    using firstSig_mem [of pdlTable b n' x' m'] table_dotted unfolding list_all_iff by blast
  have "dotted x"
    using d tbl lit unfolding detectPDL_def Let_def by (auto split: option.splits if_splits)
  moreover have "dotted (snd (formatHint f (a, b)))" if "dotted b" for f a b
    using that by (simp add: formatHint_def dotted_def is_prefix_def str_def)
  moreover have "ext = (if n = str ''Unknown'' \<or> n = str ''Text''
      then snd (formatHint (toLower (jobDocFormat j)) (n, x)) else x)"
    using e d by (auto simp: extForFormat_def split: prod.splits if_splits)
  ultimately show ?thesis by simp
qed

lemma extForFormat_job: "\<exists>p. fst (extForFormat j) = j\<lparr>jobPDL := p\<rparr>"
  by (auto simp: extForFormat_def split: prod.splits)

text \<open>The identifier is readable from every file name of a job.\<close>

definition captureID :: "bytes \<Rightarrow> int" where
  "captureID n = digitsVal (takeWhile (\<lambda>c. c \<noteq> 0x2d) (drop 16 n))"

lemma length_itoaAcc: "n < 10 ^ k \<Longrightarrow> 0 < k \<Longrightarrow> length (itoaAcc acc n) \<le> length acc + k"
proof (induction k arbitrary: acc n)
  case (Suc k)
  show ?case
  proof (cases "n < 10")
    case True
    then show ?thesis by (subst itoaAcc.simps) simp
  next
    case False
    then have "0 < k" using Suc.prems by (cases k) auto
    moreover have "n div 10 < 10 ^ k" using Suc.prems by (simp add: less_mult_imp_div_less mult.commute)
    ultimately show ?thesis
      using Suc.IH [of "n div 10" "of_nat (48 + n mod 10) # acc"] False by (subst itoaAcc.simps) simp
  qed
qed simp

lemma digitsVal_zeros: "digitsVal (replicate k 0x30 @ ds) = digitsVal ds"
  by (induction k) (simp_all add: digitsVal_def)

lemma pad4_facts:
  "digitsVal (pad4 n) = int n" "list_all (\<lambda>c. c \<noteq> 0x2d) (pad4 n)" "n < 10 ^ 18 \<Longrightarrow> length (pad4 n) \<le> 22"
proof -
  show "digitsVal (pad4 n) = int n"
    using itoaAcc_val [of "[]" n] unfolding pad4_def digitsVal_zeros itoa_def by (simp add: digitsVal_def)
  have "list_all (\<lambda>c. c \<noteq> 0x2d) (itoa n)"
    using itoa_digits [of n] by (rule list.pred_mono_strong) (auto simp: isDigit_def)
  then show "list_all (\<lambda>c. c \<noteq> 0x2d) (pad4 n)" by (auto simp: pad4_def list_all_iff set_replicate_conv_if)
  show "n < 10 ^ 18 \<Longrightarrow> length (pad4 n) \<le> 22"
    using length_itoaAcc [of n 18 "[]"] by (simp add: pad4_def itoa_def)
qed

lemma captureID_base:
  assumes "length stamp = 15" "jobID j < 10 ^ 18"
  shows "captureID (baseName stamp j @ rest) = int (jobID j)"
proof -
  let ?p = "pad4 (jobID j)"
  let ?t = "jobProtocol j @ (if jobName j \<noteq> [] then [0x2d] @ safeName (jobName j) else [])"
  have "104 - length ?p = Suc (103 - length ?p)" using assms(2) pad4_facts(3) [of "jobID j"] by simp
  then have "baseName stamp j = stamp @ [0x2d] @ ?p @ [0x2d] @ take (103 - length ?p) ?t"
    using assms pad4_facts(3) [of "jobID j"] unfolding baseName_def by (simp del: append.assoc add: append_assoc)
  then have "drop 16 (baseName stamp j @ rest) = ?p @ 0x2d # (take (103 - length ?p) ?t @ rest)"
    using assms(1) by simp
  moreover have "takeWhile (\<lambda>c. c \<noteq> 0x2d) (?p @ 0x2d # r) = ?p" for r :: bytes
    using pad4_facts(2) [of "jobID j"] by (simp add: takeWhile_append list_all_iff)
  ultimately show ?thesis by (simp add: captureID_def pad4_facts(1))
qed

subsection \<open>What each step changes\<close>

lemma writeFile_other: "n' \<noteq> n \<Longrightarrow> fst (writeFile env n d fs) n' = fs n'"
  by (simp add: writeFile_def split: option.split)

lemma writeFile_ok: "snd (writeFile env n d fs) \<Longrightarrow> fst (writeFile env n d fs) n = Some d"
  by (auto simp: writeFile_def split: if_splits option.splits)

lemma saveData_facts:
  assumes "saveData c env j fs = (j', fs')" "jobSavedAs j = []"
  shows "(\<exists>a. j' = j\<lparr>jobSavedAs := a\<rparr> \<and> (a = [] \<or> a = captureBase j @ captureExt j \<and> fs' a = Some (jobData j)))
    \<and> (\<forall>n. n \<noteq> captureBase j @ captureExt j \<longrightarrow> fs' n = fs n)"
proof (cases "saveMode (saveConf c) \<noteq> SaveMeta \<and> jobData j \<noteq> []")
  case True
  let ?w = "writeFile env (captureBase j @ captureExt j) (jobData j) fs"
  have e: "j' = (if snd ?w then j\<lparr>jobSavedAs := captureBase j @ captureExt j\<rparr> else j)" "fs' = fst ?w"
    using assms(1) True by (auto simp: saveData_def split: prod.splits)
  have jj: "j = j\<lparr>jobSavedAs := []\<rparr>" using assms(2) by (cases j) simp
  show ?thesis
  proof (cases "snd ?w")
    case True
    then show ?thesis unfolding e using writeFile_ok [OF True] writeFile_other by auto
  next
    case False
    then have "j' = j\<lparr>jobSavedAs := []\<rparr>" using e(1) jj by simp
    then show ?thesis unfolding e(2) using writeFile_other by blast
  qed
next
  case False
  then have "j' = j" "fs' = fs" using assms(1) by (auto simp: saveData_def)
  then show ?thesis using assms(2) by (cases j) simp
qed

lemma fold_writes_other:
  "\<forall>w\<in>set ws. fst w \<noteq> n \<Longrightarrow> fold (\<lambda>(n, d) fs. fst (writeFile env n d fs)) ws fs n = fs n"
  by (induction ws arbitrary: fs) (auto simp: writeFile_other)

lemma teeJob_facts:
  assumes "teeJob sl env f j fs = (f', ws, j', fs', e)"
  shows "(\<exists>a. j' = j\<lparr>jobForwards := a\<rparr>) \<and> (\<forall>n. \<not> sentName j n \<longrightarrow> fs' n = fs n)"
proof (cases f)
  case None
  then have "j' = j\<lparr>jobForwards := jobForwards j\<rparr>" "fs' = fs" using assms by (simp_all add: teeJob_def)
  then show ?thesis by blast
next
  case (Some f0)
  let ?st = "forwardJob (slMatch sl) (slReplace sl) (slSend sl) (seFwd env) f0 j (jobData j)"
  have e: "j' = fsJob ?st" "fs' = fold (\<lambda>(n, d) fs. fst (writeFile env n d fs)) (fsWrites ?st) fs"
    using assms Some by (simp_all add: teeJob_def Let_def)
  show ?thesis
    using forwardJob_frame(1) fold_writes_other [of "fsWrites ?st"] forwardJob_frame(2) unfolding e by metis
qed

lemma decodeJob_facts:
  assumes "decodeJob sl c env j fs = (decoded, j', fs')"
  shows "(\<exists>a b. j' = j\<lparr>jobCodePage := a, jobDecodedAs := b\<rparr>)
    \<and> (\<forall>n. n \<noteq> captureBase j @ str ''-decoded.txt'' \<longrightarrow> fs' n = fs n)"
proof (cases "decodedText sl c env j")
  case None
  then have "j' = j\<lparr>jobCodePage := jobCodePage j, jobDecodedAs := jobDecodedAs j\<rparr>" "fs' = fs"
    using assms by (simp_all add: decodeJob_def)
  then show ?thesis by blast
next
  case (Some r)
  obtain d cp where r: "r = (d, cp)" by (cases r)
  let ?w = "writeFile env (captureBase j @ str ''-decoded.txt'') d fs"
  show ?thesis
  proof (cases "ebSidecar (sinkEBCDIC c) \<and> saveMode (saveConf c) \<noteq> SaveMeta")
    case True
    then have "j' = j\<lparr>jobCodePage := cp, jobDecodedAs := (if snd ?w then captureBase j @ str ''-decoded.txt'' else jobDecodedAs j)\<rparr>"
      "fs' = fst ?w" using assms by (auto simp: decodeJob_def Some r Let_def split: prod.splits)
    then show ?thesis using writeFile_other by blast
  next
    case False
    then have "j' = j\<lparr>jobCodePage := cp, jobDecodedAs := jobDecodedAs j\<rparr>" "fs' = fs"
      using assms by (auto simp: decodeJob_def Some r Let_def)
    then show ?thesis by blast
  qed
qed

lemma scanJob_facts: "\<exists>a. scanJob sl c decoded j = j\<lparr>jobDLPMatches := a\<rparr>"
proof -
  have "j = j\<lparr>jobDLPMatches := jobDLPMatches j\<rparr>" by simp
  then show ?thesis unfolding scanJob_def Let_def by metis
qed

lemma saveMetadata_facts: "n \<noteq> captureBase j @ str ''.json'' \<Longrightarrow> saveMetadata sl c env j fs n = fs n"
  by (auto simp: saveMetadata_def writeFile_other split: option.split)

lemma nameJob_facts:
  "\<exists>p ext. nameJob env j = j\<lparr>jobPDL := p, captureBase := baseName (seStamp env) j, captureExt := ext\<rparr> \<and> dotted ext"
proof -
  obtain j1 ext where e: "extForFormat j = (j1, ext)" by (cases "extForFormat j")
  obtain p where p: "j1 = j\<lparr>jobPDL := p\<rparr>" using extForFormat_job [of j] e by auto
  have "baseName (seStamp env) j1 = baseName (seStamp env) j" by (simp add: p baseName_def)
  then have "nameJob env j = j\<lparr>jobPDL := p, captureBase := baseName (seStamp env) j, captureExt := ext\<rparr>"
    by (simp add: nameJob_def e p)
  then show ?thesis using ext_dotted [OF e] by blast
qed

text \<open>One call of \<^verbatim>\<open>save\<close>: every name written starts with the job's own base name, and the spool file
  recorded on the job holds the job's bytes when the call ends.\<close>

lemma saveJob_facts:
  assumes "saveJob sl c env w j = (w', j', e)" "jobSavedAs j = []"
  shows "jobID j' = swSeq w + 1 \<and> swSeq w' = swSeq w + 1 \<and> swStore w' = addJob (swStore w) j'
    \<and> jobData j' = jobData (capJob c j) \<and> jobBytes j' = jobBytes (capJob c j)
    \<and> jobProtocol j' = jobProtocol j \<and> jobName j' = jobName j
    \<and> jobSource j' = jobSource j \<and> jobUser j' = jobUser j
    \<and> captureBase j' = baseName (seStamp env) j'
    \<and> (\<forall>n. (\<nexists>x. n = captureBase j' @ x) \<longrightarrow> swFiles w' n = swFiles w n)
    \<and> (jobSavedAs j' \<noteq> [] \<longrightarrow> (\<exists>x. jobSavedAs j' = captureBase j' @ x)
         \<and> swFiles w' (jobSavedAs j') = Some (jobData j'))"
proof -
  let ?i = "identify env (swSeq w + 1) (capJob c j)"
  define j1 where "j1 = nameJob env ?i"
  obtain p ext where j1: "j1 = ?i\<lparr>jobPDL := p, captureBase := baseName (seStamp env) ?i, captureExt := ext\<rparr>" "dotted ext"
    using nameJob_facts [of env ?i] unfolding j1_def by blast
  have i: "jobSavedAs ?i = []" "jobID ?i = swSeq w + 1" "jobData ?i = jobData (capJob c j)" "jobBytes ?i = jobBytes (capJob c j)"
    "jobProtocol ?i = jobProtocol j" "jobName ?i = jobName j" "jobSource ?i = jobSource j" "jobUser ?i = jobUser j"
    using assms(2) by (simp_all add: identify_def capJob_def)
  obtain j2 fs2 where d2: "saveData c env j1 (swFiles w) = (j2, fs2)" by (cases "saveData c env j1 (swFiles w)")
  obtain f3 ws j3 fs3 e3 where d3: "teeJob sl env (swForward w) j2 fs2 = (f3, ws, j3, fs3, e3)" by (metis prod_cases5)
  obtain dec j4 fs4 where d4: "decodeJob sl c env j3 fs3 = (dec, j4, fs4)" by (metis prod_cases3)
  obtain a where j2: "j2 = j1\<lparr>jobSavedAs := a\<rparr>"
    "a = [] \<or> a = captureBase j1 @ captureExt j1 \<and> fs2 a = Some (jobData j1)"
    "\<And>n. n \<noteq> captureBase j1 @ captureExt j1 \<Longrightarrow> fs2 n = swFiles w n"
    using saveData_facts [OF d2] i(1) unfolding j1(1) by auto
  obtain b where j3: "j3 = j2\<lparr>jobForwards := b\<rparr>" "\<And>n. \<not> sentName j2 n \<Longrightarrow> fs3 n = fs2 n"
    using teeJob_facts [OF d3] by blast
  obtain cp da where j4: "j4 = j3\<lparr>jobCodePage := cp, jobDecodedAs := da\<rparr>"
    "\<And>n. n \<noteq> captureBase j3 @ str ''-decoded.txt'' \<Longrightarrow> fs4 n = fs3 n"
    using decodeJob_facts [OF d4] by blast
  obtain m where j5: "scanJob sl c dec j4 = j4\<lparr>jobDLPMatches := m\<rparr>" using scanJob_facts by blast
  have r: "j' = j4\<lparr>jobDLPMatches := m\<rparr>" "swFiles w' = saveMetadata sl c env j' fs4"
    "swSeq w' = swSeq w + 1" "swStore w' = addJob (swStore w) j'"
    using assms(1) unfolding saveJob_def j1_def [symmetric] Let_def d2 prod.case d3 d4 j5 by auto
  let ?base = "baseName (seStamp env) ?i"
  have base: "captureBase j' = ?base" "captureBase j3 = ?base" "captureBase j2 = ?base" "captureBase j1 = ?base"
    and ex: "captureExt j1 = ext" "captureExt j2 = ext" and dat: "jobData j' = jobData j1"
    by (simp_all add: r(1) j4(1) j3(1) j2(1) j1(1))
  have frame: "swFiles w' n = swFiles w n" if "\<nexists>x. n = captureBase j' @ x" for n
    using that saveMetadata_facts [of n j'] j4(2) [of n] j3(2) [of n] j2(3) [of n]
    unfolding r(2) base sentName_def by metis
  have saved: "a \<noteq> [] \<Longrightarrow> a = ?base @ ext \<and> swFiles w' a = Some (jobData j')"
  proof -
    assume "a \<noteq> []"
    then have a: "a = ?base @ ext" "fs2 a = Some (jobData j1)" using j2(2) unfolding base ex by auto
    have hd: "\<exists>y. ext = 0x2e # y" using j1(2) by (cases ext) (auto simp: dotted_def is_prefix_def)
    have "\<not> sentName j2 a" unfolding sentName_def a(1) base ex using hd by (auto simp: str_def)
    moreover have "a \<noteq> ?base @ str ''-decoded.txt''" using hd by (auto simp: a(1) str_def)
    moreover have "a \<noteq> ?base @ str ''.json''" using j1(2) by (simp add: a(1) dotted_def)
    ultimately have "swFiles w' a = fs2 a"
      using saveMetadata_facts [of a j'] j4(2) [of a] j3(2) [of a] unfolding r(2) base by metis
    then show ?thesis using a dat by simp
  qed
  have bn: "?base = baseName (seStamp env) j'"
    by (simp add: baseName_def r(1) j4(1) j3(1) j2(1) j1(1))
  have flds: "jobSavedAs j' = a" "jobID j' = jobID ?i" "jobData j' = jobData ?i" "jobBytes j' = jobBytes ?i"
    "jobProtocol j' = jobProtocol ?i" "jobName j' = jobName ?i" "jobSource j' = jobSource ?i" "jobUser j' = jobUser ?i"
    by (simp_all add: r(1) j4(1) j3(1) j2(1) j1(1))
  show ?thesis
    using frame saved r(3,4) bn i unfolding flds base by metis
qed

subsection \<open>A run of captures\<close>

text \<open>Jobs handed to the sink one after the other, by whichever listener (the sequence number and the
  store are updated atomically, and the file names of different jobs are different).\<close>

fun saveAll :: "('re, 'net) sink_lib \<Rightarrow> 're sink_conf \<Rightarrow> ('re, 'net) sink_world \<Rightarrow> (sink_env \<times> job) list
    \<Rightarrow> ('re, 'net) sink_world \<times> job list" where
  "saveAll sl c w [] = (w, [])"
| "saveAll sl c w ((env, j) # xs) =
     (case saveJob sl c env w j of (w1, j1, e) \<Rightarrow>
      case saveAll sl c w1 xs of (w2, js) \<Rightarrow> (w2, j1 # js))"

definition freshJob :: "sink_env \<times> job \<Rightarrow> bool" where
  "freshJob x \<longleftrightarrow> length (seStamp (fst x)) = 15 \<and> jobSavedAs (snd x) = []"

lemma saveAll_facts:
  assumes "saveAll sl c w xs = (w', js)" "list_all freshJob xs" "swSeq w + length xs < 10 ^ 18"
  shows "map jobID js = [Suc (swSeq w)..<Suc (swSeq w + length xs)]
    \<and> map jobData js = map (\<lambda>x. jobData (capJob c (snd x))) xs
    \<and> map jobProtocol js = map (\<lambda>x. jobProtocol (snd x)) xs \<and> map jobSource js = map (\<lambda>x. jobSource (snd x)) xs
    \<and> swStore w' = addJobs (swStore w) js
    \<and> (\<forall>n. captureID n \<le> int (swSeq w) \<longrightarrow> swFiles w' n = swFiles w n)
    \<and> (\<forall>j\<in>set js. jobSavedAs j \<noteq> [] \<longrightarrow> swFiles w' (jobSavedAs j) = Some (jobData j))"
  using assms
proof (induction xs arbitrary: w js)
  case Nil
  then show ?case by (simp add: addJobs_def)
next
  case (Cons x xs)
  obtain env j where x: "x = (env, j)" by (cases x)
  obtain w1 j1 e where s1: "saveJob sl c env w j = (w1, j1, e)" by (metis prod_cases3)
  obtain w2 js1 where s2: "saveAll sl c w1 xs = (w2, js1)" by (cases "saveAll sl c w1 xs")
  have eqs: "js = j1 # js1" "w' = w2" using Cons.prems(1) s1 s2 by (simp_all add: x)
  have fr: "jobSavedAs j = []" "length (seStamp env) = 15" using Cons.prems(2) by (simp_all add: freshJob_def x)
  note f = saveJob_facts [OF s1 fr(1)]
  have seq: "swSeq w1 = Suc (swSeq w)" "jobID j1 = Suc (swSeq w)" "jobID j1 < 10 ^ 18" using f Cons.prems(3) by simp_all
  have cid: "captureID (captureBase j1 @ r) = int (jobID j1)" for r
    using captureID_base [OF fr(2) seq(3), of r] f by simp
  have ih: "map jobID js1 = [Suc (swSeq w1)..<Suc (swSeq w1 + length xs)]
    \<and> map jobData js1 = map (\<lambda>x. jobData (capJob c (snd x))) xs
    \<and> map jobProtocol js1 = map (\<lambda>x. jobProtocol (snd x)) xs \<and> map jobSource js1 = map (\<lambda>x. jobSource (snd x)) xs
    \<and> swStore w2 = addJobs (swStore w1) js1
    \<and> (\<forall>n. captureID n \<le> int (swSeq w1) \<longrightarrow> swFiles w2 n = swFiles w1 n)
    \<and> (\<forall>j\<in>set js1. jobSavedAs j \<noteq> [] \<longrightarrow> swFiles w2 (jobSavedAs j) = Some (jobData j))"
    using Cons.IH [OF _ _ _, of w1 js1] s2 Cons.prems(2,3) eqs(2) seq(1) by simp
  have old: "swFiles w2 n = swFiles w n" if "captureID n \<le> int (swSeq w)" for n
  proof -
    have "\<nexists>r. n = captureBase j1 @ r" using that cid seq(2) by fastforce
    then have "swFiles w1 n = swFiles w n" using f by blast
    then show ?thesis using ih that seq(1) by simp
  qed
  have mine: "jobSavedAs j1 \<noteq> [] \<Longrightarrow> swFiles w2 (jobSavedAs j1) = Some (jobData j1)"
    using f ih cid seq(1,2) by (metis order_refl)
  have "[Suc (swSeq w)..<Suc (swSeq w + length (x # xs))] = Suc (swSeq w) # [Suc (swSeq w1)..<Suc (swSeq w1 + length xs)]"
    by (simp add: seq(1) upt_conv_Cons del: upt_Suc)
  then show ?case
    using ih old mine f seq(2) unfolding eqs by (simp add: x addJobs_def)
qed

text \<open>C2: No capture is lost or overwritten. Over any run of jobs handed to the sink, with any writes
  failing and whatever is forwarded, decoded or scanned: the jobs get consecutive identifiers and all
  reach the store in order; and whenever a job says it was saved, the file it names still holds
  exactly its (capped) bytes at the end of the run, however the jobs are named.\<close>

theorem captures_never_overwritten:
  assumes "saveAll sl c w xs = (w', js)" "list_all freshJob xs" "swSeq w + length xs < 10 ^ 18"
  shows "map jobID js = [Suc (swSeq w)..<Suc (swSeq w + length xs)]
    \<and> map jobData js = map (\<lambda>x. jobData (capJob c (snd x))) xs
    \<and> swStore w' = addJobs (swStore w) js
    \<and> (\<forall>j\<in>set js. jobSavedAs j \<noteq> [] \<longrightarrow> swFiles w' (jobSavedAs j) = Some (jobData j))"
  using saveAll_facts [OF assms] by blast

definition demoSL :: "(bytes, bytes) sink_lib" where
  "demoSL = \<lparr>slMatch = demoLib, slReplace = (\<lambda>re d r. d), slLower = toLower, slMarshal = (\<lambda>j. None),
     slSend = (\<lambda>t d j. None)\<rparr>"

definition demoSinkConf :: "bytes sink_conf" where
  "demoSinkConf = \<lparr>maxJobMB = 0, saveConf = str ''both'',
     sinkEBCDIC = \<lparr>ebEnabled = False, ebDefaultPage = [], ebAutoDetect = False, ebSidecar = False, ebCarriage = []\<rparr>,
     dlpEnabled = False, dlpRules = []\<rparr>"

definition demoSinkEnv :: sink_env where
  "demoSinkEnv = \<lparr>seStamp = str ''20240101-000000'', seReceived = [], seWriteOK = (\<lambda>n. True), sePartial = (\<lambda>n. None),
     seFwd = \<lparr>feNow = (\<lambda>_. 0), fePutOK = (\<lambda>_. [])\<rparr>, seDefaults = []\<rparr>"

definition demoWorld :: "(bytes, bytes) sink_world" where
  "demoWorld = \<lparr>swFiles = Map.empty, swSeq = 0, swStore = newJobStore 10, swForward = None, swWorkers = []\<rparr>"

text \<open>Two jobs of the same name in the same second.\<close>

theorem captures_never_overwritten_witness:
  "case saveAll demoSL demoSinkConf demoWorld
       [(demoSinkEnv, (newJob (str ''LPR'') [])\<lparr>jobName := str ''a/b'', jobData := [0x41]\<rparr>),
        (demoSinkEnv, (newJob (str ''LPR'') [])\<lparr>jobName := str ''a?b'', jobData := [0x42]\<rparr>)] of
     (w', js) \<Rightarrow> map jobID js = [1, 2] \<and> map jobData js = [[0x41], [0x42]]
       \<and> storeTotal (swStore w') = 2"
proof -
  let ?xs = "[(demoSinkEnv, (newJob (str ''LPR'') [])\<lparr>jobName := str ''a/b'', jobData := [0x41]\<rparr>),
        (demoSinkEnv, (newJob (str ''LPR'') [])\<lparr>jobName := str ''a?b'', jobData := [0x42]\<rparr>)]"
  obtain w' js where r: "saveAll demoSL demoSinkConf demoWorld ?xs = (w', js)"
    by (cases "saveAll demoSL demoSinkConf demoWorld ?xs")
  have f: "list_all freshJob ?xs" by (simp add: freshJob_def demoSinkEnv_def newJob_def blankJob_def str_def)
  have l: "swSeq demoWorld + length ?xs < 10 ^ 18" by (simp add: demoWorld_def)
  have "map jobID js = [1, 2]" "map jobData js = [[0x41], [0x42]]" "swStore w' = addJobs (newJobStore 10) js"
    using captures_never_overwritten [OF r f l] by (simp_all add: demoWorld_def demoSinkConf_def capJob_def upt_conv_Cons)
  moreover from this have "length js = 2" by (metis length_map length_Cons list.size(3) numeral_2_eq_2)
  ultimately show ?thesis unfolding r prod.case using addJobs_state [of 10 js] by simp
qed

subsection \<open>The content scan only inspects\<close>

lemma dlp_fields:
  "sinkEBCDIC (c\<lparr>dlpEnabled := b\<rparr>) = sinkEBCDIC c" "saveConf (c\<lparr>dlpEnabled := b\<rparr>) = saveConf c"
  "maxJobMB (c\<lparr>dlpEnabled := b\<rparr>) = maxJobMB c"
  by simp_all

lemma dlp_independent:
  "capJob (c\<lparr>dlpEnabled := b\<rparr>) j = capJob c j"
  "saveData (c\<lparr>dlpEnabled := b\<rparr>) env j fs = saveData c env j fs"
  "decodeJob sl (c\<lparr>dlpEnabled := b\<rparr>) env j fs = decodeJob sl c env j fs"
  "saveMetadata sl (c\<lparr>dlpEnabled := b\<rparr>) env j fs = saveMetadata sl c env j fs"
  unfolding capJob_def saveData_def decodeJob_def decodedText_def saveMetadata_def dlp_fields by (rule refl)+

lemma scan_disabled: "scanJob sl (c\<lparr>dlpEnabled := False\<rparr>) d j = j"
  by (simp add: scanJob_def)

text \<open>The content scan only inspects. Whatever the rules, saving a job with the scan enabled and
  with it disabled gives the same result towards the listener, the same forwarding, the same job
  except for the recorded matches, and the same files except for the job's own metadata file.\<close>

theorem dlp_inspects_only:
  "let (w0, j0, e0) = saveJob sl (c\<lparr>dlpEnabled := False\<rparr>) env w j;
       (w1, j1, e1) = saveJob sl (c\<lparr>dlpEnabled := True\<rparr>) env w j;
       meta = captureBase j0 @ str ''.json''
   in e1 = e0 \<and> j1\<lparr>jobDLPMatches := jobDLPMatches j0\<rparr> = j0
     \<and> swForward w1 = swForward w0 \<and> swWorkers w1 = swWorkers w0 \<and> swSeq w1 = swSeq w0
     \<and> swFiles w1 = (swFiles w0)(meta := swFiles w1 meta)"
proof -
  define j1 where "j1 = nameJob env (identify env (swSeq w + 1) (capJob c j))"
  obtain j2 fs2 where d2: "saveData c env j1 (swFiles w) = (j2, fs2)" by (cases "saveData c env j1 (swFiles w)")
  obtain f3 ws j3 fs3 e3 where d3: "teeJob sl env (swForward w) j2 fs2 = (f3, ws, j3, fs3, e3)" by (metis prod_cases5)
  obtain dec j4 fs4 where d4: "decodeJob sl c env j3 fs3 = (dec, j4, fs4)" by (metis prod_cases3)
  obtain m where j5: "scanJob sl (c\<lparr>dlpEnabled := True\<rparr>) dec j4 = j4\<lparr>jobDLPMatches := m\<rparr>" using scanJob_facts by blast
  have b: "captureBase (j4\<lparr>jobDLPMatches := m\<rparr>) = captureBase j4" by simp
  have "saveMetadata sl c env (j4\<lparr>jobDLPMatches := m\<rparr>) fs4 n = saveMetadata sl c env j4 fs4 n"
    if "n \<noteq> captureBase j4 @ str ''.json''" for n
    using saveMetadata_facts [of n "j4\<lparr>jobDLPMatches := m\<rparr>"] saveMetadata_facts [of n j4] that unfolding b by metis
  then show ?thesis
    unfolding saveJob_def dlp_independent j1_def [symmetric] Let_def d2 prod.case d3 d4 j5 scan_disabled
    by (auto simp: fun_eq_iff)
qed

subsection \<open>The raw listener, end to end\<close>

lemma saveJob_no_forwarder:
  "swForward w = None \<Longrightarrow> saveJob sl c env w j = (w', j', e) \<Longrightarrow> e = None \<and> swForward w' = None"
  by (auto simp: saveJob_def teeJob_def Let_def split: prod.splits)

lemma saveSegments_all:
  "swForward w = None \<Longrightarrow> saveSegments sl c ro parsePJL proto src w segs
     = saveAll sl c w (map (\<lambda>(env, seg). (env, rawJob ro parsePJL proto src env seg)) segs)"
proof (induction segs arbitrary: w)
  case (Cons x segs)
  obtain env seg where x: "x = (env, seg)" by (cases x)
  obtain w1 j1 e where s: "saveJob sl c env w (rawJob ro parsePJL proto src env seg) = (w1, j1, e)" by (metis prod_cases3)
  show ?case using saveJob_no_forwarder [OF Cons.prems s] Cons.IH [of w1] s by (simp add: x)
qed simp

lemma rawJob_fields:
  "jobData (rawJob ro parsePJL proto src env seg) = seg" "jobBytes (rawJob ro parsePJL proto src env seg) = length seg"
  "jobSavedAs (rawJob ro parsePJL proto src env seg) = []" "jobProtocol (rawJob ro parsePJL proto src env seg) = proto"
  "jobSource (rawJob ro parsePJL proto src env seg) = src"
  by (simp_all add: rawJob_def newJob_def blankJob_def Let_def split: prod.split)

lemma jobByteCap_cap:
  "jobByteCap c = 0 \<or> length d \<le> jobByteCap c \<Longrightarrow> jobData j = d \<Longrightarrow> capJob c j = j"
  by (auto simp: capJob_def jobByteCap_def split: if_splits)

lemma jobStream_part: "p \<in> set ps \<Longrightarrow> length (uel @ p) \<le> length (jobStream ps)"
  by (induction ps) (auto simp: jobStream_def)



end
