(* ===== verification/Utf16.thy ===== *)
theory Utf16
  imports Go_Prelude
begin

text \<open>
  Go's text conversions as the SMB components use them (\<^verbatim>\<open>utf16le\<close> and \<^verbatim>\<open>utf16leDecode\<close> of
  \<^verbatim>\<open>ntlm.go\<close>, \<^verbatim>\<open>parseUTF16LE\<close> of \<^verbatim>\<open>smb_tree.go\<close>): a Go string is UTF-8 bytes, ranging over it
  yields code points (U+FFFD for every byte that is not well-formed), and \<^verbatim>\<open>unicode/utf16\<close>
  pairs surrogates. Code points are natural numbers.
\<close>

subsection \<open>UTF-8\<close>

definition validRune :: "nat \<Rightarrow> bool" where
  "validRune r = (r < 0xd800 \<or> (0xe000 \<le> r \<and> r < 0x110000))"

definition runeError :: nat where
  "runeError = 0xfffd"

definition encodeRune :: "nat \<Rightarrow> bytes" where
  "encodeRune r0 =
     (let r = (if validRune r0 then r0 else runeError) in
      if r < 128 then [of_nat r]
      else if r < 2048 then [of_nat (192 + r div 64), of_nat (128 + r mod 64)]
      else if r < 65536 then [of_nat (224 + r div 4096), of_nat (128 + r div 64 mod 64), of_nat (128 + r mod 64)]
      else [of_nat (240 + r div 262144), of_nat (128 + r div 4096 mod 64), of_nat (128 + r div 64 mod 64), of_nat (128 + r mod 64)])"

text \<open>\<^verbatim>\<open>utf8.DecodeRune\<close>: the code point at the front and its length.\<close>

definition inRange :: "byte \<Rightarrow> nat \<Rightarrow> nat \<Rightarrow> bool" where
  "inRange b lo hi = (lo \<le> unat b \<and> unat b \<le> hi)"

definition decodeRune :: "bytes \<Rightarrow> nat \<times> nat" where
  "decodeRune s =
     (let a = unat (s ! 0) in
      if a < 128 then (a, 1)
      else if 194 \<le> a \<and> a \<le> 223 \<and> 2 \<le> length s \<and> inRange (s ! 1) 128 191 then
        ((a - 192) * 64 + (unat (s ! 1) - 128), 2)
      else if 224 \<le> a \<and> a \<le> 239 \<and> 3 \<le> length s
          \<and> inRange (s ! 1) (if a = 224 then 160 else 128) (if a = 237 then 159 else 191) \<and> inRange (s ! 2) 128 191 then
        ((a - 224) * 4096 + (unat (s ! 1) - 128) * 64 + (unat (s ! 2) - 128), 3)
      else if 240 \<le> a \<and> a \<le> 244 \<and> 4 \<le> length s
          \<and> inRange (s ! 1) (if a = 240 then 144 else 128) (if a = 244 then 143 else 191)
          \<and> inRange (s ! 2) 128 191 \<and> inRange (s ! 3) 128 191 then
        ((a - 240) * 262144 + (unat (s ! 1) - 128) * 4096 + (unat (s ! 2) - 128) * 64 + (unat (s ! 3) - 128), 4)
      else (runeError, 1))"

lemma decodeRune_pos: "0 < snd (decodeRune s)"
  by (auto simp: decodeRune_def Let_def)

function runes :: "bytes \<Rightarrow> nat list" where
  "runes s = (if s = [] then [] else fst (decodeRune s) # runes (drop (snd (decodeRune s)) s))"
  by pat_completeness auto
termination
proof (relation "measure length", goal_cases)
  case (2 s)
  then show ?case using decodeRune_pos [of s] by (cases s) auto
qed simp

declare runes.simps [simp del]

subsection \<open>UTF-16\<close>

definition utf16Units :: "nat \<Rightarrow> u16 list" where
  "utf16Units r =
     (if r < 0xd800 \<or> (0xe000 \<le> r \<and> r < 0x10000) then [of_nat r]
      else if 0x10000 \<le> r \<and> r \<le> 0x10ffff then
        [of_nat (0xd800 + (r - 0x10000) div 1024), of_nat (0xdc00 + (r - 0x10000) mod 1024)]
      else [of_nat runeError])"

fun utf16Decode :: "u16 list \<Rightarrow> nat list" where
  "utf16Decode [] = []"
| "utf16Decode (u # us) =
     (if 0xd800 \<le> unat u \<and> unat u < 0xdc00 \<and> us \<noteq> [] \<and> 0xdc00 \<le> unat (hd us) \<and> unat (hd us) < 0xe000 then
        (0x10000 + (unat u - 0xd800) * 1024 + (unat (hd us) - 0xdc00)) # utf16Decode (tl us)
      else if 0xd800 \<le> unat u \<and> unat u < 0xe000 then runeError # utf16Decode us
      else unat u # utf16Decode us)"

definition utf16le :: "bytes \<Rightarrow> bytes" where
  "utf16le s = concat (map le16 (concat (map utf16Units (runes s))))"

text \<open>The 16-bit units of a byte slice; an odd byte at the end is ignored.\<close>

fun units16 :: "bytes \<Rightarrow> u16 list" where
  "units16 (a # b # rest) = le_dec [a, b] # units16 rest"
| "units16 _ = []"

definition runesToString :: "nat list \<Rightarrow> bytes" where
  "runesToString rs = concat (map encodeRune rs)"

definition utf16leDecode :: "bytes \<Rightarrow> bytes" where
  "utf16leDecode b = runesToString (utf16Decode (units16 b))"

definition parseUTF16LE :: "bytes \<Rightarrow> bytes" where
  "parseUTF16LE b = runesToString (utf16Decode (units16 b))"

section \<open>Correctness\<close>

lemma unat_byte8: "n < 256 \<Longrightarrow> unat (of_nat n :: byte) = n"
  by (simp add: unat_of_nat take_bit_nat_eq_self)

lemma unat_unit16: "n < 65536 \<Longrightarrow> unat (of_nat n :: u16) = n"
  by (simp add: unat_of_nat take_bit_nat_eq_self)

text \<open>Well-formed UTF-8 text.\<close>

definition validText :: "bytes \<Rightarrow> bool" where
  "validText s \<longleftrightarrow> (\<exists>rs. list_all validRune rs \<and> s = runesToString rs)"

lemma decodeRune_1: "r < 128 \<Longrightarrow> decodeRune (of_nat r # t) = (r, 1)"
  by (simp add: decodeRune_def unat_byte8)

lemma decodeRune_2:
  assumes "128 \<le> r" "r < 2048"
  shows "decodeRune (of_nat (192 + r div 64) # of_nat (128 + r mod 64) # t) = (r, 2)"
proof -
  have u: "unat (of_nat (192 + r div 64) :: byte) = 192 + r div 64" "unat (of_nat (128 + r mod 64) :: byte) = 128 + r mod 64"
    using assms by (intro unat_byte8; linarith)+
  have "194 \<le> 192 + r div 64" "192 + r div 64 \<le> 223" using assms by auto
  then show ?thesis
    unfolding decodeRune_def inRange_def Let_def nth_Cons_0 nth_Cons_Suc One_nat_def u by (simp del: of_nat_add)
qed

lemma digits64: "r div 4096 * 4096 + r div 64 mod 64 * 64 + r mod 64 = (r :: nat)"
proof -
  have "r div 4096 = r div 64 div 64" by (simp add: div_mult2_eq)
  then show ?thesis using div_mult_mod_eq [of r 64] div_mult_mod_eq [of "r div 64" 64] by linarith
qed

lemma digits64_4: "r div 262144 * 262144 + r div 4096 mod 64 * 4096 + r div 64 mod 64 * 64 + r mod 64 = (r :: nat)"
proof -
  have "r div 262144 = r div 4096 div 64" by (simp add: div_mult2_eq)
  then show ?thesis using div_mult_mod_eq [of "r div 4096" 64] digits64 [of r] by linarith
qed

lemma decodeRune_3:
  assumes "2048 \<le> r" "r < 65536" "validRune r"
  shows "decodeRune (of_nat (224 + r div 4096) # of_nat (128 + r div 64 mod 64) # of_nat (128 + r mod 64) # t) = (r, 3)"
proof -
  have u: "unat (of_nat (224 + r div 4096) :: byte) = 224 + r div 4096"
    "unat (of_nat (128 + r div 64 mod 64) :: byte) = 128 + r div 64 mod 64"
    "unat (of_nat (128 + r mod 64) :: byte) = 128 + r mod 64"
    using assms(2) by (intro unat_byte8; linarith)+
  have n: "(a # b # c # t) ! 2 = c" for a b c :: byte and t by simp
  have m: "r div 64 mod 64 \<le> 63" "r mod 64 \<le> 63" by (simp_all add: less_Suc_eq_le [symmetric])
  have a: "224 + r div 4096 \<le> 239" using assms(2) by auto
  have lo: "r div 4096 = 0 \<Longrightarrow> 32 \<le> r div 64 mod 64" using assms(1) digits64 [of r] m by linarith
  have hi: "r div 4096 = 13 \<Longrightarrow> r div 64 mod 64 \<le> 31"
    using assms(3) digits64 [of r] m unfolding validRune_def by linarith
  show ?thesis
    unfolding decodeRune_def inRange_def Let_def nth_Cons_0 nth_Cons_Suc One_nat_def n u
    using a m lo hi digits64 [of r] by (simp del: of_nat_add)
qed

lemma decodeRune_4:
  assumes "65536 \<le> r" "r < 0x110000"
  shows "decodeRune (of_nat (240 + r div 262144) # of_nat (128 + r div 4096 mod 64) # of_nat (128 + r div 64 mod 64)
    # of_nat (128 + r mod 64) # t) = (r, 4)"
proof -
  have u: "unat (of_nat (240 + r div 262144) :: byte) = 240 + r div 262144"
    "unat (of_nat (128 + r div 4096 mod 64) :: byte) = 128 + r div 4096 mod 64"
    "unat (of_nat (128 + r div 64 mod 64) :: byte) = 128 + r div 64 mod 64"
    "unat (of_nat (128 + r mod 64) :: byte) = 128 + r mod 64"
    using assms(2) by (intro unat_byte8; linarith)+
  have n: "(a # b # c # t) ! 2 = c" "(a # b # c # d # t) ! 3 = d" for a b c d :: byte and t by simp_all
  have m: "r div 4096 mod 64 \<le> 63" "r div 64 mod 64 \<le> 63" "r mod 64 \<le> 63" by (simp_all add: less_Suc_eq_le [symmetric])
  have a: "r div 262144 \<le> 4" using assms(2) by auto
  have lo: "r div 262144 = 0 \<Longrightarrow> 16 \<le> r div 4096 mod 64" using assms(1) digits64_4 [of r] m by linarith
  have hi: "r div 262144 = 4 \<Longrightarrow> r div 4096 mod 64 \<le> 15" using assms(2) digits64_4 [of r] m by linarith
  show ?thesis
    unfolding decodeRune_def inRange_def Let_def nth_Cons_0 nth_Cons_Suc One_nat_def n u
    using a m lo hi digits64_4 [of r] by (simp del: of_nat_add)
qed

lemma decode_encode: "validRune r \<Longrightarrow> decodeRune (encodeRune r @ t) = (r, length (encodeRune r))"
  using decodeRune_1 [of r t] decodeRune_2 [of r t] decodeRune_3 [of r t] decodeRune_4 [of r t]
  by (auto simp: encodeRune_def Let_def validRune_def simp del: of_nat_add)

lemma encodeRune_nonempty: "encodeRune r \<noteq> []"
  by (simp add: encodeRune_def Let_def)

lemma runes_runesToString: "list_all validRune rs \<Longrightarrow> runes (runesToString rs) = rs"
proof (induction rs)
  case Nil
  then show ?case by (subst runes.simps) (simp add: runesToString_def)
next
  case (Cons r rs)
  have ne: "encodeRune r @ runesToString rs \<noteq> []" using encodeRune_nonempty by simp
  have "runesToString (r # rs) = encodeRune r @ runesToString rs" by (simp add: runesToString_def)
  then show ?case
    using Cons ne decode_encode [of r "runesToString rs"] by (subst runes.simps) simp
qed

lemma utf16Decode_units: "validRune r \<Longrightarrow> utf16Decode (utf16Units r @ us) = r # utf16Decode us"
proof -
  assume v: "validRune r"
  show ?thesis
  proof (cases "r < 0x10000")
    case True
    then show ?thesis using v unat_unit16 [of r] by (auto simp: utf16Units_def validRune_def)
  next
    case False
    let ?q = "r - 0x10000"
    have q: "?q div 1024 < 1024" "?q mod 1024 < 1024" "?q div 1024 * 1024 + ?q mod 1024 = ?q"
      using v False by (auto simp: validRune_def)
    have u: "unat (of_nat (0xd800 + ?q div 1024) :: u16) = 0xd800 + ?q div 1024"
      "unat (of_nat (0xdc00 + ?q mod 1024) :: u16) = 0xdc00 + ?q mod 1024"
      using q by (intro unat_unit16; linarith)+
    have e: "utf16Units r = [of_nat (0xd800 + ?q div 1024), of_nat (0xdc00 + ?q mod 1024)]"
      using v False by (simp add: utf16Units_def validRune_def del: of_nat_add)
    show ?thesis unfolding e append_Cons append_Nil utf16Decode.simps list.sel u
      using q False by simp
  qed
qed

lemma utf16_roundtrip: "list_all validRune rs \<Longrightarrow> utf16Decode (concat (map utf16Units rs)) = rs"
  by (induction rs) (simp_all add: utf16Decode_units)

lemma units16_le16: "units16 (concat (map le16 us)) = us"
proof (induction us)
  case (Cons u us)
  have "le16 u = [ucast u, ucast (drop_bit 8 u)]" by (simp add: numeral_2_eq_2)
  moreover have "le_dec (le16 u) = u" by simp
  ultimately show ?case using Cons by simp
qed simp

text \<open>Text survives UTF-16. Every well-formed string comes back unchanged from its UTF-16LE form,
  surrogate pairs included.\<close>

lemma utf16le_roundtrip: "validText s \<Longrightarrow> utf16leDecode (utf16le s) = s"
  by (auto simp: validText_def utf16leDecode_def utf16le_def units16_le16 runes_runesToString utf16_roundtrip)

lemma ascii_runes:
  assumes "list_all (\<lambda>b. unat b < 128) s"
  shows "runesToString (map unat s) = s" "list_all validRune (map unat s)"
  using assms by (induction s) (simp_all add: runesToString_def encodeRune_def validRune_def)

lemma ascii_validText: "list_all (\<lambda>b. unat b < 128) s \<Longrightarrow> validText s"
  unfolding validText_def using ascii_runes by metis

lemma runes_ascii: "list_all (\<lambda>b. unat b < 128) s \<Longrightarrow> runes s = map unat s"
  using ascii_runes [of s] runes_runesToString [of "map unat s"] by simp

lemma length_utf16le_ascii: "list_all (\<lambda>b. unat b < 128) s \<Longrightarrow> length (utf16le s) = 2 * length s"
proof -
  assume a: "list_all (\<lambda>b. unat b < 128) s"
  have "length (concat (map le16 (concat (map utf16Units (map unat s))))) = 2 * length s"
    using a by (induction s) (simp_all add: utf16Units_def)
  then show ?thesis by (simp add: utf16le_def runes_ascii [OF a])
qed

lemma length_utf16le_even: "even (length (utf16le s))"
  by (auto simp: utf16le_def length_concat sum_list_const_mult o_def sum_list_triv)

end
