(* ===== verification/Md4.thy ===== *)
theory Md4
  imports Go_Prelude
begin

text \<open>
  MD4 as \<^verbatim>\<open>md4.go\<close> implements it for the NTLM password hash. The four registers are a tuple;
  the code's calls name them in the rotating order \<open>abcd\<close>, \<open>dabc\<close>, \<open>cdab\<close>, \<open>bcda\<close>, which is one
  step that moves the new value to the second place.
\<close>

type_synonym md4_regs = "u32 \<times> u32 \<times> u32 \<times> u32"

definition md4F :: "u32 \<Rightarrow> u32 \<Rightarrow> u32 \<Rightarrow> u32" where
  "md4F x y z = (x AND y) OR (NOT x AND z)"

definition md4G :: "u32 \<Rightarrow> u32 \<Rightarrow> u32 \<Rightarrow> u32" where
  "md4G x y z = (x AND y) OR (x AND z) OR (y AND z)"

definition md4H :: "u32 \<Rightarrow> u32 \<Rightarrow> u32 \<Rightarrow> u32" where
  "md4H x y z = x XOR y XOR z"

definition md4Step :: "(u32 \<Rightarrow> u32 \<Rightarrow> u32 \<Rightarrow> u32) \<Rightarrow> u32 \<Rightarrow> u32 list \<Rightarrow> nat \<times> nat \<Rightarrow> md4_regs \<Rightarrow> md4_regs" where
  "md4Step f k0 X ks r =
     (case ks of (k, s) \<Rightarrow> case r of (a, b, c, d) \<Rightarrow> (d, word_rotl s (a + f b c d + X ! k + k0), b, c))"

definition round1 :: "(nat \<times> nat) list" where
  "round1 = zip [0..<16] (concat (replicate 4 [3, 7, 11, 19]))"

definition round2 :: "(nat \<times> nat) list" where
  "round2 = zip [0, 4, 8, 12, 1, 5, 9, 13, 2, 6, 10, 14, 3, 7, 11, 15] (concat (replicate 4 [3, 5, 9, 13]))"

definition round3 :: "(nat \<times> nat) list" where
  "round3 = zip [0, 8, 4, 12, 2, 10, 6, 14, 1, 9, 5, 13, 3, 11, 7, 15] (concat (replicate 4 [3, 9, 11, 15]))"

definition md4Block :: "bytes \<Rightarrow> md4_regs \<Rightarrow> md4_regs" where
  "md4Block block r =
     (let X = map (\<lambda>i. le_dec (take 4 (drop (4 * i) block))) [0..<16];
          r1 = fold (md4Step md4F 0 X) round1 r;
          r2 = fold (md4Step md4G 0x5a827999 X) round2 r1;
          r3 = fold (md4Step md4H 0x6ed9eba1 X) round3 r2
      in case r of (aa, bb, cc, dd) \<Rightarrow> case r3 of (a, b, c, d) \<Rightarrow> (a + aa, b + bb, c + cc, d + dd))"

function md4Blocks :: "bytes \<Rightarrow> md4_regs \<Rightarrow> md4_regs" where
  "md4Blocks padded r = (if padded = [] then r else md4Blocks (drop 64 padded) (md4Block (take 64 padded) r))"
  by pat_completeness auto
termination
  by (relation "measure (\<lambda>(p, r). length p)") auto

declare md4Blocks.simps [simp del]

text \<open>The zero bytes are appended one by one until the length is 56 modulo 64.\<close>

function padTo56 :: "bytes \<Rightarrow> bytes" where
  "padTo56 b = (if length b mod 64 = 56 then b else padTo56 (b @ [0]))"
  by pat_completeness auto
termination
proof (relation "measure (\<lambda>b. if length b mod 64 \<le> 56 then 56 - length b mod 64 else 120 - length b mod 64)", goal_cases)
  case (2 b)
  moreover have "length b mod 64 < 64" by simp
  ultimately show ?case by (auto simp: mod_Suc)
qed simp

declare padTo56.simps [simp del]

definition md4Pad :: "bytes \<Rightarrow> bytes" where
  "md4Pad d = padTo56 (d @ [0x80]) @ le64 (of_nat (length d) * 8)"

definition md4Sum :: "bytes \<Rightarrow> bytes" where
  "md4Sum d = (case md4Blocks (md4Pad d) (0x67452301, 0xefcdab89, 0x98badcfe, 0x10325476) of
     (a, b, c, e) \<Rightarrow> le32 a @ le32 b @ le32 c @ le32 e)"

lemma length_md4Sum [simp]: "length (md4Sum d) = 16"
  by (simp add: md4Sum_def split: prod.split)

lemma padTo56_aligned: "length (padTo56 b) mod 64 = 56"
  by (induction b rule: padTo56.induct) (subst padTo56.simps, simp)

text \<open>The padded message is whole blocks, so the code's slices of 64 bytes stay in range.\<close>

lemma md4Pad_blocks: "length (md4Pad d) mod 64 = 0"
proof -
  have "(length (padTo56 (d @ [0x80])) + 8) mod 64 = (56 + 8) mod 64"
    unfolding padTo56_aligned [symmetric, of "d @ [0x80]"] by (simp add: mod_simps)
  then show ?thesis by (simp add: md4Pad_def)
qed

text \<open>The test vectors of RFC 1320 for the empty string and for \<open>abc\<close>.\<close>

lemma md4_empty: "md4Sum [] = [0x31, 0xd6, 0xcf, 0xe0, 0xd1, 0x6a, 0xe9, 0x31, 0xb7, 0x3c, 0x59, 0xd7, 0xe0, 0xc0, 0x89, 0xc0]"
  by code_simp

lemma md4_abc: "md4Sum [0x61, 0x62, 0x63] = [0xa4, 0x48, 0x01, 0x7a, 0xaf, 0x21, 0xd8, 0x52, 0x5f, 0xc1, 0x0a, 0xe8, 0x7a, 0xa6, 0x72, 0x9d]"
  by code_simp

end
