(* ===== verification/Smb_Crypto.thy ===== *)
theory Smb_Crypto
  imports Crypto_Types
begin

text \<open>
  SMB signing and encryption (\<^verbatim>\<open>cmac.go\<close>, \<^verbatim>\<open>smb_crypto.go\<close>): AES-CMAC built on the AES block
  function, the signature field of a message, and the encrypted transform header with AES-128-GCM.
  AES and GCM are fields of \<open>crypto\<close>; a random nonce is an argument.
\<close>

subsection \<open>AES-CMAC\<close>

text \<open>\<^verbatim>\<open>aes.NewCipher\<close> accepts these key lengths only.\<close>

definition aesKeyOK :: "bytes \<Rightarrow> bool" where
  "aesKeyOK key = (length key \<in> {16, 24, 32})"

text \<open>The loop of \<^verbatim>\<open>cmacShiftXor\<close> runs from the last byte to the first and carries one bit.\<close>

definition shiftStep :: "byte \<Rightarrow> bytes \<times> byte \<Rightarrow> bytes \<times> byte" where
  "shiftStep b oc = (case oc of (out, carry) \<Rightarrow> ((push_bit 1 b OR carry) # out, drop_bit 7 b))"

definition cmacShiftXor :: "bytes \<Rightarrow> bytes" where
  "cmacShiftXor b =
     (let out = fst (foldr shiftStep b ([], 0)) in
      if hd b AND 0x80 \<noteq> 0 then butlast out @ [last out XOR 0x87] else out)"

definition cmacSubkeys :: "(bytes \<Rightarrow> bytes) \<Rightarrow> bytes \<times> bytes" where
  "cmacSubkeys enc =
     (let l = enc (replicate 16 0); k1 = cmacShiftXor l; k2 = cmacShiftXor k1 in (k1, k2))"

definition cmacBody :: "(bytes \<Rightarrow> bytes) \<Rightarrow> bytes \<Rightarrow> bytes \<Rightarrow> bytes \<Rightarrow> bytes \<Rightarrow> bytes" where
  "cmacBody enc k1 k2 x0 msg =
     (let n0 = (length msg + 16 - 1) div 16;
          (n, complete) = (if n0 = 0 then (1, False) else (n0, length msg mod 16 = 0));
          rem = drop ((n - 1) * 16) msg;
          last' = (if complete then xorBytes rem k1
                   else xorBytes (rem @ [0x80] @ replicate (16 - length rem - 1) 0) k2);
          x = foldl (\<lambda>x i. enc (xorBytes x (take 16 (drop (i * 16) msg)))) x0 [0..<n - 1]
      in enc (xorBytes x last'))"

definition aesCMAC :: "crypto \<Rightarrow> bytes \<Rightarrow> bytes \<Rightarrow> bytes" where
  "aesCMAC cr key msg =
     (if \<not> aesKeyOK key then replicate 16 0
      else case cmacSubkeys (aesBlock cr key) of
        (k1, k2) \<Rightarrow> cmacBody (aesBlock cr key) k1 k2 (replicate 16 0) msg)"

subsection \<open>Signing\<close>

abbreviation "smb2HeaderSize \<equiv> (64 :: nat)"
abbreviation "smb2FlagsSigned \<equiv> (0x08 :: u32)"

definition setFlags :: "bytes \<Rightarrow> u32 \<Rightarrow> bytes" where
  "setFlags msg f = put msg 16 (le32 (le_dec (take 4 (drop 16 msg)) OR f))"

definition smbSign :: "crypto \<Rightarrow> bytes \<Rightarrow> bytes \<Rightarrow> bytes" where
  "smbSign cr key msg =
     (if length msg < smb2HeaderSize then msg
      else let out = put (setFlags msg smb2FlagsSigned) 48 (replicate 16 0)
           in put out 48 (take 16 (aesCMAC cr key out)))"

definition smbVerifySign :: "crypto \<Rightarrow> bytes \<Rightarrow> bytes \<Rightarrow> bool" where
  "smbVerifySign cr key msg =
     (length msg \<ge> smb2HeaderSize
      \<and> take 16 (drop 48 msg) = take 16 (aesCMAC cr key (put msg 48 (replicate 16 0))))"

subsection \<open>Encryption\<close>

abbreviation "transformHeaderSize \<equiv> (52 :: nat)"

definition thProtocolID :: bytes where
  "thProtocolID = [0xfd, 0x53, 0x4d, 0x42]"

definition transformHeader :: "bytes \<Rightarrow> nat \<Rightarrow> u64 \<Rightarrow> bytes" where
  "transformHeader nonce n sid =
     put (put (put (put (put (replicate transformHeaderSize 0) 0 thProtocolID) 20 nonce)
       36 (le32 (of_nat n))) 42 (le16 1)) 44 (le64 sid)"

definition smbEncrypt :: "crypto \<Rightarrow> bytes \<Rightarrow> bytes \<Rightarrow> u64 \<Rightarrow> bytes \<Rightarrow> bytes option" where
  "smbEncrypt cr nonce key sid plaintext =
     (if \<not> aesKeyOK key then None
      else
        let hdr = transformHeader nonce (length plaintext) sid;
            aad = drop 20 hdr;
            sealed = gcmSeal cr key nonce plaintext aad;
            tagOff = length sealed - 16
        in Some (put hdr 4 (drop tagOff sealed) @ take tagOff sealed))"

definition smbDecrypt :: "crypto \<Rightarrow> bytes \<Rightarrow> bytes \<Rightarrow> bytes option" where
  "smbDecrypt cr key wrapped =
     (if length wrapped < transformHeaderSize then None
      else if take 4 wrapped \<noteq> thProtocolID then None
      else if \<not> aesKeyOK key then None
      else
        let hdr = take transformHeaderSize wrapped;
            nonce = take 12 (drop 20 hdr);
            tag = take 16 (drop 4 hdr);
            aad = drop 20 hdr;
            ct = drop transformHeaderSize wrapped
        in gcmOpen cr key nonce (ct @ tag) aad)"

section \<open>Correctness\<close>

subsection \<open>AES-CMAC is the MAC of RFC 4493\<close>

text \<open>The RFC's definition: doubling in the field, and chaining block by block with the last block
  masked by a subkey.\<close>

definition dbl :: "128 word \<Rightarrow> 128 word" where
  "dbl x = push_bit 1 x XOR (if bit x 127 then 0x87 else 0)"

fun cbcMac :: "(bytes \<Rightarrow> bytes) \<Rightarrow> bytes \<Rightarrow> bytes \<Rightarrow> bytes \<Rightarrow> bytes \<Rightarrow> bytes" where
  "cbcMac enc k1 k2 x m =
     (if length m > 16 then cbcMac enc k1 k2 (enc (xorBytes x (take 16 m))) (drop 16 m)
      else if length m = 16 then enc (xorBytes x (xorBytes m k1))
      else enc (xorBytes x (xorBytes (m @ [0x80] @ replicate (15 - length m) 0) k2)))"

declare cbcMac.simps [simp del]

definition rfc4493 :: "crypto \<Rightarrow> bytes \<Rightarrow> bytes \<Rightarrow> bytes" where
  "rfc4493 cr key m =
     (let L = be_dec (aesBlock cr key (replicate 16 0));
          k1 = be_enc 16 (dbl L); k2 = be_enc 16 (dbl (dbl L))
      in cbcMac (aesBlock cr key) k1 k2 (replicate 16 0) m)"

lemma bit_byte: "bit (b :: byte) i \<Longrightarrow> i < 8"
  by (auto dest: bit_imp_le_length)

lemma bit_le_dec:
  "bit (le_dec bs :: 'a::len word) i \<longleftrightarrow> i < LENGTH('a) \<and> i < 8 * length bs \<and> bit (bs ! (i div 8)) (i mod 8)"
proof (induction bs arbitrary: i)
  case (Cons b bs)
  show ?case
  proof (cases "i < 8")
    case True
    then show ?thesis by (auto simp: bit_simps)
  next
    case False
    then have "i div 8 = Suc ((i - 8) div 8)" "(i - 8) mod 8 = i mod 8"
      by (simp_all add: le_div_geq le_mod_geq not_less)
    moreover have "\<not> bit b i" using False by (auto simp: bit_word.rep_eq dest: bit_imp_le_length)
    ultimately show ?thesis using False Cons.IH [of "i - 8"] by (auto simp: bit_simps)
  qed
qed simp

lemma bit_be_dec:
  assumes "length b = 16"
  shows "bit (be_dec b :: 128 word) i \<longleftrightarrow> i < 128 \<and> bit (b ! (15 - i div 8)) (i mod 8)"
  using assms by (auto simp: be_dec_def bit_le_dec rev_nth)

lemma le_enc_dec: "8 * length bs \<le> LENGTH('a) \<Longrightarrow> le_enc (length bs) (le_dec bs :: 'a::len word) = bs"
proof (induction bs)
  case (Cons b bs)
  have "ucast (le_dec (b # bs) :: 'a word) = b"
    using Cons.prems by (intro bit_eqI) (auto simp: bit_simps bit_le_dec)
  moreover have "drop_bit 8 (le_dec (b # bs) :: 'a word) = le_dec bs"
    using Cons.prems by (intro bit_eqI) (auto simp: bit_simps bit_le_dec dest: bit_byte)
  ultimately show ?case using Cons by simp
qed simp

lemma be_enc_dec: "length b = 16 \<Longrightarrow> be_enc 16 (be_dec b :: 128 word) = b"
  using le_enc_dec [of "rev b", where 'a = 128] by (simp add: be_enc_def be_dec_def)

lemma shift_nth:
  "length (fst (foldr shiftStep b ([], 0))) = length b
    \<and> (\<forall>j<length b. fst (foldr shiftStep b ([], 0)) ! j
         = (push_bit 1 (b ! j) OR (if Suc j < length b then drop_bit 7 (b ! Suc j) else 0)))
    \<and> snd (foldr shiftStep b ([], 0)) = (if b = [] then 0 else drop_bit 7 (hd b))"
proof (induction b)
  case (Cons x b)
  obtain out c where o: "foldr shiftStep b ([], 0) = (out, c)" by (cases "foldr shiftStep b ([], 0)")
  have step: "foldr shiftStep (x # b) ([], 0) = ((push_bit 1 x OR c) # out, drop_bit 7 x)"
    by (simp only: foldr.simps comp_apply o shiftStep_def prod.case)
  have ih: "length out = length b" "c = (if b = [] then 0 else drop_bit 7 (hd b))"
    "\<And>j. j < length b \<Longrightarrow> out ! j = (push_bit 1 (b ! j) OR (if Suc j < length b then drop_bit 7 (b ! Suc j) else 0))"
    using Cons unfolding o fst_conv snd_conv by blast+
  have "((push_bit 1 x OR c) # out) ! j
      = (push_bit 1 ((x # b) ! j) OR (if Suc j < length (x # b) then drop_bit 7 ((x # b) ! Suc j) else 0))"
    if j: "j < length (x # b)" for j
  proof (cases j)
    case 0
    then show ?thesis using ih(2) by (cases b) simp_all
  next
    case (Suc k)
    then have "k < length b" using j by simp
    from ih(3) [OF this] show ?thesis unfolding Suc nth_Cons_Suc by simp
  qed
  then show ?case unfolding step fst_conv snd_conv using ih(1) by simp
qed simp

lemma push1_bits:
  "\<not> bit (push_bit 1 (x :: byte)) 0" "n < 7 \<Longrightarrow> bit (push_bit 1 (x :: byte)) (Suc n) = bit x n"
  "bit (drop_bit 7 (x :: byte)) 0 = bit x 7" "0 < n \<Longrightarrow> \<not> bit (drop_bit 7 (x :: byte)) n"
  "n < 127 \<Longrightarrow> bit (push_bit 1 (y :: 128 word)) (Suc n) = bit y n" "\<not> bit (push_bit 1 (y :: 128 word)) 0"
  unfolding bit_push_bit_iff bit_drop_bit_eq comp_apply by (auto dest: bit_byte)

lemma suc_mod8:
  "Suc k mod 8 = 0 \<Longrightarrow> k mod 8 = 7 \<and> Suc k div 8 = Suc (k div 8)"
  "Suc k mod 8 \<noteq> 0 \<Longrightarrow> Suc k div 8 = k div 8 \<and> Suc k mod 8 = Suc (k mod 8) \<and> k mod 8 < 7"
  by (auto simp: mod_Suc div_Suc split: if_splits)

lemma shift_be:
  assumes "length b = 16"
  shows "(be_dec (fst (foldr shiftStep b ([], 0))) :: 128 word) = push_bit 1 (be_dec b)"
proof (rule bit_eqI)
  fix i
  let ?o = "fst (foldr shiftStep b ([], 0))"
  assume "possible_bit TYPE(128 word) i"
  then have i: "i < 128" by simp
  let ?j = "15 - i div 8"
  have j: "?j < 16" by simp
  have o: "?o ! ?j = (push_bit 1 (b ! ?j) OR (if Suc ?j < 16 then drop_bit 7 (b ! Suc ?j) else 0))" "length ?o = 16"
    using shift_nth [of b] assms by auto
  have l: "bit (be_dec ?o :: 128 word) i = bit (push_bit 1 (b ! ?j) OR (if Suc ?j < 16 then drop_bit 7 (b ! Suc ?j) else 0)) (i mod 8)"
    using i unfolding bit_be_dec [OF o(2)] o(1) by simp
  show "bit (be_dec ?o :: 128 word) i = bit (push_bit 1 (be_dec b :: 128 word)) i"
  proof (cases i)
    case 0
    then have "\<not> Suc ?j < 16" by simp
    then have e: "bit (be_dec ?o :: 128 word) i = bit (push_bit 1 (b ! ?j)) (i mod 8)"
      unfolding l by (simp only: if_False or.right_neutral)
    have "\<not> bit (push_bit 1 (be_dec b :: 128 word)) i" "\<not> bit (push_bit 1 (b ! ?j)) (i mod 8)"
      unfolding 0 mod_0 by (rule push1_bits)+
    then show ?thesis unfolding e by blast
  next
    case (Suc k)
    have r: "bit (push_bit 1 (be_dec b :: 128 word)) i = bit (b ! (15 - k div 8)) (k mod 8)"
      using i unfolding Suc by (simp only: push1_bits bit_be_dec [OF assms]) simp
    show ?thesis
    proof (cases "i mod 8 = 0")
      case True
      have k: "k mod 8 = 7" "i div 8 = Suc (k div 8)" using suc_mod8(1) [of k] True Suc by simp_all
      have "k div 8 < 15" using i k(2) Suc by linarith
      then have j': "15 - k div 8 = Suc ?j" "Suc ?j < 16" using k(2) by linarith+
      show ?thesis unfolding l r True bit_or_iff k(1) j'(1) if_P [OF j'(2)] by (simp only: push1_bits) simp
    next
      case False
      have m: "k div 8 = i div 8" "i mod 8 = Suc (k mod 8)" "k mod 8 < 7" 
        using suc_mod8(2) [of k] False Suc by simp_all
      have "\<not> bit (if Suc ?j < 16 then drop_bit 7 (b ! Suc ?j) else 0) (Suc (k mod 8))"
        using push1_bits(4) [of "Suc (k mod 8)"] by simp
      then show ?thesis unfolding l r m bit_or_iff using push1_bits(2) [OF m(3)] by simp
    qed
  qed
qed

lemma last_xor:
  assumes "length b = 16"
  shows "(be_dec (butlast b @ [last b XOR 0x87]) :: 128 word) = be_dec b XOR 0x87"
proof (rule bit_eqI)
  fix i
  assume "possible_bit TYPE(128 word) i"
  then have i: "i < 128" by simp
  have ne: "b \<noteq> []" using assms by auto
  have l: "length (butlast b @ [last b XOR 0x87]) = 16" using assms by simp
  have c: "(0x87 :: 128 word) = ucast (0x87 :: byte)" by simp
  show "bit (be_dec (butlast b @ [last b XOR 0x87]) :: 128 word) i = bit (be_dec b XOR 0x87 :: 128 word) i"
  proof (cases "i < 8")
    case True
    then show ?thesis
      using i assms ne unfolding bit_be_dec [OF l] bit_xor_iff bit_be_dec [OF assms] c
      by (simp add: bit_simps nth_append last_conv_nth)
  next
    case False
    then have "15 - i div 8 < 15" by (simp add: div_greater_zero_iff)
    moreover have "\<not> bit (0x87 :: 128 word) i" using False unfolding c by (auto simp only: bit_ucast_iff dest: bit_byte)
    ultimately show ?thesis
      using i assms unfolding bit_be_dec [OF l] bit_xor_iff bit_be_dec [OF assms]
      by (simp add: nth_append nth_butlast)
  qed
qed

lemma cmacShiftXor_dbl:
  assumes "length b = 16"
  shows "length (cmacShiftXor b) = 16" "(be_dec (cmacShiftXor b) :: 128 word) = dbl (be_dec b)"
proof -
  let ?o = "fst (foldr shiftStep b ([], 0))"
  have lo: "length ?o = 16" using shift_nth [of b] assms by auto
  then show "length (cmacShiftXor b) = 16" by (simp add: cmacShiftXor_def Let_def)
  have "(0x80 :: byte) = 2 ^ 7" by simp
  then have "hd b AND 0x80 \<noteq> 0 \<longleftrightarrow> bit (hd b) 7" by (simp only: and_exp_eq_0_iff_not_bit not_not)
  moreover have "bit (be_dec b :: 128 word) 127 = bit (hd b) 7"
    using assms by (cases b) (simp_all add: bit_be_dec)
  ultimately show "(be_dec (cmacShiftXor b) :: 128 word) = dbl (be_dec b)"
    using last_xor [OF lo] shift_be [OF assms] by (simp add: cmacShiftXor_def dbl_def Let_def)
qed

text \<open>The MAC of a non-empty message whose last block is block \<open>q\<close>.\<close>

definition macLast :: "(bytes \<Rightarrow> bytes) \<Rightarrow> bytes \<Rightarrow> bytes \<Rightarrow> nat \<Rightarrow> bytes \<Rightarrow> bytes \<Rightarrow> bytes" where
  "macLast enc k1 k2 q x m =
     enc (xorBytes (foldl (\<lambda>x i. enc (xorBytes x (take 16 (drop (i * 16) m)))) x [0..<q])
       (if length m mod 16 = 0 then xorBytes (drop (q * 16) m) k1
        else xorBytes (drop (q * 16) m @ [0x80] @ replicate (16 - length (drop (q * 16) m) - 1) 0) k2))"

lemma cmacBody_last: "(length m + 15) div 16 = Suc q \<Longrightarrow> cmacBody enc k1 k2 x m = macLast enc k1 k2 q x m"
proof -
  assume a: "(length m + 15) div 16 = Suc q"
  have e: "length m + 16 - 1 = length m + 15" by simp
  show ?thesis unfolding cmacBody_def macLast_def e a Let_def by simp
qed

lemma macLast_Suc:
  assumes "16 < length m"
  shows "macLast enc k1 k2 (Suc q) x m = macLast enc k1 k2 q (enc (xorBytes x (take 16 m))) (drop 16 m)"
proof -
  have up: "[0..<Suc q] = 0 # map Suc [0..<q]" by (simp only: map_Suc_upt upt_conv_Cons zero_less_Suc)
  have d: "drop (Suc i * 16) m = drop (i * 16) (drop 16 m)" for i by (simp add: drop_drop add.commute)
  have md: "(length m mod 16 = 0) = (length (drop 16 m) mod 16 = 0)" using assms by (simp add: le_mod_geq)
  have fl: "foldl (\<lambda>x i. enc (xorBytes x (take 16 (drop (i * 16) m)))) x [0..<Suc q]
      = foldl (\<lambda>x i. enc (xorBytes x (take 16 (drop (i * 16) (drop 16 m))))) (enc (xorBytes x (take 16 m))) [0..<q]"
    unfolding up foldl_Cons foldl_map d by simp
  show ?thesis unfolding macLast_def fl d md ..
qed

lemma cmacBody_cbcMac: "cmacBody enc k1 k2 x m = cbcMac enc k1 k2 x m"
proof (induction enc k1 k2 x m rule: cbcMac.induct)
  case (1 enc k1 k2 x m)
  show ?case
  proof (cases "length m > 16")
    case True
    obtain p where p: "(length (drop 16 m) + 15) div 16 = Suc p" using True by (cases "(length (drop 16 m) + 15) div 16") auto
    have "length m + 15 = (length (drop 16 m) + 15) + 16" using True by simp
    then have q: "(length m + 15) div 16 = Suc (Suc p)" using p by simp
    show ?thesis
      using "1.IH" [OF True] True unfolding cmacBody_last [OF q] macLast_Suc [OF True] cmacBody_last [OF p, symmetric]
      by (subst cbcMac.simps) simp
  next
    case False
    show ?thesis
    proof (cases "m = []")
      case True
      then show ?thesis by (subst cbcMac.simps) (simp add: cmacBody_def)
    next
      case ne: False
      then have l: "0 < length m" "length m \<le> 16" using False by auto
      then have q: "(length m + 15) div 16 = Suc 0" by linarith
      have "length m mod 16 = 0 \<longleftrightarrow> length m = 16" using l by presburger
      then show ?thesis using False unfolding cmacBody_last [OF q] by (subst cbcMac.simps) (simp add: macLast_def)
    qed
  qed
qed

definition aes_block_length :: "crypto \<Rightarrow> bool" where
  "aes_block_length cr \<longleftrightarrow> (\<forall>k x. length (aesBlock cr k x) = 16)"

text \<open>C34: The signature algorithm is AES-CMAC as RFC 4493 defines it: the bytewise subkey derivation is
  doubling in the field of 128-bit polynomials, and the block loop with its padded or complete last
  block is the chained MAC, for every key length AES accepts and every message.\<close>

theorem cmac_is_rfc4493:
  assumes "aes_block_length cr" "aesKeyOK key"
  shows "aesCMAC cr key msg = rfc4493 cr key msg"
proof -
  let ?l = "aesBlock cr key (replicate 16 0)"
  have l: "length ?l = 16" using assms(1) by (simp add: aes_block_length_def)
  have k1: "cmacShiftXor ?l = be_enc 16 (dbl (be_dec ?l))"
    using be_enc_dec [of "cmacShiftXor ?l"] cmacShiftXor_dbl [OF l] by simp
  have k2: "cmacShiftXor (cmacShiftXor ?l) = be_enc 16 (dbl (dbl (be_dec ?l)))"
    using be_enc_dec [of "cmacShiftXor (cmacShiftXor ?l)"] cmacShiftXor_dbl [OF l]
      cmacShiftXor_dbl [of "cmacShiftXor ?l"] by simp
  show ?thesis
    using assms(2) by (simp add: aesCMAC_def cmacSubkeys_def rfc4493_def Let_def k1 k2 [unfolded k1] cmacBody_cbcMac)
qed

theorem cmac_is_rfc4493_witness:
  "aesCMAC (toyCrypto\<lparr>aesBlock := \<lambda>k x. replicate 16 0x80\<rparr>) (replicate 16 1) [1, 2]
    = rfc4493 (toyCrypto\<lparr>aesBlock := \<lambda>k x. replicate 16 0x80\<rparr>) (replicate 16 1) [1, 2]"
  by (rule cmac_is_rfc4493) (simp_all add: aes_block_length_def aesKeyOK_def)

subsection \<open>Signed messages verify\<close>

lemma length_setFlags [simp]: "20 \<le> length msg \<Longrightarrow> length (setFlags msg f) = length msg"
  by (simp add: setFlags_def)

lemma put_put_same: "i + length xs \<le> length b \<Longrightarrow> length xs = length ys \<Longrightarrow> put (put b i xs) i ys = put b i ys"
  by (simp add: put_def)

lemma length_aesCMAC: "aes_block_length cr \<Longrightarrow> length (aesCMAC cr key msg) = 16"
  by (simp add: aesCMAC_def cmacBody_def Let_def aes_block_length_def split: prod.split)

lemma signed_message:
  assumes "aes_block_length cr" "64 \<le> length msg"
  shows "smbVerifySign cr key (smbSign cr key msg) \<and> length (smbSign cr key msg) = length msg
    \<and> take 16 (smbSign cr key msg) = take 16 msg \<and> take 28 (drop 20 (smbSign cr key msg)) = take 28 (drop 20 msg)
    \<and> drop 64 (smbSign cr key msg) = drop 64 msg
    \<and> le_dec (take 4 (drop 16 (smbSign cr key msg))) = (le_dec (take 4 (drop 16 msg)) OR smb2FlagsSigned)"
proof -
  define f where "f = setFlags msg smb2FlagsSigned"
  define z where "z = put f 48 (replicate 16 0)"
  have lf: "length f = length msg" using assms(2) by (simp add: f_def)
  have lz: "length z = length msg" using assms(2) lf by (simp add: z_def)
  have t: "take 16 (aesCMAC cr key z) = aesCMAC cr key z" using length_aesCMAC [OF assms(1)] by simp
  have s: "smbSign cr key msg = put z 48 (aesCMAC cr key z)"
    using assms(2) t by (simp add: smbSign_def f_def z_def Let_def)
  have "put (put z 48 (aesCMAC cr key z)) 48 (replicate 16 0) = z"
    using lz assms(2) length_aesCMAC [OF assms(1)] lf by (simp add: put_put_same z_def)
  moreover have "take 16 (drop 48 (put z 48 (aesCMAC cr key z))) = aesCMAC cr key z"
    using lz assms(2) length_aesCMAC [OF assms(1)] by (simp add: take_drop_put_same)
  ultimately have v: "smbVerifySign cr key (smbSign cr key msg)"
    using lz assms(2) length_aesCMAC [OF assms(1)] t by (simp add: smbVerifySign_def s)
  have lo: "take n (drop m (smbSign cr key msg)) = take n (drop m f)" if "m + n \<le> 48" for m n
    using that lz lf assms(2) length_aesCMAC [OF assms(1)] unfolding s z_def
    by (simp add: take_drop_put_below)
  have "drop 64 (smbSign cr key msg) = drop 64 msg"
    using assms(2) length_aesCMAC [OF assms(1)] lf unfolding s z_def
    by (simp add: put_def f_def setFlags_def)
  moreover have "take 28 (drop 20 f) = take 28 (drop 20 msg)"
    unfolding f_def setFlags_def using assms(2) by (intro take_drop_put_above) simp_all
  moreover have "take 16 (drop 0 f) = take 16 (drop 0 msg)"
    unfolding f_def setFlags_def using assms(2) by (intro take_drop_put_below) simp_all
  moreover have "take 4 (drop 16 f) = le32 (le_dec (take 4 (drop 16 msg)) OR smb2FlagsSigned)"
    unfolding f_def setFlags_def using assms(2) by (intro take_drop_put_same) simp_all
  ultimately show ?thesis
    using v lo [of 0 16] lo [of 16 4] lo [of 20 28] lz length_aesCMAC [OF assms(1)] assms(2) by (simp add: s)
qed

text \<open>What one side signs the other accepts. A message signed under a key verifies under it, is
  as long as it was, has the signed flag set, and differs from the original only in the flags and
  the signature field.\<close>

theorem signed_message_verifies:
  assumes "aes_block_length cr" "64 \<le> length msg"
  shows "smbVerifySign cr key (smbSign cr key msg) \<and> length (smbSign cr key msg) = length msg
    \<and> take 16 (smbSign cr key msg) = take 16 msg \<and> take 28 (drop 20 (smbSign cr key msg)) = take 28 (drop 20 msg)
    \<and> drop 64 (smbSign cr key msg) = drop 64 msg
    \<and> le_dec (take 4 (drop 16 (smbSign cr key msg))) = (le_dec (take 4 (drop 16 msg)) OR smb2FlagsSigned)"
  by (rule signed_message [OF assms])

theorem signed_message_verifies_witness:
  "smbVerifySign (toyCrypto\<lparr>aesBlock := \<lambda>k x. replicate 16 0x80\<rparr>) (replicate 16 1)
     (smbSign (toyCrypto\<lparr>aesBlock := \<lambda>k x. replicate 16 0x80\<rparr>) (replicate 16 1) (replicate 70 5))"
  using signed_message_verifies [of "toyCrypto\<lparr>aesBlock := \<lambda>k x. replicate 16 0x80\<rparr>" "replicate 70 5" "replicate 16 1"]
  by (simp add: aes_block_length_def)

subsection \<open>Encrypted messages decrypt\<close>

text \<open>What AES-GCM promises: the output is 16 bytes longer, and opening with the same key, nonce and
  additional data gives the message back.\<close>

definition gcm_laws :: "crypto \<Rightarrow> bool" where
  "gcm_laws cr \<longleftrightarrow> (\<forall>k n x a. length (gcmSeal cr k n x a) = length x + 16 \<and> gcmOpen cr k n (gcmSeal cr k n x a) a = Some x)"

lemma length_transformHeader [simp]: "length nonce = 12 \<Longrightarrow> length (transformHeader nonce n sid) = 52"
  by (simp add: transformHeader_def thProtocolID_def)

lemma encrypted_message:
  assumes "gcm_laws cr" "aesKeyOK key" "length nonce = 12"
  shows "\<exists>w. smbEncrypt cr nonce key sid pt = Some w \<and> smbDecrypt cr key w = Some pt
    \<and> take 4 w = thProtocolID \<and> take 8 (drop 44 w) = le64 sid \<and> length w = 52 + length pt"
proof -
  define h where "h = transformHeader nonce (length pt) sid"
  define c where "c = gcmSeal cr key nonce pt (drop 20 h)"
  have lh: "length h = 52" using assms(3) by (simp add: h_def)
  have lc: "length c = length pt + 16" using assms(1) by (simp add: gcm_laws_def c_def)
  define w where "w = put h 4 (drop (length pt) c) @ take (length pt) c"
  have e: "smbEncrypt cr nonce key sid pt = Some w"
    using assms(2) lc by (simp add: smbEncrypt_def Let_def h_def [symmetric] c_def [symmetric] w_def)
  have lt: "length (drop (length pt) c) = 16" using lc by simp
  define p where "p = put h 4 (drop (length pt) c)"
  have lp: "length p = 52" using lh lt by (simp add: p_def)
  have w: "take 52 w = p" "drop 52 w = take (length pt) c" "length w = 52 + length pt"
    using lp lc by (simp_all add: w_def p_def [symmetric])
  have hd: "take n (drop m h) = take n (drop m p)" if "20 \<le> m \<or> m + n \<le> 4" for n m
    using that take_drop_put_above [of 4 "drop (length pt) c" h m n] take_drop_put_below [of 4 "drop (length pt) c" h m n] lh lt
    by (auto simp: p_def)
  have nonce: "take 12 (drop 20 h) = nonce"
    using assms(3) by (simp add: h_def transformHeader_def thProtocolID_def put_def)
  have pid: "take 4 (drop 0 h) = thProtocolID"
    using assms(3) by (simp add: h_def transformHeader_def thProtocolID_def put_def)
  have sd: "take 8 (drop 44 h) = le64 sid"
    using assms(3) by (simp add: h_def transformHeader_def thProtocolID_def put_def)
  have aad: "drop 20 h = drop 20 p" using hd [of 20 32] lh lp by simp
  have tw: "take n (drop m w) = take n (drop m p)" if "m + n \<le> 52" for n m
    using that lp by (simp add: w_def p_def [symmetric])
  have tag: "take 16 (drop 4 p) = drop (length pt) c"
    unfolding p_def using lh lt by (intro take_drop_put_same) simp_all
  have "smbDecrypt cr key w = gcmOpen cr key (take 12 (drop 20 p)) (take (length pt) c @ take 16 (drop 4 p)) (drop 20 p)"
    using w(3) tw [of 0 4] hd [of 0 4] pid assms(2) by (simp add: smbDecrypt_def Let_def w(1,2))
  also have "\<dots> = gcmOpen cr key nonce c (drop 20 h)"
    using hd [of 20 12] nonce aad tag by simp
  also have "\<dots> = Some pt" using assms(1) by (simp add: c_def gcm_laws_def)
  finally show ?thesis
    using e tw [of 0 4] hd [of 0 4] pid tw [of 44 8] hd [of 44 8] sd w(3) by simp
qed

text \<open>What one side encrypts the other decrypts. Under GCM's own law, every message encrypted with
  a key of an accepted length and a 12-byte nonce is recognised by its protocol identifier, carries
  the session's identifier, and decrypts to the message.\<close>

theorem encrypt_decrypt:
  assumes "gcm_laws cr" "aesKeyOK key" "length nonce = 12"
  shows "\<exists>w. smbEncrypt cr nonce key sid pt = Some w \<and> smbDecrypt cr key w = Some pt
    \<and> take 4 w = thProtocolID \<and> take 8 (drop 44 w) = le64 sid \<and> length w = 52 + length pt"
  by (rule encrypted_message [OF assms])

lemma toy_gcm: "gcm_laws toyCrypto"
  by (simp add: gcm_laws_def toyCrypto_def)

theorem encrypt_decrypt_witness:
  "\<exists>w. smbEncrypt toyCrypto (replicate 12 7) (replicate 16 1) 5 [1, 2, 3] = Some w
    \<and> smbDecrypt toyCrypto (replicate 16 1) w = Some [1, 2, 3]"
  using encrypt_decrypt [OF toy_gcm, of "replicate 16 1" "replicate 12 7" 5 "[1, 2, 3]"] by (auto simp: aesKeyOK_def)

end
