(* ===== verification/Ntlm.thy ===== *)
theory Ntlm
  imports Utf16 Md4 Crypto_Types
begin

text \<open>
  NTLMv2 (\<^verbatim>\<open>ntlm.go\<close>): the challenge and authenticate messages and the check of a client's
  response. HMAC-MD5 is a field of \<open>crypto\<close>, \<open>up\<close> is \<^verbatim>\<open>strings.ToUpper\<close>. Reading a field returns
  \<open>None\<close> for a panic and \<open>Some None\<close> for \<^verbatim>\<open>ok = false\<close>.
\<close>

definition ntlmSignature :: bytes where
  "ntlmSignature = [0x4e, 0x54, 0x4c, 0x4d, 0x53, 0x53, 0x50, 0x00]"

definition ntowfv2 :: "crypto \<Rightarrow> (bytes \<Rightarrow> bytes) \<Rightarrow> bytes \<Rightarrow> bytes \<Rightarrow> bytes \<Rightarrow> bytes" where
  "ntowfv2 cr up user domain password =
     hmacSum cr MD5 (md4Sum (utf16le password)) (utf16le (up user @ domain))"

definition avPair :: "u16 \<Rightarrow> bytes \<Rightarrow> bytes" where
  "avPair i v = le16 i @ le16 (of_nat (length v)) @ v"

definition ntlmTargetInfo :: "bytes \<Rightarrow> bytes \<Rightarrow> bytes" where
  "ntlmTargetInfo domain computer = avPair 2 (utf16le domain) @ avPair 1 (utf16le computer) @ avPair 0 []"

definition ntlmv2Temp :: "u64 \<Rightarrow> bytes \<Rightarrow> bytes \<Rightarrow> bytes" where
  "ntlmv2Temp timestamp clientChallenge targetInfo =
     [0x01, 0x01] @ replicate 6 0 @ le64 timestamp @ clientChallenge @ replicate 4 0 @ targetInfo @ replicate 4 0"

text \<open>The client's computation: \<^verbatim>\<open>NTProofStr\<close> and \<^verbatim>\<open>SessionBaseKey\<close>.\<close>

definition ntlmv2Response :: "crypto \<Rightarrow> bytes \<Rightarrow> bytes \<Rightarrow> bytes \<Rightarrow> bytes \<times> bytes" where
  "ntlmv2Response cr ntowf serverChallenge temp =
     (let pr = hmacSum cr MD5 ntowf (serverChallenge @ temp) in (pr, hmacSum cr MD5 ntowf pr))"

definition buildChallenge :: "bytes \<Rightarrow> bytes \<Rightarrow> bytes" where
  "buildChallenge serverChallenge targetInfo =
     (let b0 = replicate 48 0;
          b1 = put b0 0 ntlmSignature;
          b2 = put b1 8 (le32 2);
          b3 = put b2 16 (le32 48);
          b4 = put b3 20 (le32 0x00800205);
          b5 = put b4 24 (take 8 (serverChallenge @ replicate 8 0));
          b6 = put b5 40 (le16 (of_nat (length targetInfo)));
          b7 = put b6 42 (le16 (of_nat (length targetInfo)));
          b8 = put b7 44 (le32 48)
      in b8 @ targetInfo)"

definition ntlmField :: "bytes \<Rightarrow> nat \<Rightarrow> bytes option option" where
  "ntlmField msg off =
     (if off + 8 > length msg then Some None
      else do {
        flen \<leftarrow> get_le16 msg off;
        poff \<leftarrow> get_le32 msg (off + 4);
        let end' = unat poff + unat flen in
        if end' > length msg then Some None
        else do { p \<leftarrow> gslice msg (unat poff) end'; Some (Some p) }
      })"

definition parseAuthenticate :: "bytes \<Rightarrow> (bytes \<times> bytes \<times> bytes) option option" where
  "parseAuthenticate b =
     (if length b < 44 then Some None
      else if take 8 b \<noteq> ntlmSignature then Some None
      else do {
        ty \<leftarrow> get_le32 b 8;
        if ty \<noteq> 3 then Some None
        else do {
          ntF \<leftarrow> ntlmField b 20;
          (case ntF of None \<Rightarrow> Some None | Some nt \<Rightarrow> do {
            domF \<leftarrow> ntlmField b 28;
            (case domF of None \<Rightarrow> Some None | Some dm \<Rightarrow> do {
              usrF \<leftarrow> ntlmField b 36;
              (case usrF of None \<Rightarrow> Some None
               | Some us \<Rightarrow> Some (Some (utf16leDecode dm, utf16leDecode us, nt)))
            })
          })
        }
      })"

text \<open>\<^verbatim>\<open>setField\<close> writes a length/length/offset triple and appends the value to the payload.\<close>

definition setField :: "nat \<Rightarrow> bytes \<Rightarrow> bytes \<times> bytes \<Rightarrow> bytes \<times> bytes" where
  "setField off v hp = (case hp of (header, payload) \<Rightarrow>
     (put (put (put header off (le16 (of_nat (length v)))) (off + 2) (le16 (of_nat (length v))))
        (off + 4) (le32 (of_nat (64 + length payload))), payload @ v))"

definition buildAuthenticate :: "bytes \<Rightarrow> bytes \<Rightarrow> bytes \<Rightarrow> bytes" where
  "buildAuthenticate domain user ntResp =
     (let header = put (put (put (replicate 64 0) 0 ntlmSignature) 8 (le32 3)) 16 (le32 64);
          (header', payload) = setField 36 (utf16le user) (setField 28 (utf16le domain) (setField 20 ntResp (header, [])))
      in put header' 56 (le32 (of_nat (64 + length payload))) @ payload)"

definition verifyNTLMv2 :: "crypto \<Rightarrow> (bytes \<Rightarrow> bytes) \<Rightarrow> bytes \<Rightarrow> bytes \<Rightarrow> bytes \<Rightarrow> bytes \<Rightarrow> bytes \<Rightarrow> bytes option option" where
  "verifyNTLMv2 cr up user password domain serverChallenge authMsg = do {
     r \<leftarrow> parseAuthenticate authMsg;
     (case r of None \<Rightarrow> Some None
      | Some (_, _, ntResp) \<Rightarrow>
          if length ntResp < 16 then Some None
          else do {
            clientProof \<leftarrow> gslice ntResp 0 16;
            temp \<leftarrow> slice_from ntResp 16;
            let ntowf = ntowfv2 cr up user domain password;
                expected = hmacSum cr MD5 ntowf (serverChallenge @ temp)
            in if expected \<noteq> clientProof then Some None
               else Some (Some (hmacSum cr MD5 ntowf clientProof))
          })
   }"

section \<open>Correctness\<close>

lemma ntlmField_returns [no_panic]: "ntlmField msg off \<noteq> None"
  unfolding ntlmField_def Let_def by (intro no_panic) auto

lemma parseAuthenticate_returns [no_panic]: "parseAuthenticate b \<noteq> None"
  unfolding parseAuthenticate_def by (intro no_panic) auto

lemma verifyNTLMv2_returns [no_panic]: "verifyNTLMv2 cr up user password domain sc m \<noteq> None"
  unfolding verifyNTLMv2_def Let_def by (intro no_panic) auto

text \<open>The message as a concatenation.\<close>

definition secTriple :: "bytes \<Rightarrow> nat \<Rightarrow> bytes" where
  "secTriple v o' = le16 (of_nat (length v)) @ le16 (of_nat (length v)) @ le32 (of_nat o')"

lemma length_secTriple [simp]: "length (secTriple v o') = 8"
  by (simp add: secTriple_def)

lemma buildAuthenticate_parts:
  "buildAuthenticate domain user nt =
     ntlmSignature @ le32 3 @ replicate 4 0 @ le32 64
       @ secTriple nt 64 @ secTriple (utf16le domain) (64 + length nt)
       @ secTriple (utf16le user) (64 + length nt + length (utf16le domain))
       @ replicate 12 0 @ le32 (of_nat (64 + length nt + length (utf16le domain) + length (utf16le user))) @ replicate 4 0
       @ nt @ utf16le domain @ utf16le user"
  unfolding buildAuthenticate_def setField_def secTriple_def Let_def prod.case
  by (simp add: put_def ntlmSignature_def add.assoc del: of_nat_add)

lemma ntlmField_at:
  assumes "msg = pre @ secTriple v (length preB) @ post" "length pre = off" "msg = preB @ v @ postB"
    and "length v < 2 ^ 16" "length preB < 2 ^ 32"
  shows "ntlmField msg off = Some (Some v)"
proof -
  have m: "msg = pre @ le16 (of_nat (length v)) @ le16 (of_nat (length v)) @ le32 (of_nat (length preB)) @ post"
    using assms(1) by (simp add: secTriple_def)
  have "get_le16 msg off = Some (of_nat (length v))"
    unfolding m by (rule get_le_append) (simp_all add: assms(2))
  moreover have "get_le32 msg (off + 4) = Some (of_nat (length preB))"
    using get_le_append [of "off + 4" "pre @ le16 (of_nat (length v)) @ le16 (of_nat (length v))" 4 "of_nat (length preB) :: u32" post]
    unfolding m by (simp add: assms(2) [symmetric])
  moreover have "unat (of_nat (length v) :: u16) = length v" "unat (of_nat (length preB) :: u32) = length preB"
    using assms(4,5) by (simp_all add: unat_of_nat take_bit_nat_eq_self)
  moreover have "off + 8 \<le> length msg" unfolding m by (simp add: assms(2) [symmetric])
  moreover have "gslice msg (length preB) (length preB + length v) = Some v" "length preB + length v \<le> length msg"
    unfolding assms(3) by simp_all
  ultimately show ?thesis by (simp add: ntlmField_def)
qed

lemma authenticate_roundtrip':
  assumes "validText d" "validText u" "length (utf16le d) < 2 ^ 16" "length (utf16le u) < 2 ^ 16" "length nt < 2 ^ 16"
  shows "parseAuthenticate (buildAuthenticate d u nt) = Some (Some (d, u, nt))"
proof -
  let ?d = "utf16le d" and ?u = "utf16le u"
  define m where "m = buildAuthenticate d u nt"
  define h where "h = ntlmSignature @ le32 3 @ replicate 4 0 @ le32 64"
  define t1 where "t1 = secTriple nt 64"
  define t2 where "t2 = secTriple ?d (64 + length nt)"
  define t3 where "t3 = secTriple ?u (64 + length nt + length ?d)"
  define tl where "tl = replicate 12 0 @ le32 (of_nat (64 + length nt + length ?d + length ?u)) @ replicate 4 0"
  have lens: "length h = 20" "length t1 = 8" "length t2 = 8" "length t3 = 8" "length tl = 20"
    by (simp_all add: h_def t1_def t2_def t3_def tl_def secTriple_def ntlmSignature_def)
  have m: "m = h @ t1 @ t2 @ t3 @ tl @ nt @ ?d @ ?u"
    unfolding m_def buildAuthenticate_parts h_def t1_def t2_def t3_def tl_def by simp
  have len: "44 \<le> length m" by (simp add: m lens)
  have sg: "take 8 m = ntlmSignature" by (simp add: m h_def ntlmSignature_def)
  have ty: "get_le32 m 8 = Some 3"
    using get_le_append [of 8 ntlmSignature 4 "3 :: u32" "replicate 4 0 @ le32 64 @ t1 @ t2 @ t3 @ tl @ nt @ ?d @ ?u"]
    unfolding m h_def by (simp add: ntlmSignature_def)
  have f1: "ntlmField m 20 = Some (Some nt)"
    by (rule ntlmField_at [where pre = h and post = "t2 @ t3 @ tl @ nt @ ?d @ ?u" and preB = "h @ t1 @ t2 @ t3 @ tl" and postB = "?d @ ?u"])
      (use assms in \<open>simp_all add: m lens t1_def\<close>)
  have f2: "ntlmField m 28 = Some (Some ?d)"
    by (rule ntlmField_at [where pre = "h @ t1" and post = "t3 @ tl @ nt @ ?d @ ?u" and preB = "h @ t1 @ t2 @ t3 @ tl @ nt" and postB = ?u])
      (use assms in \<open>simp_all add: m lens t2_def del: of_nat_add\<close>)
  have f3: "ntlmField m 36 = Some (Some ?u)"
    by (rule ntlmField_at [where pre = "h @ t1 @ t2" and post = "tl @ nt @ ?d @ ?u" and preB = "h @ t1 @ t2 @ t3 @ tl @ nt @ ?d" and postB = "[]"])
      (use assms in \<open>simp_all add: m lens t3_def add.assoc del: of_nat_add\<close>)
  show ?thesis
    using sg ty f1 f2 f3 len utf16le_roundtrip [OF assms(1)] utf16le_roundtrip [OF assms(2)] unfolding m_def [symmetric]
    by (simp add: parseAuthenticate_def)
qed

text \<open>An authenticate message is read back. For well-formed names whose UTF-16 forms and a response
  that fit their 16-bit length fields, parsing what the client built returns the domain, the user
  and the response.\<close>

theorem authenticate_roundtrip:
  assumes "validText d" "validText u" "length (utf16le d) < 2 ^ 16" "length (utf16le u) < 2 ^ 16" "length nt < 2 ^ 16"
  shows "parseAuthenticate (buildAuthenticate d u nt) = Some (Some (d, u, nt))"
  by (rule authenticate_roundtrip' [OF assms])

theorem authenticate_roundtrip_witness:
  "parseAuthenticate (buildAuthenticate (str ''DOM'') (str ''alice'') (replicate 30 7)) = Some (Some (str ''DOM'', str ''alice'', replicate 30 7))"
proof -
  have v: "validText (str ''DOM'')" "validText (str ''alice'')" by (simp_all add: ascii_validText str_def)
  have "length (utf16le (str ''DOM'')) < 2 ^ 16" "length (utf16le (str ''alice'')) < 2 ^ 16"
    by (simp_all add: length_utf16le_ascii str_def)
  from authenticate_roundtrip [OF v this] show ?thesis by simp
qed

text \<open>The server's check, on any message that parses to a response of a proof and a blob.\<close>

lemma verify_parsed:
  assumes "parseAuthenticate m = Some (Some (dm, us, pr @ temp))" "length pr = 16"
  shows "verifyNTLMv2 cr up user password domain sc m
     = (let ntowf = ntowfv2 cr up user domain password in
        if hmacSum cr MD5 ntowf (sc @ temp) = pr then Some (Some (hmacSum cr MD5 ntowf pr)) else Some None)"
  using assms by (simp add: verifyNTLMv2_def Let_def)

text \<open>A genuine client is accepted with the right key. The response a client computes from the
  password and the server's challenge passes the server's check against the same account, and both
  sides arrive at the same session key.\<close>

theorem genuine_response_accepted:
  assumes "validText d" "validText u" "length (utf16le d) < 2 ^ 16" "length (utf16le u) < 2 ^ 16"
    and "digest_lengths cr" "16 + length temp < 2 ^ 16"
    and "ntlmv2Response cr (ntowfv2 cr up user domain password) sc temp = (pr, key)"
  shows "verifyNTLMv2 cr up user password domain sc (buildAuthenticate d u (pr @ temp)) = Some (Some key)"
proof -
  have l: "length pr = 16" using assms(5,7) by (auto simp: ntlmv2Response_def Let_def digest_lengths_def)
  then have "length (pr @ temp) < 2 ^ 16" using assms(6) by simp
  from verify_parsed [OF authenticate_roundtrip' [OF assms(1-4) this] l] show ?thesis
    using assms(7) by (auto simp: ntlmv2Response_def Let_def)
qed

text \<open>Names and passwords of an example account; \<open>up\<close> is the identity here.\<close>

lemma demo_ntlm_names:
  "validText (str ''DOM'')" "validText (str ''alice'')"
  "length (utf16le (str ''DOM'')) < 2 ^ 16" "length (utf16le (str ''alice'')) < 2 ^ 16"
  by (simp_all add: ascii_validText length_utf16le_ascii str_def)

theorem genuine_response_accepted_witness:
  "case ntlmv2Response toyCrypto (ntowfv2 toyCrypto (\<lambda>s. s) (str ''alice'') (str ''DOM'') (str ''pw'')) (replicate 8 1) (replicate 20 2) of
     (pr, key) \<Rightarrow> verifyNTLMv2 toyCrypto (\<lambda>s. s) (str ''alice'') (str ''pw'') (str ''DOM'') (replicate 8 1)
        (buildAuthenticate (str ''DOM'') (str ''alice'') (pr @ replicate 20 2)) = Some (Some key)"
proof -
  obtain pr key where r: "ntlmv2Response toyCrypto (ntowfv2 toyCrypto (\<lambda>s. s) (str ''alice'') (str ''DOM'') (str ''pw''))
    (replicate 8 1) (replicate 20 2) = (pr, key)" by (metis surj_pair)
  have t: "16 + length (replicate 20 (2 :: byte)) < 2 ^ 16" by simp
  show ?thesis using genuine_response_accepted [OF demo_ntlm_names toy_digest_lengths t r] unfolding r by simp
qed

text \<open>C35: A recorded login can be replayed to a server that issued no challenge. Where the challenge is
  still empty (the connection skipped the first leg of the login), anyone who saw one genuine
  response and the challenge it answered, and knows no password, builds a message that passes the
  check: the old challenge moves to the front of the blob.\<close>

theorem recorded_login_replayed:
  assumes "validText d" "validText u" "length (utf16le d) < 2 ^ 16" "length (utf16le u) < 2 ^ 16"
    and "digest_lengths cr" "16 + length challenge + length temp < 2 ^ 16"
    and "verifyNTLMv2 cr up user password domain challenge (buildAuthenticate d u (pr @ temp)) = Some (Some key)" "length pr = 16"
  shows "verifyNTLMv2 cr up user password domain [] (buildAuthenticate d u (pr @ challenge @ temp)) = Some (Some key)"
proof -
  have l1: "length (pr @ temp) < 2 ^ 16" and l2: "length (pr @ challenge @ temp) < 2 ^ 16" using assms(6,8) by simp_all
  note v1 = verify_parsed [OF authenticate_roundtrip' [OF assms(1-4) l1] assms(8)]
  note v2 = verify_parsed [OF authenticate_roundtrip' [OF assms(1-4) l2] assms(8)]
  show ?thesis using assms(7) unfolding v1 v2 by (simp add: Let_def split: if_splits)
qed

theorem recorded_login_replayed_witness:
  "\<exists>pr key. length pr = 16 \<and> verifyNTLMv2 toyCrypto (\<lambda>s. s) (str ''alice'') (str ''pw'') (str ''DOM'') []
     (buildAuthenticate (str ''DOM'') (str ''alice'') (pr @ replicate 8 1 @ replicate 20 2)) = Some (Some key)"
proof -
  let ?h = "hmacSum toyCrypto MD5 (ntowfv2 toyCrypto (\<lambda>s. s) (str ''alice'') (str ''DOM'') (str ''pw''))"
  let ?p = "?h (replicate 8 1 @ replicate 20 2)"
  have p: "length ?p = 16" by (simp add: toyCrypto_def)
  have "length (?p @ replicate 20 (2 :: byte)) < 2 ^ 16" using p by simp
  from verify_parsed [OF authenticate_roundtrip' [OF demo_ntlm_names this] p, of toyCrypto "\<lambda>s. s" "str ''alice''" "str ''pw''" "str ''DOM''" "replicate 8 1"]
  have "verifyNTLMv2 toyCrypto (\<lambda>s. s) (str ''alice'') (str ''pw'') (str ''DOM'') (replicate 8 1)
    (buildAuthenticate (str ''DOM'') (str ''alice'') (?p @ replicate 20 2)) = Some (Some (?h ?p))" by (simp add: Let_def)
  from recorded_login_replayed [OF demo_ntlm_names toy_digest_lengths _ this p] p show ?thesis by auto
qed

end
