(* ===== verification/Smb_Frame.thy ===== *)
theory Smb_Frame
  imports Smb_Crypto
begin

text \<open>
  SMB2 framing (\<^verbatim>\<open>smb_frame.go\<close>): the 64-byte message header and the Direct TCP transport prefix. A
  connection's input is the list of the bytes it still delivers before it ends; a read that finds
  fewer bytes than it wants fails, like \<^verbatim>\<open>io.ReadFull\<close>.
\<close>

subsection \<open>The message header\<close>

abbreviation "smb2Negotiate \<equiv> (0x0000 :: u16)"
abbreviation "smb2SessionSetup \<equiv> (0x0001 :: u16)"
abbreviation "smb2Logoff \<equiv> (0x0002 :: u16)"
abbreviation "smb2TreeConnect \<equiv> (0x0003 :: u16)"
abbreviation "smb2TreeDisconnect \<equiv> (0x0004 :: u16)"
abbreviation "smb2Create \<equiv> (0x0005 :: u16)"
abbreviation "smb2Close \<equiv> (0x0006 :: u16)"
abbreviation "smb2Flush \<equiv> (0x0007 :: u16)"
abbreviation "smb2Read \<equiv> (0x0008 :: u16)"
abbreviation "smb2Write \<equiv> (0x0009 :: u16)"
abbreviation "smb2Ioctl \<equiv> (0x000B :: u16)"

abbreviation "smb2FlagsServerToRedir \<equiv> (0x00000001 :: u32)"

abbreviation "statusSuccess \<equiv> (0x00000000 :: u32)"
abbreviation "statusMoreProcessingRequired \<equiv> (0xC0000016 :: u32)"
abbreviation "statusAccessDenied \<equiv> (0xC0000022 :: u32)"
abbreviation "statusNotSupported \<equiv> (0xC00000BB :: u32)"

definition smb2ProtocolID :: bytes where
  "smb2ProtocolID = [0xFE, 0x53, 0x4D, 0x42]"

record smb2Header =
  hCreditCharge :: u16
  hStatus :: u32
  hCommand :: u16
  hCreditResp :: u16
  hFlags :: u32
  hNextCommand :: u32
  hMessageId :: u64
  hTreeId :: u32
  hSessionId :: u64
  hSignature :: bytes

definition zeroHeader :: smb2Header where
  "zeroHeader = \<lparr>hCreditCharge = 0, hStatus = 0, hCommand = 0, hCreditResp = 0, hFlags = 0,
     hNextCommand = 0, hMessageId = 0, hTreeId = 0, hSessionId = 0, hSignature = replicate 16 0\<rparr>"

text \<open>The signature is a Go array of sixteen bytes.\<close>

definition wfHeader :: "smb2Header \<Rightarrow> bool" where
  "wfHeader h = (length (hSignature h) = 16)"

definition encodeHeader :: "smb2Header \<Rightarrow> bytes" where
  "encodeHeader h =
     smb2ProtocolID @ le16 64 @ le16 (hCreditCharge h) @ le32 (hStatus h) @ le16 (hCommand h)
     @ le16 (hCreditResp h) @ le32 (hFlags h) @ le32 (hNextCommand h) @ le64 (hMessageId h)
     @ replicate 4 0 @ le32 (hTreeId h) @ le64 (hSessionId h) @ hSignature h"

definition parseSMB2Header :: "bytes \<Rightarrow> smb2Header option option" where
  "parseSMB2Header b =
     (if length b < smb2HeaderSize then Some None
      else do {
        magic \<leftarrow> gslice b 0 4;
        if magic \<noteq> smb2ProtocolID then Some None
        else do {
          cc \<leftarrow> get_le16 b 6;
          st \<leftarrow> get_le32 b 8;
          cmd \<leftarrow> get_le16 b 12;
          cr \<leftarrow> get_le16 b 14;
          fl \<leftarrow> get_le32 b 16;
          nx \<leftarrow> get_le32 b 20;
          mid \<leftarrow> get_le64 b 24;
          tid \<leftarrow> get_le32 b 36;
          sid \<leftarrow> get_le64 b 40;
          sg \<leftarrow> gslice b 48 64;
          Some (Some \<lparr>hCreditCharge = cc, hStatus = st, hCommand = cmd, hCreditResp = cr, hFlags = fl,
            hNextCommand = nx, hMessageId = mid, hTreeId = tid, hSessionId = sid, hSignature = sg\<rparr>)
        }})"

lemma length_encodeHeader [simp]: "wfHeader h \<Longrightarrow> length (encodeHeader h) = 64"
  by (simp add: encodeHeader_def smb2ProtocolID_def wfHeader_def)

lemma zeroHeader_wf [simp]: "wfHeader (zeroHeader\<lparr>hStatus := s, hCommand := c, hCreditResp := cr, hFlags := f,
    hMessageId := m, hTreeId := t, hSessionId := i\<rparr>)"
  by (simp add: wfHeader_def zeroHeader_def)

text \<open>
  Messages are concatenations of fields. Reading a field at its offset steps over the fields before
  it: the rules of \<open>layout\<close> compute what any read of a message built that way returns.
\<close>

named_theorems layout \<open>reading a field of a message given as a concatenation\<close>

lemma get_le_skip [layout]: "length xs \<le> i \<Longrightarrow> get_le n (xs @ ys) i = get_le n ys (i - length xs)"
  by (auto simp: get_le_def gslice_def)

lemma get_le_here [layout]: "LENGTH('a) \<le> 8 * n \<Longrightarrow> get_le n (le_enc n (v :: 'a::len word) @ ys) 0 = Some v"
  by (simp add: get_le_def)

lemma get_le_last [layout]: "LENGTH('a) \<le> 8 * n \<Longrightarrow> get_le n (le_enc n (v :: 'a::len word)) 0 = Some v"
  by (simp add: get_le_def)

lemma gslice_skip [layout]:
  "length xs \<le> i \<Longrightarrow> i \<le> j \<Longrightarrow> gslice (xs @ ys) i j = gslice ys (i - length xs) (j - length xs)"
  by (auto simp: gslice_def)

lemma gslice_here [layout]: "length xs = j \<Longrightarrow> gslice (xs @ ys) 0 j = Some xs"
  by (simp add: gslice_def)

lemma gslice_all [layout]: "length xs = j \<Longrightarrow> gslice xs 0 j = Some xs"
  by (simp add: gslice_def)

lemma parse_returns [no_panic]: "parseSMB2Header b \<noteq> None"
  unfolding parseSMB2Header_def by (intro no_panic) simp_all

lemma header_roundtrip':
  assumes "wfHeader h"
  shows "parseSMB2Header (encodeHeader h @ body) = Some (Some h)"
proof -
  have l: "\<not> length (encodeHeader h @ body) < smb2HeaderSize" and p: "length smb2ProtocolID = 4"
    using assms by (simp_all add: smb2ProtocolID_def)
  show ?thesis
    unfolding parseSMB2Header_def if_not_P [OF l] unfolding encodeHeader_def
    using assms by (simp add: layout p wfHeader_def)
qed

text \<open>The fields of a message that is longer than a header.\<close>

lemma parse_appended: "parseSMB2Header b = Some (Some h) \<Longrightarrow> length b \<ge> 64"
  by (simp add: parseSMB2Header_def split: if_splits)

subsection \<open>The Direct TCP transport\<close>

abbreviation "directTCPMaxLen \<equiv> (0x00FFFFFF :: nat)"
abbreviation "negMaxTransactSize \<equiv> (0x00100000 :: nat)"

text \<open>\<open>None\<close> is the error of a payload that the length field cannot express.\<close>

definition writeTCPFrame :: "bytes \<Rightarrow> bytes option" where
  "writeTCPFrame payload =
     (if length payload > directTCPMaxLen then None
      else let n = (of_nat (length payload) :: u32) in
        Some ([0x00, ucast (drop_bit 16 n), ucast (drop_bit 8 n), ucast n] @ payload))"

text \<open>The payload of the next frame and what the stream holds after it.\<close>

definition frameLen :: "byte \<Rightarrow> byte \<Rightarrow> byte \<Rightarrow> nat" where
  "frameLen a b c = push_bit 16 (unat a) OR push_bit 8 (unat b) OR unat c"

fun readTCPFrame :: "bytes \<Rightarrow> (bytes \<times> bytes) option" where
  "readTCPFrame (p0 # p1 # p2 # p3 # r) =
     (if p0 \<noteq> 0x00 then None
      else let n = frameLen p1 p2 p3 in
        if n > negMaxTransactSize then None
        else if length r < n then None
        else Some (take n r, drop n r))"
| "readTCPFrame _ = None"

lemma frameLen_bytes:
  assumes "n < 2 ^ 24"
  shows "frameLen (ucast (drop_bit 16 (of_nat n :: u32))) (ucast (drop_bit 8 (of_nat n :: u32))) (ucast (of_nat n :: u32)) = n"
proof (rule bit_eqI)
  fix i
  have n: "unat (of_nat n :: u32) = n" using assms by (simp add: unat_of_nat)
  have b: "bit (of_nat n :: u32) k = (k < 32 \<and> bit n k)" for k
    by (simp add: bit_of_nat_iff possible_bit_word)
  show "bit (frameLen (ucast (drop_bit 16 (of_nat n :: u32))) (ucast (drop_bit 8 (of_nat n :: u32)))
      (ucast (of_nat n :: u32))) i = bit n i"
  proof (cases "i < 24")
    case True
    then show ?thesis by (auto simp: frameLen_def bit_simps b bit_unsigned_iff)
  next
    case False
    then have "n < 2 ^ i" using assms power_increasing [of 24 i "2::nat"] by linarith
    then have "\<not> bit n i" by (simp add: bit_iff_odd)
    then show ?thesis using False by (auto simp: frameLen_def bit_simps b bit_unsigned_iff)
  qed
qed

lemma readTCPFrame_shorter: "readTCPFrame s = Some (p, r) \<Longrightarrow> length s = 4 + length p + length r"
  by (cases s rule: readTCPFrame.cases) (auto simp: Let_def split: if_splits)

lemma read_bounded: "readTCPFrame s = Some (p, r) \<Longrightarrow> length p \<le> negMaxTransactSize"
  by (cases s rule: readTCPFrame.cases) (auto simp: Let_def split: if_splits)

text \<open>
  A written frame is read back, and the stream goes on behind it, if the payload is within the cap
  of the reader. Between the cap and the limit of the length field a frame can be written that the
  reader of the same program refuses.
\<close>

lemma frame_roundtrip':
  assumes "length p \<le> negMaxTransactSize"
  shows "\<exists>w. writeTCPFrame p = Some w \<and> readTCPFrame (w @ rest) = Some (p, rest)"
proof -
  have "length p < 2 ^ 24" using assms by simp
  note f = frameLen_bytes [OF this]
  show ?thesis using assms by (simp add: writeTCPFrame_def Let_def f)
qed

lemma oversized_frame_refused:
  assumes "negMaxTransactSize < length p" "length p \<le> directTCPMaxLen"
  shows "\<exists>w. writeTCPFrame p = Some w \<and> readTCPFrame (w @ rest) = None"
proof -
  have "length p < 2 ^ 24" using assms by simp
  note f = frameLen_bytes [OF this]
  show ?thesis using assms by (simp add: writeTCPFrame_def Let_def f)
qed

end
