(* ===== verification/Spnego.thy ===== *)
theory Spnego
  imports Go_Prelude
begin

text \<open>
  The SPNEGO reply that carries the server's NTLM tokens (\<^verbatim>\<open>spnego.go\<close>).
\<close>

datatype spnegoState = AcceptCompleted | AcceptIncomplete

fun spnegoStateByte :: "spnegoState \<Rightarrow> byte" where
  "spnegoStateByte AcceptCompleted = 0"
| "spnegoStateByte AcceptIncomplete = 1"

definition ntlmspMechOID :: bytes where
  "ntlmspMechOID = [0x06, 0x0A, 0x2B, 0x06, 0x01, 0x04, 0x01, 0x82, 0x37, 0x02, 0x02, 0x0A]"

definition derLen :: "nat \<Rightarrow> bytes" where
  "derLen n =
     (if n < 0x80 then [of_nat n]
      else if n < 0x100 then [0x81, of_nat n]
      else [0x82, of_nat (drop_bit 8 n), of_nat n])"

definition derTLV :: "byte \<Rightarrow> bytes \<Rightarrow> bytes" where
  "derTLV t v = t # derLen (length v) @ v"

definition spnegoWrapResponse :: "spnegoState \<Rightarrow> bytes \<Rightarrow> bytes" where
  "spnegoWrapResponse st responseToken =
     (let negState = derTLV 0x0A [spnegoStateByte st];
          inner = derTLV 0xA0 negState;
          inner = (if length responseToken > 0 then
                     inner @ derTLV 0xA1 ntlmspMechOID @ derTLV 0xA2 (derTLV 0x04 responseToken)
                   else inner)
      in derTLV 0xA1 (derTLV 0x30 inner))"

subsection \<open>The structure a client reads\<close>

text \<open>The DER rule for a definite-form element, as the reader of the reply applies it.\<close>

fun derValue :: "byte \<Rightarrow> bytes \<Rightarrow> (bytes \<times> bytes) option" where
  "derValue t (t' # l # r) =
     (if t' \<noteq> t then None
      else if l < 0x80 then
        (if length r < unat l then None else Some (take (unat l) r, drop (unat l) r))
      else if l = 0x81 then
        (case r of
           a # r' \<Rightarrow> if length r' < unat a then None else Some (take (unat a) r', drop (unat a) r')
         | _ \<Rightarrow> None)
      else if l = 0x82 then
        (case r of
           a # b # r' \<Rightarrow> (let n = 256 * unat a + unat b in
             if length r' < n then None else Some (take n r', drop n r'))
         | _ \<Rightarrow> None)
      else None)"
| "derValue t _ = None"

lemma derLen_max: "length (derLen n) \<le> 3" "0 < length (derLen n)"
  by (simp_all add: derLen_def)

lemma length_derTLV: "length (derTLV t v) \<le> 4 + length v"
  using derLen_max [of "length v"] by (simp add: derTLV_def)

lemma derValue_derTLV:
  assumes "length v < 2 ^ 16"
  shows "derValue t (derTLV t v @ rest) = Some (v, rest)"
proof -
  have s: "unat (of_nat n :: byte) = n mod 256" for n :: nat by (simp add: unat_of_nat)
  have hi: "drop_bit 8 (length v) = length v div 256" by (simp add: drop_bit_eq_div)
  have lt: "(of_nat n :: byte) < 0x80 \<longleftrightarrow> n < 0x80" if "n < 0x100" for n :: nat
    using that by (simp add: word_less_nat_alt unat_of_nat)
  show ?thesis
  proof (cases "length v < 0x100")
    case True
    then show ?thesis using lt [OF True] by (auto simp: derTLV_def derLen_def s)
  next
    case False
    have "length v div 256 < 256" using assms by simp
    moreover have "256 * (length v div 256) + length v mod 256 = length v" by simp
    ultimately show ?thesis using False by (simp add: derTLV_def derLen_def s hi Let_def)
  qed
qed

text \<open>Walking down the structure of the reply leads to the token, whatever its length.\<close>

definition replyToken :: "bytes \<Rightarrow> bytes option" where
  "replyToken b = do {
     (s, _) \<leftarrow> derValue 0xA1 b;
     (inner, _) \<leftarrow> derValue 0x30 s;
     (_, r1) \<leftarrow> derValue 0xA0 inner;
     (_, r2) \<leftarrow> derValue 0xA1 r1;
     (o', _) \<leftarrow> derValue 0xA2 r2;
     (tok, _) \<leftarrow> derValue 0x04 o';
     Some tok }"

lemma wrapped_token_found:
  assumes "0 < length tok" "length tok \<le> 65000"
  shows "replyToken (spnegoWrapResponse st tok) = Some tok"
proof -
  let ?o = "derTLV 0x04 tok" and ?n = "derTLV 0xA0 (derTLV 0x0A [spnegoStateByte st])"
  let ?i = "?n @ derTLV 0xA1 ntlmspMechOID @ derTLV 0xA2 ?o"
  have lo: "length ?o \<le> 65004" using length_derTLV [of 4 tok] assms(2) by linarith
  have lm: "length (derTLV 0xA1 ntlmspMechOID) = 14" "length ?n = 5"
    by (simp_all add: derTLV_def derLen_def ntlmspMechOID_def)
  have li: "length ?i \<le> 65027" using length_derTLV [of "0xA2" ?o] lo lm by simp
  have ls: "length (derTLV 0x30 ?i) \<le> 65031" using length_derTLV [of "0x30" ?i] li by linarith
  have w: "spnegoWrapResponse st tok = derTLV 0xA1 (derTLV 0x30 ?i)"
    using assms(1) by (simp add: spnegoWrapResponse_def Let_def)
  have p: "length (derTLV 0x0A [spnegoStateByte st]) < 2 ^ 16" "length ntlmspMechOID < 2 ^ 16"
    by (simp_all add: derTLV_def derLen_def ntlmspMechOID_def)
  have e: "derValue t (derTLV t v) = Some (v, [])" if "length v < 2 ^ 16" for t v
    using derValue_derTLV [OF that, of t "[]"] by simp
  have "derValue 0xA1 (derTLV 0xA1 (derTLV 0x30 ?i)) = Some (derTLV 0x30 ?i, [])"
    by (rule e [OF le_less_trans [OF ls]]) simp
  moreover have "derValue 0x30 (derTLV 0x30 ?i) = Some (?i, [])" by (rule e [OF le_less_trans [OF li]]) simp
  moreover have "derValue 0xA2 (derTLV 0xA2 ?o) = Some (?o, [])" by (rule e [OF le_less_trans [OF lo]]) simp
  moreover have "derValue 0x04 ?o = Some (tok, [])" by (rule e [OF le_less_trans [OF assms(2)]]) simp
  moreover have "derValue 0xA0 ?i = Some (derTLV 0x0A [spnegoStateByte st], derTLV 0xA1 ntlmspMechOID @ derTLV 0xA2 ?o)"
    by (rule derValue_derTLV [OF p(1)])
  moreover have "derValue 0xA1 (derTLV 0xA1 ntlmspMechOID @ derTLV 0xA2 ?o) = Some (ntlmspMechOID, derTLV 0xA2 ?o)"
    by (rule derValue_derTLV [OF p(2)])
  ultimately show ?thesis unfolding w replyToken_def by simp
qed

end
