(* ===== verification/Dcerpc.thy ===== *)
theory Dcerpc
  imports Smb_Frame Limits Match
begin

text \<open>
  DCE/RPC over a named pipe (\<^verbatim>\<open>dcerpc.go\<close>): the common header, BIND, the reassembly of fragmented
  REQUESTs and the RESPONSE, FAULT and BIND_ACK encoders. The dispatcher that serves a complete
  request is an argument, with its own state; \<^verbatim>\<open>Spoolss\<close> provides the one the program uses.
\<close>

abbreviation "rpcPTRequest \<equiv> (0 :: byte)"
abbreviation "rpcPTResponse \<equiv> (2 :: byte)"
abbreviation "rpcPTFault \<equiv> (3 :: byte)"
abbreviation "rpcPTBind \<equiv> (11 :: byte)"
abbreviation "rpcPTBindAck \<equiv> (12 :: byte)"
abbreviation "rpcPFCFirstFrag \<equiv> (0x01 :: byte)"
abbreviation "rpcPFCLastFrag \<equiv> (0x02 :: byte)"
abbreviation "rpcPFCObjectUUID \<equiv> (0x80 :: byte)"
abbreviation "reasmMax \<equiv> (4 * 2 ^ 20 :: nat)"
abbreviation "rpcStatusProtocolError \<equiv> (0x1c01000b :: u32)"

definition ndrUUID :: bytes where
  "ndrUUID = str ''8a885d04-1ceb-11c9-9fe8-08002b104860''"

text \<open>A dispatcher maps its state, the operation number and the request stub to the next state and
  the response stub; \<open>None\<close> is \<open>ok = false\<close>.\<close>

type_synonym 'st rpcDispatcher = "u16 \<Rightarrow> bytes \<Rightarrow> 'st \<Rightarrow> 'st \<times> bytes option"

record dcerpc =
  rpcBound :: bool
  reasm :: bytes
  reasmActive :: bool
  reasmCallID :: u32
  reasmOpnum :: u16
  reasmCont :: u16

definition newDcerpc :: dcerpc where
  "newDcerpc = \<lparr>rpcBound = False, reasm = [], reasmActive = False, reasmCallID = 0, reasmOpnum = 0, reasmCont = 0\<rparr>"

definition resetReasm :: "dcerpc \<Rightarrow> dcerpc" where
  "resetReasm d = d\<lparr>reasm := [], reasmActive := False, reasmCallID := 0, reasmOpnum := 0, reasmCont := 0\<rparr>"

subsection \<open>Assembling messages\<close>

text \<open>\<^verbatim>\<open>hexDecode\<close> of \<^verbatim>\<open>Match\<close> fails on the same digits as \<^verbatim>\<open>strconv.ParseUint(s, 16, 8)\<close> pair by pair.\<close>

definition uuidBytes :: "bytes \<Rightarrow> bytes" where
  "uuidBytes s =
     (let clean = filter (\<lambda>c. c \<noteq> 0x2d) s in
      if length clean \<noteq> 32 then replicate 16 0
      else case hexDecode clean of
        None \<Rightarrow> replicate 16 0
      | Some raw \<Rightarrow>
          [raw ! 3, raw ! 2, raw ! 1, raw ! 0, raw ! 5, raw ! 4, raw ! 7, raw ! 6] @ take 8 (drop 8 raw))"

definition uuidEqual :: "bytes \<Rightarrow> bytes \<Rightarrow> bool" where
  "uuidEqual a b =
     (if length a \<noteq> 16 \<or> length b \<noteq> 16 then False else list_all (\<lambda>i. a ! i = b ! i) [0..<16])"

definition verBytes :: "u16 \<Rightarrow> u16 \<Rightarrow> bytes" where
  "verBytes maj mn = le16 maj @ le16 mn"

definition buildRPCHeader :: "byte \<Rightarrow> byte \<Rightarrow> u16 \<Rightarrow> u32 \<Rightarrow> bytes" where
  "buildRPCHeader ptype fl fragLen callID =
     [5, 0, ptype, fl, 0x10, 0x00, 0x00, 0x00] @ le16 fragLen @ le16 0 @ le32 callID"

definition secAddr :: bytes where
  "secAddr = [0x5c] @ str ''PIPE'' @ [0x5c] @ str ''spoolss''"

definition buildRPCBindAck :: "u32 \<Rightarrow> u16 \<Rightarrow> u16 \<Rightarrow> bytes" where
  "buildRPCBindAck callID maxXmit maxRecv =
     (let body = le16 maxXmit @ le16 maxRecv @ [0x01, 0x00, 0x00, 0x00]
            @ le16 (of_nat (length secAddr + 1)) @ secAddr @ [0x00];
          body = padZero 4 body;
          body = body @ [1, 0, 0, 0] @ [0, 0] @ [0, 0] @ uuidBytes ndrUUID @ verBytes 2 0
      in buildRPCHeader rpcPTBindAck (rpcPFCFirstFrag OR rpcPFCLastFrag) (of_nat (16 + length body)) callID @ body)"

definition buildRPCResponse :: "u32 \<Rightarrow> u16 \<Rightarrow> bytes \<Rightarrow> bytes" where
  "buildRPCResponse callID contID stub =
     (let body = le32 (of_nat (length stub)) @ le16 contID @ [0, 0] @ stub
      in buildRPCHeader rpcPTResponse (rpcPFCFirstFrag OR rpcPFCLastFrag) (of_nat (16 + length body)) callID @ body)"

definition buildFault :: "u32 \<Rightarrow> u16 \<Rightarrow> u32 \<Rightarrow> bytes" where
  "buildFault callID contID st =
     (let body = le32 0 @ le16 contID @ [0, 0] @ le32 st @ replicate 4 0
      in buildRPCHeader rpcPTFault (rpcPFCFirstFrag OR rpcPFCLastFrag) (of_nat (16 + length body)) callID @ body)"

subsection \<open>Consuming messages\<close>

definition parseRPCHeader :: "bytes \<Rightarrow> (byte \<times> byte \<times> u32 \<times> bytes) option option" where
  "parseRPCHeader p =
     (if length p < 16 then Some None
      else do {
        v \<leftarrow> idx p 0;
        if v \<noteq> 5 then Some None
        else do {
          ptype \<leftarrow> idx p 2;
          fl \<leftarrow> idx p 3;
          n \<leftarrow> get_le16 p 8;
          callID \<leftarrow> get_le32 p 12;
          let fragLen = unat n;
          let end' = (if 16 \<le> fragLen \<and> fragLen \<le> length p then fragLen else length p);
          body \<leftarrow> gslice p 16 end';
          Some (Some (ptype, fl, callID, body))
        }})"

definition handleBind :: "dcerpc \<Rightarrow> u32 \<Rightarrow> bytes \<Rightarrow> (dcerpc \<times> bytes option) option" where
  "handleBind d callID body =
     (if length body < 8 then Some (d, None)
      else do {
        maxXmit \<leftarrow> get_le16 body 0;
        maxRecv \<leftarrow> get_le16 body 2;
        Some (d\<lparr>rpcBound := True\<rparr>,
          Some (buildRPCBindAck callID (if maxXmit = 0 then 4280 else maxXmit) (if maxRecv = 0 then 4280 else maxRecv)))
      })"

text \<open>The request is complete: it goes to the dispatcher, under the identity of its first fragment.\<close>

definition dispatchRequest ::
  "'st rpcDispatcher option \<Rightarrow> dcerpc \<Rightarrow> 'st \<Rightarrow> (dcerpc \<times> 'st) \<times> bytes option" where
  "dispatchRequest disp d st =
     (case disp of
        None \<Rightarrow> ((resetReasm d, st), Some (buildFault (reasmCallID d) (reasmCont d) rpcStatusProtocolError))
      | Some f \<Rightarrow>
          (case f (reasmOpnum d) (reasm d) st of
             (st', None) \<Rightarrow> ((resetReasm d, st'), Some (buildFault (reasmCallID d) (reasmCont d) rpcStatusProtocolError))
           | (st', Some r) \<Rightarrow> ((resetReasm d, st'), Some (buildRPCResponse (reasmCallID d) (reasmCont d) r))))"

definition handleRequest ::
  "'st rpcDispatcher option \<Rightarrow> dcerpc \<Rightarrow> 'st \<Rightarrow> byte \<Rightarrow> u32 \<Rightarrow> bytes
    \<Rightarrow> ((dcerpc \<times> 'st) \<times> bytes option) option" where
  "handleRequest disp d st fl callID body =
     (if length body < 8 then Some ((d, st), None)
      else do {
        contID \<leftarrow> get_le16 body 4;
        opnum \<leftarrow> get_le16 body 6;
        if fl AND rpcPFCObjectUUID \<noteq> 0 \<and> length body < 24 then Some ((d, st), None)
        else do {
          stub \<leftarrow> slice_from body (if fl AND rpcPFCObjectUUID \<noteq> 0 then 24 else 8);
          let isFirst = (fl AND rpcPFCFirstFrag \<noteq> 0);
          let isLast = (fl AND rpcPFCLastFrag \<noteq> 0);
          let started = d\<lparr>reasm := stub, reasmActive := True, reasmCallID := callID, reasmOpnum := opnum, reasmCont := contID\<rparr>;
          let grown = d\<lparr>reasm := reasm d @ stub\<rparr>;
          let d' = (if isFirst then started else grown);
          if \<not> isFirst \<and> \<not> reasmActive d then Some ((d, st), None)
          else if \<not> isFirst \<and> length (reasm d) + length stub > reasmMax then
            Some ((resetReasm d, st), Some (buildFault callID contID rpcStatusProtocolError))
          else if \<not> isLast then Some ((d', st), None)
          else Some (dispatchRequest disp d' st)
        }})"

definition onWrite ::
  "'st rpcDispatcher option \<Rightarrow> dcerpc \<times> 'st \<Rightarrow> bytes \<Rightarrow> ((dcerpc \<times> 'st) \<times> bytes option) option" where
  "onWrite disp dst p = (case dst of (d, st) \<Rightarrow> do {
     h \<leftarrow> parseRPCHeader p;
     case h of
       None \<Rightarrow> Some ((d, st), None)
     | Some (ptype, fl, callID, body) \<Rightarrow>
         if ptype = rpcPTBind then do {
           (d', out) \<leftarrow> handleBind d callID body;
           Some ((d', st), out)
         }
         else if ptype = rpcPTRequest then handleRequest disp d st fl callID body
         else Some ((d, st), None)
   })"

lemma parseRPCHeader_returns [no_panic]: "parseRPCHeader p \<noteq> None"
  unfolding parseRPCHeader_def Let_def by (intro no_panic) auto

lemma handleBind_returns [no_panic]: "handleBind d c b \<noteq> None"
  unfolding handleBind_def by (intro no_panic) auto

lemma handleRequest_returns [no_panic]: "handleRequest disp d st fl c b \<noteq> None"
  unfolding handleRequest_def Let_def by (intro no_panic) auto

lemma onWrite_returns [no_panic]: "onWrite disp dst p \<noteq> None"
  unfolding onWrite_def by (intro no_panic)

section \<open>Correctness\<close>

text \<open>What a client sends: one request, its stub cut into fragments.\<close>

definition requestPDU :: "byte \<Rightarrow> u32 \<Rightarrow> u16 \<Rightarrow> u16 \<Rightarrow> bytes \<Rightarrow> bytes" where
  "requestPDU fl callID cont opnum stub =
     buildRPCHeader rpcPTRequest fl (of_nat (24 + length stub)) callID
       @ le32 (of_nat (length stub)) @ le16 cont @ le16 opnum @ stub"

fun contPDUs :: "u32 \<Rightarrow> u16 \<Rightarrow> u16 \<Rightarrow> bytes list \<Rightarrow> bytes list" where
  "contPDUs c k opnum [] = []"
| "contPDUs c k opnum [s] = [requestPDU rpcPFCLastFrag c k opnum s]"
| "contPDUs c k opnum (s # ss) = requestPDU 0 c k opnum s # contPDUs c k opnum ss"

fun requestPDUs :: "u32 \<Rightarrow> u16 \<Rightarrow> u16 \<Rightarrow> bytes list \<Rightarrow> bytes list" where
  "requestPDUs c k opnum [] = []"
| "requestPDUs c k opnum (s # ss) =
     requestPDU (if ss = [] then rpcPFCFirstFrag OR rpcPFCLastFrag else rpcPFCFirstFrag) c k opnum s # contPDUs c k opnum ss"

text \<open>The writes of a client one after the other, with the answer of each.\<close>

primrec onWrites ::
  "'st rpcDispatcher option \<Rightarrow> dcerpc \<times> 'st \<Rightarrow> bytes list \<Rightarrow> ((dcerpc \<times> 'st) \<times> bytes option list) option" where
  "onWrites disp dst [] = Some (dst, [])"
| "onWrites disp dst (p # ps) = do {
     (dst1, out) \<leftarrow> onWrite disp dst p;
     (dst2, outs) \<leftarrow> onWrites disp dst1 ps;
     Some (dst2, out # outs)
   }"

lemma length_buildRPCHeader [simp]: "length (buildRPCHeader t fl n c) = 16"
  by (simp add: buildRPCHeader_def)

lemma parse_built:
  assumes "unat n = 16 + length body"
  shows "parseRPCHeader (buildRPCHeader t fl n c @ body) = Some (Some (t, fl, c, body))"
proof -
  have "\<not> length (buildRPCHeader t fl n c @ body) < 16" by simp
  moreover have "unat n \<le> length (buildRPCHeader t fl n c @ body)" using assms by simp
  moreover have "get_le16 (buildRPCHeader t fl n c @ body) 8 = Some n"
    using get_le_append [of 8 "[5, 0, t, fl, 0x10, 0x00, 0x00, 0x00]" 2 n] by (simp add: buildRPCHeader_def)
  moreover have "get_le32 (buildRPCHeader t fl n c @ body) 12 = Some c"
    using get_le_append [of 12 "[5, 0, t, fl, 0x10, 0x00, 0x00, 0x00] @ le16 n @ le16 0" 4 c] by (simp add: buildRPCHeader_def)
  moreover have "idx (buildRPCHeader t fl n c @ body) 0 = Some 5" "idx (buildRPCHeader t fl n c @ body) 2 = Some t"
    "idx (buildRPCHeader t fl n c @ body) 3 = Some fl" by (simp_all add: buildRPCHeader_def)
  moreover have "gslice (buildRPCHeader t fl n c @ body) 16 (unat n) = Some body"
    using assms by (simp add: gslice_def)
  ultimately show ?thesis using assms by (simp add: parseRPCHeader_def Let_def)
qed

lemma onWrite_request:
  assumes "24 + length stub < 2 ^ 16" "fl AND rpcPFCObjectUUID = 0"
  shows "onWrite disp (d, st) (requestPDU fl c k opnum stub) =
    (let isFirst = fl AND rpcPFCFirstFrag \<noteq> 0;
         d' = (if isFirst then d\<lparr>reasm := stub, reasmActive := True, reasmCallID := c, reasmOpnum := opnum, reasmCont := k\<rparr>
               else d\<lparr>reasm := reasm d @ stub\<rparr>) in
     if \<not> isFirst \<and> \<not> reasmActive d then Some ((d, st), None)
     else if \<not> isFirst \<and> length (reasm d) + length stub > reasmMax then
       Some ((resetReasm d, st), Some (buildFault c k rpcStatusProtocolError))
     else if fl AND rpcPFCLastFrag = 0 then Some ((d', st), None)
     else Some (dispatchRequest disp d' st))"
proof -
  let ?b = "le32 (of_nat (length stub)) @ le16 k @ le16 opnum @ stub"
  have n: "unat (of_nat (24 + length stub) :: u16) = 16 + length ?b"
    using assms(1) by (simp add: unat_of_nat del: of_nat_add)
  have "get_le16 ?b 4 = Some k" "get_le16 ?b 6 = Some opnum" "slice_from ?b 8 = Some stub"
    by (simp_all add: layout slice_from_def)
  then have "handleRequest disp d st fl c ?b =
    (let isFirst = fl AND rpcPFCFirstFrag \<noteq> 0;
         d' = (if isFirst then d\<lparr>reasm := stub, reasmActive := True, reasmCallID := c, reasmOpnum := opnum, reasmCont := k\<rparr>
               else d\<lparr>reasm := reasm d @ stub\<rparr>) in
     if \<not> isFirst \<and> \<not> reasmActive d then Some ((d, st), None)
     else if \<not> isFirst \<and> length (reasm d) + length stub > reasmMax then
       Some ((resetReasm d, st), Some (buildFault c k rpcStatusProtocolError))
     else if fl AND rpcPFCLastFrag = 0 then Some ((d', st), None)
     else Some (dispatchRequest disp d' st))"
    using assms(2) unfolding handleRequest_def by (simp add: Let_def)
  then show ?thesis
    unfolding onWrite_def requestPDU_def using parse_built [OF n, of rpcPTRequest fl c] by (simp add: Let_def)
qed

text \<open>The identity and the stub of the request a client is sending.\<close>

definition pending :: "dcerpc \<Rightarrow> u32 \<Rightarrow> u16 \<Rightarrow> u16 \<Rightarrow> bytes \<Rightarrow> dcerpc" where
  "pending d c k opnum b =
     d\<lparr>reasm := b, reasmActive := True, reasmCallID := c, reasmOpnum := opnum, reasmCont := k\<rparr>"

lemma pending_simps [simp]:
  "reasm (pending d c k opnum b) = b" "reasmActive (pending d c k opnum b)"
  "reasmCallID (pending d c k opnum b) = c" "reasmOpnum (pending d c k opnum b) = opnum"
  "reasmCont (pending d c k opnum b) = k"
  "(pending d c k opnum b)\<lparr>reasm := b'\<rparr> = pending d c k opnum b'"
  by (simp_all add: pending_def)

lemma middle_fragment:
  assumes "24 + length s < 2 ^ 16" "length b + length s \<le> reasmMax"
  shows "onWrite disp (pending d c k opnum b, st) (requestPDU 0 c k opnum s) = Some ((pending d c k opnum (b @ s), st), None)"
  using onWrite_request [OF assms(1), of 0 disp "pending d c k opnum b" st c k opnum] assms(2) by simp

lemma last_fragment:
  assumes "24 + length s < 2 ^ 16" "length b + length s \<le> reasmMax"
  shows "onWrite disp (pending d c k opnum b, st) (requestPDU rpcPFCLastFrag c k opnum s)
    = Some (dispatchRequest disp (pending d c k opnum (b @ s)) st)"
  using onWrite_request [OF assms(1), of rpcPFCLastFrag disp "pending d c k opnum b" st c k opnum] assms(2) by simp

lemma continuation_fragments:
  assumes "length b + length (concat ss) \<le> reasmMax" "\<forall>s\<in>set ss. 24 + length s < 2 ^ 16" "ss \<noteq> []"
  shows "onWrites disp (pending d c k opnum b, st) (contPDUs c k opnum ss) =
    (case dispatchRequest disp (pending d c k opnum (b @ concat ss)) st of
       (dst, out) \<Rightarrow> Some (dst, replicate (length ss - 1) None @ [out]))"
  using assms
proof (induction c k opnum ss arbitrary: b rule: contPDUs.induct)
  case (2 c k opnum s)
  then show ?case using last_fragment [of s b disp d c k opnum st] by (auto split: prod.split)
next
  case (3 c k opnum s s' ss)
  have l: "24 + length s < 2 ^ 16" "length b + length s \<le> reasmMax" using "3.prems" by auto
  have "length (b @ s) + length (concat (s' # ss)) \<le> reasmMax" using "3.prems"(1) by simp
  from "3.IH" [OF this] "3.prems"(2)
  have "onWrites disp (pending d c k opnum (b @ s), st) (contPDUs c k opnum (s' # ss)) =
    (case dispatchRequest disp (pending d c k opnum ((b @ s) @ concat (s' # ss))) st of
       (dst, out) \<Rightarrow> Some (dst, replicate (length (s' # ss) - 1) None @ [out]))" by simp
  then show ?case using middle_fragment [OF l, of disp d c k opnum st] by (auto split: prod.splits)
qed simp

lemma fragments_dispatched:
  assumes "length (concat ss) \<le> reasmMax" "\<forall>s\<in>set ss. 24 + length s < 2 ^ 16" "ss \<noteq> []"
  shows "onWrites disp (d, st) (requestPDUs c k opnum ss) =
    (case dispatchRequest disp (pending d c k opnum (concat ss)) st of
       (dst, out) \<Rightarrow> Some (dst, replicate (length ss - 1) None @ [out]))"
proof (cases ss)
  case (Cons s rest)
  have l: "24 + length s < 2 ^ 16" using assms(2) Cons by simp
  have f: "rpcPFCFirstFrag OR rpcPFCLastFrag = (3 :: byte)" by code_simp
  have b: "(3 :: byte) AND rpcPFCFirstFrag = 1" "(3 :: byte) AND rpcPFCLastFrag = 2" "(3 :: byte) AND rpcPFCObjectUUID = 0"
    "rpcPFCFirstFrag AND rpcPFCObjectUUID = (0 :: byte)" "rpcPFCFirstFrag AND rpcPFCLastFrag = (0 :: byte)"
    by code_simp+
  show ?thesis
  proof (cases "rest = []")
    case True
    then show ?thesis using Cons onWrite_request [OF l b(3), of disp d st c k opnum] b f
      by (simp add: Let_def pending_def split: prod.splits)
  next
    case False
    have "length s + length (concat rest) \<le> reasmMax" "\<forall>x\<in>set rest. 24 + length x < 2 ^ 16"
      using assms(1,2) Cons by simp_all
    note r = continuation_fragments [OF this False, of disp d c k opnum st]
    have "length rest = Suc (length rest - 1)" using False by (cases rest) simp_all
    then have rep: "replicate (length rest) None = None # replicate (length rest - 1) (None :: bytes option)"
      by (metis replicate_Suc)
    show ?thesis using Cons False onWrite_request [OF l b(4), of disp d st c k opnum] b r rep
      by (simp add: Let_def pending_def split: prod.splits)
  qed
qed (use assms in simp)

text \<open>A run of calls, each an operation number and the fragments of its stub, moves the dispatcher
  exactly as the whole stubs would.\<close>

definition sendable :: "bytes list \<Rightarrow> bool" where
  "sendable ss \<longleftrightarrow> ss \<noteq> [] \<and> length (concat ss) \<le> reasmMax \<and> (\<forall>s\<in>set ss. 24 + length s < 2 ^ 16)"

definition callsPDUs :: "u32 \<Rightarrow> u16 \<Rightarrow> (u16 \<times> bytes list) list \<Rightarrow> bytes list" where
  "callsPDUs c k calls = concat (map (\<lambda>(opnum, ss). requestPDUs c k opnum ss) calls)"

lemma onWrites_append:
  "onWrites disp dst (ps @ qs) = do {
     (dst1, o1) \<leftarrow> onWrites disp dst ps;
     (dst2, o2) \<leftarrow> onWrites disp dst1 qs;
     Some (dst2, o1 @ o2) }"
  by (induction ps arbitrary: dst) (auto simp: split_def intro: Option.bind_cong)

lemma dispatchRequest_state:
  "\<exists>out. dispatchRequest (Some f) d st = ((resetReasm d, fst (f (reasmOpnum d) (reasm d) st)), Some out)"
  by (auto simp: dispatchRequest_def split: prod.splits option.splits)

lemma calls_dispatched:
  assumes "\<forall>(opnum, ss)\<in>set calls. sendable ss"
  shows "\<exists>d' outs. onWrites (Some f) (d, st) (callsPDUs c k calls)
    = Some ((d', foldl (\<lambda>st (opnum, ss). fst (f opnum (concat ss) st)) st calls), outs)"
  using assms
proof (induction calls arbitrary: d st)
  case Nil
  then show ?case by (simp add: callsPDUs_def)
next
  case (Cons call calls)
  obtain opnum ss where call: "call = (opnum, ss)" by (cases call)
  have s: "length (concat ss) \<le> reasmMax" "\<forall>s\<in>set ss. 24 + length s < 2 ^ 16" "ss \<noteq> []"
    using Cons.prems call by (auto simp: sendable_def)
  obtain out where "dispatchRequest (Some f) (pending d c k opnum (concat ss)) st
      = ((resetReasm (pending d c k opnum (concat ss)), fst (f opnum (concat ss) st)), Some out)"
    using dispatchRequest_state [of f "pending d c k opnum (concat ss)" st] by auto
  with fragments_dispatched [OF s, of "Some f" d st c k opnum]
  obtain d1 o1 where 1: "onWrites (Some f) (d, st) (requestPDUs c k opnum ss) = Some ((d1, fst (f opnum (concat ss) st)), o1)"
    by auto
  have "\<forall>(opnum, ss)\<in>set calls. sendable ss" using Cons.prems by simp
  from Cons.IH [OF this, of d1 "fst (f opnum (concat ss) st)"]
  obtain d2 o2 where "onWrites (Some f) (d1, fst (f opnum (concat ss) st)) (callsPDUs c k calls)
      = Some ((d2, foldl (\<lambda>st (opnum, ss). fst (f opnum (concat ss) st)) (fst (f opnum (concat ss) st)) calls), o2)" by auto
  with 1 show ?case by (simp add: callsPDUs_def call onWrites_append)
qed

text \<open>
  A service behind the transport: a dispatcher whose responses fit a single message. What a client of
  such a service sees of a call, however it cuts its request, is one response that carries the call's
  identifier and the stub the service gave for the whole request, or a fault.
\<close>

locale rpc_service =
  fixes disp :: "u16 \<Rightarrow> bytes \<Rightarrow> 'st \<Rightarrow> 'st \<times> bytes option"
  assumes short_response: "disp opnum stub st = (st', Some r) \<Longrightarrow> 24 + length r < 2 ^ 16"
begin

lemma call_served:
  assumes "length (concat ss) \<le> reasmMax" "\<forall>s\<in>set ss. 24 + length s < 2 ^ 16" "ss \<noteq> []"
    and "disp opnum (concat ss) st = (st', r)"
  shows "\<exists>d' out t fl body. onWrites (Some disp) (d, st) (requestPDUs c k opnum ss)
        = Some ((d', st'), replicate (length ss - 1) None @ [Some out])
      \<and> \<not> reasmActive d' \<and> reasm d' = []
      \<and> parseRPCHeader out = Some (Some (t, fl, c, body))
      \<and> (case r of Some stub \<Rightarrow> t = rpcPTResponse \<and> drop 8 body = stub | None \<Rightarrow> t = rpcPTFault)"
proof -
  note f = fragments_dispatched [OF assms(1-3), of "Some disp" d st c k opnum]
  let ?d = "resetReasm (pending d c k opnum (concat ss))"
  have reset: "\<not> reasmActive ?d" "reasm ?d = []" by (simp_all add: resetReasm_def)
  show ?thesis
  proof (cases r)
    case None
    let ?b = "le32 0 @ le16 k @ [0, 0] @ le32 rpcStatusProtocolError @ replicate 4 0"
    have "parseRPCHeader (buildFault c k rpcStatusProtocolError) = Some (Some (rpcPTFault, rpcPFCFirstFrag OR rpcPFCLastFrag, c, ?b))"
      unfolding buildFault_def Let_def by (rule parse_built) (simp add: unat_of_nat)
    with f reset None assms(4) show ?thesis by (auto simp: dispatchRequest_def)
  next
    case (Some stub)
    let ?b = "le32 (of_nat (length stub)) @ le16 k @ [0, 0] @ stub"
    have "24 + length stub < 2 ^ 16" using short_response assms(4) Some by simp
    then have "unat (of_nat (16 + length ?b) :: u16) = 16 + length ?b"
      by (simp add: unat_of_nat del: of_nat_add)
    then have "parseRPCHeader (buildRPCResponse c k stub) = Some (Some (rpcPTResponse, rpcPFCFirstFrag OR rpcPFCLastFrag, c, ?b))"
      unfolding buildRPCResponse_def Let_def by (rule parse_built)
    moreover have "drop 8 ?b = stub" by simp
    ultimately show ?thesis using f reset Some assms(4) by (fastforce simp: dispatchRequest_def)
  qed
qed

end

subsection \<open>The reassembly buffer is bounded\<close>

definition reasmBounded :: "dcerpc \<Rightarrow> bool" where
  "reasmBounded d = (length (reasm d) \<le> reasmMax)"

lemma reset_bounded [simp]: "reasmBounded (resetReasm d)"
  by (simp add: reasmBounded_def resetReasm_def)

lemma dispatch_bounded: "dispatchRequest disp d st = ((d', st'), out) \<Longrightarrow> reasmBounded d'"
  by (auto simp: dispatchRequest_def split: option.splits prod.splits)

lemma handleRequest_bounded:
  assumes "handleRequest disp d st fl c b = Some ((d', st'), out)" "reasmBounded d" "length b \<le> reasmMax"
  shows "reasmBounded d'"
  using assms dispatch_bounded [of disp _ st d' st' out] reset_bounded [of d]
  unfolding reasmBounded_def
  by (auto simp: handleRequest_def Let_def slice_from_def simp del: reset_bounded split: if_splits option.splits bind_splits)

lemma parseRPCHeader_body: "parseRPCHeader p = Some (Some (t, fl, c, b)) \<Longrightarrow> length b \<le> length p"
  by (auto simp: parseRPCHeader_def Let_def gslice_def split: if_splits option.splits bind_splits)

lemma handleBind_bounded: "handleBind d c b = Some (d', out) \<Longrightarrow> reasmBounded d \<Longrightarrow> reasmBounded d'"
  by (auto simp: handleBind_def reasmBounded_def split: if_splits bind_splits)

lemma onWrite_bounded:
  assumes "onWrite disp (d, st) p = Some ((d', st'), out)" "reasmBounded d" "length p \<le> reasmMax"
  shows "reasmBounded d'"
proof -
  obtain h where h: "parseRPCHeader p = Some h" using parseRPCHeader_returns [of p] by auto
  show ?thesis
  proof (cases h)
    case None
    then show ?thesis using assms h by (simp add: onWrite_def)
  next
    case (Some q)
    obtain t fl c b where q: "q = (t, fl, c, b)" by (metis prod_cases4)
    have "length b \<le> reasmMax" using parseRPCHeader_body [of p t fl c b] h Some q assms(3) by simp
    then show ?thesis
      using assms h Some q handleRequest_bounded [of disp d st fl c b d' st' out] handleBind_bounded [of d c b]
      by (auto simp: onWrite_def split: if_splits bind_splits)
  qed
qed

text \<open>What a write does to the state of the service, and how long its answer is, follow from the service.\<close>

lemma onWrite_state:
  assumes "onWrite (Some disp) (d, st) p = Some ((d', st'), out)" "P st"
    and "\<And>op stub st st' r. disp op stub st = (st', r) \<Longrightarrow> P st \<Longrightarrow> P st'"
  shows "P st'"
  using assms(1,2) assms(3) unfolding onWrite_def handleRequest_def dispatchRequest_def Let_def
  by (auto split: if_splits option.splits bind_splits prod.splits)

lemma secAddr_length [simp]: "length secAddr = 13"
  by (simp add: secAddr_def str_def)

lemma bindAck_length: "length (buildRPCBindAck c x r) \<le> 72"
proof -
  have u: "length (uuidBytes ndrUUID) \<le> 16" by (simp add: uuidBytes_def Let_def split: option.split)
  have v: "length (verBytes 2 0) = 4" by (simp add: verBytes_def)
  show ?thesis using u v by (simp add: buildRPCBindAck_def buildRPCHeader_def padZero_def Let_def)
qed

lemma onWrite_answer:
  assumes "onWrite (Some disp) (d, st) p = Some ((d', st'), Some out)"
    and "\<And>op stub st st' r. disp op stub st = (st', Some r) \<Longrightarrow> length r \<le> 48"
  shows "length out \<le> 72"
proof -
  have r: "length (buildRPCResponse c k stub) \<le> 72" if "length stub \<le> 48" for c k stub
    using that by (simp add: buildRPCResponse_def buildRPCHeader_def Let_def)
  have f: "length (buildFault c k s) \<le> 72" for c k s
    by (simp add: buildFault_def buildRPCHeader_def Let_def)
  show ?thesis
    using assms(1) r assms(2) f bindAck_length unfolding onWrite_def handleRequest_def dispatchRequest_def handleBind_def Let_def
    by (auto split: if_splits option.splits bind_splits prod.splits)
qed

end
