(* ===== verification/Spoolss.thy ===== *)
theory Spoolss
  imports Dcerpc Utf16 Config_Types
begin

text \<open>
  The print service behind the pipe (\<^verbatim>\<open>spoolss.go\<close>): decoding the arguments of the calls a print job
  uses, and the dispatcher that collects a document and captures it as a job when it ends. A Go
  closure with captured state is a function on that state; the jobs it hands to the sink are a list
  that only grows.
\<close>

subsection \<open>Reading marshalled arguments\<close>

text \<open>A reader is a position in the stub. \<open>None\<close> is \<open>ok = false\<close>: every read compares with the length
  of the stub before it slices, so none can panic.\<close>

definition ndr_u32 :: "bytes \<Rightarrow> nat \<Rightarrow> (u32 \<times> nat) option" where
  "ndr_u32 b off = (if off + 4 > length b then None else Some (le_dec (take 4 (drop off b)), off + 4))"

definition ndr_skip :: "bytes \<Rightarrow> nat \<Rightarrow> nat \<Rightarrow> nat option" where
  "ndr_skip b n off = (if off + n > length b then None else Some (off + n))"

definition ndr_bytes :: "bytes \<Rightarrow> nat \<Rightarrow> nat \<Rightarrow> (bytes \<times> nat) option" where
  "ndr_bytes b n off = (if off + n > length b then None else Some (take n (drop off b), off + n))"

text \<open>The callers of \<^verbatim>\<open>align\<close> ignore its result: where it fails the position stays.\<close>

definition ndr_align :: "bytes \<Rightarrow> nat \<Rightarrow> nat \<Rightarrow> nat" where
  "ndr_align b a off =
     (let rm = off mod a in
      if rm = 0 then off
      else case ndr_skip b (a - rm) off of None \<Rightarrow> off | Some off' \<Rightarrow> off')"

definition ndrString :: "bytes \<Rightarrow> nat \<Rightarrow> (bytes \<times> nat) option" where
  "ndrString b off = do {
     (maxCount, off) \<leftarrow> ndr_u32 b off;
     (offset, off) \<leftarrow> ndr_u32 b off;
     (actual, off) \<leftarrow> ndr_u32 b off;
     if offset \<noteq> 0 \<or> actual > maxCount then None
     else if actual > of_nat (length b) then None
     else do {
       (raw, off) \<leftarrow> ndr_bytes b (unat actual * 2) off;
       let units = units16 raw;
       let units = (if units \<noteq> [] \<and> last units = 0 then butlast units else units);
       Some (runesToString (utf16Decode units), ndr_align b 4 off)
     }
   }"

abbreviation "ndrHandleLen \<equiv> (20 :: nat)"

definition parseStartDoc :: "bytes \<Rightarrow> bytes option" where
  "parseStartDoc stub = do {
     off \<leftarrow> ndr_skip stub ndrHandleLen 0;
     (_, off) \<leftarrow> ndr_u32 stub off;
     (infoRef, off) \<leftarrow> ndr_u32 stub off;
     if infoRef = 0 then Some []
     else do {
       (docRef, off) \<leftarrow> ndr_u32 stub off;
       (outRef, off) \<leftarrow> ndr_u32 stub off;
       (dtRef, off) \<leftarrow> ndr_u32 stub off;
       (name, off) \<leftarrow> (if docRef \<noteq> 0 then ndrString stub off else Some ([], off));
       (_, off) \<leftarrow> (if outRef \<noteq> 0 then ndrString stub off else Some ([], off));
       (_, off) \<leftarrow> (if dtRef \<noteq> 0 then ndrString stub off else Some ([], off));
       Some name
     }
   }"

definition parseWrite :: "bytes \<Rightarrow> bytes option" where
  "parseWrite stub = do {
     off \<leftarrow> ndr_skip stub ndrHandleLen 0;
     (maxCount, off) \<leftarrow> ndr_u32 stub off;
     if maxCount > of_nat (length stub) then None
     else do {
       (raw, off) \<leftarrow> ndr_bytes stub (unat maxCount) off;
       Some (case ndr_u32 stub (ndr_align stub 4 off) of
               Some (cb, _) \<Rightarrow> if cb \<le> maxCount then take (unat cb) raw else raw
             | None \<Rightarrow> raw)
     }
   }"

subsection \<open>The dispatcher\<close>

abbreviation "opRpcOpenPrinter \<equiv> (1 :: u16)"
abbreviation "opRpcStartDocPrinter \<equiv> (17 :: u16)"
abbreviation "opRpcWritePrinter \<equiv> (19 :: u16)"
abbreviation "opRpcEndDocPrinter \<equiv> (23 :: u16)"
abbreviation "opRpcClosePrinter \<equiv> (29 :: u16)"
abbreviation "opRpcOpenPrinterEx \<equiv> (69 :: u16)"

record spoolssJob =
  spName :: bytes
  spBuf :: bytes
  spOpen :: bool

definition noDoc :: spoolssJob where
  "noDoc = \<lparr>spName = [], spBuf = [], spOpen = False\<rparr>"

text \<open>The job captured at the end of a document.\<close>

definition spoolssCapture :: "bytes \<Rightarrow> spoolssJob \<Rightarrow> job" where
  "spoolssCapture remote sj =
     (newJob (str ''SMB'') remote)\<lparr>jobName := spName sj, jobData := spBuf sj, jobBytes := length (spBuf sj)\<rparr>"

definition realSpoolssDispatcher :: "nat \<Rightarrow> bytes \<Rightarrow> (spoolssJob \<times> job list) rpcDispatcher" where
  "realSpoolssDispatcher cap remote opnum stub = (\<lambda>(st, jobs).
     if opnum = opRpcOpenPrinter \<or> opnum = opRpcOpenPrinterEx then
       ((noDoc, jobs), Some (replicate (ndrHandleLen + 4) 0))
     else if opnum = opRpcStartDocPrinter then
       (case parseStartDoc stub of
          None \<Rightarrow> ((st, jobs), None)
        | Some name \<Rightarrow> ((st\<lparr>spName := name, spBuf := [], spOpen := True\<rparr>, jobs), Some (le32 1 @ replicate 4 0)))
     else if opnum = opRpcWritePrinter then
       (case parseWrite stub of
          None \<Rightarrow> ((st, jobs), None)
        | Some d \<Rightarrow>
            ((st\<lparr>spBuf := appendCapped (spBuf st) d (int cap)\<rparr>, jobs), Some (le32 (of_nat (length d)) @ replicate 4 0)))
     else if opnum = opRpcEndDocPrinter then
       (if length stub < ndrHandleLen then ((st, jobs), None)
        else if spOpen st then
          ((st\<lparr>spOpen := False, spBuf := []\<rparr>, jobs @ [spoolssCapture remote st]), Some (replicate 4 0))
        else ((st, jobs), Some (replicate 4 0)))
     else if opnum = opRpcClosePrinter then ((noDoc, jobs), Some (replicate (ndrHandleLen + 4) 0))
     else ((st, jobs), Some (replicate 4 0)))"

text \<open>Every response fits one message, so the service can be used through the transport.\<close>

lemma spoolss_short_response:
  "realSpoolssDispatcher cap remote opnum stub st = (st', Some r) \<Longrightarrow> length r \<le> 24"
  by (auto simp: realSpoolssDispatcher_def split: prod.splits if_splits option.splits)

interpretation spoolss: rpc_service "realSpoolssDispatcher cap remote" for cap remote
  by unfold_locales (use spoolss_short_response in fastforce)

section \<open>Correctness\<close>

text \<open>The arguments as a client marshals them: a handle, then the fields, each string at a position
  that is a multiple of four.\<close>

definition ndrStringOf :: "bytes \<Rightarrow> bytes" where
  "ndrStringOf s =
     (let n = (of_nat (length (utf16le s) div 2 + 1) :: u32) in
      padZero 4 (le32 n @ le32 0 @ le32 n @ utf16le s @ [0, 0]))"

definition startDocStub :: "bytes \<Rightarrow> bytes \<Rightarrow> bytes" where
  "startDocStub hd' name =
     hd' @ le32 1 @ le32 1 @ le32 1 @ le32 0 @ le32 0 @ ndrStringOf name"

definition writeStub :: "bytes \<Rightarrow> bytes \<Rightarrow> bytes" where
  "writeStub hd' d = padZero 4 (hd' @ le32 (of_nat (length d)) @ d) @ le32 (of_nat (length d))"

lemma ndr_u32_at: "i = length pre \<Longrightarrow> ndr_u32 (pre @ le32 v @ post) i = Some (v, i + 4)"
  by (simp add: ndr_u32_def)

lemma length_padZero: "0 < a \<Longrightarrow> length (padZero a b) mod a = 0"
proof -
  assume a: "0 < a"
  have "length b mod a + (a - length b mod a) mod a = (if length b mod a = 0 then 0 else a)"
    using a mod_less_divisor [of a "length b"] by (auto simp: less_imp_le)
  then have "(length b mod a + (a - length b mod a) mod a) mod a = 0" by simp
  then have "(length b + (a - length b mod a) mod a) mod a = 0" by (simp add: mod_add_left_eq)
  then show ?thesis by (simp add: padZero_def)
qed

lemma ndr_align_pad:
  assumes "m = padZero 4 (pre @ x) @ post" "off = length (pre @ x)"
  shows "ndr_align m 4 off = length (padZero 4 (pre @ x))"
proof -
  have l: "length (padZero 4 (pre @ x)) = off + (4 - off mod 4) mod 4" using assms by (simp add: padZero_def)
  show ?thesis
  proof (cases "off mod 4 = 0")
    case True
    then show ?thesis using l by (simp add: ndr_align_def)
  next
    case False
    then have r: "(4 - off mod 4) mod 4 = 4 - off mod 4" by (intro mod_less) simp
    have "off + (4 - off mod 4) \<le> length m" using assms(1) l r by (simp only: length_append)
    then show ?thesis using False l r by (simp add: ndr_align_def ndr_skip_def)
  qed
qed

text \<open>A document written in one call is read back.\<close>

lemma parseWrite_writeStub:
  assumes "length hd' = 20" "length d < 2 ^ 31"
  shows "parseWrite (writeStub hd' d) = Some d"
proof -
  let ?n = "of_nat (length d) :: u32"
  let ?m = "writeStub hd' d"
  have u: "unat ?n = length d" using assms(2) by (simp add: unat_of_nat)
  have m: "?m = hd' @ le32 ?n @ d @ replicate ((4 - length (hd' @ le32 ?n @ d) mod 4) mod 4) 0 @ le32 ?n"
    by (simp add: writeStub_def padZero_def)
  have sk: "ndr_skip ?m 20 0 = Some 20" using assms(1) by (simp add: ndr_skip_def m)
  have mc: "ndr_u32 ?m 20 = Some (?n, 24)" using ndr_u32_at [of 20 hd' ?n] assms(1) by (simp add: m)
  have raw: "ndr_bytes ?m (length d) 24 = Some (d, 24 + length d)" using assms(1) by (simp add: ndr_bytes_def m)
  have al: "ndr_align ?m 4 (24 + length d) = length (padZero 4 ((hd' @ le32 ?n) @ d))"
    by (rule ndr_align_pad [where post = "le32 ?n"]) (use assms(1) in \<open>simp_all add: writeStub_def\<close>)
  have cb: "ndr_u32 ?m (length (padZero 4 ((hd' @ le32 ?n) @ d))) = Some (?n, length (padZero 4 ((hd' @ le32 ?n) @ d)) + 4)"
    using ndr_u32_at [of _ "padZero 4 (hd' @ le32 ?n @ d)" ?n "[]"] by (simp add: writeStub_def)
  have fit: "\<not> (of_nat (length ?m) :: u32) < ?n"
  proof -
    have "length ?m < 2 ^ 32" using assms by (simp add: m)
    moreover have "length d \<le> length ?m" using assms by (simp add: m)
    ultimately show ?thesis using u by (simp add: word_less_nat_alt unat_of_nat not_less)
  qed
  show ?thesis unfolding parseWrite_def by (simp add: sk mc raw al cb [unfolded append_assoc] u fit)
qed

lemma units16_append_even: "even (length a) \<Longrightarrow> units16 (a @ b) = units16 a @ units16 b"
  by (induction a rule: units16.induct) auto

lemma ndrString_ndrStringOf:
  assumes "validText s" "length (utf16le s) < 2 ^ 31" "length pre + length (utf16le s) + length post < 2 ^ 31"
    and b: "b = pre @ ndrStringOf s @ post" and off: "off = length pre"
  shows "\<exists>off'. ndrString b off = Some (s, off')"
proof -
  let ?k = "length (utf16le s) div 2 + 1"
  let ?n = "of_nat ?k :: u32"
  have k2: "2 * ?k = length (utf16le s) + 2" using length_utf16le_even [of s] by simp
  have "length (utf16le s) div 2 \<le> length (utf16le s)" by simp
  then have kb: "?k < 2 ^ 32" using assms(2) by (simp del: div_le_dividend)
  have u: "unat ?n = ?k" using kb by (simp add: unat_of_nat take_bit_nat_eq_self del: of_nat_add of_nat_Suc)
  let ?body = "utf16le s @ [0, 0]"
  define z where "z = (replicate ((4 - length (le32 ?n @ le32 0 @ le32 ?n @ ?body) mod 4) mod 4) 0 :: bytes)"
  have lz: "length z < 4" by (simp add: z_def)
  have m: "b = pre @ le32 ?n @ le32 0 @ le32 ?n @ ?body @ z @ post"
    unfolding b ndrStringOf_def Let_def padZero_def z_def by simp
  have r1: "ndr_u32 b off = Some (?n, off + 4)" unfolding m by (rule ndr_u32_at) (rule off)
  have r2: "ndr_u32 b (off + 4) = Some (0, off + 8)"
    using ndr_u32_at [of "off + 4" "pre @ le32 ?n" 0] off unfolding m by simp
  have r3: "ndr_u32 b (off + 8) = Some (?n, off + 12)"
    using ndr_u32_at [of "off + 8" "pre @ le32 ?n @ le32 0" ?n] off unfolding m by simp
  have r4: "ndr_bytes b (?k * 2) (off + 12) = Some (?body, off + 12 + ?k * 2)"
  proof -
    have k: "?k * 2 = length ?body" using k2 by simp
    show ?thesis unfolding k m using off by (simp add: ndr_bytes_def)
  qed
  have fit: "\<not> (of_nat (length b) :: u32) < ?n"
  proof -
    have "length b = length pre + length (utf16le s) + length post + 14 + length z" by (simp add: m)
    note lb = this
    have e: "(2 :: nat) ^ 32 = 4294967296" "(2 :: nat) ^ 31 = 2147483648" by simp_all
    have "length b < 4294967296" using lb assms(3) [unfolded e] lz by linarith
    then have "length b < 2 ^ 32" unfolding e .
    moreover have "length (utf16le s) div 2 \<le> length (utf16le s)" by simp
    then have "?k \<le> length b" using lb by linarith
    ultimately have "length b < 2 ^ 32" "?k \<le> length b" .
    then show ?thesis using u by (simp add: word_less_nat_alt unat_of_nat take_bit_nat_eq_self not_less del: of_nat_add of_nat_Suc)
  qed
  have un: "units16 ?body = units16 (utf16le s) @ [0]"
    using units16_append_even [OF length_utf16le_even, of s "[0, 0]"] by simp
  have rt: "runesToString (utf16Decode (units16 (utf16le s))) = s"
    using utf16le_roundtrip [OF assms(1)] by (simp add: utf16leDecode_def)
  define n where "n = ?n"
  have "ndr_bytes b (unat n * 2) (off + 12) = Some (?body, off + 12 + ?k * 2)" unfolding n_def u by (rule r4)
  then show ?thesis unfolding ndrString_def using fit r1 r2 r3 unfolding n_def [symmetric] by (simp add: Let_def un rt)
qed

lemma parseStartDoc_startDocStub:
  assumes "length hd' = 20" "validText name" "length (utf16le name) < 2 ^ 30"
  shows "parseStartDoc (startDocStub hd' name) = Some name"
proof -
  let ?m = "startDocStub hd' name" and ?s = "ndrStringOf name"
  have m: "?m = (hd' @ le32 1 @ le32 1 @ le32 1 @ le32 0 @ le32 0) @ ?s" by (simp add: startDocStub_def)
  let ?p = "hd' @ le32 1 @ le32 1 @ le32 1 @ le32 0 @ le32 0"
  have lp: "length ?p = 40" using assms(1) by simp
  have b1: "length (utf16le name) < 2 ^ 31" using assms(3) by simp
  have b2: "length ?p + length (utf16le name) + length ([] :: bytes) < 2 ^ 31" using assms(3) unfolding lp by simp
  have b3: "?m = ?p @ ?s @ []" using m by (simp only: append_Nil2)
  obtain off' where st: "ndrString ?m 40 = Some (name, off')"
    using ndrString_ndrStringOf [OF assms(2) b1 b2 b3 lp [symmetric]] by blast
  have 0: "ndr_skip ?m 20 0 = Some 20" using assms(1) by (simp add: ndr_skip_def m)
  have 1: "ndr_u32 ?m 20 = Some (1, 24)" using ndr_u32_at [of 20 hd' 1] assms(1) by (simp add: m)
  have 2: "ndr_u32 ?m 24 = Some (1, 28)" using ndr_u32_at [of 24 "hd' @ le32 1" 1] assms(1) by (simp add: m)
  have 3: "ndr_u32 ?m 28 = Some (1, 32)" using ndr_u32_at [of 28 "hd' @ le32 1 @ le32 1" 1] assms(1) by (simp add: m)
  have 4: "ndr_u32 ?m 32 = Some (0, 36)" using ndr_u32_at [of 32 "hd' @ le32 1 @ le32 1 @ le32 1" 0] assms(1) by (simp add: m)
  have 5: "ndr_u32 ?m 36 = Some (0, 40)" using ndr_u32_at [of 36 "hd' @ le32 1 @ le32 1 @ le32 1 @ le32 0" 0] assms(1) by (simp add: m)
  show ?thesis unfolding parseStartDoc_def by (simp add: 0 1 2 3 4 5 st)
qed

subsection \<open>A document printed through the pipe\<close>

text \<open>The calls of a document: its start, its pieces, its end; each already cut into fragments.\<close>

definition documentCalls :: "bytes list \<Rightarrow> bytes list list \<Rightarrow> bytes list \<Rightarrow> (u16 \<times> bytes list) list" where
  "documentCalls sf wfs ef = [(opRpcStartDocPrinter, sf)] @ map (\<lambda>ss. (opRpcWritePrinter, ss)) wfs @ [(opRpcEndDocPrinter, ef)]"

lemma spoolss_start:
  "parseStartDoc stub = Some name \<Longrightarrow> fst (realSpoolssDispatcher cap remote opRpcStartDocPrinter stub (st, jobs))
    = (st\<lparr>spName := name, spBuf := [], spOpen := True\<rparr>, jobs)"
  by (simp add: realSpoolssDispatcher_def)

lemma spoolss_write:
  "parseWrite stub = Some d \<Longrightarrow> fst (realSpoolssDispatcher cap remote opRpcWritePrinter stub (st, jobs))
    = (st\<lparr>spBuf := appendCapped (spBuf st) d (int cap)\<rparr>, jobs)"
  by (simp add: realSpoolssDispatcher_def)

lemma spoolss_end:
  "20 \<le> length stub \<Longrightarrow> spOpen st \<Longrightarrow> fst (realSpoolssDispatcher cap remote opRpcEndDocPrinter stub (st, jobs))
    = (st\<lparr>spOpen := False, spBuf := []\<rparr>, jobs @ [spoolssCapture remote st])"
  by (simp add: realSpoolssDispatcher_def)

lemma writes_collect:
  assumes "map concat wfs = map (writeStub hd') ds" "length hd' = 20" "\<forall>d\<in>set ds. length d < 2 ^ 31"
  shows "foldl (\<lambda>st (opnum, ss). fst (realSpoolssDispatcher cap remote opnum (concat ss) st))
      (sj\<lparr>spBuf := capped cap b\<rparr>, jobs) (map (\<lambda>ss. (opRpcWritePrinter, ss)) wfs)
    = (sj\<lparr>spBuf := capped cap (b @ concat ds)\<rparr>, jobs)"
  using assms
proof (induction wfs arbitrary: ds b)
  case (Cons ss wfs)
  then obtain d ds' where ds: "ds = d # ds'" "concat ss = writeStub hd' d" "map concat wfs = map (writeStub hd') ds'"
    by (cases ds) auto
  have w: "parseWrite (concat ss) = Some d" using parseWrite_writeStub [of hd' d] Cons.prems ds by simp
  have "foldl (\<lambda>st (opnum, ss). fst (realSpoolssDispatcher cap remote opnum (concat ss) st))
      (sj\<lparr>spBuf := capped cap (b @ d)\<rparr>, jobs) (map (\<lambda>ss. (opRpcWritePrinter, ss)) wfs)
    = (sj\<lparr>spBuf := capped cap ((b @ d) @ concat ds')\<rparr>, jobs)"
    using Cons.prems ds by (intro Cons.IH) simp_all
  then show ?case using spoolss_write [of "concat ss"] w by (simp add: ds(1) appendCapped_capped)
qed simp

text \<open>C12: A document printed through the spooler pipe is captured whole. Whatever the pipe and the
  spooler held before, when a client starts a document, writes it in pieces and ends it, and cuts the
  arguments of each call into fragments as it likes, exactly one job is handed to the sink: it
  carries the document's name, the client's address and the pieces joined, up to the job cap.\<close>

theorem spooled_document_captured:
  assumes "length h = 20" "validText name" "length (utf16le name) < 2 ^ 30" "\<forall>p\<in>set ps. length p < 2 ^ 31"
    and "concat sf = startDocStub h name" "map concat wfs = map (writeStub h) ps" "20 \<le> length (concat ef)"
    and "sendable sf" "\<forall>ss\<in>set wfs. sendable ss" "sendable ef"
  shows "\<exists>d' sj' outs. onWrites (Some (realSpoolssDispatcher cap remote)) (d, (sj, jobs))
        (callsPDUs c k (documentCalls sf wfs ef))
      = Some ((d', (sj', jobs @ [(newJob (str ''SMB'') remote)\<lparr>jobName := name,
          jobData := capped cap (concat ps), jobBytes := length (capped cap (concat ps))\<rparr>])), outs)
      \<and> \<not> spOpen sj' \<and> spBuf sj' = []"
proof -
  let ?f = "\<lambda>st (opnum, ss). fst (realSpoolssDispatcher cap remote opnum (concat ss) st)"
  let ?s1 = "\<lparr>spName = name, spBuf = [], spOpen = True\<rparr>"
  have st: "?f (sj, jobs) (opRpcStartDocPrinter, sf) = (?s1\<lparr>spBuf := capped cap []\<rparr>, jobs)"
    using spoolss_start [of "concat sf" name cap remote sj jobs] parseStartDoc_startDocStub [OF assms(1-3)] assms(5)
    by (cases sj) simp
  have wr: "foldl ?f (?s1\<lparr>spBuf := capped cap []\<rparr>, jobs) (map (\<lambda>ss. (opRpcWritePrinter, ss)) wfs)
      = (?s1\<lparr>spBuf := capped cap (concat ps)\<rparr>, jobs)"
    using writes_collect [OF assms(6,1,4), where cap = cap and remote = remote and sj = ?s1 and b = "[]" and jobs = jobs] by simp
  have en: "?f (?s1\<lparr>spBuf := capped cap (concat ps)\<rparr>, jobs) (opRpcEndDocPrinter, ef)
      = (?s1\<lparr>spBuf := [], spOpen := False\<rparr>, jobs @ [(newJob (str ''SMB'') remote)\<lparr>jobName := name,
          jobData := capped cap (concat ps), jobBytes := length (capped cap (concat ps))\<rparr>])"
    using spoolss_end [OF assms(7), of "?s1\<lparr>spBuf := capped cap (concat ps)\<rparr>"] by (simp add: spoolssCapture_def)
  have "\<forall>(opnum, ss)\<in>set (documentCalls sf wfs ef). sendable ss"
    using assms(8-10) by (auto simp: documentCalls_def)
  from calls_dispatched [OF this, of "realSpoolssDispatcher cap remote" d "(sj, jobs)" c k]
  show ?thesis unfolding documentCalls_def foldl_append foldl.simps st wr en by auto
qed

theorem spooled_document_captured_witness:
  "\<exists>d' sj' outs. onWrites (Some (realSpoolssDispatcher 0 [])) (newDcerpc, (noDoc, []))
        (callsPDUs 7 0 (documentCalls [take 30 (startDocStub (replicate 20 0) (str ''a'')), drop 30 (startDocStub (replicate 20 0) (str ''a''))]
           [[writeStub (replicate 20 0) [1, 2]], [writeStub (replicate 20 0) [3]]] [replicate 20 0]))
      = Some ((d', (sj', [] @ [(newJob (str ''SMB'') [])\<lparr>jobName := str ''a'',
          jobData := capped 0 (concat [[1, 2], [3]]), jobBytes := length (capped 0 (concat [[1, 2], [3 :: byte]]))\<rparr>])), outs)
      \<and> \<not> spOpen sj' \<and> spBuf sj' = []"
proof -
  let ?h = "replicate 20 (0 :: byte)"
  have a: "list_all (\<lambda>b. unat b < 128) (str ''a'')" by (simp add: str_def)
  have l: "length (utf16le (str ''a'')) = 2" using length_utf16le_ascii [OF a] by simp
  have l1: "length (startDocStub ?h (str ''a'')) = 56" using l by (simp add: startDocStub_def ndrStringOf_def padZero_def Let_def)
  have l2: "length (writeStub ?h [1, 2]) = 32" "length (writeStub ?h [3]) = 32" by (simp_all add: writeStub_def padZero_def)
  show ?thesis
    by (rule spooled_document_captured) (use a l l1 l2 in \<open>simp_all add: ascii_validText sendable_def\<close>)
qed

end
