(* ===== verification/Smb_Negotiate.thy ===== *)
theory Smb_Negotiate
  imports Smb_Frame Limits
begin

text \<open>
  NEGOTIATE (\<^verbatim>\<open>smb_negotiate.go\<close>): choosing the dialect, reading the client's context list, choosing
  the cipher, and building the response. The server's identifier and the random salt are arguments.
\<close>

abbreviation "dialect202 \<equiv> (0x0202 :: u16)"
abbreviation "dialect210 \<equiv> (0x0210 :: u16)"
abbreviation "dialect300 \<equiv> (0x0300 :: u16)"
abbreviation "dialect302 \<equiv> (0x0302 :: u16)"
abbreviation "dialect311 \<equiv> (0x0311 :: u16)"

definition supportedDialects :: "u16 list" where
  "supportedDialects = [dialect311, dialect302, dialect300, dialect210, dialect202]"

abbreviation "ctxPreauthIntegrity \<equiv> (0x0001 :: u16)"
abbreviation "ctxEncryption \<equiv> (0x0002 :: u16)"
abbreviation "hashSHA512 \<equiv> (0x0001 :: u16)"
abbreviation "cipherAESCCM \<equiv> (0x0001 :: u16)"
abbreviation "cipherAESGCM \<equiv> (0x0002 :: u16)"

datatype negState = NegOK | NegBadRequest | NegNoCommonDialect

record negotiateResult =
  nrDialect :: u16
  nrCipher :: u16
  nrPreauthHash :: u16
  nrServerSalt :: bytes
  nrClientPreauthCtx :: "bytes option"

definition selectDialect :: "u16 list \<Rightarrow> u16 option" where
  "selectDialect offered = find (\<lambda>d. d \<in> set offered) supportedDialects"

subsection \<open>Reading the request\<close>

text \<open>The dialect array.\<close>

primrec readU16s :: "bytes \<Rightarrow> nat \<Rightarrow> nat \<Rightarrow> u16 list option" where
  "readU16s b 0 off = Some []"
| "readU16s b (Suc n) off = do { v \<leftarrow> get_le16 b off; vs \<leftarrow> readU16s b n (off + 2); Some (v # vs) }"

text \<open>Contexts begin at multiples of eight, counted from the start of the header.\<close>

definition alignCtx :: "nat \<Rightarrow> nat" where
  "alignCtx pos = pos + (8 - (pos + smb2HeaderSize) mod 8) mod 8"

text \<open>The contexts the loop visits before its count is used up or it breaks: type, data, and the
  bytes of the whole context.\<close>

primrec walkContexts :: "bytes \<Rightarrow> nat \<Rightarrow> nat \<Rightarrow> (u16 \<times> bytes \<times> bytes) list option" where
  "walkContexts body 0 pos = Some []"
| "walkContexts body (Suc n) pos =
     (let pos = alignCtx pos in
      if pos + 8 > length body then Some []
      else do {
        cType \<leftarrow> get_le16 body pos;
        dLen \<leftarrow> get_le16 body (pos + 2);
        let dataEnd = pos + 8 + unat dLen;
        if dataEnd > length body then Some []
        else do {
          d \<leftarrow> gslice body (pos + 8) dataEnd;
          raw \<leftarrow> gslice body pos dataEnd;
          rest \<leftarrow> walkContexts body n dataEnd;
          Some ((cType, d, raw) # rest)
        }
      })"

text \<open>The ciphers of an encryption context that lie inside its data.\<close>

primrec ctxCiphers :: "bytes \<Rightarrow> nat \<Rightarrow> nat \<Rightarrow> u16 list option" where
  "ctxCiphers d 0 off = Some []"
| "ctxCiphers d (Suc n) off =
     (if off + 2 > length d then Some []
      else do { v \<leftarrow> get_le16 d off; vs \<leftarrow> ctxCiphers d n (off + 2); Some (v # vs) })"

record ctx_scan =
  offeredGCM :: bool
  offeredCCM :: bool
  clientPreauth :: "bytes option"

definition scanContext :: "ctx_scan \<Rightarrow> u16 \<times> bytes \<times> bytes \<Rightarrow> ctx_scan option" where
  "scanContext s ctx = (case ctx of (cType, d, raw) \<Rightarrow>
     if cType = ctxPreauthIntegrity then Some (s\<lparr>clientPreauth := Some raw\<rparr>)
     else if cType = ctxEncryption \<and> 2 \<le> length d then do {
       n \<leftarrow> get_le16 d 0;
       cs \<leftarrow> ctxCiphers d (unat n) 2;
       Some (s\<lparr>offeredGCM := offeredGCM s \<or> cipherAESGCM \<in> set cs, offeredCCM := offeredCCM s \<or> cipherAESCCM \<in> set cs\<rparr>)
     }
     else Some s)"

primrec scanContexts :: "ctx_scan \<Rightarrow> (u16 \<times> bytes \<times> bytes) list \<Rightarrow> ctx_scan option" where
  "scanContexts s [] = Some s"
| "scanContexts s (c # cs) = do { s1 \<leftarrow> scanContext s c; scanContexts s1 cs }"

definition parseRequestContexts :: "bytes \<Rightarrow> (u16 \<times> bytes option) option" where
  "parseRequestContexts body =
     (if length body < 36 then Some (cipherAESGCM, None)
      else do {
        ncOffset \<leftarrow> get_le32 body 28;
        ncCount \<leftarrow> get_le16 body 32;
        let start = int (unat ncOffset) - int smb2HeaderSize;
        if start < 0 \<or> start > int (length body) then Some (cipherAESGCM, None)
        else do {
          ctxs \<leftarrow> walkContexts body (unat ncCount) (nat start);
          s \<leftarrow> scanContexts \<lparr>offeredGCM = False, offeredCCM = False, clientPreauth = None\<rparr> ctxs;
          Some (if offeredGCM s then cipherAESGCM else if offeredCCM s then cipherAESCCM else cipherAESGCM, clientPreauth s)
        }
      })"

text \<open>The checks that \<^verbatim>\<open>handleNegotiate\<close> and \<^verbatim>\<open>handleNegotiateResult\<close> both begin with: the header,
  the body and the dialects offered.\<close>

definition parseNegotiate :: "bytes \<Rightarrow> (smb2Header \<times> bytes \<times> u16 list) option option" where
  "parseNegotiate req = do {
     h \<leftarrow> parseSMB2Header req;
     case h of
       None \<Rightarrow> Some None
     | Some hdr \<Rightarrow>
         if hCommand hdr \<noteq> smb2Negotiate then Some None
         else do {
           body \<leftarrow> slice_from req smb2HeaderSize;
           if length body < 36 then Some None
           else do {
             sz \<leftarrow> get_le16 body 0;
             if sz \<noteq> 36 then Some None
             else do {
               n \<leftarrow> get_le16 body 2;
               if n = 0 then Some None
               else if 36 + unat n * 2 > length body then Some None
               else do {
                 offered \<leftarrow> readU16s body (unat n) 36;
                 Some (Some (hdr, body, offered))
               }
             }
           }
         }
   }"

subsection \<open>Building the response\<close>

definition appendContext :: "bytes \<Rightarrow> u16 \<Rightarrow> bytes \<Rightarrow> bytes" where
  "appendContext l ctxType d = padZero 8 l @ le16 ctxType @ le16 (of_nat (length d)) @ replicate 4 0 @ d"

definition buildResponseContexts :: "bytes \<Rightarrow> u16 \<Rightarrow> bytes \<times> u16" where
  "buildResponseContexts salt cipher =
     (let preauthData = le16 1 @ le16 (of_nat (length salt)) @ le16 hashSHA512 @ salt;
          l = appendContext [] ctxPreauthIntegrity preauthData;
          encData = le16 1 @ le16 cipher
      in (appendContext l ctxEncryption encData, 2))"

definition negotiateBody :: "bytes \<Rightarrow> u16 \<Rightarrow> u16 \<Rightarrow> u32 \<Rightarrow> bytes" where
  "negotiateBody guid dialect ncc ncOffset =
     le16 65 @ le16 0x0001 @ le16 dialect @ le16 ncc @ guid @ le32 0
       @ le32 0x00100000 @ le32 0x00100000 @ le32 0x00100000 @ replicate 16 0
       @ le16 (of_nat (smb2HeaderSize + 64)) @ le16 0 @ le32 ncOffset"

text \<open>The fixed body has 64 bytes, so the padding loop before the contexts adds nothing.\<close>

definition buildNegotiateResponse :: "bytes \<Rightarrow> smb2Header \<Rightarrow> u16 \<Rightarrow> u16 \<Rightarrow> bytes \<Rightarrow> bytes" where
  "buildNegotiateResponse guid reqHdr dialect ncc contexts =
     (let respHdr = zeroHeader\<lparr>hStatus := statusSuccess, hCommand := smb2Negotiate, hCreditResp := 1,
            hFlags := hFlags reqHdr OR smb2FlagsServerToRedir, hMessageId := hMessageId reqHdr,
            hTreeId := hTreeId reqHdr, hSessionId := hSessionId reqHdr\<rparr>
      in if length contexts = 0 then encodeHeader respHdr @ negotiateBody guid dialect ncc 0
         else encodeHeader respHdr @ negotiateBody guid dialect ncc (of_nat (smb2HeaderSize + 64)) @ contexts)"

definition handleNegotiate :: "bytes \<Rightarrow> bytes \<Rightarrow> bytes \<Rightarrow> (bytes \<times> negState \<times> bool) option" where
  "handleNegotiate guid salt req = do {
     p \<leftarrow> parseNegotiate req;
     case p of
       None \<Rightarrow> Some ([], NegBadRequest, False)
     | Some (hdr, body, offered) \<Rightarrow>
         (case selectDialect offered of
            None \<Rightarrow> Some ([], NegNoCommonDialect, False)
          | Some chosen \<Rightarrow>
              if chosen = dialect311 then do {
                (cipher, _) \<leftarrow> parseRequestContexts body;
                let (contexts, ncc) = buildResponseContexts salt cipher;
                Some (buildNegotiateResponse guid hdr chosen ncc contexts, NegOK, True)
              }
              else Some (buildNegotiateResponse guid hdr chosen 0 [], NegOK, True))
   }"

definition handleNegotiateResult :: "bytes \<Rightarrow> negotiateResult option option" where
  "handleNegotiateResult req = do {
     p \<leftarrow> parseNegotiate req;
     case p of
       None \<Rightarrow> Some None
     | Some (hdr, body, offered) \<Rightarrow>
         (case selectDialect offered of
            None \<Rightarrow> Some None
          | Some chosen \<Rightarrow>
              if chosen = dialect311 then do {
                (cipher, pre) \<leftarrow> parseRequestContexts body;
                Some (Some \<lparr>nrDialect = chosen, nrCipher = cipher, nrPreauthHash = hashSHA512,
                  nrServerSalt = [], nrClientPreauthCtx = pre\<rparr>)
              }
              else Some (Some \<lparr>nrDialect = chosen, nrCipher = 0, nrPreauthHash = 0,
                nrServerSalt = [], nrClientPreauthCtx = None\<rparr>))
   }"

subsection \<open>Reading the response\<close>

record neg_read =
  gotHash :: "u16 option"
  gotCipher :: "u16 option"

definition readContext :: "neg_read \<Rightarrow> u16 \<times> bytes \<times> bytes \<Rightarrow> neg_read option" where
  "readContext s ctx = (case ctx of (cType, d, _) \<Rightarrow>
     if cType = ctxPreauthIntegrity then
       (if 6 \<le> length d then do { v \<leftarrow> get_le16 d 4; Some (s\<lparr>gotHash := Some v\<rparr>) } else Some s)
     else if cType = ctxEncryption then
       (if 4 \<le> length d then do { v \<leftarrow> get_le16 d 2; Some (s\<lparr>gotCipher := Some v\<rparr>) } else Some s)
     else Some s)"

primrec readContexts :: "neg_read \<Rightarrow> (u16 \<times> bytes \<times> bytes) list \<Rightarrow> neg_read option" where
  "readContexts s [] = Some s"
| "readContexts s (c # cs) = do { s1 \<leftarrow> readContext s c; readContexts s1 cs }"

text \<open>Hash and cipher, 0 where none was found, and whether both were.\<close>

definition negotiatedContexts :: "bytes \<Rightarrow> (u16 \<times> u16 \<times> bool) option" where
  "negotiatedContexts resp =
     (if length resp < smb2HeaderSize + 64 then Some (0, 0, False)
      else do {
        body \<leftarrow> slice_from resp smb2HeaderSize;
        sz \<leftarrow> get_le16 body 0;
        dl \<leftarrow> get_le16 body 4;
        n \<leftarrow> get_le16 body 6;
        if sz \<noteq> 65 \<or> dl \<noteq> dialect311 \<or> n = 0 then Some (0, 0, False)
        else do {
          ncOffset \<leftarrow> get_le32 body 60;
          let start = int (unat ncOffset) - int smb2HeaderSize;
          if start < 0 \<or> start > int (length body) then Some (0, 0, False)
          else do {
            ctxs \<leftarrow> walkContexts body (unat n) (nat start);
            s \<leftarrow> readContexts \<lparr>gotHash = None, gotCipher = None\<rparr> ctxs;
            Some (case gotHash s of Some v \<Rightarrow> v | None \<Rightarrow> 0, case gotCipher s of Some v \<Rightarrow> v | None \<Rightarrow> 0,
              gotHash s \<noteq> None \<and> gotCipher s \<noteq> None)
          }
        }
      })"

section \<open>Correctness\<close>

subsection \<open>No input makes the parsers panic\<close>

lemma readU16s_returns [no_panic]: "off + 2 * n \<le> length b \<Longrightarrow> readU16s b n off \<noteq> None"
proof (induction n arbitrary: off)
  case (Suc n)
  then have "readU16s b n (off + 2) \<noteq> None" by simp
  then show ?case unfolding readU16s.simps using Suc.prems by (intro no_panic) auto
qed simp

lemma walkContexts_returns [no_panic]: "walkContexts body n pos \<noteq> None"
proof (induction n arbitrary: pos)
  case (Suc n)
  show ?case unfolding walkContexts.simps Let_def by (intro no_panic Suc) auto
qed simp

lemma ctxCiphers_returns [no_panic]: "ctxCiphers d n off \<noteq> None"
proof (induction n arbitrary: off)
  case (Suc n)
  show ?case unfolding ctxCiphers.simps by (intro no_panic Suc) auto
qed simp

lemma scanContext_returns [no_panic]: "scanContext s c \<noteq> None"
  unfolding scanContext_def by (intro no_panic) auto

lemma scanContexts_returns [no_panic]: "scanContexts s cs \<noteq> None"
proof (induction cs arbitrary: s)
  case (Cons c cs)
  show ?case unfolding scanContexts.simps by (intro no_panic Cons)
qed simp

lemma readContext_returns [no_panic]: "readContext s c \<noteq> None"
  unfolding readContext_def by (intro no_panic) auto

lemma readContexts_returns [no_panic]: "readContexts s cs \<noteq> None"
proof (induction cs arbitrary: s)
  case (Cons c cs)
  show ?case unfolding readContexts.simps by (intro no_panic Cons)
qed simp

lemma parseRequestContexts_returns [no_panic]: "parseRequestContexts b \<noteq> None"
  unfolding parseRequestContexts_def Let_def by (intro no_panic) auto

lemma parseNegotiate_returns [no_panic]: "parseNegotiate req \<noteq> None"
  unfolding parseNegotiate_def by (intro no_panic) (auto simp: slice_from_def dest: parse_appended split: if_splits)

lemma handleNegotiate_returns [no_panic]: "handleNegotiate guid salt req \<noteq> None"
  unfolding handleNegotiate_def Let_def by (intro no_panic)

lemma handleNegotiateResult_returns [no_panic]: "handleNegotiateResult req \<noteq> None"
  unfolding handleNegotiateResult_def by (intro no_panic)

lemma negotiatedContexts_returns [no_panic]: "negotiatedContexts resp \<noteq> None"
  unfolding negotiatedContexts_def Let_def by (intro no_panic) (auto simp: slice_from_def split: if_splits)

subsection \<open>The dialect\<close>

lemma selectDialect_highest:
  "case selectDialect offered of
     None \<Rightarrow> \<forall>d\<in>set offered. d \<notin> set supportedDialects
   | Some d \<Rightarrow> d \<in> set offered \<and> d \<in> set supportedDialects \<and> (\<forall>e\<in>set offered. e \<in> set supportedDialects \<longrightarrow> e \<le> d)"
  by (auto simp: selectDialect_def supportedDialects_def)

subsection \<open>The contexts\<close>

lemma walkContexts_step:
  assumes "body = pre @ le16 t @ le16 (of_nat (length d)) @ replicate 4 0 @ d @ post"
    and "alignCtx pos = length pre" "length d < 2 ^ 16"
  shows "\<exists>raw. walkContexts body (Suc n) pos
    = map_option (\<lambda>cs. (t, d, raw) # cs) (walkContexts body n (length pre + 8 + length d))"
proof -
  have u: "unat (of_nat (length d) :: u16) = length d" using assms(3) by (simp add: unat_of_nat)
  have l: "length body = length pre + 8 + length d + length post" using assms(1) by simp
  have 1: "get_le16 body (length pre) = Some t" unfolding assms(1) by (rule get_le_append) simp_all
  have 2: "get_le16 body (length pre + 2) = Some (of_nat (length d))"
    using get_le_append [of "length pre + 2" "pre @ le16 t" 2 "of_nat (length d) :: u16"] unfolding assms(1) by simp
  have 3: "gslice body (length pre + 8) (length pre + 8 + length d) = Some d"
    unfolding assms(1) by (simp add: gslice_def)
  have 4: "gslice body (length pre) (length pre + 8 + length d) = Some (take (8 + length d) (drop (length pre) body))"
    using l by (simp add: gslice_def)
  have "walkContexts body (Suc n) pos
    = map_option (\<lambda>cs. (t, d, take (8 + length d) (drop (length pre) body)) # cs) (walkContexts body n (length pre + 8 + length d))"
    unfolding walkContexts.simps assms(2) Let_def using l
    by (cases "walkContexts body n (length pre + 8 + length d)") (simp_all add: 1 2 [simplified] 3 4 u)
  then show ?thesis by blast
qed

lemma length_negotiateBody [simp]: "length guid = 16 \<Longrightarrow> length (negotiateBody guid dl n off) = 64"
  by (simp add: negotiateBody_def)

text \<open>A client that reads the response finds the hash and the cipher the server chose.\<close>

lemma negotiated_contexts_read:
  assumes "length guid = 16" "length salt + 6 < 2 ^ 16" "buildResponseContexts salt c = (contexts, ncc)"
  shows "negotiatedContexts (buildNegotiateResponse guid h dialect311 ncc contexts) = Some (hashSHA512, c, True)"
proof -
  let ?d1 = "le16 1 @ le16 (of_nat (length salt)) @ le16 hashSHA512 @ salt" and ?d2 = "le16 1 @ le16 c"
  let ?l = "le16 ctxPreauthIntegrity @ le16 (of_nat (length ?d1)) @ replicate 4 0 @ ?d1"
  let ?c2 = "le16 ctxEncryption @ le16 (of_nat (length ?d2)) @ replicate 4 0 @ ?d2"
  let ?z = "replicate ((8 - length ?l mod 8) mod 8) (0 :: byte)"
  have ctx: "contexts = (?l @ ?z) @ ?c2" "ncc = 2"
    using assms(3) unfolding buildResponseContexts_def appendContext_def Let_def padZero_def
    by (simp_all del: length_append add: length_append [symmetric])
  let ?nb = "negotiateBody guid dialect311 2 128"
  define body where "body = ?nb @ contexts"
  have nb: "length ?nb = 64" using assms(1) by simp
  have ll: "length ?l = length salt + 14" by simp
  have lb: "length body \<ge> 64" by (simp add: body_def nb)
  have b1: "body = ?nb @ le16 ctxPreauthIntegrity @ le16 (of_nat (length ?d1)) @ replicate 4 0 @ ?d1 @ (?z @ ?c2)"
    unfolding body_def ctx by (simp only: append_assoc)
  have b2: "body = (?nb @ ?l @ ?z) @ le16 ctxEncryption @ le16 (of_nat (length ?d2)) @ replicate 4 0 @ ?d2 @ []"
    unfolding body_def ctx by (simp only: append_assoc append_Nil2)
  have a1: "alignCtx 64 = length ?nb" by (simp add: alignCtx_def nb)
  have a2: "alignCtx (length ?nb + 8 + length ?d1) = length (?nb @ ?l @ ?z)"
  proof -
    have "(length ?nb + 8 + length ?d1 + 64) mod 8 = length ?l mod 8"
    proof -
      have "length ?nb + 8 + length ?d1 + 64 = 8 * 16 + length ?l" unfolding nb by simp
      then show ?thesis by (metis mod_mult_self4)
    qed
    then show ?thesis unfolding alignCtx_def using nb by (simp only: length_append length_replicate) simp
  qed
  have d1: "length ?d1 < 2 ^ 16" and d2: "length ?d2 < 2 ^ 16" using assms(2) by simp_all
  obtain r1 where w1: "walkContexts body (Suc 1) 64
      = map_option (\<lambda>cs. (ctxPreauthIntegrity, ?d1, r1) # cs) (walkContexts body 1 (length ?nb + 8 + length ?d1))"
    using walkContexts_step [OF b1 a1 d1] by blast
  obtain r2 where w2: "walkContexts body (Suc 0) (length ?nb + 8 + length ?d1)
      = map_option (\<lambda>cs. (ctxEncryption, ?d2, r2) # cs) (walkContexts body 0 (length (?nb @ ?l @ ?z) + 8 + length ?d2))"
    using walkContexts_step [OF b2 a2 d2] by blast
  have w: "walkContexts body 2 64 = Some [(ctxPreauthIntegrity, ?d1, r1), (ctxEncryption, ?d2, r2)]"
    using w1 w2 by (simp add: numeral_2_eq_2)
  have r: "readContexts \<lparr>gotHash = None, gotCipher = None\<rparr> [(ctxPreauthIntegrity, ?d1, r1), (ctxEncryption, ?d2, r2)]
      = Some \<lparr>gotHash = Some hashSHA512, gotCipher = Some c\<rparr>"
    by (simp add: readContext_def layout)
  have f: "get_le16 body 0 = Some 65" "get_le16 body 4 = Some dialect311" "get_le16 body 6 = Some 2" "get_le32 body 60 = Some 128"
    unfolding body_def negotiateBody_def using assms(1) by (simp_all add: layout)
  have ne: "length contexts \<noteq> 0" unfolding ctx by simp
  obtain hd' where resp: "buildNegotiateResponse guid h dialect311 ncc contexts = hd' @ body" "length hd' = 64"
    unfolding buildNegotiateResponse_def body_def Let_def if_not_P [OF ne] using ctx(2) by simp
  have body: "slice_from (hd' @ body) smb2HeaderSize = Some body" using resp(2) by (simp add: slice_from_def)
  have long: "\<not> length (hd' @ body) < smb2HeaderSize + 64" using resp(2) lb by simp
  have start: "\<not> (int 64 < 0 \<or> int 64 > int (length body))" using lb by simp
  show ?thesis
    unfolding resp(1) negotiatedContexts_def if_not_P [OF long] body
    by (simp add: f w r Let_def start [simplified] del: readContexts.simps)
qed

subsection \<open>Both readings of a request agree, and the response states the outcome\<close>

lemma response_dialect:
  assumes "length guid = 16"
  shows "get_le16 (buildNegotiateResponse guid h dl ncc contexts) 68 = Some dl"
proof -
  have "get_le16 (encodeHeader hd' @ negotiateBody guid dl n off @ post) 68 = Some dl" if "length (encodeHeader hd') = 64" for hd' n off post
    using that assms by (simp add: negotiateBody_def layout)
  from this [where post = contexts] this [where post = "[]"] show ?thesis
    by (simp add: buildNegotiateResponse_def Let_def wfHeader_def zeroHeader_def)
qed

lemma older_dialect_no_contexts:
  assumes "length guid = 16" "dl \<noteq> dialect311"
  shows "negotiatedContexts (buildNegotiateResponse guid h dl 0 []) = Some (0, 0, False)"
proof -
  obtain hd' where resp: "buildNegotiateResponse guid h dl 0 [] = hd' @ negotiateBody guid dl 0 0" "length hd' = 64"
    by (simp add: buildNegotiateResponse_def Let_def)
  have f: "get_le16 (negotiateBody guid dl 0 0) 0 = Some 65" "get_le16 (negotiateBody guid dl 0 0) 4 = Some dl"
    "get_le16 (negotiateBody guid dl 0 0) 6 = Some 0"
    unfolding negotiateBody_def using assms(1) by (simp_all add: layout)
  show ?thesis unfolding resp(1) negotiatedContexts_def using resp(2) assms by (simp add: slice_from_def f)
qed

lemma negotiation_agrees':
  assumes "length guid = 16" "length salt = 32" "handleNegotiate guid salt req = Some (resp, st, ok)"
  shows "case parseNegotiate req of
      Some (Some (hdr, body, offered)) \<Rightarrow>
        (if ok then (\<exists>nr. handleNegotiateResult req = Some (Some nr) \<and> st = NegOK
             \<and> nrDialect nr \<in> set offered \<and> nrDialect nr \<in> set supportedDialects
             \<and> (\<forall>d\<in>set offered. d \<in> set supportedDialects \<longrightarrow> d \<le> nrDialect nr)
             \<and> get_le16 resp 68 = Some (nrDialect nr)
             \<and> negotiatedContexts resp = Some (nrPreauthHash nr, nrCipher nr, nrDialect nr = dialect311))
         else handleNegotiateResult req = Some None \<and> resp = [] \<and> st = NegNoCommonDialect
             \<and> (\<forall>d\<in>set offered. d \<notin> set supportedDialects))
    | Some None \<Rightarrow> handleNegotiateResult req = Some None \<and> resp = [] \<and> st = NegBadRequest \<and> \<not> ok
    | None \<Rightarrow> False"
proof -
  obtain p where p: "parseNegotiate req = Some p" using parseNegotiate_returns [of req] by auto
  show ?thesis
  proof (cases p)
    case None
    then show ?thesis using assms(3) p by (simp add: handleNegotiate_def handleNegotiateResult_def)
  next
    case (Some q)
    obtain hdr body offered where q: "q = (hdr, body, offered)" by (cases q)
    note ps = p [unfolded Some q]
    note top = selectDialect_highest [of offered]
    show ?thesis
    proof (cases "selectDialect offered")
      case None
      then show ?thesis using assms(3) ps top by (auto simp: handleNegotiate_def handleNegotiateResult_def)
    next
      case (Some d)
      note sel = this
      show ?thesis
      proof (cases "d = dialect311")
        case False
        then show ?thesis
          using assms(3) ps sel top older_dialect_no_contexts [OF assms(1) False, of hdr] response_dialect [OF assms(1), of hdr d 0 "[]"]
          by (auto simp: handleNegotiate_def handleNegotiateResult_def)
      next
        case True
        obtain c pre where rc: "parseRequestContexts body = Some (c, pre)"
          using parseRequestContexts_returns [of body] by fastforce
        obtain contexts ncc where bc: "buildResponseContexts salt c = (contexts, ncc)" by (metis surj_pair)
        have "length salt + 6 < 2 ^ 16" using assms(2) by simp
        from negotiated_contexts_read [OF assms(1) this bc, of hdr] show ?thesis
          using assms(3) ps sel True top rc bc response_dialect [OF assms(1), of hdr d ncc contexts]
          by (auto simp: handleNegotiate_def handleNegotiateResult_def)
      qed
    qed
  qed
qed

text \<open>C39: Client and server leave the negotiation with the same parameters. Where a request is
  answered, the dialect is the highest one both sides support, the response states that dialect,
  and the hash and cipher a client reads from the response are those the server keeps for the
  session (none for the older dialects); where it is refused, no dialect is common or it is malformed.\<close>

theorem negotiation_agrees:
  assumes "length guid = 16" "length salt = 32" "handleNegotiate guid salt req = Some (resp, st, ok)"
  shows "case parseNegotiate req of
      Some (Some (hdr, body, offered)) \<Rightarrow>
        (if ok then (\<exists>nr. handleNegotiateResult req = Some (Some nr) \<and> st = NegOK
             \<and> nrDialect nr \<in> set offered \<and> nrDialect nr \<in> set supportedDialects
             \<and> (\<forall>d\<in>set offered. d \<in> set supportedDialects \<longrightarrow> d \<le> nrDialect nr)
             \<and> get_le16 resp 68 = Some (nrDialect nr)
             \<and> negotiatedContexts resp = Some (nrPreauthHash nr, nrCipher nr, nrDialect nr = dialect311))
         else handleNegotiateResult req = Some None \<and> resp = [] \<and> st = NegNoCommonDialect
             \<and> (\<forall>d\<in>set offered. d \<notin> set supportedDialects))
    | Some None \<Rightarrow> handleNegotiateResult req = Some None \<and> resp = [] \<and> st = NegBadRequest \<and> \<not> ok
    | None \<Rightarrow> False"
  by (rule negotiation_agrees' [OF assms])

text \<open>A request that offers the dialects 2.0.2 and 3.1.1 and no contexts.\<close>

definition demoNegotiate :: bytes where
  "demoNegotiate = encodeHeader zeroHeader @ le16 36 @ le16 2 @ replicate 32 0 @ le16 dialect202 @ le16 dialect311"

lemma demo_negotiated:
  "\<exists>resp. handleNegotiate (replicate 16 7) (replicate 32 1) demoNegotiate = Some (resp, NegOK, True)
    \<and> get_le16 resp 68 = Some dialect311 \<and> negotiatedContexts resp = Some (hashSHA512, cipherAESGCM, True)"
proof -
  let ?body = "le16 36 @ le16 2 @ replicate 32 0 @ le16 dialect202 @ le16 dialect311"
  have h: "parseSMB2Header demoNegotiate = Some (Some zeroHeader)"
    unfolding demoNegotiate_def by (rule header_roundtrip') (simp add: wfHeader_def zeroHeader_def)
  have lz: "length (encodeHeader zeroHeader) = 64" by (simp add: wfHeader_def zeroHeader_def)
  have sl: "slice_from demoNegotiate smb2HeaderSize = Some ?body" using lz by (simp add: demoNegotiate_def slice_from_def)
  have two: "readU16s b 2 off = do { v \<leftarrow> get_le16 b off; w \<leftarrow> get_le16 b (off + 2); Some [v, w] }" for b off
    by (simp add: numeral_2_eq_2)
  have "readU16s ?body 2 36 = Some [dialect202, dialect311]" by (simp add: two layout)
  then have p: "parseNegotiate demoNegotiate = Some (Some (zeroHeader, ?body, [dialect202, dialect311]))"
    unfolding parseNegotiate_def using h sl by (simp add: layout zeroHeader_def)
  have sel: "selectDialect [dialect202, dialect311] = Some dialect311" by (simp add: selectDialect_def supportedDialects_def)
  obtain resp st ok where hn: "handleNegotiate (replicate 16 7) (replicate 32 1) demoNegotiate = Some (resp, st, ok)"
    using handleNegotiate_returns [of "replicate 16 7" "replicate 32 1" demoNegotiate] by (metis option.exhaust prod_cases3)
  have rc: "parseRequestContexts ?body = Some (cipherAESGCM, None)"
  proof -
    have "get_le32 ?body 28 = Some 0" "get_le16 ?body 32 = Some 0" by (simp_all add: get_le_def numeral_eq_Suc)
    then show ?thesis unfolding parseRequestContexts_def by (simp add: Let_def)
  qed
  have hr: "handleNegotiateResult demoNegotiate = Some (Some \<lparr>nrDialect = dialect311, nrCipher = cipherAESGCM,
      nrPreauthHash = hashSHA512, nrServerSalt = [], nrClientPreauthCtx = None\<rparr>)"
    by (simp add: handleNegotiateResult_def p sel rc)
  from negotiation_agrees' [OF _ _ hn] show ?thesis using hn by (auto simp: p hr split: if_splits)
qed

theorem negotiation_agrees_witness:
  "\<exists>resp. handleNegotiate (replicate 16 7) (replicate 32 1) demoNegotiate = Some (resp, NegOK, True)
    \<and> get_le16 resp 68 = Some dialect311 \<and> negotiatedContexts resp = Some (hashSHA512, cipherAESGCM, True)"
proof -
  let ?body = "le16 36 @ le16 2 @ replicate 32 0 @ le16 dialect202 @ le16 dialect311"
  have h: "parseSMB2Header demoNegotiate = Some (Some zeroHeader)"
    unfolding demoNegotiate_def by (rule header_roundtrip') (simp add: wfHeader_def zeroHeader_def)
  have lz: "length (encodeHeader zeroHeader) = 64" by (simp add: wfHeader_def zeroHeader_def)
  have sl: "slice_from demoNegotiate smb2HeaderSize = Some ?body" using lz by (simp add: demoNegotiate_def slice_from_def)
  have two: "readU16s b 2 off = do { v \<leftarrow> get_le16 b off; w \<leftarrow> get_le16 b (off + 2); Some [v, w] }" for b off
    by (simp add: numeral_2_eq_2)
  have "readU16s ?body 2 36 = Some [dialect202, dialect311]" by (simp add: two layout)
  then have p: "parseNegotiate demoNegotiate = Some (Some (zeroHeader, ?body, [dialect202, dialect311]))"
    unfolding parseNegotiate_def using h sl by (simp add: layout zeroHeader_def)
  have sel: "selectDialect [dialect202, dialect311] = Some dialect311" by (simp add: selectDialect_def supportedDialects_def)
  obtain resp st ok where hn: "handleNegotiate (replicate 16 7) (replicate 32 1) demoNegotiate = Some (resp, st, ok)"
    using handleNegotiate_returns [of "replicate 16 7" "replicate 32 1" demoNegotiate] by (metis option.exhaust prod_cases3)
  have rc: "parseRequestContexts ?body = Some (cipherAESGCM, None)"
  proof -
    have "get_le32 ?body 28 = Some 0" "get_le16 ?body 32 = Some 0" by (simp_all add: get_le_def numeral_eq_Suc)
    then show ?thesis unfolding parseRequestContexts_def by (simp add: Let_def)
  qed
  have hr: "handleNegotiateResult demoNegotiate = Some (Some \<lparr>nrDialect = dialect311, nrCipher = cipherAESGCM,
      nrPreauthHash = hashSHA512, nrServerSalt = [], nrClientPreauthCtx = None\<rparr>)"
    by (simp add: handleNegotiateResult_def p sel rc)
  from negotiation_agrees [OF _ _ hn] show ?thesis using hn by (auto simp: p hr split: if_splits)
qed

end
