(* ===== verification/Smb_Session.thy ===== *)
theory Smb_Session
  imports Spoolss Spnego Smb_Negotiate Ntlm
begin

text \<open>
  Sessions (\<^verbatim>\<open>smb_session.go\<close>): the state of a connection, the two legs of the NTLM login, the derived
  keys. The server's random challenge, the library's HMAC and SHA-512 and \<^verbatim>\<open>strings.ToUpper\<close> are
  arguments.
\<close>

subsection \<open>State\<close>

record smb_user =
  suUser :: bytes
  suPassword :: bytes
  suDomain :: bytes

record smb_conf =
  smbShareName :: bytes
  smbRequireAuth :: bool
  smbSignConf :: bool
  smbEncryptConf :: bool
  smbUsers :: "smb_user list"

text \<open>An open file: either the spooler pipe with its transport and document state, or a spool file of
  the print share.\<close>

record pipeHandle =
  phFileID :: bytes
  phBackend :: "(dcerpc \<times> spoolssJob) option"
  phReadBuf :: bytes
  phPrintSpool :: bool
  phDocName :: bytes
  phSpoolBuf :: bytes

record smbSession =
  sessionID :: u64
  sDialect :: u16
  sCipher :: u16
  sUser :: bytes
  sDomain :: bytes
  guest :: bool
  sessionKey :: bytes
  signingKey :: bytes
  c2sKey :: bytes
  s2cKey :: bytes
  preauth :: bytes
  serverChallenge :: bytes
  authComplete :: bool
  signingRequired :: bool
  encryptData :: bool
  trees :: "u32 \<rightharpoonup> bytes"
  printTrees :: "u32 \<Rightarrow> bool"
  nextTreeID :: u32
  handles :: "bytes \<rightharpoonup> pipeHandle"
  sRemoteAddr :: bytes

text \<open>The identifier is the first non-zero random value, or 1 where the generator fails.\<close>

definition newSMBSession :: "u64 \<Rightarrow> smbSession" where
  "newSMBSession sid =
     \<lparr>sessionID = sid, sDialect = 0, sCipher = 0, sUser = [], sDomain = [], guest = False, sessionKey = [],
      signingKey = [], c2sKey = [], s2cKey = [], preauth = replicate 64 0, serverChallenge = [],
      authComplete = False, signingRequired = False, encryptData = False, trees = Map.empty,
      printTrees = (\<lambda>_. False), nextTreeID = 0, handles = Map.empty, sRemoteAddr = []\<rparr>"

subsection \<open>Keys\<close>

text \<open>The loop of \<^verbatim>\<open>smbKDF\<close>: a block is appended while the output is short. Each block of a digest has
  at least one byte, so as many rounds as there are bytes wanted suffice.\<close>

primrec kdfBlocks :: "crypto \<Rightarrow> bytes \<Rightarrow> bytes \<Rightarrow> bytes \<Rightarrow> nat \<Rightarrow> nat \<Rightarrow> u32 \<Rightarrow> bytes \<Rightarrow> bytes" where
  "kdfBlocks cr ki label ctx lbits 0 i out = out"
| "kdfBlocks cr ki label ctx lbits (Suc fuel) i out =
     (if length out < lbits div 8 then
        kdfBlocks cr ki label ctx lbits fuel (i + 1)
          (out @ hmacSum cr SHA256 ki (be32 i @ label @ [0x00] @ ctx @ be32 (of_nat lbits)))
      else out)"

definition smbKDF :: "crypto \<Rightarrow> bytes \<Rightarrow> bytes \<Rightarrow> bytes \<Rightarrow> nat \<Rightarrow> bytes option" where
  "smbKDF cr ki label ctx lbits = gslice (kdfBlocks cr ki label ctx lbits (lbits div 8) 1 []) 0 (lbits div 8)"

definition updatePreauth :: "crypto \<Rightarrow> smbSession \<Rightarrow> bytes \<Rightarrow> smbSession" where
  "updatePreauth cr s msg = s\<lparr>preauth := hashSum cr SHA512 (preauth s @ msg)\<rparr>"

definition deriveSessionKeys :: "crypto \<Rightarrow> smbSession \<Rightarrow> bytes \<Rightarrow> smbSession option" where
  "deriveSessionKeys cr s sbk = do {
     k1 \<leftarrow> smbKDF cr sbk (str ''SMBSigningKey'' @ [0]) (preauth s) 128;
     k2 \<leftarrow> smbKDF cr sbk (str ''SMBC2SCipherKey'' @ [0]) (preauth s) 128;
     k3 \<leftarrow> smbKDF cr sbk (str ''SMBS2CCipherKey'' @ [0]) (preauth s) 128;
     Some (s\<lparr>signingKey := k1, c2sKey := k2, s2cKey := k3\<rparr>)
   }"

subsection \<open>Messages\<close>

definition extractNTLM :: "bytes \<Rightarrow> bytes option" where
  "extractNTLM secBuf = map_option (\<lambda>i. drop i secBuf) (bytesIndex secBuf ntlmSignature)"

definition parseSessionSetupSecBuf :: "bytes \<Rightarrow> bytes option option" where
  "parseSessionSetupSecBuf reqMsg =
     (if length reqMsg < smb2HeaderSize + 25 then Some None
      else do {
        body \<leftarrow> slice_from reqMsg smb2HeaderSize;
        sz \<leftarrow> get_le16 body 0;
        if sz \<noteq> 25 then Some None
        else do {
          secOff \<leftarrow> get_le16 body 12;
          secLen \<leftarrow> get_le16 body 14;
          let start = unat secOff;
          let end' = start + unat secLen;
          if start < smb2HeaderSize \<or> end' < start \<or> end' > length reqMsg then Some None
          else do { b \<leftarrow> gslice reqMsg start end'; Some (Some b) }
        }
      })"

definition buildSessionSetupResponse :: "smb2Header \<Rightarrow> u64 \<Rightarrow> u32 \<Rightarrow> u16 \<Rightarrow> bytes \<Rightarrow> bytes" where
  "buildSessionSetupResponse reqHdr sid st sessionFlags secBuf =
     encodeHeader (zeroHeader\<lparr>hStatus := st, hCommand := smb2SessionSetup, hCreditResp := 1,
        hFlags := hFlags reqHdr OR smb2FlagsServerToRedir, hMessageId := hMessageId reqHdr,
        hTreeId := hTreeId reqHdr, hSessionId := sid\<rparr>)
     @ le16 9 @ le16 sessionFlags @ le16 (of_nat (smb2HeaderSize + 8)) @ le16 (of_nat (length secBuf)) @ secBuf"

text \<open>\<open>Some []\<close> also where the message is malformed.\<close>

definition sessionSecBuf :: "bytes \<Rightarrow> bytes option" where
  "sessionSecBuf respMsg =
     (if length respMsg < smb2HeaderSize + 8 then Some []
      else do {
        body \<leftarrow> slice_from respMsg smb2HeaderSize;
        sz \<leftarrow> get_le16 body 0;
        if sz \<noteq> 9 then Some []
        else do {
          secOff \<leftarrow> get_le16 body 4;
          secLen \<leftarrow> get_le16 body 6;
          let start = unat secOff;
          let end' = start + unat secLen;
          if start < smb2HeaderSize \<or> end' < start \<or> end' > length respMsg then Some []
          else gslice respMsg start end'
        }
      })"

definition buildSessionSetupRequest :: "u64 \<Rightarrow> bytes \<Rightarrow> bytes" where
  "buildSessionSetupRequest sid ntlmToken =
     encodeHeader (zeroHeader\<lparr>hCommand := smb2SessionSetup, hSessionId := sid\<rparr>)
     @ le16 25 @ replicate 10 0 @ le16 (of_nat (smb2HeaderSize + 24)) @ le16 (of_nat (length ntlmToken))
     @ replicate 8 0 @ ntlmToken"

definition ntlmMessageType :: "bytes \<Rightarrow> u32 option option" where
  "ntlmMessageType msg =
     (if length msg < 12 then Some None
      else do {
        sg \<leftarrow> gslice msg 0 8;
        if sg \<noteq> ntlmSignature then Some None
        else do { t \<leftarrow> get_le32 msg 8; Some (Some t) }
      })"

abbreviation "ntlmTypeNegotiate \<equiv> (1 :: u32)"
abbreviation "ntlmTypeAuthenticate \<equiv> (3 :: u32)"
abbreviation "smb2SessionFlagIsGuest \<equiv> (0x0001 :: u16)"

subsection \<open>The login\<close>

definition matchSMBUser :: "smb_conf \<Rightarrow> bytes \<Rightarrow> smb_user option" where
  "matchSMBUser cfg user = find (\<lambda>u. equalFold (suUser u) user) (smbUsers cfg)"

definition smbDomainHint :: "smb_conf \<Rightarrow> bytes" where
  "smbDomainHint cfg =
     (case find (\<lambda>u. suDomain u \<noteq> []) (smbUsers cfg) of
        Some u \<Rightarrow> suDomain u
      | None \<Rightarrow> str ''WORKGROUP'')"

text \<open>The results of a leg: the session, the response, the status, and whether the login is complete.\<close>

type_synonym leg_result = "smbSession \<times> bytes \<times> u32 \<times> bool"

definition denyLogin :: "smbSession \<Rightarrow> smb2Header \<Rightarrow> leg_result" where
  "denyLogin s reqHdr =
     (s, buildSessionSetupResponse reqHdr (sessionID s) statusAccessDenied 0 [], statusAccessDenied, False)"

definition handleSessionSetupLeg1 :: "smb_conf \<Rightarrow> bytes \<Rightarrow> smbSession \<Rightarrow> smb2Header \<Rightarrow> leg_result" where
  "handleSessionSetupLeg1 cfg challenge s reqHdr =
     (let targetInfo = ntlmTargetInfo (smbDomainHint cfg) (str ''PRINTCAP'');
          secToken = spnegoWrapResponse AcceptIncomplete (buildChallenge challenge targetInfo)
      in (s\<lparr>serverChallenge := challenge\<rparr>,
          buildSessionSetupResponse reqHdr (sessionID s) statusMoreProcessingRequired 0 secToken,
          statusMoreProcessingRequired, False))"

definition finishGuestSession :: "crypto \<Rightarrow> smbSession \<Rightarrow> smb2Header \<Rightarrow> leg_result option" where
  "finishGuestSession cr s reqHdr = do {
     let sbk = replicate 16 0;
     s1 \<leftarrow> deriveSessionKeys cr (s\<lparr>guest := True, sessionKey := sbk\<rparr>) sbk;
     Some (s1\<lparr>authComplete := True, signingRequired := False\<rparr>,
       buildSessionSetupResponse reqHdr (sessionID s) statusSuccess smb2SessionFlagIsGuest (spnegoWrapResponse AcceptCompleted []),
       statusSuccess, True)
   }"

definition handleSessionSetupLeg2 ::
  "crypto \<Rightarrow> (bytes \<Rightarrow> bytes) \<Rightarrow> smb_conf \<Rightarrow> smbSession \<Rightarrow> smb2Header \<Rightarrow> bytes \<Rightarrow> leg_result option" where
  "handleSessionSetupLeg2 cr up cfg s reqHdr ntlmMsg = do {
     a \<leftarrow> parseAuthenticate ntlmMsg;
     case a of
       None \<Rightarrow> if \<not> smbRequireAuth cfg then finishGuestSession cr s reqHdr else Some (denyLogin s reqHdr)
     | Some (domain, user, _) \<Rightarrow> do {
         v \<leftarrow> (case matchSMBUser cfg user of
                 None \<Rightarrow> Some None
               | Some u \<Rightarrow> verifyNTLMv2 cr up (suUser u) (suPassword u) (suDomain u) (serverChallenge s) ntlmMsg);
         case v of
           None \<Rightarrow> if \<not> smbRequireAuth cfg then finishGuestSession cr s reqHdr else Some (denyLogin s reqHdr)
         | Some sbk \<Rightarrow> do {
             s1 \<leftarrow> deriveSessionKeys cr (s\<lparr>sUser := user, sDomain := domain, sessionKey := sbk\<rparr>) sbk;
             Some (s1\<lparr>authComplete := True, signingRequired := smbSignConf cfg, encryptData := smbEncryptConf cfg\<rparr>,
               buildSessionSetupResponse reqHdr (sessionID s) statusSuccess 0 (spnegoWrapResponse AcceptCompleted []),
               statusSuccess, True)
           }
       }
   }"

definition handleSessionSetup ::
  "crypto \<Rightarrow> (bytes \<Rightarrow> bytes) \<Rightarrow> smb_conf \<Rightarrow> bytes \<Rightarrow> smbSession \<Rightarrow> bytes \<Rightarrow> leg_result option" where
  "handleSessionSetup cr up cfg challenge s reqMsg = do {
     h \<leftarrow> parseSMB2Header reqMsg;
     case h of
       None \<Rightarrow> Some (denyLogin s zeroHeader)
     | Some reqHdr \<Rightarrow>
         if hCommand reqHdr \<noteq> smb2SessionSetup then Some (denyLogin s reqHdr)
         else do {
           sb \<leftarrow> parseSessionSetupSecBuf reqMsg;
           case sb of
             None \<Rightarrow> Some (denyLogin s reqHdr)
           | Some secBuf \<Rightarrow>
               (case extractNTLM secBuf of
                  None \<Rightarrow> Some (denyLogin s reqHdr)
                | Some ntlmMsg \<Rightarrow> do {
                    mt \<leftarrow> ntlmMessageType ntlmMsg;
                    case mt of
                      None \<Rightarrow> Some (denyLogin s reqHdr)
                    | Some t \<Rightarrow>
                        if t = ntlmTypeNegotiate then Some (handleSessionSetupLeg1 cfg challenge s reqHdr)
                        else if t = ntlmTypeAuthenticate then handleSessionSetupLeg2 cr up cfg s reqHdr ntlmMsg
                        else Some (denyLogin s reqHdr)
                  })
         }
   }"

section \<open>Correctness\<close>

subsection \<open>Key derivation\<close>

lemma kdfBlocks_done: "lbits div 8 \<le> length out \<Longrightarrow> kdfBlocks cr ki label ctx lbits fuel i out = out"
  by (cases fuel) simp_all

text \<open>A 128-bit key is the first half of a single block.\<close>

lemma smbKDF_128:
  assumes "digest_lengths cr"
  shows "smbKDF cr ki label ctx 128
    = Some (take 16 (hmacSum cr SHA256 ki (be32 1 @ label @ [0x00] @ ctx @ be32 128)))"
proof -
  let ?b = "hmacSum cr SHA256 ki (be32 1 @ label @ [0x00] @ ctx @ be32 128)"
  have l: "length ?b = 32" using assms by (simp add: digest_lengths_def)
  have "kdfBlocks cr ki label ctx 128 (Suc 15) 1 [] = kdfBlocks cr ki label ctx 128 15 2 ?b"
    by (simp only: kdfBlocks.simps) (use assms in \<open>simp add: digest_lengths_def\<close>)
  then have "kdfBlocks cr ki label ctx 128 (128 div 8) 1 [] = kdfBlocks cr ki label ctx 128 15 2 ?b" by simp
  also have "\<dots> = ?b" by (rule kdfBlocks_done) (unfold l, simp)
  finally have k: "kdfBlocks cr ki label ctx 128 (128 div 8) 1 [] = ?b" .
  show ?thesis unfolding smbKDF_def k gslice_def l by simp
qed

text \<open>The key of a label, as a client computes it from the session key and its own preauth hash.\<close>

definition keyFor :: "crypto \<Rightarrow> bytes \<Rightarrow> string \<Rightarrow> bytes \<Rightarrow> bytes" where
  "keyFor cr sbk label ctx = take 16 (hmacSum cr SHA256 sbk (be32 1 @ (str label @ [0]) @ [0x00] @ ctx @ be32 128))"

lemma length_keyFor: "digest_lengths cr \<Longrightarrow> length (keyFor cr sbk l ctx) = 16"
  by (simp add: keyFor_def digest_lengths_def)

lemma deriveSessionKeys_keys:
  "digest_lengths cr \<Longrightarrow> deriveSessionKeys cr s sbk = Some (s\<lparr>signingKey := keyFor cr sbk ''SMBSigningKey'' (preauth s),
     c2sKey := keyFor cr sbk ''SMBC2SCipherKey'' (preauth s), s2cKey := keyFor cr sbk ''SMBS2CCipherKey'' (preauth s)\<rparr>)"
  by (simp add: deriveSessionKeys_def smbKDF_128 keyFor_def)

subsection \<open>No request makes the login panic\<close>

lemma parseSessionSetupSecBuf_returns [no_panic]: "parseSessionSetupSecBuf m \<noteq> None"
  unfolding parseSessionSetupSecBuf_def Let_def by (intro no_panic) (auto simp: slice_from_def split: if_splits)

lemma sessionSecBuf_returns [no_panic]: "sessionSecBuf m \<noteq> None"
  unfolding sessionSecBuf_def Let_def by (intro no_panic) (auto simp: slice_from_def split: if_splits)

lemma ntlmMessageType_returns [no_panic]: "ntlmMessageType m \<noteq> None"
  unfolding ntlmMessageType_def by (intro no_panic) auto

lemma deriveSessionKeys_returns [no_panic]: "digest_lengths cr \<Longrightarrow> deriveSessionKeys cr s sbk \<noteq> None"
  by (simp add: deriveSessionKeys_keys)

lemma finishGuestSession_returns [no_panic]: "digest_lengths cr \<Longrightarrow> finishGuestSession cr s h \<noteq> None"
  unfolding finishGuestSession_def Let_def by (intro no_panic)

lemma handleSessionSetupLeg2_returns [no_panic]: "digest_lengths cr \<Longrightarrow> handleSessionSetupLeg2 cr up cfg s h m \<noteq> None"
  unfolding handleSessionSetupLeg2_def by (intro no_panic)

lemma handleSessionSetup_returns [no_panic]: "digest_lengths cr \<Longrightarrow> handleSessionSetup cr up cfg ch s m \<noteq> None"
  unfolding handleSessionSetup_def by (intro no_panic)

subsection \<open>Security buffers\<close>

lemma parse_request:
  "parseSMB2Header (buildSessionSetupRequest sid tok)
    = Some (Some (zeroHeader\<lparr>hCommand := smb2SessionSetup, hSessionId := sid\<rparr>))"
  unfolding buildSessionSetupRequest_def by (rule header_roundtrip') (simp add: wfHeader_def zeroHeader_def)

text \<open>A security buffer that ends the message, found through its offset and length.\<close>

lemma parseSessionSetupSecBuf_at:
  assumes "length hd' = 64" "get_le16 b 0 = Some 25" "get_le16 b 12 = Some 88" "get_le16 b 14 = Some n"
    and "length b = 24 + unat n" "0 < n" "drop 24 b = tok"
  shows "parseSessionSetupSecBuf (hd' @ b) = Some (Some tok)"
proof -
  have "0 < unat n" using assms(6) by (simp add: unat_gt_0 word_gt_0)
  then show ?thesis
    using assms by (auto simp: parseSessionSetupSecBuf_def slice_from_def Let_def gslice_def)
qed

lemma sessionSecBuf_at:
  assumes "length hd' = 64" "get_le16 b 0 = Some 9" "get_le16 b 4 = Some 72" "get_le16 b 6 = Some n"
    and "length b = 8 + unat n" "drop 8 b = tok"
  shows "sessionSecBuf (hd' @ b) = Some tok"
  using assms by (auto simp: sessionSecBuf_def slice_from_def Let_def gslice_def)

lemma request_secBuf:
  assumes "0 < length tok" "length tok < 2 ^ 16"
  shows "parseSessionSetupSecBuf (buildSessionSetupRequest sid tok) = Some (Some tok)"
proof -
  have u: "unat (of_nat (length tok) :: u16) = length tok" using assms(2) by (simp add: unat_of_nat)
  then have "0 < (of_nat (length tok) :: u16)" using assms(1) by (simp add: word_less_nat_alt)
  then show ?thesis unfolding buildSessionSetupRequest_def using u
    by (intro parseSessionSetupSecBuf_at [where n = "of_nat (length tok)"]) (simp_all add: layout wfHeader_def zeroHeader_def)
qed

lemma response_secBuf:
  assumes "length tok < 2 ^ 16"
  shows "sessionSecBuf (buildSessionSetupResponse h sid st fl tok) = Some tok"
  unfolding buildSessionSetupResponse_def using assms
  by (intro sessionSecBuf_at [where n = "of_nat (length tok)"]) (simp_all add: layout unat_of_nat)

subsection \<open>Finding the token in the reply\<close>

text \<open>No byte that frames the token begins the signature, so the scan does not stop early.\<close>

abbreviation "sigFree a \<equiv> \<not> bytesContains a ntlmSignature"

lemma sigFree_skip:
  assumes "x \<noteq> 0x4E" shows "bytesContains (x # a) ntlmSignature = bytesContains a ntlmSignature"
  using assms by (simp add: bytesContains_def bytesIndex_Cons ntlmSignature_def str_def)

lemma sigFree_length:
  assumes "y \<noteq> 0x54" "y \<noteq> 0x4C"
  shows "bytesContains (derLen n @ y # a) ntlmSignature = bytesContains (y # a) ntlmSignature"
  using assms by (auto simp: derLen_def bytesContains_def bytesIndex_Cons ntlmSignature_def str_def)

lemma sigFree_end: "sigFree (derLen n)"
  by (auto simp: derLen_def bytesContains_def bytesIndex_Cons bytesIndex_Nil ntlmSignature_def str_def)

lemma signature_unbordered: "unbordered ntlmSignature"
  by (simp add: unbordered_def ntlmSignature_def str_def)

lemma extractNTLM_after:
  assumes "sigFree a"
  shows "extractNTLM (a @ ntlmSignature @ rest) = Some (ntlmSignature @ rest)"
proof -
  have "bytesIndex (a @ ntlmSignature @ rest) ntlmSignature = Some (length a)"
    by (rule bytesIndex_first) (use unbordered_no_overlap [OF signature_unbordered assms] in blast)
  then show ?thesis by (simp add: extractNTLM_def)
qed

lemma extractNTLM_raw: "extractNTLM (ntlmSignature @ rest) = Some (ntlmSignature @ rest)"
  using extractNTLM_after [of "[]"] by (simp add: bytesContains_def bytesIndex_Nil ntlmSignature_def)

lemma extractNTLM_wrapped:
  assumes "tok = ntlmSignature @ rest"
  shows "extractNTLM (spnegoWrapResponse st tok) = Some tok"
proof -
  let ?n = "derTLV 0xA0 (derTLV 0x0A [spnegoStateByte st])"
  let ?i = "?n @ derTLV 0xA1 ntlmspMechOID @ derTLV 0xA2 (derTLV 0x04 tok)"
  define l1 where "l1 = length (derTLV 0x30 ?i)"
  define l2 where "l2 = length ?i"
  define l3 where "l3 = length (derTLV 0x04 tok)"
  define l4 where "l4 = length tok"
  let ?a = "0xA1 # derLen l1 @ 0x30 # derLen l2 @ ?n @ derTLV 0xA1 ntlmspMechOID @ 0xA2 # derLen l3 @ 0x04 # derLen l4"
  have n: "?n = [0xA0, 0x03, 0x0A, 0x01, spnegoStateByte st]" by (simp add: derTLV_def derLen_def)
  have o': "derTLV 0xA1 ntlmspMechOID =
      [0xA1, 0x0C, 0x06, 0x0A, 0x2B, 0x06, 0x01, 0x04, 0x01, 0x82, 0x37, 0x02, 0x02, 0x0A]" by (simp add: derTLV_def derLen_def ntlmspMechOID_def)
  have t1: "derTLV 0xA1 (derTLV 0x30 ?i) = 0xA1 # derLen l1 @ derTLV 0x30 ?i" unfolding l1_def by (rule derTLV_def)
  have t2: "derTLV 0x30 ?i = 0x30 # derLen l2 @ ?i" unfolding l2_def by (rule derTLV_def)
  have t3: "derTLV 0xA2 (derTLV 0x04 tok) = 0xA2 # derLen l3 @ derTLV 0x04 tok" unfolding l3_def by (rule derTLV_def)
  have t4: "derTLV 0x04 tok = 0x04 # derLen l4 @ tok" unfolding l4_def by (rule derTLV_def)
  have len: "0 < length tok" using assms by (simp add: ntlmSignature_def)
  have "spnegoWrapResponse st tok = derTLV 0xA1 (derTLV 0x30 ?i)" using len by (simp add: spnegoWrapResponse_def Let_def)
  then have w: "spnegoWrapResponse st tok = ?a @ tok"
    unfolding t1 unfolding t2 unfolding t3 unfolding t4 by simp
  have st: "spnegoStateByte st \<noteq> 0x4E" by (cases st) simp_all
  have "sigFree ?a"
    unfolding n o' using st by (simp add: sigFree_skip sigFree_length sigFree_end)
  from extractNTLM_after [OF this, of rest] show ?thesis unfolding w unfolding assms .
qed

subsection \<open>The two legs\<close>

lemma buildChallenge_fields:
  "length (buildChallenge sc ti) = 48 + length ti"
  "take 8 (buildChallenge sc ti) = ntlmSignature"
  "take 4 (drop 8 (buildChallenge sc ti)) = le32 2"
  "length sc = 8 \<Longrightarrow> take 8 (drop 24 (buildChallenge sc ti)) = sc"
proof -
  have s: "length ntlmSignature = 8" by (simp add: ntlmSignature_def)
  note puts = take_drop_put_below take_drop_put_same take_drop_put_above
  show "length (buildChallenge sc ti) = 48 + length ti" by (simp add: buildChallenge_def Let_def s)
  have below: "take n (put b i xs) = take n b" if "n \<le> i" "i + length xs \<le> length b" for n i and xs b :: bytes
    using take_drop_put_below [of i xs b 0 n] that by simp
  have at0: "take n (put b 0 xs) = xs" if "n = length xs" "length xs \<le> length b" for n and xs b :: bytes
    using take_drop_put_same [of 0 xs b n] that by simp
  show "take 8 (buildChallenge sc ti) = ntlmSignature"
    unfolding buildChallenge_def Let_def by (simp add: below at0 s)
  show "take 4 (drop 8 (buildChallenge sc ti)) = le32 2"
    unfolding buildChallenge_def Let_def by (simp add: puts s)
  show "take 8 (drop 24 (buildChallenge sc ti)) = sc" if "length sc = 8"
    unfolding buildChallenge_def Let_def using that by (simp add: puts s)
qed

lemma buildChallenge_signed: "\<exists>rest. buildChallenge sc ti = ntlmSignature @ rest"
  using buildChallenge_fields(2) [of sc ti] by (metis append_take_drop_id)

text \<open>A first leg: whatever the session held, the client is sent a challenge it can find in the reply.\<close>

lemma first_leg:
  assumes "length challenge = 8" "length (ntlmTargetInfo (smbDomainHint cfg) (str ''PRINTCAP'')) \<le> 60000"
    and "tok = ntlmSignature @ le32 1 @ rest" "length tok < 2 ^ 16"
  shows "\<exists>resp sb chal. handleSessionSetup cr up cfg challenge s (buildSessionSetupRequest sid tok)
      = Some (s\<lparr>serverChallenge := challenge\<rparr>, resp, statusMoreProcessingRequired, False)
    \<and> sessionSecBuf resp = Some sb \<and> extractNTLM sb = Some chal \<and> take 8 (drop 24 chal) = challenge
    \<and> (\<exists>h i st fl tk. resp = buildSessionSetupResponse h i st fl tk \<and> length tk < 2 ^ 16)"
proof -
  let ?chal = "buildChallenge challenge (ntlmTargetInfo (smbDomainHint cfg) (str ''PRINTCAP''))"
  let ?h = "zeroHeader\<lparr>hCommand := smb2SessionSetup, hSessionId := sid\<rparr>"
  have l: "length ?chal \<le> 60048" using assms(2) by (simp add: buildChallenge_fields)
  obtain r where r: "?chal = ntlmSignature @ r" using buildChallenge_signed by blast
  have ls: "length (spnegoWrapResponse AcceptIncomplete ?chal) < 2 ^ 16"
  proof -
    let ?n = "derTLV 0xA0 (derTLV 0x0A [spnegoStateByte AcceptIncomplete])"
    let ?i = "?n @ derTLV 0xA1 ntlmspMechOID @ derTLV 0xA2 (derTLV 0x04 ?chal)"
    have "length ?n = 5" "length (derTLV 0xA1 ntlmspMechOID) = 14" by (simp_all add: derTLV_def derLen_def ntlmspMechOID_def)
    moreover have "length (derTLV 0xA2 (derTLV 0x04 ?chal)) \<le> 60056"
      using length_derTLV [of "0xA2" "derTLV 0x04 ?chal"] length_derTLV [of "0x04" ?chal] l by linarith
    ultimately have "length ?i \<le> 60075" by simp
    then have "length (derTLV 0xA1 (derTLV 0x30 ?i)) \<le> 60083"
      using length_derTLV [of "0xA1" "derTLV 0x30 ?i"] length_derTLV [of "0x30" ?i] by linarith
    moreover have "0 < length ?chal" by (simp add: buildChallenge_fields)
    ultimately show ?thesis by (simp add: spnegoWrapResponse_def Let_def)
  qed
  have t: "ntlmMessageType tok = Some (Some 1)"
    using assms(3) by (simp add: ntlmMessageType_def ntlmSignature_def gslice_def get_le_def)
  have "0 < length tok" using assms(3) by (simp add: ntlmSignature_def)
  note sb = request_secBuf [OF this assms(4), of sid]
  have x: "extractNTLM tok = Some tok" using extractNTLM_raw assms(3) by simp
  have "handleSessionSetup cr up cfg challenge s (buildSessionSetupRequest sid tok) = Some (handleSessionSetupLeg1 cfg challenge s ?h)"
    unfolding handleSessionSetup_def by (simp add: parse_request sb x t)
  moreover have "sessionSecBuf (buildSessionSetupResponse ?h (sessionID s) statusMoreProcessingRequired 0
      (spnegoWrapResponse AcceptIncomplete ?chal)) = Some (spnegoWrapResponse AcceptIncomplete ?chal)"
    by (rule response_secBuf [OF ls])
  ultimately show ?thesis
    using extractNTLM_wrapped [OF r, of AcceptIncomplete] buildChallenge_fields(4) [OF assms(1)] ls
    by (simp add: handleSessionSetupLeg1_def Let_def) blast
qed

text \<open>A second leg by a client that knows the password: the login succeeds under the name given, and both
  sides hold the same session key and the same signing key.\<close>

lemma second_leg:
  assumes "digest_lengths cr" "matchSMBUser cfg user = Some acct" "validText d" "validText user"
    and "80 + length temp + length (utf16le d) + length (utf16le user) < 2 ^ 16"
    and "ntlmv2Response cr (ntowfv2 cr up (suUser acct) (suDomain acct) (suPassword acct)) (serverChallenge s) temp = (pr, key)"
  shows "\<exists>resp s'. handleSessionSetup cr up cfg ch s (buildSessionSetupRequest sid (buildAuthenticate d user (pr @ temp)))
      = Some (s', resp, statusSuccess, True)
    \<and> s' = s\<lparr>sUser := user, sDomain := d, sessionKey := key, signingKey := keyFor cr key ''SMBSigningKey'' (preauth s),
        c2sKey := keyFor cr key ''SMBC2SCipherKey'' (preauth s), s2cKey := keyFor cr key ''SMBS2CCipherKey'' (preauth s),
        authComplete := True, signingRequired := smbSignConf cfg, encryptData := smbEncryptConf cfg\<rparr>
    \<and> (\<exists>h i st fl tk. resp = buildSessionSetupResponse h i st fl tk \<and> length tk < 2 ^ 16)"
proof -
  let ?tok = "buildAuthenticate d user (pr @ temp)"
  have lp: "length pr = 16" using assms(1,6) by (auto simp: ntlmv2Response_def Let_def digest_lengths_def)
  have lens: "length (utf16le d) < 2 ^ 16" "length (utf16le user) < 2 ^ 16" "length (pr @ temp) < 2 ^ 16" "16 + length temp < 2 ^ 16"
    using assms(5) lp by simp_all
  have lt: "length ?tok < 2 ^ 16" "0 < length ?tok" using assms(5) lp
    by (simp_all add: buildAuthenticate_parts ntlmSignature_def)
  note sb = request_secBuf [OF lt(2,1), of sid]
  obtain r where r: "?tok = ntlmSignature @ le32 3 @ r" by (simp add: buildAuthenticate_parts)
  have x: "extractNTLM ?tok = Some ?tok" unfolding r by (rule extractNTLM_raw)
  have t: "ntlmMessageType ?tok = Some (Some 3)"
    unfolding r by (simp add: ntlmMessageType_def ntlmSignature_def gslice_def get_le_def)
  note pa = authenticate_roundtrip' [OF assms(3,4) lens(1-3)]
  have v: "verifyNTLMv2 cr up (suUser acct) (suPassword acct) (suDomain acct) (serverChallenge s) ?tok = Some (Some key)"
    unfolding verify_parsed [OF pa lp] using assms(6) by (auto simp: ntlmv2Response_def Let_def)
  have "length (spnegoWrapResponse AcceptCompleted []) < 2 ^ 16"
    by (simp add: spnegoWrapResponse_def derTLV_def derLen_def Let_def)
  then show ?thesis unfolding handleSessionSetup_def handleSessionSetupLeg2_def
    by (simp add: parse_request sb x t pa assms(2) v deriveSessionKeys_keys [OF assms(1)]) blast
qed

subsection \<open>Authentication is required where it is configured\<close>

text \<open>What a login proves: a configured account whose password the message shows knowledge of, relative
  to the challenge the session holds.\<close>

definition provedBy :: "crypto \<Rightarrow> (bytes \<Rightarrow> bytes) \<Rightarrow> smb_conf \<Rightarrow> bytes \<Rightarrow> bytes \<Rightarrow> bool" where
  "provedBy cr up cfg sc msg \<longleftrightarrow>
     (\<exists>u\<in>set (smbUsers cfg). \<exists>key ntlmMsg. verifyNTLMv2 cr up (suUser u) (suPassword u) (suDomain u) sc ntlmMsg = Some (Some key)
        \<and> (\<exists>secBuf. parseSessionSetupSecBuf msg = Some (Some secBuf) \<and> extractNTLM secBuf = Some ntlmMsg))"

lemma login_needs_proof:
  assumes "handleSessionSetup cr up cfg ch s msg = Some (s', resp, st, done)"
    and "smbRequireAuth cfg" "authComplete s'" "\<not> authComplete s"
  shows "provedBy cr up cfg (serverChallenge s) msg"
proof -
  obtain h where h: "parseSMB2Header msg = Some (Some h)" "hCommand h = smb2SessionSetup"
    using assms by (auto simp: handleSessionSetup_def denyLogin_def split: option.splits if_splits bind_splits)
  obtain sb where sb: "parseSessionSetupSecBuf msg = Some (Some sb)"
    using assms h by (auto simp: handleSessionSetup_def denyLogin_def split: option.splits if_splits bind_splits)
  obtain m where m: "extractNTLM sb = Some m"
    using assms h sb by (auto simp: handleSessionSetup_def denyLogin_def split: option.splits if_splits bind_splits)
  have leg2: "handleSessionSetupLeg2 cr up cfg s h m = Some (s', resp, st, done)"
    using assms h sb m
    by (auto simp: handleSessionSetup_def denyLogin_def handleSessionSetupLeg1_def Let_def split: option.splits if_splits bind_splits)
  then obtain d u nt where a: "parseAuthenticate m = Some (Some (d, u, nt))"
    using assms by (auto simp: handleSessionSetupLeg2_def denyLogin_def split: option.splits if_splits bind_splits)
  obtain acct where acct: "matchSMBUser cfg u = Some acct"
    using leg2 a assms by (auto simp: handleSessionSetupLeg2_def denyLogin_def split: option.splits if_splits bind_splits)
  obtain key where "verifyNTLMv2 cr up (suUser acct) (suPassword acct) (suDomain acct) (serverChallenge s) m = Some (Some key)"
    using leg2 a acct assms by (auto simp: handleSessionSetupLeg2_def denyLogin_def split: option.splits if_splits bind_splits)
  moreover have "acct \<in> set (smbUsers cfg)" using acct by (auto simp: matchSMBUser_def find_Some_iff)
  ultimately show ?thesis using sb m by (auto simp: provedBy_def)
qed

lemma deriveSessionKeys_same:
  "deriveSessionKeys cr s sbk = Some s' \<Longrightarrow> \<exists>k1 k2 k3. s' = s\<lparr>signingKey := k1, c2sKey := k2, s2cKey := k3\<rparr>"
  by (auto simp: deriveSessionKeys_def split: bind_splits)

lemma handleSessionSetup_cases:
  assumes "handleSessionSetup cr up cfg ch s msg = Some (s', resp, st, cmpl)"
  shows "(authComplete s \<longrightarrow> authComplete s')
    \<and> (serverChallenge s' = serverChallenge s \<or> serverChallenge s' = ch)
    \<and> (\<not> authComplete s' \<longrightarrow> c2sKey s' = c2sKey s)
    \<and> sessionID s' = sessionID s \<and> sRemoteAddr s' = sRemoteAddr s \<and> handles s' = handles s"
proof -
  have g: "(authComplete s \<longrightarrow> authComplete s') \<and> (serverChallenge s' = serverChallenge s \<or> serverChallenge s' = ch)
      \<and> (\<not> authComplete s' \<longrightarrow> c2sKey s' = c2sKey s) \<and> sessionID s' = sessionID s \<and> sRemoteAddr s' = sRemoteAddr s \<and> handles s' = handles s"
    if "finishGuestSession cr s h = Some (s', resp, st, cmpl)" for h
    using that by (auto simp: finishGuestSession_def Let_def dest!: deriveSessionKeys_same split: bind_splits)
  have l: "(authComplete s \<longrightarrow> authComplete s') \<and> (serverChallenge s' = serverChallenge s \<or> serverChallenge s' = ch)
      \<and> (\<not> authComplete s' \<longrightarrow> c2sKey s' = c2sKey s) \<and> sessionID s' = sessionID s \<and> sRemoteAddr s' = sRemoteAddr s \<and> handles s' = handles s"
    if "handleSessionSetupLeg2 cr up cfg s h m = Some (s', resp, st, cmpl)" for h m
    using that g by (auto simp: handleSessionSetupLeg2_def denyLogin_def dest!: deriveSessionKeys_same split: bind_splits option.splits if_splits)
  show ?thesis
    using assms l by (auto simp: handleSessionSetup_def denyLogin_def handleSessionSetupLeg1_def Let_def split: bind_splits option.splits if_splits)
qed

end
