(* ===== verification/Smb_Tree.thy ===== *)
theory Smb_Tree
  imports Smb_Session
begin

text \<open>
  Shares and open files (\<^verbatim>\<open>smb_tree.go\<close>): TREE_CONNECT, CREATE, WRITE, READ, CLOSE, TREE_DISCONNECT,
  LOGOFF and FLUSH. A handler returns the session, the response, the status, whether it succeeded, and
  the jobs it handed to the sink; the outer option is a panic. The map from open files is keyed by
  the file identifier, where the code uses its hexadecimal form.
\<close>

abbreviation "statusObjectNameNotFound \<equiv> (0xC0000034 :: u32)"
abbreviation "statusInvalidParameter \<equiv> (0xC000000D :: u32)"
abbreviation "smb2ShareTypePipe \<equiv> (0x02 :: byte)"
abbreviation "smb2ShareTypePrint \<equiv> (0x03 :: byte)"
abbreviation "maximalAccessAllPipe \<equiv> (0x001F01FF :: u32)"

type_synonym reply = "smbSession \<times> bytes \<times> u32 \<times> bool \<times> job list"

definition replyHeader :: "smb2Header \<Rightarrow> u16 \<Rightarrow> u32 \<Rightarrow> u32 \<Rightarrow> smb2Header" where
  "replyHeader reqHdr command st tree =
     zeroHeader\<lparr>hStatus := st, hCommand := command, hCreditResp := 1,
       hFlags := hFlags reqHdr OR smb2FlagsServerToRedir, hMessageId := hMessageId reqHdr,
       hTreeId := tree, hSessionId := hSessionId reqHdr\<rparr>"

definition buildErrorResponse :: "smb2Header \<Rightarrow> u16 \<Rightarrow> u32 \<Rightarrow> bytes" where
  "buildErrorResponse reqHdr command st =
     encodeHeader (replyHeader reqHdr command st (hTreeId reqHdr)) @ le16 9 @ replicate 7 0"

definition buildSimpleAck :: "smb2Header \<Rightarrow> u16 \<Rightarrow> bytes" where
  "buildSimpleAck reqHdr command =
     encodeHeader (replyHeader reqHdr command statusSuccess (hTreeId reqHdr)) @ le16 4 @ le16 0"

definition refuse :: "smbSession \<Rightarrow> smb2Header \<Rightarrow> u16 \<Rightarrow> u32 \<Rightarrow> reply" where
  "refuse s reqHdr command st = (s, buildErrorResponse reqHdr command st, st, False, [])"

text \<open>The check every handler begins with: the header of the request, for its command.\<close>

definition requestFor :: "u16 \<Rightarrow> bytes \<Rightarrow> (smb2Header \<times> smb2Header option) option" where
  "requestFor command req = do {
     h \<leftarrow> parseSMB2Header req;
     Some (case h of
       None \<Rightarrow> (zeroHeader, None)
     | Some hdr \<Rightarrow> (hdr, if hCommand hdr = command then Some hdr else None))
   }"

text \<open>The fixed part of a request body: long enough, and of the structure size the command has.\<close>

definition requestBody :: "u16 \<Rightarrow> nat \<Rightarrow> bytes \<Rightarrow> bytes option option" where
  "requestBody sz need req =
     (if length req < smb2HeaderSize + need then Some None
      else do {
        body \<leftarrow> slice_from req smb2HeaderSize;
        v \<leftarrow> get_le16 body 0;
        Some (if v = sz then Some body else None)
      })"

text \<open>The bytes a pair of offset and length refers to, counted from the start of the message.\<close>

definition requestRange :: "bytes \<Rightarrow> nat \<Rightarrow> nat \<Rightarrow> bytes option option" where
  "requestRange req off len =
     (if off < smb2HeaderSize \<or> off + len < off \<or> off + len > length req then Some None
      else do { b \<leftarrow> gslice req off (off + len); Some (Some b) })"

subsection \<open>Shares\<close>

definition handleTreeConnect :: "smb_conf \<Rightarrow> smbSession \<Rightarrow> bytes \<Rightarrow> reply option" where
  "handleTreeConnect cfg s req = do {
     (reqHdr, h) \<leftarrow> requestFor smb2TreeConnect req;
     if h = None then Some (refuse s reqHdr smb2TreeConnect statusInvalidParameter)
     else do {
       mb \<leftarrow> requestBody 9 8 req;
       case mb of
         None \<Rightarrow> Some (refuse s reqHdr smb2TreeConnect statusInvalidParameter)
       | Some body \<Rightarrow> do {
           pathOff \<leftarrow> get_le16 body 4;
           pathLen \<leftarrow> get_le16 body 6;
           mp \<leftarrow> requestRange req (unat pathOff) (unat pathLen);
           case mp of
             None \<Rightarrow> Some (refuse s reqHdr smb2TreeConnect statusInvalidParameter)
           | Some rawPath \<Rightarrow>
               (let path = parseUTF16LE rawPath;
                    share = last (split1 0x5c path);
                    isPipe = equalFold share (str ''IPC$'');
                    isPrint = equalFold share (smbShareName cfg) in
                if \<not> isPipe \<and> \<not> isPrint then Some (refuse s reqHdr smb2TreeConnect statusObjectNameNotFound)
                else
                  (let treeID = (if nextTreeID s + 1 = 0 then 1 else nextTreeID s + 1);
                       s1 = s\<lparr>nextTreeID := treeID, trees := (trees s)(treeID \<mapsto> path)\<rparr>;
                       s2 = (if isPrint then s1\<lparr>printTrees := (printTrees s1)(treeID := True)\<rparr> else s1);
                       shareType = (if isPrint then smb2ShareTypePrint else smb2ShareTypePipe)
                   in Some (s2,
                        encodeHeader (replyHeader reqHdr smb2TreeConnect statusSuccess treeID)
                          @ le16 16 @ [shareType] @ replicate 9 0 @ le32 maximalAccessAllPipe,
                        statusSuccess, True, [])))
         }
     }
   }"

definition handleTreeDisconnect :: "smbSession \<Rightarrow> bytes \<Rightarrow> reply option" where
  "handleTreeDisconnect s req = do {
     (reqHdr, h) \<leftarrow> requestFor smb2TreeDisconnect req;
     if h = None then Some (refuse s reqHdr smb2TreeDisconnect statusInvalidParameter)
     else Some (s\<lparr>trees := (trees s)(hTreeId reqHdr := None), printTrees := (printTrees s)(hTreeId reqHdr := False)\<rparr>,
       buildSimpleAck reqHdr smb2TreeDisconnect, statusSuccess, True, [])
   }"

definition handleLogoff :: "smbSession \<Rightarrow> bytes \<Rightarrow> reply option" where
  "handleLogoff s req = do {
     (reqHdr, h) \<leftarrow> requestFor smb2Logoff req;
     if h = None then Some (refuse s reqHdr smb2Logoff statusInvalidParameter)
     else Some (s, buildSimpleAck reqHdr smb2Logoff, statusSuccess, True, [])
   }"

definition handleFlush :: "smbSession \<Rightarrow> bytes \<Rightarrow> reply option" where
  "handleFlush s req = do {
     (reqHdr, h) \<leftarrow> requestFor smb2Flush req;
     if h = None then Some (refuse s reqHdr smb2Flush statusInvalidParameter)
     else Some (s, buildSimpleAck reqHdr smb2Flush, statusSuccess, True, [])
   }"

subsection \<open>Files\<close>

text \<open>A file of the print share, and the spooler pipe.\<close>

definition newPrintFile :: "bytes \<Rightarrow> bytes \<Rightarrow> pipeHandle" where
  "newPrintFile fid name = \<lparr>phFileID = fid, phBackend = None, phReadBuf = [], phPrintSpool = True, phDocName = name, phSpoolBuf = []\<rparr>"

definition newPipe :: "bytes \<Rightarrow> pipeHandle" where
  "newPipe fid = \<lparr>phFileID = fid, phBackend = Some (newDcerpc, noDoc), phReadBuf = [], phPrintSpool = False, phDocName = [], phSpoolBuf = []\<rparr>"

definition handleCreate :: "bytes \<Rightarrow> smbSession \<Rightarrow> bytes \<Rightarrow> reply option" where
  "handleCreate fid s req = do {
     (reqHdr, h) \<leftarrow> requestFor smb2Create req;
     if h = None then Some (refuse s reqHdr smb2Create statusInvalidParameter)
     else do {
       mb \<leftarrow> requestBody 57 56 req;
       case mb of
         None \<Rightarrow> Some (refuse s reqHdr smb2Create statusInvalidParameter)
       | Some body \<Rightarrow> do {
           nameOff \<leftarrow> get_le16 body 44;
           nameLen \<leftarrow> get_le16 body 46;
           mn \<leftarrow> (if nameLen > 0 then requestRange req (unat nameOff) (unat nameLen) else Some (Some []));
           case mn of
             None \<Rightarrow> Some (refuse s reqHdr smb2Create statusInvalidParameter)
           | Some rawName \<Rightarrow>
               (let name = trimPrefix (parseUTF16LE rawName) [0x5c];
                    isPrintTree = printTrees s (hTreeId reqHdr) in
                if \<not> isPrintTree \<and> \<not> equalFold name (str ''spoolss'') then
                  Some (refuse s reqHdr smb2Create statusAccessDenied)
                else
                  Some (s\<lparr>handles := (handles s)(fid \<mapsto> if isPrintTree then newPrintFile fid name else newPipe fid)\<rparr>,
                    encodeHeader (replyHeader reqHdr smb2Create statusSuccess (hTreeId reqHdr))
                      @ le16 89 @ [0, 0] @ le32 1 @ replicate 56 0 @ fid @ replicate 8 0,
                    statusSuccess, True, []))
         }
     }
   }"

definition lookupHandle :: "smbSession \<Rightarrow> bytes \<Rightarrow> nat \<Rightarrow> pipeHandle option option" where
  "lookupHandle s body fidOff =
     (if fidOff + 16 > length body then Some None
      else do { fid \<leftarrow> gslice body fidOff (fidOff + 16); Some (handles s fid) })"

text \<open>What a write does to an open file, and the jobs it completes: the spool file grows up to the job
  cap; the pipe consumes a message and keeps the answer for the next read.\<close>

definition writeFile :: "nat \<Rightarrow> bytes \<Rightarrow> pipeHandle \<Rightarrow> bytes \<Rightarrow> (pipeHandle \<times> job list) option" where
  "writeFile cap remote h d =
     (if phPrintSpool h then Some (h\<lparr>phSpoolBuf := appendCapped (phSpoolBuf h) d (int cap)\<rparr>, [])
      else case phBackend h of
        None \<Rightarrow> Some (h, [])
      | Some (rpc, sj) \<Rightarrow> do {
          ((rpc', (sj', jobs)), out) \<leftarrow> onWrite (Some (realSpoolssDispatcher cap remote)) (rpc, (sj, [])) d;
          Some (h\<lparr>phBackend := Some (rpc', sj'), phReadBuf := phReadBuf h @ (case out of None \<Rightarrow> [] | Some r \<Rightarrow> r)\<rparr>, jobs)
        })"

definition handleWrite :: "nat \<Rightarrow> smbSession \<Rightarrow> bytes \<Rightarrow> reply option" where
  "handleWrite cap s req = do {
     (reqHdr, hh) \<leftarrow> requestFor smb2Write req;
     if hh = None then Some (refuse s reqHdr smb2Write statusInvalidParameter)
     else do {
       mb \<leftarrow> requestBody 49 48 req;
       case mb of
         None \<Rightarrow> Some (refuse s reqHdr smb2Write statusInvalidParameter)
       | Some body \<Rightarrow> do {
           dataOff \<leftarrow> get_le16 body 2;
           dataLen \<leftarrow> get_le32 body 4;
           if unat dataOff < smb2HeaderSize \<or> unat dataOff + unat dataLen < unat dataOff
              \<or> unat dataOff + unat dataLen > length req then
             Some (refuse s reqHdr smb2Write statusInvalidParameter)
           else do {
             mh \<leftarrow> lookupHandle s body 16;
             case mh of
               None \<Rightarrow> Some (refuse s reqHdr smb2Write statusAccessDenied)
             | Some h \<Rightarrow> do {
                 d \<leftarrow> gslice req (unat dataOff) (unat dataOff + unat dataLen);
                 (h', jobs) \<leftarrow> writeFile cap (sRemoteAddr s) h d;
                 Some (s\<lparr>handles := (handles s)(phFileID h \<mapsto> h')\<rparr>,
                   encodeHeader (replyHeader reqHdr smb2Write statusSuccess (hTreeId reqHdr))
                     @ le16 17 @ le16 0 @ le32 dataLen @ replicate 9 0,
                   statusSuccess, True, jobs)
               }
           }
         }
     }
   }"

definition handleRead :: "smbSession \<Rightarrow> bytes \<Rightarrow> reply option" where
  "handleRead s req = do {
     (reqHdr, hh) \<leftarrow> requestFor smb2Read req;
     if hh = None then Some (refuse s reqHdr smb2Read statusInvalidParameter)
     else do {
       mb \<leftarrow> requestBody 49 48 req;
       case mb of
         None \<Rightarrow> Some (refuse s reqHdr smb2Read statusInvalidParameter)
       | Some body \<Rightarrow> do {
           len \<leftarrow> get_le32 body 4;
           mh \<leftarrow> lookupHandle s body 16;
           case mh of
             None \<Rightarrow> Some (refuse s reqHdr smb2Read statusAccessDenied)
           | Some h \<Rightarrow>
               (let n = min (length (phReadBuf h)) (unat len);
                    d = take n (phReadBuf h) in
                Some (s\<lparr>handles := (handles s)(phFileID h \<mapsto> h\<lparr>phReadBuf := drop n (phReadBuf h)\<rparr>)\<rparr>,
                  encodeHeader (replyHeader reqHdr smb2Read statusSuccess (hTreeId reqHdr))
                    @ le16 17 @ [of_nat (smb2HeaderSize + 16), 0] @ le32 (of_nat (length d)) @ replicate 8 0 @ d,
                  statusSuccess, True, []))
         }
     }
   }"

text \<open>The job of a spool file that is closed with something in it.\<close>

definition closedJob :: "smbSession \<Rightarrow> pipeHandle \<Rightarrow> job list" where
  "closedJob s h =
     (if phPrintSpool h \<and> length (phSpoolBuf h) > 0 then
        [(newJob (str ''SMB'') (sRemoteAddr s))\<lparr>jobName := phDocName h, jobUser := sUser s,
           jobData := phSpoolBuf h, jobBytes := length (phSpoolBuf h)\<rparr>]
      else [])"

definition handleClose :: "smbSession \<Rightarrow> bytes \<Rightarrow> reply option" where
  "handleClose s req = do {
     (reqHdr, hh) \<leftarrow> requestFor smb2Close req;
     if hh = None then Some (refuse s reqHdr smb2Close statusInvalidParameter)
     else do {
       mb \<leftarrow> requestBody 24 24 req;
       case mb of
         None \<Rightarrow> Some (refuse s reqHdr smb2Close statusInvalidParameter)
       | Some body \<Rightarrow> do {
           mh \<leftarrow> lookupHandle s body 8;
           case mh of
             None \<Rightarrow> Some (refuse s reqHdr smb2Close statusAccessDenied)
           | Some h \<Rightarrow>
               Some (s\<lparr>handles := (handles s)(phFileID h := None)\<rparr>,
                 encodeHeader (replyHeader reqHdr smb2Close statusSuccess (hTreeId reqHdr)) @ le16 60 @ replicate 58 0,
                 statusSuccess, True, closedJob s h)
         }
     }
   }"

section \<open>Correctness\<close>

lemma requestFor_returns [no_panic]: "requestFor c req \<noteq> None"
  unfolding requestFor_def by (intro no_panic)

lemma requestBody_returns [no_panic]: "2 \<le> need \<Longrightarrow> requestBody sz need req \<noteq> None"
  unfolding requestBody_def by (intro no_panic) (auto simp: slice_from_def split: if_splits)

lemma requestBody_length: "requestBody sz need req = Some (Some body) \<Longrightarrow> need \<le> length body \<and> length req = 64 + length body"
  by (auto simp: requestBody_def slice_from_def split: if_splits bind_splits)

lemma requestRange_returns [no_panic]: "requestRange req off len \<noteq> None"
  unfolding requestRange_def by (intro no_panic) auto

lemma lookupHandle_returns [no_panic]: "lookupHandle s body off \<noteq> None"
  unfolding lookupHandle_def by (intro no_panic) auto

lemma writeFile_returns [no_panic]: "writeFile cap r h d \<noteq> None"
  unfolding writeFile_def by (intro no_panic) (auto split: prod.split)

lemma handlers_return [no_panic]:
  "handleTreeConnect cfg s req \<noteq> None" "handleTreeDisconnect s req \<noteq> None" "handleLogoff s req \<noteq> None"
  "handleFlush s req \<noteq> None" "handleCreate fid s req \<noteq> None" "handleWrite cap s req \<noteq> None"
  "handleRead s req \<noteq> None" "handleClose s req \<noteq> None"
  unfolding handleTreeConnect_def handleTreeDisconnect_def handleLogoff_def handleFlush_def handleCreate_def
    handleWrite_def handleRead_def handleClose_def Let_def
  by (intro no_panic; auto dest: requestBody_length)+

text \<open>The commands on shares and files leave the login, the keys and the identity of a session alone.\<close>

definition sameLogin :: "smbSession \<Rightarrow> smbSession \<Rightarrow> bool" where
  "sameLogin s s' \<longleftrightarrow> authComplete s' = authComplete s \<and> guest s' = guest s \<and> signingRequired s' = signingRequired s
     \<and> signingKey s' = signingKey s \<and> c2sKey s' = c2sKey s \<and> s2cKey s' = s2cKey s \<and> serverChallenge s' = serverChallenge s
     \<and> preauth s' = preauth s \<and> sessionID s' = sessionID s \<and> sUser s' = sUser s \<and> sRemoteAddr s' = sRemoteAddr s"

lemma refuse_same: "refuse s h c st = (s', r) \<Longrightarrow> sameLogin s s'"
  by (auto simp: refuse_def sameLogin_def)

lemma handlers_same:
  "handleTreeConnect cfg s req = Some (s', r) \<Longrightarrow> sameLogin s s'"
  "handleTreeDisconnect s req = Some (s', r) \<Longrightarrow> sameLogin s s'"
  "handleLogoff s req = Some (s', r) \<Longrightarrow> sameLogin s s'"
  "handleFlush s req = Some (s', r) \<Longrightarrow> sameLogin s s'"
  "handleCreate fid s req = Some (s', r) \<Longrightarrow> sameLogin s s'"
  "handleWrite cap s req = Some (s', r) \<Longrightarrow> sameLogin s s'"
  "handleRead s req = Some (s', r) \<Longrightarrow> sameLogin s s'"
  "handleClose s req = Some (s', r) \<Longrightarrow> sameLogin s s'"
  unfolding handleTreeConnect_def handleTreeDisconnect_def handleLogoff_def handleFlush_def handleCreate_def
    handleWrite_def handleRead_def handleClose_def Let_def
  by (auto simp: refuse_def sameLogin_def split: if_splits option.splits bind_splits prod.splits)

end
