(* ===== verification/Smb_Conn.thy ===== *)
theory Smb_Conn
  imports Smb_Tree
begin

text \<open>
  The driver of an SMB connection (\<^verbatim>\<open>smb.go\<close>): a step consumes one frame and may answer it, close the
  connection, and capture jobs; the loop reads frames until the stream ends or a step closes. The
  random values the server draws while it handles a frame are an argument of the step.
\<close>

record smb_rand =
  rnSid :: u64
  rnSalt :: bytes
  rnChallenge :: bytes
  rnFid :: bytes
  rnNonce :: bytes

text \<open>What does not change over a connection: the primitives, the configuration, the cap on a job, the
  client's address and the identifier of the process.\<close>

record smb_env =
  seCrypto :: crypto
  seUpper :: "bytes \<Rightarrow> bytes"
  seConf :: smb_conf
  seCap :: nat
  seRemote :: bytes
  seGuid :: bytes

datatype conn_result =
    Closed "job list"
  | Next "smbSession option" "bytes option" "job list"

subsection \<open>Receiving\<close>

text \<open>The message in a frame and whether it was encrypted; \<open>None\<close> closes the connection.\<close>

definition unwrapFrame :: "crypto \<Rightarrow> smbSession option \<Rightarrow> bytes \<Rightarrow> (bytes \<times> bool) option" where
  "unwrapFrame cr s frame =
     (if 4 \<le> length frame \<and> take 4 frame = thProtocolID then
        (case s of
           None \<Rightarrow> None
         | Some s' \<Rightarrow>
             if length (c2sKey s') \<noteq> 16 then None
             else map_option (\<lambda>pt. (pt, True)) (smbDecrypt cr (c2sKey s') frame))
      else Some (frame, False))"

text \<open>Only a message that claims to be signed is checked.\<close>

definition signatureAccepted :: "crypto \<Rightarrow> smbSession option \<Rightarrow> smb2Header \<Rightarrow> bytes \<Rightarrow> bool" where
  "signatureAccepted cr s hdr msg =
     (case s of
        None \<Rightarrow> True
      | Some s' \<Rightarrow>
          if authComplete s' \<and> signingRequired s' \<and> \<not> guest s' \<and> hFlags hdr AND 0x08 \<noteq> 0
          then smbVerifySign cr (signingKey s') msg else True)"

subsection \<open>Dispatch\<close>

text \<open>The commands that need a completed login: \<open>None\<close> inside closes the connection.\<close>

definition authenticated :: "smbSession option \<Rightarrow> (smbSession \<Rightarrow> reply option) \<Rightarrow>
    (smbSession option \<times> bytes \<times> u32 \<times> job list) option option" where
  "authenticated s f =
     (case s of
        None \<Rightarrow> Some None
      | Some s' \<Rightarrow>
          if \<not> authComplete s' then Some None
          else do { (s1, resp, st, ok, jobs) \<leftarrow> f s'; Some (Some (Some s1, resp, st, jobs)) })"

definition dispatchCommand ::
  "smb_env \<Rightarrow> smb_rand \<Rightarrow> smbSession option \<Rightarrow> smb2Header \<Rightarrow> bytes
    \<Rightarrow> (smbSession option \<times> bytes \<times> u32 \<times> job list) option option" where
  "dispatchCommand e rn s hdr msg =
     (if hCommand hdr = smb2Negotiate then do {
        (r, st, ok) \<leftarrow> handleNegotiate (seGuid e) (rnSalt rn) msg;
        if \<not> ok \<or> st \<noteq> NegOK then Some None
        else do {
          mnr \<leftarrow> handleNegotiateResult msg;
          let (dialect, cipher) = (case mnr of None \<Rightarrow> (0, 0) | Some nr \<Rightarrow> (nrDialect nr, nrCipher nr));
          Some (Some (Some ((newSMBSession (rnSid rn))\<lparr>sDialect := dialect, sCipher := cipher, sRemoteAddr := seRemote e\<rparr>), r, 0, []))
        }
      }
      else if hCommand hdr = smb2SessionSetup then
        (case s of
           None \<Rightarrow> Some None
         | Some s' \<Rightarrow> do {
             (s1, resp, st, complete) \<leftarrow> handleSessionSetup (seCrypto e) (seUpper e) (seConf e) (rnChallenge rn)
               (updatePreauth (seCrypto e) s' msg) msg;
             Some (Some (Some s1, resp, st, []))
           })
      else if hCommand hdr = smb2TreeConnect then authenticated s (\<lambda>s. handleTreeConnect (seConf e) s msg)
      else if hCommand hdr = smb2Create then authenticated s (\<lambda>s. handleCreate (rnFid rn) s msg)
      else if hCommand hdr = smb2Write then authenticated s (\<lambda>s. handleWrite (seCap e) s msg)
      else if hCommand hdr = smb2Read then authenticated s (\<lambda>s. handleRead s msg)
      else if hCommand hdr = smb2Close then authenticated s (\<lambda>s. handleClose s msg)
      else if hCommand hdr = smb2TreeDisconnect then authenticated s (\<lambda>s. handleTreeDisconnect s msg)
      else if hCommand hdr = smb2Logoff then authenticated s (\<lambda>s. handleLogoff s msg)
      else if hCommand hdr = smb2Flush then authenticated s (\<lambda>s. handleFlush s msg)
      else Some (Some (s, buildErrorResponse hdr (hCommand hdr) statusNotSupported, 0, [])))"

subsection \<open>Answering\<close>

definition patchResponseHeader :: "bytes \<Rightarrow> smb2Header \<Rightarrow> smbSession option \<Rightarrow> bytes" where
  "patchResponseHeader resp req s =
     (if length resp < smb2HeaderSize then resp
      else
        (let r1 = put resp 24 (le64 (hMessageId req));
             r2 = put r1 14 (le16 (if hCreditCharge req < 1 then 1 else hCreditCharge req));
             flags = (le_dec (take 4 (drop 16 r2)) :: u32);
             r3 = put r2 16 (le32 (flags OR smb2FlagsServerToRedir));
             sid = (if hSessionId req = 0 then (case s of None \<Rightarrow> 0 | Some s' \<Rightarrow> sessionID s') else hSessionId req)
         in put r3 40 (le64 sid)))"

text \<open>The running hash covers the negotiation and every leg of the login but the last response.\<close>

definition foldPreauth :: "crypto \<Rightarrow> u16 \<Rightarrow> u32 \<Rightarrow> smbSession \<Rightarrow> bytes \<Rightarrow> bytes \<Rightarrow> smbSession" where
  "foldPreauth cr command ssStatus s msg resp =
     (if command = smb2Negotiate then updatePreauth cr (updatePreauth cr s msg) resp
      else if command = smb2SessionSetup \<and> ssStatus = statusMoreProcessingRequired then updatePreauth cr s resp
      else s)"

definition protectResponse :: "crypto \<Rightarrow> bytes \<Rightarrow> smbSession option \<Rightarrow> bool \<Rightarrow> bytes \<Rightarrow> bytes" where
  "protectResponse cr nonce s reqEncrypted resp =
     (case s of
        None \<Rightarrow> resp
      | Some s' \<Rightarrow>
          (let signed = (if authComplete s' \<and> signingRequired s' \<and> \<not> guest s' \<and> length (signingKey s') = 16
                         then smbSign cr (signingKey s') resp else resp)
           in if reqEncrypted \<and> length (s2cKey s') = 16 then
                (case smbEncrypt cr nonce (s2cKey s') (sessionID s') signed of Some enc \<Rightarrow> enc | None \<Rightarrow> signed)
              else signed))"

definition smbStep :: "smb_env \<Rightarrow> smb_rand \<Rightarrow> smbSession option \<Rightarrow> bytes \<Rightarrow> conn_result option" where
  "smbStep e rn s frame =
     (case unwrapFrame (seCrypto e) s frame of
        None \<Rightarrow> Some (Closed [])
      | Some (msg, reqEncrypted) \<Rightarrow> do {
          h \<leftarrow> parseSMB2Header msg;
          case h of
            None \<Rightarrow> Some (Closed [])
          | Some hdr \<Rightarrow>
              if \<not> signatureAccepted (seCrypto e) s hdr msg then Some (Closed [])
              else do {
                r \<leftarrow> dispatchCommand e rn s hdr msg;
                case r of
                  None \<Rightarrow> Some (Closed [])
                | Some (s1, resp, ssStatus, jobs) \<Rightarrow>
                    if length resp < smb2HeaderSize then Some (Next s1 None jobs)
                    else
                      (let resp1 = patchResponseHeader resp hdr s1;
                           s2 = map_option (\<lambda>s'. foldPreauth (seCrypto e) (hCommand hdr) ssStatus s' msg resp1) s1;
                           out = protectResponse (seCrypto e) (rnNonce rn) s2 reqEncrypted resp1
                       in Some (if writeTCPFrame out = None then Closed jobs else Next s2 (Some out) jobs))
              }
        })"

text \<open>The loop: the answers written and the jobs captured until the stream ends or a step closes the
  connection. The \<open>n\<close>-th frame is handled with the \<open>n\<close>-th random values.\<close>

function handleSMBConn :: "smb_env \<Rightarrow> (nat \<Rightarrow> smb_rand) \<Rightarrow> nat \<Rightarrow> smbSession option \<Rightarrow> bytes \<Rightarrow> (bytes list \<times> job list) option" where
  "handleSMBConn e rn n s stream =
     (case readTCPFrame stream of
        None \<Rightarrow> Some ([], [])
      | Some (frame, rest) \<Rightarrow> do {
          r \<leftarrow> smbStep e (rn n) s frame;
          case r of
            Closed jobs \<Rightarrow> Some ([], jobs)
          | Next s' out jobs \<Rightarrow> do {
              (outs, js) \<leftarrow> handleSMBConn e rn (Suc n) s' rest;
              Some ((case out of None \<Rightarrow> outs | Some o' \<Rightarrow> o' # outs), jobs @ js)
            }
        })"
  by pat_completeness auto
termination
  by (relation "measure (\<lambda>(e, rn, n, s, stream). length stream)") (auto dest: readTCPFrame_shorter)

declare handleSMBConn.simps [simp del]

section \<open>Correctness\<close>

lemma authenticated_returns [no_panic]: "(\<And>s'. f s' \<noteq> None) \<Longrightarrow> authenticated s f \<noteq> None"
  unfolding authenticated_def by (intro no_panic) (auto simp del: not_None_eq)

lemma dispatchCommand_returns [no_panic]: "digest_lengths (seCrypto e) \<Longrightarrow> dispatchCommand e rn s hdr msg \<noteq> None"
  unfolding dispatchCommand_def Let_def by (intro no_panic)

lemma case_conn_returns [no_panic]:
  "(\<And>js. r = Closed js \<Longrightarrow> f js \<noteq> None) \<Longrightarrow> (\<And>s out js. r = Next s out js \<Longrightarrow> g s out js \<noteq> None)
    \<Longrightarrow> case_conn_result f g r \<noteq> None"
  by (cases r) auto

lemma smbStep_returns [no_panic]: "digest_lengths (seCrypto e) \<Longrightarrow> smbStep e rn s frame \<noteq> None"
  unfolding smbStep_def Let_def by (intro no_panic)



text \<open>A step closes the connection or answers what the command left of the session.\<close>

lemma smbStep_cases:
  assumes "smbStep e rn s f = Some r"
  shows "r = Closed [] \<or> (\<exists>msg enc hdr ms resp st js. unwrapFrame (seCrypto e) s f = Some (msg, enc)
    \<and> dispatchCommand e rn s hdr msg = Some (Some (ms, resp, st, js))
    \<and> (r = Closed js \<or> (\<exists>ms' out. r = Next ms' out js
         \<and> (ms' = ms \<or> ms' = map_option (\<lambda>s'. foldPreauth (seCrypto e) (hCommand hdr) st s' msg (patchResponseHeader resp hdr ms)) ms))))"
  using assms unfolding smbStep_def Let_def
  by (auto split: option.splits if_splits bind_splits) blast+

subsection \<open>Only a client that logged in captures a job\<close>

text \<open>The connection as a transition system: what it may be in, the frames handled so far with the random
  values drawn for each, and the jobs captured so far.\<close>

datatype conn_state = Open "smbSession option" | Done

inductive smbReach :: "smb_env \<Rightarrow> conn_state \<Rightarrow> (smb_rand \<times> bytes) list \<Rightarrow> job list \<Rightarrow> bool" for e where
  accepted: "smbReach e (Open None) [] []"
| answered: "smbReach e (Open s) tr js \<Longrightarrow> smbStep e rn s f = Some (Next s' out js') \<Longrightarrow>
    smbReach e (Open s') (tr @ [(rn, f)]) (js @ js')"
| closed: "smbReach e (Open s) tr js \<Longrightarrow> smbStep e rn s f = Some (Closed js') \<Longrightarrow>
    smbReach e Done (tr @ [(rn, f)]) (js @ js')"

inductive_cases Open_reach: "smbReach e (Open s) tr js"
inductive_cases Done_reach: "smbReach e Done tr js"

text \<open>The loop is a run of the transition system.\<close>

lemma handleSMBConn_reach:
  assumes "smbReach e (Open s) tr js0" "handleSMBConn e rn n s stream = Some (outs, js)"
  shows "\<exists>c tr'. smbReach e c (tr @ tr') (js0 @ js) \<and> fst ` set tr' \<subseteq> range rn"
  using assms
proof (induction e rn n s stream arbitrary: tr js0 outs js rule: handleSMBConn.induct)
  case (1 e rn n s stream)
  show ?case
  proof (cases "readTCPFrame stream")
    case None
    then have "js = []" using "1.prems"(2) by (simp add: handleSMBConn.simps [of e rn n s stream])
    then show ?thesis using "1.prems"(1) by (intro exI [of _ "Open s"] exI [of _ "[]"]) simp
  next
    case (Some q)
    obtain f rest where q: "q = (f, rest)" by (cases q)
    note u = "1.prems"(2) [unfolded handleSMBConn.simps [of e rn n s stream] Some q]
    obtain r where r: "smbStep e (rn n) s f = Some r" using u by (cases "smbStep e (rn n) s f") auto
    show ?thesis
    proof (cases r)
      case (Closed jobs)
      then have "js = jobs" using u r by simp
      then show ?thesis using smbReach.closed [OF "1.prems"(1)] r Closed
        by (intro exI [of _ Done] exI [of _ "[(rn n, f)]"]) simp
    next
      case (Next s' out jobs)
      obtain outs' js' where rec: "handleSMBConn e rn (Suc n) s' rest = Some (outs', js')" "js = jobs @ js'"
        using u r Next by (auto split: bind_splits)
      have "smbReach e (Open s') (tr @ [(rn n, f)]) (js0 @ jobs)"
        using smbReach.answered [OF "1.prems"(1)] r Next by simp
      from "1.IH" [OF Some q [symmetric] r Next this rec(1)]
      obtain c tr' where "smbReach e c ((tr @ [(rn n, f)]) @ tr') ((js0 @ jobs) @ js')" "fst ` set tr' \<subseteq> range rn" by blast
      then show ?thesis using rec(2) by (intro exI [of _ c] exI [of _ "(rn n, f) # tr'"]) simp
    qed
  qed
qed

text \<open>A login that the trace contains: a frame that proved knowledge of an account's password, relative to
  a challenge the server issued on this connection, or to none.\<close>

definition challengesIn :: "(smb_rand \<times> bytes) list \<Rightarrow> bytes set" where
  "challengesIn tr = insert [] (rnChallenge ` fst ` set tr)"

definition loginIn :: "smb_env \<Rightarrow> (smb_rand \<times> bytes) list \<Rightarrow> bool" where
  "loginIn e tr \<longleftrightarrow> (\<exists>(rn, f)\<in>set tr. \<exists>sc\<in>challengesIn tr.
     provedBy (seCrypto e) (seUpper e) (seConf e) sc f)"

lemma loginIn_mono: "loginIn e tr \<Longrightarrow> loginIn e (tr @ tr')"
  by (fastforce simp: loginIn_def challengesIn_def)

lemma challengesIn_snoc [simp]: "challengesIn (tr @ [(rn, f)]) = insert (rnChallenge rn) (challengesIn tr)"
  by (auto simp: challengesIn_def)

text \<open>What holds of an open connection where a login is required.\<close>

definition authInv :: "smb_env \<Rightarrow> smbSession option \<Rightarrow> (smb_rand \<times> bytes) list \<Rightarrow> bool" where
  "authInv e s tr \<longleftrightarrow> (case s of None \<Rightarrow> True | Some s' \<Rightarrow>
     (authComplete s' \<longrightarrow> loginIn e tr) \<and> (\<not> authComplete s' \<longrightarrow> c2sKey s' = [])
     \<and> serverChallenge s' \<in> challengesIn tr)"

text \<open>Every other command goes to a handler that needs a login and leaves it alone, or is not supported.\<close>

definition handledBy :: "smbSession option \<Rightarrow> (smbSession option \<times> bytes \<times> u32 \<times> job list) option option \<Rightarrow> bool" where
  "handledBy s r \<longleftrightarrow> (\<exists>g. r = authenticated s g \<and> (\<forall>s' s1 q. g s' = Some (s1, q) \<longrightarrow> sameLogin s' s1))"

lemma handledByI: "(\<And>s' s1 q. g s' = Some (s1, q) \<Longrightarrow> sameLogin s' s1) \<Longrightarrow> handledBy s (authenticated s g)"
  unfolding handledBy_def by blast

lemma dispatch_other:
  assumes "hCommand hdr \<noteq> smb2Negotiate" "hCommand hdr \<noteq> smb2SessionSetup"
  shows "handledBy s (dispatchCommand e rn s hdr msg)
    \<or> dispatchCommand e rn s hdr msg = Some (Some (s, buildErrorResponse hdr (hCommand hdr) statusNotSupported, 0, []))"
  unfolding dispatchCommand_def if_not_P [OF assms(1)] if_not_P [OF assms(2)]
  by (auto intro!: handledByI dest: handlers_same)

lemma dispatch_no_session: "dispatchCommand e rn s hdr msg = Some (Some (None, resp, st, js)) \<Longrightarrow> s = None \<and> js = []"
  by (auto simp: dispatchCommand_def authenticated_def split: if_splits option.splits bind_splits)

lemma dispatch_auth:
  assumes "dispatchCommand e rn s hdr msg = Some (Some (Some s1, resp, st, jobs))"
    and "smbRequireAuth (seConf e)" "authInv e s tr" "\<not> (case s of Some s' \<Rightarrow> authComplete s' | None \<Rightarrow> False) \<longrightarrow> msg = f"
  shows "authInv e (Some s1) (tr @ [(rn, f)]) \<and> (jobs \<noteq> [] \<longrightarrow> loginIn e (tr @ [(rn, f)]))"
proof -
  let ?tr = "tr @ [(rn, f)]"
  have new: "authInv e (Some ((newSMBSession i)\<lparr>sDialect := d, sCipher := c, sRemoteAddr := r\<rparr>)) ?tr" for i d c r
    by (simp add: authInv_def newSMBSession_def challengesIn_def)
  have login: "authInv e (Some s1) ?tr"
    if s: "s = Some s'" and h: "handleSessionSetup (seCrypto e) (seUpper e) (seConf e) (rnChallenge rn) (updatePreauth (seCrypto e) s' msg) msg = Some (s1, resp, st', d)"
    for s' d st'
  proof -
    let ?u = "updatePreauth (seCrypto e) s' msg"
    have u: "authComplete ?u = authComplete s'" "c2sKey ?u = c2sKey s'" "serverChallenge ?u = serverChallenge s'"
      by (simp_all add: updatePreauth_def)
    note c = handleSessionSetup_cases [OF h, unfolded u]
    have i: "authComplete s' \<longrightarrow> loginIn e tr" "\<not> authComplete s' \<longrightarrow> c2sKey s' = []"
      "serverChallenge s' \<in> challengesIn tr"
      using assms(3) by (auto simp: authInv_def s)
    have ch: "serverChallenge s1 \<in> challengesIn ?tr" using c i(3) by auto
    have "loginIn e ?tr" if a: "authComplete s1"
    proof (cases "authComplete s'")
      case True
      then show ?thesis using i(1) loginIn_mono by blast
    next
      case False
      then have "provedBy (seCrypto e) (seUpper e) (seConf e) (serverChallenge s') f"
        using login_needs_proof [OF h assms(2) a] assms(4) u s by simp
      moreover have "serverChallenge s' \<in> challengesIn ?tr" using i(3) by auto
      ultimately show ?thesis unfolding loginIn_def by (intro bexI [of _ "(rn, f)"]) auto
    qed
    moreover have "\<not> authComplete s1 \<longrightarrow> c2sKey s1 = []" using c i(2) by auto
    ultimately show ?thesis using ch by (simp add: authInv_def)
  qed
  have shares: "authInv e (Some s1) ?tr \<and> (jobs \<noteq> [] \<longrightarrow> loginIn e ?tr)"
    if "authenticated s g = Some (Some (Some s1, resp, st, jobs))" "\<And>s' q. g s' = Some (s1, q) \<Longrightarrow> sameLogin s' s1" for g
    using that assms(3) by (auto simp: authenticated_def authInv_def sameLogin_def loginIn_mono split: option.splits if_splits bind_splits)
  show ?thesis
  proof (cases "hCommand hdr = smb2Negotiate \<or> hCommand hdr = smb2SessionSetup")
    case True
    then show ?thesis using assms(1) new login
      by (auto simp: dispatchCommand_def split: option.splits if_splits bind_splits prod.splits)
  next
    case False
    then show ?thesis
      using dispatch_other [of hdr s e rn msg] shares assms(1,3)
      by (auto simp: handledBy_def authInv_def loginIn_mono)
  qed
qed

lemma step_auth:
  assumes "smbStep e rn s f = Some r" "smbRequireAuth (seConf e)" "authInv e s tr"
  shows "case r of
      Closed js \<Rightarrow> js \<noteq> [] \<longrightarrow> loginIn e (tr @ [(rn, f)])
    | Next s' out js \<Rightarrow> authInv e s' (tr @ [(rn, f)]) \<and> (js \<noteq> [] \<longrightarrow> loginIn e (tr @ [(rn, f)]))"
  using smbStep_cases [OF assms(1)]
proof
  assume "\<exists>msg enc hdr ms resp st js. unwrapFrame (seCrypto e) s f = Some (msg, enc)
    \<and> dispatchCommand e rn s hdr msg = Some (Some (ms, resp, st, js))
    \<and> (r = Closed js \<or> (\<exists>ms' out. r = Next ms' out js
         \<and> (ms' = ms \<or> ms' = map_option (\<lambda>s'. foldPreauth (seCrypto e) (hCommand hdr) st s' msg (patchResponseHeader resp hdr ms)) ms)))"
  then obtain msg enc hdr ms resp st js where q: "unwrapFrame (seCrypto e) s f = Some (msg, enc)"
    and d: "dispatchCommand e rn s hdr msg = Some (Some (ms, resp, st, js))"
    and r: "r = Closed js \<or> (\<exists>ms' out. r = Next ms' out js
      \<and> (ms' = ms \<or> ms' = map_option (\<lambda>s'. foldPreauth (seCrypto e) (hCommand hdr) st s' msg (patchResponseHeader resp hdr ms)) ms))"
    by blast
  have plain: "\<not> (case s of Some s' \<Rightarrow> authComplete s' | None \<Rightarrow> False) \<longrightarrow> msg = f"
    using q assms(3) by (auto simp: unwrapFrame_def authInv_def split: if_splits option.splits)
  have fold: "authInv e (Some (foldPreauth cr c st s' m rp)) tr' = authInv e (Some s') tr'" for cr c st s' m rp tr'
    by (simp add: foldPreauth_def updatePreauth_def authInv_def)
  have "authInv e ms (tr @ [(rn, f)]) \<and> (js \<noteq> [] \<longrightarrow> loginIn e (tr @ [(rn, f)]))"
  proof (cases ms)
    case None
    then show ?thesis using dispatch_no_session [OF d [unfolded None]] by (simp add: authInv_def)
  next
    case (Some s1)
    then show ?thesis using dispatch_auth [OF d [unfolded Some] assms(2,3) plain] by simp
  qed
  then show ?thesis using r by (cases ms) (auto simp: fold)
qed simp

lemma reach_auth:
  assumes "smbReach e c tr js" "smbRequireAuth (seConf e)"
  shows "(case c of Open s \<Rightarrow> authInv e s tr | Done \<Rightarrow> True) \<and> (js \<noteq> [] \<longrightarrow> loginIn e tr)"
  using assms
proof (induction rule: smbReach.induct)
  case accepted
  then show ?case by (simp add: authInv_def)
next
  case (answered s tr js rn f s' out js')
  then show ?case using step_auth [OF answered.hyps(2) answered.prems, of tr] loginIn_mono [of e tr] by auto
next
  case (closed s tr js rn f js')
  then show ?case using step_auth [OF closed.hyps(2) closed.prems, of tr] loginIn_mono [of e tr] by auto
qed

subsection \<open>Messages on the wire\<close>

lemma put_skip [layout]: "length xs \<le> i \<Longrightarrow> put (xs @ ys) i zs = xs @ put ys (i - length xs) zs"
  by (simp add: put_def)

lemma put_here [layout]: "length xs = length zs \<Longrightarrow> put (xs @ ys) 0 zs = zs @ ys"
  by (simp add: put_def)

lemma put_prefix: "i + length zs \<le> length xs \<Longrightarrow> put (xs @ ys) i zs = put xs i zs @ ys"
  by (simp add: put_def)

lemma take_drop_field [layout]:
  "length xs \<le> i \<Longrightarrow> take n (drop i (xs @ ys)) = take n (drop (i - length xs) ys)"
  "length xs = n \<Longrightarrow> take n (xs @ ys) = xs"
  by simp_all

text \<open>Patching the header of a response rewrites four of its fields and nothing else.\<close>

definition patched :: "smb2Header \<Rightarrow> smbSession option \<Rightarrow> smb2Header \<Rightarrow> smb2Header" where
  "patched req s h = h\<lparr>hMessageId := hMessageId req,
     hCreditResp := (if hCreditCharge req < 1 then 1 else hCreditCharge req),
     hFlags := hFlags h OR smb2FlagsServerToRedir,
     hSessionId := (if hSessionId req = 0 then (case s of None \<Rightarrow> 0 | Some s' \<Rightarrow> sessionID s') else hSessionId req)\<rparr>"

lemma patch_encoded:
  assumes "wfHeader h"
  shows "patchResponseHeader (encodeHeader h @ body) req s = encodeHeader (patched req s h) @ body"
proof -
  have l: "\<not> length (encodeHeader h @ body) < smb2HeaderSize" using assms by simp
  have p: "length smb2ProtocolID = 4" by (simp add: smb2ProtocolID_def)
  show ?thesis
    unfolding patchResponseHeader_def if_not_P [OF l] unfolding encodeHeader_def Let_def patched_def
    by (simp add: layout p)
qed

lemma patched_wf [simp]: "wfHeader (patched req s h) = wfHeader h"
  by (simp add: patched_def wfHeader_def)

end
