(* ===== verification/Smb_Run.thy ===== *)
theory Smb_Run
  imports Smb_Conn
begin

text \<open>
  What clients of an SMB connection get: an answer to every request, a login that leaves both sides with
  the same keys, and the capture of the documents they print. Requests here are neither signed nor
  encrypted, unless a statement says otherwise.
\<close>

subsection \<open>Responses are messages\<close>

definition message :: "nat \<Rightarrow> bytes \<Rightarrow> bool" where
  "message n resp \<longleftrightarrow> (\<exists>h b. resp = encodeHeader h @ b \<and> wfHeader h \<and> length b \<le> n)"

lemma messageI: "wfHeader h \<Longrightarrow> length b \<le> n \<Longrightarrow> message n (encodeHeader h @ b)"
  unfolding message_def by blast

lemma replyHeader_wf [simp]: "wfHeader (replyHeader r c st t)"
  by (simp add: replyHeader_def)

lemma message_length: "message n resp \<Longrightarrow> 64 \<le> length resp \<and> length resp \<le> 64 + n"
  by (auto simp: message_def)

lemma error_message: "message 150 (buildErrorResponse h c st)" "message 150 (buildSimpleAck h c)"
  by (auto simp: buildErrorResponse_def buildSimpleAck_def intro!: messageI)

lemma refuse_message: "refuse s h c st = (s', resp, q) \<Longrightarrow> message 150 resp"
  using error_message by (auto simp: refuse_def)

text \<open>The largest answer is that of a READ, which returns at most what the file has pending.\<close>

definition pendingMax :: "nat \<Rightarrow> smbSession \<Rightarrow> bool" where
  "pendingMax n s \<longleftrightarrow> (\<forall>fid h. handles s fid = Some h \<longrightarrow> length (phReadBuf h) \<le> n)"

lemma handlers_message:
  "handleTreeConnect cfg s req = Some (s', resp, q) \<Longrightarrow> message 150 resp"
  "handleTreeDisconnect s req = Some (s', resp, q) \<Longrightarrow> message 150 resp"
  "handleLogoff s req = Some (s', resp, q) \<Longrightarrow> message 150 resp"
  "handleFlush s req = Some (s', resp, q) \<Longrightarrow> message 150 resp"
  "handleCreate fid s req = Some (s', resp, q) \<Longrightarrow> length fid = 16 \<Longrightarrow> message 150 resp"
  "handleWrite cap s req = Some (s', resp, q) \<Longrightarrow> message 150 resp"
  "handleClose s req = Some (s', resp, q) \<Longrightarrow> message 150 resp"
  unfolding handleTreeConnect_def handleTreeDisconnect_def handleLogoff_def handleFlush_def handleCreate_def
    handleWrite_def handleClose_def Let_def
  by (auto simp: refuse_def error_message intro!: messageI split: if_splits option.splits bind_splits prod.splits)

lemma handleRead_message:
  assumes "handleRead s req = Some (s', resp, q)" "pendingMax n s"
  shows "message (150 + n) resp"
proof -
  have m: "message 150 r \<Longrightarrow> message (150 + n) r" for r unfolding message_def by (metis trans_le_add1)
  have "handles s fid = Some h \<Longrightarrow> min (length (phReadBuf h)) k \<le> 134 + n" for fid h k
    using assms(2) by (auto simp: pendingMax_def min_le_iff_disj intro: trans_le_add2)
  then show ?thesis
    using assms(1) m [OF error_message(1)] unfolding handleRead_def Let_def
    by (auto simp: refuse_def lookupHandle_def intro!: messageI split: if_splits option.splits bind_splits prod.splits)
qed

lemma answer_message:
  assumes "dispatchCommand e rn (Some s) hdr msg = Some (Some (s1, resp, st, js))"
    and "hCommand hdr \<noteq> smb2Negotiate" "hCommand hdr \<noteq> smb2SessionSetup" "length (rnFid rn) = 16" "pendingMax n s"
  shows "message (150 + n) resp"
proof -
  have m: "message 150 r \<Longrightarrow> message (150 + n) r" for r unfolding message_def by (metis trans_le_add1)
  have a: "authenticated (Some s) g = Some (Some (s1, resp, st, js)) \<Longrightarrow> \<exists>s2 ok. g s = Some (s2, resp, st, ok, js)" for g
    by (auto simp: authenticated_def split: if_splits bind_splits)
  note hm = handlers_message [THEN m] handleRead_message
  show ?thesis
    using assms(1) error_message(1) [THEN m] unfolding dispatchCommand_def if_not_P [OF assms(2)] if_not_P [OF assms(3)]
    by (auto split: if_splits dest!: a intro: hm assms(4,5))
qed

lemma dispatch_answers:
  assumes "digest_lengths (seCrypto e)" "authComplete s" "hCommand hdr \<noteq> smb2Negotiate" "hCommand hdr \<noteq> smb2SessionSetup"
  shows "\<exists>s1 resp st js. dispatchCommand e rn (Some s) hdr msg = Some (Some (Some s1, resp, st, js)) \<and> sameLogin s s1"
  using dispatch_other [OF assms(3,4), of "Some s" e rn msg]
proof
  assume "handledBy (Some s) (dispatchCommand e rn (Some s) hdr msg)"
  then obtain g where g: "dispatchCommand e rn (Some s) hdr msg = authenticated (Some s) g"
    "\<forall>s' s1 q. g s' = Some (s1, q) \<longrightarrow> sameLogin s' s1" by (auto simp: handledBy_def)
  then obtain q where "g s = Some q"
    using dispatchCommand_returns [OF assms(1), of rn "Some s" hdr msg] assms(2) by (cases "g s") (auto simp: authenticated_def)
  then show ?thesis using g assms(2) by (cases q) (auto simp: authenticated_def)
qed (simp add: sameLogin_def)

subsection \<open>Every request on shares and files is answered\<close>

lemma plain_frame: "parseSMB2Header f = Some (Some hdr) \<Longrightarrow> unwrapFrame cr s f = Some (f, False)"
  by (auto simp: unwrapFrame_def parseSMB2Header_def gslice_def smb2ProtocolID_def thProtocolID_def split: if_splits)

lemma plain_step:
  assumes "parseSMB2Header f = Some (Some hdr)" "signatureAccepted (seCrypto e) s hdr f"
    and "dispatchCommand e rn s hdr f = Some (Some (s1, resp, st, js))" "message n resp" "n \<le> 2 ^ 23"
    and "aes_block_length (seCrypto e)"
  shows "\<exists>h b. resp = encodeHeader h @ b \<and> wfHeader h \<and>
     (let resp1 = encodeHeader (patched hdr s1 h) @ b;
          s2 = map_option (\<lambda>s'. foldPreauth (seCrypto e) (hCommand hdr) st s' f resp1) s1;
          out = (case s2 of None \<Rightarrow> resp1 | Some s' \<Rightarrow>
            if authComplete s' \<and> signingRequired s' \<and> \<not> guest s' \<and> length (signingKey s') = 16
            then smbSign (seCrypto e) (signingKey s') resp1 else resp1)
      in smbStep e rn s f = Some (Next s2 (Some out) js) \<and> length out = length resp1)"
proof -
  obtain h b where r: "resp = encodeHeader h @ b" "wfHeader h" "length b \<le> n" using assms(4) by (auto simp: message_def)
  let ?r1 = "encodeHeader (patched hdr s1 h) @ b"
  have l1: "64 \<le> length ?r1" "length ?r1 \<le> 64 + n" using r by simp_all
  have sg: "length (smbSign (seCrypto e) k ?r1) = length ?r1" for k
    using signed_message [OF assms(6) l1(1)] by simp
  have w: "writeTCPFrame x \<noteq> None" if "length x = length ?r1" for x
    using that l1(2) assms(5) by (simp add: writeTCPFrame_def Let_def)
  have nl: "\<not> length resp < smb2HeaderSize" using r by simp
  have p: "patchResponseHeader resp hdr s1 = ?r1" unfolding r(1) by (rule patch_encoded [OF r(2)])
  show ?thesis
    using r(1,2) assms(1-3) plain_frame [OF assms(1), of "seCrypto e" s] nl p w sg
    by (intro exI [of _ h] exI [of _ b]) (auto simp: smbStep_def protectResponse_def Let_def split: option.splits)
qed


subsection \<open>A login leaves both sides with the same keys\<close>

lemma setup_message: "length tk < 2 ^ 16 \<Longrightarrow> message (2 ^ 17) (buildSessionSetupResponse h i st fl tk)"
  unfolding buildSessionSetupResponse_def by (intro messageI) (auto simp: wfHeader_def zeroHeader_def)

lemma sessionSecBuf_header:
  assumes "length a = 64" "length b = 64" shows "sessionSecBuf (a @ c) = sessionSecBuf (b @ c)"
proof -
  have g: "gslice (a @ c) m n = gslice (b @ c) m n" if "64 \<le> m" "m \<le> n" for m n
    using that assms by (simp add: gslice_skip)
  show ?thesis
    using assms g unfolding sessionSecBuf_def Let_def
    by (auto simp: slice_from_def intro!: Option.bind_cong)
qed

lemma setup_step:
  assumes "aes_block_length (seCrypto e)" "length tok < 2 ^ 16"
    and "signatureAccepted (seCrypto e) (Some s) (zeroHeader\<lparr>hCommand := smb2SessionSetup, hSessionId := sid\<rparr>) f"
    and f: "f = buildSessionSetupRequest sid tok"
    and "handleSessionSetup (seCrypto e) (seUpper e) (seConf e) (rnChallenge rn) (updatePreauth (seCrypto e) s f) f
      = Some (s1, resp, st, cmpl)"
    and "resp = buildSessionSetupResponse h i st' fl tk" "length tk < 2 ^ 16"
  shows "\<exists>r1. let s2 = foldPreauth (seCrypto e) smb2SessionSetup st s1 f r1;
      out = (if authComplete s2 \<and> signingRequired s2 \<and> \<not> guest s2 \<and> length (signingKey s2) = 16
            then smbSign (seCrypto e) (signingKey s2) r1 else r1)
    in smbStep e rn (Some s) f = Some (Next (Some s2) (Some out) []) \<and> sessionSecBuf r1 = sessionSecBuf resp \<and> 64 \<le> length r1"
proof -
  let ?h = "zeroHeader\<lparr>hCommand := smb2SessionSetup, hSessionId := sid\<rparr>"
  have p: "parseSMB2Header f = Some (Some ?h)" unfolding f by (rule parse_request)
  have d: "dispatchCommand e rn (Some s) ?h f = Some (Some (Some s1, resp, st, []))"
    using assms(5) by (simp add: dispatchCommand_def)
  have m: "message (2 ^ 17) resp" unfolding assms(6) by (rule setup_message [OF assms(7)])
  obtain h' b where r: "resp = encodeHeader h' @ b" "wfHeader h'" and
    st: "let resp1 = encodeHeader (patched ?h (Some s1) h') @ b;
          s2 = foldPreauth (seCrypto e) smb2SessionSetup st s1 f resp1;
          out = (if authComplete s2 \<and> signingRequired s2 \<and> \<not> guest s2 \<and> length (signingKey s2) = 16
            then smbSign (seCrypto e) (signingKey s2) resp1 else resp1)
      in smbStep e rn (Some s) f = Some (Next (Some s2) (Some out) [])"
    using plain_step [OF p assms(3) d m _ assms(1)] by (auto simp: Let_def)
  have "sessionSecBuf (encodeHeader (patched ?h (Some s1) h') @ b) = sessionSecBuf resp"
    unfolding r(1) using r(2) by (intro sessionSecBuf_header) simp_all
  then show ?thesis using st r(2) by (intro exI [of _ "encodeHeader (patched ?h (Some s1) h') @ b"]) (simp add: Let_def)
qed

text \<open>The client's hash of the messages it sent and received, on top of that of the negotiation.\<close>

definition clientPreauth :: "crypto \<Rightarrow> bytes \<Rightarrow> bytes list \<Rightarrow> bytes" where
  "clientPreauth cr h0 ms = foldl (\<lambda>h m. hashSum cr SHA512 (h @ m)) h0 ms"

lemma login_run:
  assumes cr: "digest_lengths (seCrypto e)" "aes_block_length (seCrypto e)"
    and s0: "\<not> authComplete s0" "\<not> guest s0"
    and hint: "length (rnChallenge rn) = 8" "length (ntlmTargetInfo (smbDomainHint (seConf e)) (str ''PRINTCAP'')) \<le> 60000"
    and t1: "tok = ntlmSignature @ le32 1 @ rest" "length tok < 2 ^ 16" "f1 = buildSessionSetupRequest sid tok"
    and acct: "matchSMBUser (seConf e) user = Some acct" "validText d" "validText user"
    and len: "80 + length temp + length (utf16le d) + length (utf16le user) < 2 ^ 16"
    and resp: "ntlmv2Response (seCrypto e) (ntowfv2 (seCrypto e) (seUpper e) (suUser acct) (suDomain acct) (suPassword acct))
        (rnChallenge rn) temp = (pr, key)"
    and f2: "f2 = buildSessionSetupRequest sid (buildAuthenticate d user (pr @ temp))"
  shows "\<exists>r1 r2 s1 s2 sb chal. smbStep e rn (Some s0) f1 = Some (Next (Some s1) (Some r1) [])
    \<and> sessionSecBuf r1 = Some sb \<and> extractNTLM sb = Some chal \<and> take 8 (drop 24 chal) = rnChallenge rn
    \<and> smbStep e rn' (Some s1) f2 = Some (Next (Some s2) (Some r2) [])
    \<and> authComplete s2 \<and> sUser s2 = user \<and> sessionKey s2 = key
    \<and> nextTreeID s2 = nextTreeID s0 \<and> sRemoteAddr s2 = sRemoteAddr s0
    \<and> (let H = clientPreauth (seCrypto e) (preauth s0) [f1, r1, f2] in
        signingKey s2 = keyFor (seCrypto e) key ''SMBSigningKey'' H \<and> c2sKey s2 = keyFor (seCrypto e) key ''SMBC2SCipherKey'' H
        \<and> s2cKey s2 = keyFor (seCrypto e) key ''SMBS2CCipherKey'' H)
    \<and> (smbSignConf (seConf e) \<longrightarrow> smbVerifySign (seCrypto e) (signingKey s2) r2)"
proof -
  let ?c = "seCrypto e"
  let ?u1 = "updatePreauth ?c s0 f1"
  obtain rp1 sb chal h i st fl tk where l1:
      "handleSessionSetup ?c (seUpper e) (seConf e) (rnChallenge rn) ?u1 f1
        = Some (?u1\<lparr>serverChallenge := rnChallenge rn\<rparr>, rp1, statusMoreProcessingRequired, False)"
      "sessionSecBuf rp1 = Some sb" "extractNTLM sb = Some chal" "take 8 (drop 24 chal) = rnChallenge rn"
      "rp1 = buildSessionSetupResponse h i st fl tk" "length tk < 2 ^ 16"
    using first_leg [OF hint t1(1,2)] unfolding t1(3) by metis
  have a0: "signatureAccepted ?c (Some s) (zeroHeader\<lparr>hCommand := smb2SessionSetup, hSessionId := sid\<rparr>) f" for s f
    by (simp add: signatureAccepted_def zeroHeader_def)
  obtain r1 where st1: "smbStep e rn (Some s0) f1
      = Some (Next (Some (updatePreauth ?c (?u1\<lparr>serverChallenge := rnChallenge rn\<rparr>) r1)) (Some r1) [])"
    and r1: "sessionSecBuf r1 = sessionSecBuf rp1"
    using setup_step [OF cr(2) t1(2) a0 t1(3) l1(1,5,6)] s0(1)
    by (auto simp: Let_def foldPreauth_def updatePreauth_def)
  let ?s1 = "updatePreauth ?c (?u1\<lparr>serverChallenge := rnChallenge rn\<rparr>) r1"
  let ?u2 = "updatePreauth ?c ?s1 f2"
  let ?H = "clientPreauth ?c (preauth s0) [f1, r1, f2]"
  have u2: "serverChallenge ?u2 = rnChallenge rn" "preauth ?u2 = ?H" "guest ?u2 = False"
    using s0(2) by (simp_all add: updatePreauth_def clientPreauth_def)
  let ?tok2 = "buildAuthenticate d user (pr @ temp)"
  have lp: "length pr = 16" using cr(1) resp by (auto simp: ntlmv2Response_def Let_def digest_lengths_def)
  have lt: "length ?tok2 < 2 ^ 16" using len lp by (simp add: buildAuthenticate_parts ntlmSignature_def)
  have resp2: "ntlmv2Response ?c (ntowfv2 ?c (seUpper e) (suUser acct) (suDomain acct) (suPassword acct)) (serverChallenge ?u2) temp = (pr, key)"
    unfolding u2(1) by (rule resp)
  obtain rp2 s2 where l2:
      "handleSessionSetup ?c (seUpper e) (seConf e) (rnChallenge rn') ?u2 f2 = Some (s2, rp2, statusSuccess, True)"
      "s2 = ?u2\<lparr>sUser := user, sDomain := d, sessionKey := key, signingKey := keyFor ?c key ''SMBSigningKey'' (preauth ?u2),
        c2sKey := keyFor ?c key ''SMBC2SCipherKey'' (preauth ?u2), s2cKey := keyFor ?c key ''SMBS2CCipherKey'' (preauth ?u2),
        authComplete := True, signingRequired := smbSignConf (seConf e), encryptData := smbEncryptConf (seConf e)\<rparr>"
      "\<exists>h i st fl tk. rp2 = buildSessionSetupResponse h i st fl tk \<and> length tk < 2 ^ 16"
    using second_leg [OF cr(1) acct len resp2, of "rnChallenge rn'" sid] unfolding f2 by blast
  obtain h' i' st' fl' tk' where l2': "rp2 = buildSessionSetupResponse h' i' st' fl' tk'" "length tk' < 2 ^ 16"
    using l2(3) by blast
  have k: "length (signingKey s2) = 16" using l2(2) length_keyFor [OF cr(1)] by simp
  have g: "guest s2 = False" "signingRequired s2 = smbSignConf (seConf e)" "authComplete s2" unfolding l2(2) using u2(3) by simp_all
  obtain r2 where st2: "smbStep e rn' (Some ?s1) f2
      = Some (Next (Some s2) (Some (if smbSignConf (seConf e) then smbSign ?c (signingKey s2) r2 else r2)) [])" "64 \<le> length r2"
    using setup_step [OF cr(2) lt a0 f2 l2(1) l2'] k g by (auto simp: Let_def foldPreauth_def)
  have fields: "sUser s2 = user" "sessionKey s2 = key" "signingKey s2 = keyFor ?c key ''SMBSigningKey'' ?H"
    "c2sKey s2 = keyFor ?c key ''SMBC2SCipherKey'' ?H" "s2cKey s2 = keyFor ?c key ''SMBS2CCipherKey'' ?H"
    "nextTreeID s2 = nextTreeID s0" "sRemoteAddr s2 = sRemoteAddr s0"
    unfolding l2(2) u2(2) by (simp_all add: updatePreauth_def)
  show ?thesis
    using st1 st2 r1 l1(2-4) g fields signed_message [OF cr(2) st2(2)]
    by (intro exI [of _ r1] exI [of _ "if smbSignConf (seConf e) then smbSign ?c (signingKey s2) r2 else r2"]
        exI [of _ ?s1] exI [of _ s2] exI [of _ sb] exI [of _ chal]) (simp add: Let_def)
qed


subsection \<open>Documents written to the print share\<close>

text \<open>The requests of a client: opening a file of a share, writing to it, closing it.\<close>

definition createRequest :: "smb2Header \<Rightarrow> bytes \<Rightarrow> bytes" where
  "createRequest h name =
     encodeHeader h @ le16 57 @ replicate 42 0 @ le16 120 @ le16 (of_nat (length (utf16le name))) @ replicate 8 0 @ utf16le name"

definition writeRequest :: "smb2Header \<Rightarrow> bytes \<Rightarrow> bytes \<Rightarrow> bytes" where
  "writeRequest h fid d =
     encodeHeader h @ le16 49 @ le16 112 @ le32 (of_nat (length d)) @ replicate 8 0 @ fid @ replicate 16 0 @ d"

definition closeRequest :: "smb2Header \<Rightarrow> bytes \<Rightarrow> bytes" where
  "closeRequest h fid = encodeHeader h @ le16 24 @ replicate 6 0 @ fid"

lemma requestFor_encoded: "wfHeader h \<Longrightarrow> hCommand h = c \<Longrightarrow> requestFor c (encodeHeader h @ b) = Some (h, Some h)"
  by (simp add: requestFor_def header_roundtrip')

lemma requestBody_encoded:
  "wfHeader h \<Longrightarrow> need \<le> length b \<Longrightarrow> get_le16 b 0 = Some sz \<Longrightarrow> requestBody sz need (encodeHeader h @ b) = Some (Some b)"
  by (simp add: requestBody_def slice_from_def)

lemma requestRange_encoded:
  assumes "wfHeader h" "64 \<le> off" "off + n \<le> 64 + length b" "take n (drop (off - 64) b) = x"
  shows "requestRange (encodeHeader h @ b) off n = Some (Some x)"
  using assms by (simp add: requestRange_def gslice_def)

lemma create_print_file:
  assumes "wfHeader h" "hCommand h = smb2Create" "printTrees s (hTreeId h)" "length fid = 16"
    and "validText name" "length (utf16le name) < 2 ^ 16" "\<not> is_prefix [0x5c] name"
  shows "\<exists>resp. handleCreate fid s (createRequest h name)
    = Some (s\<lparr>handles := (handles s)(fid \<mapsto> newPrintFile fid name)\<rparr>, resp, statusSuccess, True, [])"
proof -
  let ?n = "of_nat (length (utf16le name)) :: u16"
  define b where "b = le16 57 @ replicate 42 0 @ le16 120 @ le16 ?n @ replicate 8 0 @ utf16le name"
  have m: "createRequest h name = encodeHeader h @ b" by (simp add: createRequest_def b_def)
  have f: "get_le16 b 0 = Some 57" "get_le16 b 44 = Some 120" "get_le16 b 46 = Some ?n" unfolding b_def by (simp_all add: layout)
  have l: "length b = 56 + length (utf16le name)" by (simp add: b_def)
  have u: "unat ?n = length (utf16le name)" using assms(6) by (simp add: unat_of_nat)
  have d: "drop 56 b = utf16le name" by (simp add: b_def)
  have name: "parseUTF16LE (utf16le name) = name" using utf16le_roundtrip [OF assms(5)] by (simp add: parseUTF16LE_def utf16leDecode_def)
  have tp: "trimPrefix name [0x5c] = name" using assms(7) by (simp add: trimPrefix_def)
  have z: "?n = 0 \<longleftrightarrow> utf16le name = []" using u by (metis length_0_conv unat_0 unat_eq_zero)
  have nil: "name = []" if "utf16le name = []" using that name by (simp add: parseUTF16LE_def runesToString_def)
  have rr: "requestRange (encodeHeader h @ b) 120 (length (utf16le name)) = Some (Some (utf16le name))"
    using l d by (intro requestRange_encoded assms(1)) simp_all
  have mn: "(if 0 < ?n then requestRange (encodeHeader h @ b) (unat (120 :: u16)) (unat ?n) else Some (Some []))
      = Some (Some (utf16le name))"
    using rr z u by (auto simp: word_gt_0)
  have t0: "parseUTF16LE [] = []" by (simp add: parseUTF16LE_def runesToString_def)
  show ?thesis unfolding m handleCreate_def
    using requestFor_encoded [OF assms(1,2), of b] requestBody_encoded [OF assms(1) _ f(1), of 56] l
    by (simp add: f mn name tp assms(3) Let_def)
qed

lemma write_print_file:
  assumes "wfHeader h" "hCommand h = smb2Write" "handles s fid = Some ph" "phFileID ph = fid" "phPrintSpool ph"
    and "length fid = 16" "length d < 2 ^ 32"
  shows "\<exists>resp. handleWrite cap s (writeRequest h fid d)
    = Some (s\<lparr>handles := (handles s)(fid \<mapsto> ph\<lparr>phSpoolBuf := appendCapped (phSpoolBuf ph) d (int cap)\<rparr>)\<rparr>,
        resp, statusSuccess, True, [])"
proof -
  let ?n = "of_nat (length d) :: u32"
  define b where "b = le16 49 @ le16 112 @ le32 ?n @ replicate 8 0 @ fid @ replicate 16 0 @ d"
  have m: "writeRequest h fid d = encodeHeader h @ b" by (simp add: writeRequest_def b_def)
  have f: "get_le16 b 0 = Some 49" "get_le16 b 2 = Some 112" "get_le32 b 4 = Some ?n" unfolding b_def by (simp_all add: layout)
  have l: "length b = 48 + length d" using assms(6) by (simp add: b_def)
  have u: "unat ?n = length d" using assms(7) by (simp add: unat_of_nat)
  have lh: "lookupHandle s b 16 = Some (Some ph)"
    using assms(3,6) l by (simp add: lookupHandle_def) (simp add: b_def layout gslice_def)
  have g: "gslice (encodeHeader h @ b) 112 (112 + length d) = Some d"
    using assms(1,6) by (simp add: layout b_def)
  have w: "writeFile cap (sRemoteAddr s) ph d = Some (ph\<lparr>phSpoolBuf := appendCapped (phSpoolBuf ph) d (int cap)\<rparr>, [])"
    using assms(5) by (simp add: writeFile_def)
  show ?thesis unfolding m handleWrite_def
    using requestFor_encoded [OF assms(1,2), of b] requestBody_encoded [OF assms(1) _ f(1), of 48] l assms(1)
    by (simp add: f u lh g w assms(4))
qed

lemma close_print_file:
  assumes "wfHeader h" "hCommand h = smb2Close" "handles s fid = Some ph" "phFileID ph = fid" "length fid = 16"
  shows "\<exists>resp. handleClose s (closeRequest h fid)
    = Some (s\<lparr>handles := (handles s)(fid := None)\<rparr>, resp, statusSuccess, True, closedJob s ph)"
proof -
  define b where "b = le16 24 @ replicate 6 0 @ fid"
  have m: "closeRequest h fid = encodeHeader h @ b" by (simp add: closeRequest_def b_def)
  have f: "get_le16 b 0 = Some 24" unfolding b_def by (simp add: layout)
  have l: "length b = 24" using assms(5) by (simp add: b_def)
  have lh: "lookupHandle s b 8 = Some (Some ph)"
    using assms(3,5) l by (simp add: lookupHandle_def) (simp add: b_def layout gslice_def)
  show ?thesis unfolding m handleClose_def
    using requestFor_encoded [OF assms(1,2), of b] requestBody_encoded [OF assms(1) _ f, of 24] l
    by (simp add: lh assms(4))
qed

text \<open>A handled request on a share or file moves a run of the connection on.\<close>

definition plainFor :: "u16 \<Rightarrow> smb2Header \<Rightarrow> bool" where
  "plainFor c h \<longleftrightarrow> wfHeader h \<and> hCommand h = c \<and> hFlags h AND 0x08 = 0"

lemma run_extends:
  assumes "smbReach e (Open (Some s)) tr js" "aes_block_length (seCrypto e)" "plainFor c h" "f = encodeHeader h @ b"
    and "dispatchCommand e rn (Some s) h f = Some (Some (Some s1, resp, st, js'))" "message 150 resp"
    and "c \<noteq> smb2Negotiate" "c \<noteq> smb2SessionSetup"
  shows "smbReach e (Open (Some s1)) (tr @ [(rn, f)]) (js @ js')"
proof -
  have p: "parseSMB2Header f = Some (Some h)" using assms(3,4) header_roundtrip' by (simp add: plainFor_def)
  have a: "signatureAccepted (seCrypto e) (Some s) h f" using assms(3) by (simp add: signatureAccepted_def plainFor_def)
  obtain out where "smbStep e rn (Some s) f = Some (Next (Some s1) (Some out) js')"
    using plain_step [OF p a assms(5,6) _ assms(2)] assms(3,7,8) by (auto simp: Let_def foldPreauth_def plainFor_def)
  from smbReach.answered [OF assms(1) this] show ?thesis .
qed

lemma open_run:
  assumes "smbReach e (Open (Some s)) tr js" "aes_block_length (seCrypto e)" "authComplete s" "plainFor smb2Create h"
    and "printTrees s (hTreeId h)" "length (rnFid rn) = 16"
    and "validText name" "length (utf16le name) < 2 ^ 16" "\<not> is_prefix [0x5c] name"
  shows "smbReach e (Open (Some (s\<lparr>handles := (handles s)(rnFid rn \<mapsto> newPrintFile (rnFid rn) name)\<rparr>)))
    (tr @ [(rn, createRequest h name)]) js"
proof -
  have h: "wfHeader h" "hCommand h = smb2Create" using assms(4) by (simp_all add: plainFor_def)
  obtain resp where r: "handleCreate (rnFid rn) s (createRequest h name)
      = Some (s\<lparr>handles := (handles s)(rnFid rn \<mapsto> newPrintFile (rnFid rn) name)\<rparr>, resp, statusSuccess, True, [])"
    using create_print_file [OF h assms(5-9)] by blast
  have "smbReach e (Open (Some (s\<lparr>handles := (handles s)(rnFid rn \<mapsto> newPrintFile (rnFid rn) name)\<rparr>)))
    (tr @ [(rn, createRequest h name)]) (js @ [])"
    by (rule run_extends [OF assms(1,2,4) createRequest_def _ handlers_message(5) [OF r assms(6)]])
      (use assms(3) h(2) r in \<open>simp_all add: dispatchCommand_def authenticated_def\<close>)
  then show ?thesis by simp
qed

lemma writes_run:
  assumes "smbReach e (Open (Some s)) tr js" "aes_block_length (seCrypto e)" "authComplete s"
    and "\<forall>(rn, h, d)\<in>set ws. plainFor smb2Write h \<and> length d < 2 ^ 32"
    and "handles s fid = Some (ph\<lparr>phSpoolBuf := capped (seCap e) b\<rparr>)" "phFileID ph = fid" "phPrintSpool ph" "length fid = 16"
  shows "smbReach e (Open (Some (s\<lparr>handles := (handles s)(fid \<mapsto> ph\<lparr>phSpoolBuf := capped (seCap e) (b @ concat (map (\<lambda>(rn, h, d). d) ws))\<rparr>)\<rparr>)))
    (tr @ map (\<lambda>(rn, h, d). (rn, writeRequest h fid d)) ws) js"
  using assms
proof (induction ws arbitrary: s tr b)
  case Nil
  have "handles s = (handles s)(fid \<mapsto> ph\<lparr>phSpoolBuf := capped (seCap e) b\<rparr>)" using Nil.prems(5) by auto
  then show ?case using Nil.prems(1) by simp
next
  case (Cons w ws)
  obtain rn h d where w: "w = (rn, h, d)" by (cases w)
  have h: "plainFor smb2Write h" "wfHeader h" "hCommand h = smb2Write" "length d < 2 ^ 32"
    using Cons.prems(4) w by (simp_all add: plainFor_def)
  let ?s1 = "s\<lparr>handles := (handles s)(fid \<mapsto> ph\<lparr>phSpoolBuf := capped (seCap e) (b @ d)\<rparr>)\<rparr>"
  obtain resp where r: "handleWrite (seCap e) s (writeRequest h fid d) = Some (?s1, resp, statusSuccess, True, [])"
    using write_print_file [OF h(2,3) Cons.prems(5) _ _ Cons.prems(8) h(4), of "seCap e"] Cons.prems(6,7)
    by (auto simp: appendCapped_capped)
  have "smbReach e (Open (Some ?s1)) (tr @ [(rn, writeRequest h fid d)]) (js @ [])"
    by (rule run_extends [OF Cons.prems(1,2) h(1) writeRequest_def _ handlers_message(6) [OF r]])
      (use Cons.prems(3) h(3) r in \<open>simp_all add: dispatchCommand_def authenticated_def\<close>)
  then have "smbReach e (Open (Some ?s1)) (tr @ [(rn, writeRequest h fid d)]) js" by simp
  then have "smbReach e (Open (Some (?s1\<lparr>handles := (handles ?s1)(fid \<mapsto> ph\<lparr>phSpoolBuf := capped (seCap e) ((b @ d) @ concat (map (\<lambda>(rn, h, d). d) ws))\<rparr>)\<rparr>)))
    ((tr @ [(rn, writeRequest h fid d)]) @ map (\<lambda>(rn, h, d). (rn, writeRequest h fid d)) ws) js"
    using Cons.prems(2-8) by (intro Cons.IH) simp_all
  moreover have "?s1\<lparr>handles := (handles ?s1)(fid \<mapsto> y)\<rparr> = s\<lparr>handles := (handles s)(fid \<mapsto> y)\<rparr>" for y by simp
  ultimately show ?case by (simp only: w list.map concat.simps prod.case append_assoc append_Cons append_Nil)
qed

lemma document_run:
  assumes "smbReach e (Open (Some s)) tr js" "aes_block_length (seCrypto e)" "authComplete s"
    and "plainFor smb2Create h" "printTrees s (hTreeId h)" "length (rnFid rn) = 16"
    and "validText name" "length (utf16le name) < 2 ^ 16" "\<not> is_prefix [0x5c] name"
    and "\<forall>(rn, h, d)\<in>set ws. plainFor smb2Write h \<and> length d < 2 ^ 32" "plainFor smb2Close h'"
    and "capped (seCap e) (concat (map (\<lambda>(rn, h, d). d) ws)) = doc" "doc \<noteq> []"
  shows "smbReach e (Open (Some (s\<lparr>handles := (handles s)(rnFid rn := None)\<rparr>)))
    (tr @ [(rn, createRequest h name)] @ map (\<lambda>(rn', h, d). (rn', writeRequest h (rnFid rn) d)) ws
      @ [(rn'', closeRequest h' (rnFid rn))])
    (js @ [(newJob (str ''SMB'') (sRemoteAddr s))\<lparr>jobName := name, jobUser := sUser s, jobData := doc, jobBytes := length doc\<rparr>])"
proof -
  let ?fid = "rnFid rn" and ?ph = "newPrintFile (rnFid rn) name"
  have 1: "smbReach e (Open (Some (s\<lparr>handles := (handles s)(?fid \<mapsto> ?ph)\<rparr>))) (tr @ [(rn, createRequest h name)]) js"
    by (rule open_run [OF assms(1-9)])
  have ph: "phFileID ?ph = ?fid" "phPrintSpool ?ph" "?ph\<lparr>phSpoolBuf := capped (seCap e) []\<rparr> = ?ph" "phDocName ?ph = name"
    by (simp_all add: newPrintFile_def)
  let ?s2 = "s\<lparr>handles := (handles s)(?fid \<mapsto> ?ph\<lparr>phSpoolBuf := doc\<rparr>)\<rparr>"
  have 2: "smbReach e (Open (Some ?s2)) ((tr @ [(rn, createRequest h name)]) @ map (\<lambda>(rn', h, d). (rn', writeRequest h ?fid d)) ws) js"
    using writes_run [OF 1 assms(2) _ assms(10), where fid = ?fid and ph = ?ph and b = "[]"] ph assms(3,6,12) by simp
  have h': "wfHeader h'" "hCommand h' = smb2Close" using assms(11) by (simp_all add: plainFor_def)
  obtain resp where r: "handleClose ?s2 (closeRequest h' ?fid)
      = Some (?s2\<lparr>handles := (handles ?s2)(?fid := None)\<rparr>, resp, statusSuccess, True, closedJob ?s2 (?ph\<lparr>phSpoolBuf := doc\<rparr>))"
    using close_print_file [OF h', of ?s2 ?fid "?ph\<lparr>phSpoolBuf := doc\<rparr>"] ph(1) assms(6) by auto
  have "smbReach e (Open (Some (?s2\<lparr>handles := (handles ?s2)(?fid := None)\<rparr>)))
      (((tr @ [(rn, createRequest h name)]) @ map (\<lambda>(rn', h, d). (rn', writeRequest h ?fid d)) ws) @ [(rn'', closeRequest h' ?fid)])
      (js @ closedJob ?s2 (?ph\<lparr>phSpoolBuf := doc\<rparr>))"
    by (rule run_extends [OF 2 assms(2,11) closeRequest_def _ handlers_message(7) [OF r]])
      (use assms(3) h'(2) r in \<open>simp_all add: dispatchCommand_def authenticated_def\<close>)
  moreover have "closedJob ?s2 (?ph\<lparr>phSpoolBuf := doc\<rparr>)
      = [(newJob (str ''SMB'') (sRemoteAddr s))\<lparr>jobName := name, jobUser := sUser s, jobData := doc, jobBytes := length doc\<rparr>]"
    using assms(13) by (simp add: closedJob_def ph)
  ultimately show ?thesis by simp
qed


subsection \<open>Connecting to the print share\<close>

definition treeConnectRequest :: "smb2Header \<Rightarrow> bytes \<Rightarrow> bytes" where
  "treeConnectRequest h path =
     encodeHeader h @ le16 9 @ le16 0 @ le16 72 @ le16 (of_nat (length (utf16le path))) @ utf16le path"

lemma connect_print_share:
  assumes "wfHeader h" "hCommand h = smb2TreeConnect" "validText path" "length (utf16le path) < 2 ^ 16"
    and "equalFold (last (split1 0x5c path)) (smbShareName cfg)" "nextTreeID s = 0"
  shows "\<exists>resp. handleTreeConnect cfg s (treeConnectRequest h path)
    = Some (s\<lparr>nextTreeID := 1, trees := (trees s)(1 \<mapsto> path), printTrees := (printTrees s)(1 := True)\<rparr>,
        resp, statusSuccess, True, [])"
proof -
  let ?n = "of_nat (length (utf16le path)) :: u16"
  define b where "b = le16 9 @ le16 0 @ le16 72 @ le16 ?n @ utf16le path"
  have m: "treeConnectRequest h path = encodeHeader h @ b" by (simp add: treeConnectRequest_def b_def)
  have f: "get_le16 b 0 = Some 9" "get_le16 b 4 = Some 72" "get_le16 b 6 = Some ?n" unfolding b_def by (simp_all add: layout)
  have l: "length b = 8 + length (utf16le path)" by (simp add: b_def)
  have u: "unat ?n = length (utf16le path)" using assms(4) by (simp add: unat_of_nat)
  have d: "drop 8 b = utf16le path" by (simp add: b_def)
  have path: "parseUTF16LE (utf16le path) = path" using utf16le_roundtrip [OF assms(3)] by (simp add: parseUTF16LE_def utf16leDecode_def)
  have rr: "requestRange (encodeHeader h @ b) 72 (length (utf16le path)) = Some (Some (utf16le path))"
    using l d by (intro requestRange_encoded assms(1)) simp_all
  show ?thesis unfolding m handleTreeConnect_def
    using requestFor_encoded [OF assms(1,2), of b] requestBody_encoded [OF assms(1) _ f(1), of 8] l
    by (simp add: f u rr path assms(5,6) Let_def)
qed

lemma connect_run:
  assumes "smbReach e (Open (Some s)) tr js" "aes_block_length (seCrypto e)" "authComplete s" "plainFor smb2TreeConnect h"
    and "validText path" "length (utf16le path) < 2 ^ 16" "equalFold (last (split1 0x5c path)) (smbShareName (seConf e))" "nextTreeID s = 0"
  shows "smbReach e (Open (Some (s\<lparr>nextTreeID := 1, trees := (trees s)(1 \<mapsto> path), printTrees := (printTrees s)(1 := True)\<rparr>)))
    (tr @ [(rn, treeConnectRequest h path)]) js"
proof -
  have h: "wfHeader h" "hCommand h = smb2TreeConnect" using assms(4) by (simp_all add: plainFor_def)
  let ?s1 = "s\<lparr>nextTreeID := 1, trees := (trees s)(1 \<mapsto> path), printTrees := (printTrees s)(1 := True)\<rparr>"
  obtain resp where r: "handleTreeConnect (seConf e) s (treeConnectRequest h path) = Some (?s1, resp, statusSuccess, True, [])"
    using connect_print_share [OF h assms(5-8)] by blast
  have "smbReach e (Open (Some ?s1)) (tr @ [(rn, treeConnectRequest h path)]) (js @ [])"
    by (rule run_extends [OF assms(1,2,4) treeConnectRequest_def _ handlers_message(1) [OF r]])
      (use assms(3) h(2) r in \<open>simp_all add: dispatchCommand_def authenticated_def\<close>)
  then show ?thesis by simp
qed

subsection \<open>A connection begins with a negotiation\<close>

lemma negotiate_message:
  assumes "handleNegotiate guid salt req = Some (r, NegOK, True)" "length guid = 16" "length salt = 32"
  shows "message 150 r"
proof -
  have m: "message 150 (buildNegotiateResponse guid h d n c)" if "length c \<le> 80" for h d n c
    unfolding buildNegotiateResponse_def Let_def using that assms(2)
    by (auto intro!: messageI simp: wfHeader_def zeroHeader_def)
  have l: "length (fst (buildResponseContexts salt c)) \<le> 80" for c
    using assms(3) by (simp add: buildResponseContexts_def appendContext_def padZero_def Let_def)
  show ?thesis
    using assms(1) m l unfolding handleNegotiate_def
    by (auto split: option.splits if_splits bind_splits prod.splits) (metis fst_conv)+
qed

lemma negotiate_run:
  assumes "smbReach e (Open None) tr js" "aes_block_length (seCrypto e)" "parseSMB2Header f = Some (Some h)" "hCommand h = smb2Negotiate"
    and "handleNegotiate (seGuid e) (rnSalt rn) f = Some (r, NegOK, True)" "length (seGuid e) = 16" "length (rnSalt rn) = 32"
  shows "\<exists>s. smbReach e (Open (Some s)) (tr @ [(rn, f)]) js \<and> \<not> authComplete s \<and> \<not> guest s \<and> nextTreeID s = 0
    \<and> sRemoteAddr s = seRemote e \<and> serverChallenge s = [] \<and> handles s = Map.empty"
proof -
  obtain nr where "handleNegotiateResult f = Some nr" using handleNegotiateResult_returns [of f] by auto
  then obtain d c where d: "dispatchCommand e rn None h f
      = Some (Some (Some ((newSMBSession (rnSid rn))\<lparr>sDialect := d, sCipher := c, sRemoteAddr := seRemote e\<rparr>), r, 0, []))"
    using assms(4,5) by (cases nr) (auto simp: dispatchCommand_def)
  have a: "signatureAccepted (seCrypto e) None h f" by (simp add: signatureAccepted_def)
  obtain h' b where "smbStep e rn None f = Some (Next (Some (foldPreauth (seCrypto e) smb2Negotiate 0
        ((newSMBSession (rnSid rn))\<lparr>sDialect := d, sCipher := c, sRemoteAddr := seRemote e\<rparr>) f (encodeHeader h' @ b)))
        (Some (encodeHeader h' @ b)) [])"
    using plain_step [OF assms(3) a d negotiate_message [OF assms(5-7)] _ assms(2)] assms(4)
    by (auto simp: Let_def foldPreauth_def updatePreauth_def newSMBSession_def)
  from smbReach.answered [OF assms(1) this] show ?thesis
    by (intro exI conjI) (auto simp: foldPreauth_def updatePreauth_def newSMBSession_def)
qed

subsection \<open>An example connection\<close>

text \<open>A server that requires a login and signs, with one account; every block cipher output is a constant.\<close>

definition demoCrypto :: crypto where
  "demoCrypto = toyCrypto\<lparr>aesBlock := \<lambda>k x. replicate 16 0x80\<rparr>"

definition demoAccount :: smb_user where
  "demoAccount = \<lparr>suUser = str ''alice'', suPassword = str ''pw'', suDomain = str ''DOM''\<rparr>"

definition demoEnv :: smb_env where
  "demoEnv = \<lparr>seCrypto = demoCrypto, seUpper = (\<lambda>s. s),
     seConf = \<lparr>smbShareName = str ''PRINTER'', smbRequireAuth = True, smbSignConf = True, smbEncryptConf = False, smbUsers = [demoAccount]\<rparr>,
     seCap = 0, seRemote = str ''10.0.0.1'', seGuid = replicate 16 7\<rparr>"

definition demoRand :: smb_rand where
  "demoRand = \<lparr>rnSid = 1, rnSalt = replicate 32 1, rnChallenge = replicate 8 1, rnFid = replicate 16 2, rnNonce = replicate 12 0\<rparr>"

definition demoHeader :: "u16 \<Rightarrow> u32 \<Rightarrow> smb2Header" where
  "demoHeader c t = zeroHeader\<lparr>hCommand := c, hTreeId := t, hMessageId := 7\<rparr>"

lemma demo_laws: "digest_lengths (seCrypto demoEnv)" "aes_block_length (seCrypto demoEnv)"
  using toy_digest_lengths by (simp_all add: demoEnv_def demoCrypto_def digest_lengths_def aes_block_length_def)

lemma demo_plain: "plainFor c (demoHeader c t)"
  by (simp add: plainFor_def demoHeader_def wfHeader_def zeroHeader_def)

lemma demo_text [simp]:
  "validText (str ''DOM'')" "validText (str ''alice'')" "length (utf16le (str ''DOM'')) = 6" "length (utf16le (str ''alice'')) = 10"
  by (simp_all add: ascii_validText length_utf16le_ascii str_def)

lemma demo_account: "matchSMBUser (seConf demoEnv) (str ''alice'') = Some demoAccount"
  by (simp add: matchSMBUser_def demoEnv_def demoAccount_def)

lemma demo_hint: "length (ntlmTargetInfo (smbDomainHint (seConf demoEnv)) (str ''PRINTCAP'')) \<le> 60000"
proof -
  have "length (utf16le (str ''PRINTCAP'')) = 16" by (simp add: length_utf16le_ascii str_def)
  moreover have "smbDomainHint (seConf demoEnv) = str ''DOM''" by (simp add: smbDomainHint_def demoEnv_def demoAccount_def str_def)
  ultimately show ?thesis by (simp add: ntlmTargetInfo_def avPair_def)
qed

text \<open>The client's side of the login.\<close>

definition demoProof :: "bytes \<times> bytes" where
  "demoProof = ntlmv2Response demoCrypto (ntowfv2 demoCrypto (\<lambda>s. s) (str ''alice'') (str ''DOM'') (str ''pw'')) (replicate 8 1) [5, 6]"

definition demoLogin1 :: bytes where
  "demoLogin1 = buildSessionSetupRequest 1 (ntlmSignature @ le32 1 @ [])"

definition demoLogin2 :: bytes where
  "demoLogin2 = buildSessionSetupRequest 1 (buildAuthenticate (str ''DOM'') (str ''alice'') (fst demoProof @ [5, 6]))"

lemma demo_login:
  assumes "\<not> authComplete s0" "\<not> guest s0"
  shows "\<exists>r1 r2 s1 s2. smbStep demoEnv demoRand (Some s0) demoLogin1 = Some (Next (Some s1) (Some r1) [])
    \<and> smbStep demoEnv demoRand (Some s1) demoLogin2 = Some (Next (Some s2) (Some r2) [])
    \<and> authComplete s2 \<and> sUser s2 = str ''alice'' \<and> nextTreeID s2 = nextTreeID s0 \<and> smbVerifySign demoCrypto (signingKey s2) r2"
proof -
  have sg: "length (ntlmSignature @ le32 1 @ []) < 2 ^ 16" by (simp add: ntlmSignature_def)
  have ch: "length (rnChallenge demoRand) = 8" by (simp add: demoRand_def)
  have le: "80 + length [5, 6 :: byte] + length (utf16le (str ''DOM'')) + length (utf16le (str ''alice'')) < 2 ^ 16" by simp
  have pf: "ntlmv2Response (seCrypto demoEnv) (ntowfv2 (seCrypto demoEnv) (seUpper demoEnv) (suUser demoAccount) (suDomain demoAccount) (suPassword demoAccount))
        (rnChallenge demoRand) [5, 6] = (fst demoProof, snd demoProof)"
    by (simp add: demoProof_def demoEnv_def demoAccount_def demoRand_def)
  from login_run [OF demo_laws assms ch demo_hint refl sg demoLogin1_def demo_account demo_text(1,2) le pf demoLogin2_def, of demoRand]
  show ?thesis by (auto simp: demoEnv_def)
qed

text \<open>The frames of the example are what a server reads: short, with identifiers of sixteen bytes drawn.\<close>

definition shortFrames :: "(smb_rand \<times> bytes) list \<Rightarrow> bool" where
  "shortFrames tr \<longleftrightarrow> (\<forall>(rn, f)\<in>set tr. length (rnFid rn) = 16 \<and> length f \<le> 2 ^ 20)"

lemma shortFrames_simps [simp]:
  "shortFrames []" "shortFrames (tr @ tr') = (shortFrames tr \<and> shortFrames tr')"
  "shortFrames ((rn, f) # tr) = (length (rnFid rn) = 16 \<and> length f \<le> 2 ^ 20 \<and> shortFrames tr)"
  by (auto simp: shortFrames_def)

lemma demo_short: "length (rnFid demoRand) = 16" "length demoNegotiate \<le> 2 ^ 20" "length demoLogin1 \<le> 2 ^ 20" "length demoLogin2 \<le> 2 ^ 20"
proof -
  have p: "length (fst demoProof) = 16"
    by (simp add: demoProof_def ntlmv2Response_def demoCrypto_def toyCrypto_def)
  have z: "wfHeader (zeroHeader\<lparr>hCommand := c, hSessionId := i\<rparr>)" "wfHeader zeroHeader" for c i by (simp_all add: wfHeader_def zeroHeader_def)
  show "length (rnFid demoRand) = 16" by (simp add: demoRand_def)
  show "length demoNegotiate \<le> 2 ^ 20" "length demoLogin1 \<le> 2 ^ 20"
    using z by (simp_all add: demoNegotiate_def demoLogin1_def buildSessionSetupRequest_def ntlmSignature_def)
  show "length demoLogin2 \<le> 2 ^ 20"
    using z p by (simp add: demoLogin2_def buildSessionSetupRequest_def buildAuthenticate_parts ntlmSignature_def)
qed

lemma demo_connected:
  "\<exists>s tr. smbReach demoEnv (Open (Some s)) tr [] \<and> authComplete s \<and> printTrees s 1 \<and> sUser s = str ''alice'' \<and> shortFrames tr"
proof -
  have n: "parseSMB2Header demoNegotiate = Some (Some zeroHeader)"
    unfolding demoNegotiate_def by (rule header_roundtrip') (simp add: wfHeader_def zeroHeader_def)
  have g: "seGuid demoEnv = replicate 16 7" "rnSalt demoRand = replicate 32 1" by (simp_all add: demoEnv_def demoRand_def)
  obtain r where "handleNegotiate (seGuid demoEnv) (rnSalt demoRand) demoNegotiate = Some (r, NegOK, True)"
    using demo_negotiated unfolding g by blast
  from negotiate_run [OF smbReach.accepted demo_laws(2) n _ this]
  obtain s0 where s0: "smbReach demoEnv (Open (Some s0)) [(demoRand, demoNegotiate)] []" "\<not> authComplete s0" "\<not> guest s0" "nextTreeID s0 = 0"
    using g by (auto simp: zeroHeader_def)
  obtain r1 r2 s1 s2 where l: "smbStep demoEnv demoRand (Some s0) demoLogin1 = Some (Next (Some s1) (Some r1) [])"
    "smbStep demoEnv demoRand (Some s1) demoLogin2 = Some (Next (Some s2) (Some r2) [])"
    "authComplete s2" "sUser s2 = str ''alice''" "nextTreeID s2 = 0"
    using demo_login [OF s0(2,3)] s0(4) by metis
  note s2 = smbReach.answered [OF smbReach.answered [OF s0(1) l(1)] l(2), simplified]
  let ?p = "[0x5c, 0x5c] @ str ''S'' @ [0x5c] @ str ''PRINTER''"
  have a: "list_all (\<lambda>b. unat b < 128) ?p" by (simp add: str_def)
  have sh: "equalFold (last (split1 0x5c ?p)) (smbShareName (seConf demoEnv))" by (simp add: demoEnv_def str_def)
  have lp: "length (utf16le ?p) < 2 ^ 16" using length_utf16le_ascii [OF a] by (simp add: str_def)
  from connect_run [OF s2 demo_laws(2) l(3) demo_plain [of smb2TreeConnect 0] ascii_validText [OF a] lp sh l(5), of demoRand]
  moreover have "length (treeConnectRequest (demoHeader smb2TreeConnect 0) ?p) \<le> 2 ^ 20"
    using lp demo_plain [of smb2TreeConnect 0] by (simp add: treeConnectRequest_def plainFor_def)
  ultimately show ?thesis using l(3,4) demo_short by (intro exI conjI) (assumption, simp_all)
qed

lemma demo_document:
  "\<exists>s tr. smbReach demoEnv (Open (Some s)) tr [(newJob (str ''SMB'') (sRemoteAddr s))
     \<lparr>jobName := str ''a'', jobUser := str ''alice'', jobData := [1, 2, 3], jobBytes := 3\<rparr>] \<and> shortFrames tr"
proof -
  obtain s tr where s: "smbReach demoEnv (Open (Some s)) tr []" "authComplete s" "printTrees s 1" "sUser s = str ''alice''" "shortFrames tr"
    using demo_connected by blast
  have h: "wfHeader (demoHeader c 1)" for c using demo_plain [of c 1] by (simp add: plainFor_def)
  let ?ws = "[(demoRand, demoHeader smb2Write 1, [1, 2]), (demoRand, demoHeader smb2Write 1, [3])]"
  have t: "printTrees s (hTreeId (demoHeader smb2Create 1))" using s(3) by (simp add: demoHeader_def)
  have f: "length (rnFid demoRand) = 16" by (simp add: demoRand_def)
  have n: "validText (str ''a'')" "length (utf16le (str ''a'')) < 2 ^ 16" "\<not> is_prefix [0x5c] (str ''a'')"
    by (simp_all add: ascii_validText length_utf16le_ascii str_def)
  have ws: "\<forall>(rn, h, d)\<in>set ?ws. plainFor smb2Write h \<and> length d < 2 ^ 32" using demo_plain by simp
  have d: "capped (seCap demoEnv) (concat (map (\<lambda>(rn, h, d). d) ?ws)) = [1, 2, 3]" by (simp add: demoEnv_def)
  from document_run [OF s(1) demo_laws(2) s(2) demo_plain [of smb2Create 1] t f n ws demo_plain [of smb2Close 1] d, of demoRand] s(4,5) demo_short(1) h n(2)
  show ?thesis by (intro exI [of _ "s\<lparr>handles := (handles s)(rnFid demoRand := None)\<rparr>"]) (simp add: numeral_3_eq_3, intro exI conjI, assumption,
      simp add: createRequest_def writeRequest_def closeRequest_def)
qed

definition demoFlush :: bytes where
  "demoFlush = encodeHeader (demoHeader smb2Flush 1)"




subsection \<open>The largest write\<close>

text \<open>C36: The server advertises writes of up to one megabyte but reads frames of at most one megabyte,
  the headers included: a client that writes as much as it was allowed to loses the connection.\<close>

theorem largest_write_refused:
  assumes "length g = 16" "wfHeader h" "length fid = 16" "length d = 2 ^ 20"
  shows "get_le32 (buildNegotiateResponse g h0 dl n c) 100 = Some (of_nat (length d))
    \<and> (\<exists>w. writeTCPFrame (writeRequest h fid d) = Some w \<and> (\<forall>rest. handleSMBConn e rn k s (w @ rest) = Some ([], [])))"
proof -
  have adv: "get_le32 (buildNegotiateResponse g h0 dl n c) 100 = Some (of_nat (length d))"
    using assms(1,4) by (simp add: get_le_Some buildNegotiateResponse_def negotiateBody_def wfHeader_def zeroHeader_def padZero_def Let_def layout)
  have l: "length (writeRequest h fid d) = 2 ^ 20 + 112" using assms(2-4) by (simp add: writeRequest_def)
  then have "length (writeRequest h fid d) < 2 ^ 24" by simp
  note f = frameLen_bytes [OF this]
  obtain w where w: "writeTCPFrame (writeRequest h fid d) = Some w" using l by (simp add: writeTCPFrame_def Let_def)
  have "readTCPFrame (w @ rest) = None" for rest
    using w l f by (auto simp: writeTCPFrame_def Let_def)
  then show ?thesis using adv w by (simp add: handleSMBConn.simps)
qed
theorem largest_write_refused_witness:
  "\<exists>w. writeTCPFrame (writeRequest (demoHeader smb2Write 1) (replicate 16 2) (replicate (2 ^ 20) 5)) = Some w
    \<and> handleSMBConn demoEnv (\<lambda>_. demoRand) 0 (Some (newSMBSession 1)) (w @ [0, 0, 0, 0]) = Some ([], [])"
proof -
  have h: "wfHeader (demoHeader smb2Write 1)" using demo_plain [of smb2Write 1] by (simp add: plainFor_def)
  have l: "length (replicate 16 x) = 16" "length (replicate (2 ^ 20) y) = 2 ^ 20" for x y :: byte by simp_all
  from largest_write_refused [OF l(1) h l(1) l(2)] show ?thesis by fast
qed

subsection \<open>Without a login nothing is captured\<close>

text \<open>C7: Where a login is required, only a client that logged in captures a job. Whatever messages a
  client sends on a connection, in whatever order and over whatever renegotiations, if a job has been
  captured (or the connection counts as logged in), then one of the frames of that connection was
  accepted as proof of the password of a configured account, for a challenge issued on this very
  connection or, where the first leg was skipped, for the empty challenge.\<close>

theorem only_logged_in_clients_capture:
  assumes "smbReach e c tr js" "smbRequireAuth (seConf e)"
    and "js \<noteq> [] \<or> (\<exists>s. c = Open (Some s) \<and> authComplete s)"
  shows "\<exists>(rn, f)\<in>set tr. \<exists>sc\<in>challengesIn tr. provedBy (seCrypto e) (seUpper e) (seConf e) sc f"
  using reach_auth [OF assms(1,2)] assms(3) by (auto simp: authInv_def loginIn_def)

theorem only_logged_in_clients_capture_witness:
  "\<exists>s tr js. smbReach demoEnv (Open (Some s)) tr js \<and> js \<noteq> []
    \<and> (\<exists>(rn, f)\<in>set tr. \<exists>sc\<in>challengesIn tr. provedBy (seCrypto demoEnv) (seUpper demoEnv) (seConf demoEnv) sc f)"
proof -
  obtain s tr js where r: "smbReach demoEnv (Open (Some s)) tr js" "js \<noteq> []" using demo_document by blast
  have "smbRequireAuth (seConf demoEnv)" by (simp add: demoEnv_def)
  from only_logged_in_clients_capture [OF r(1) this disjI1 [OF r(2)]] r show ?thesis by blast
qed

end
