(* ===== verification/Smb_Memory.thy ===== *)
theory Smb_Memory
  imports Smb_Run
begin

text \<open>
  What a client can make an SMB connection keep. Every open file is well formed (of one of its two kinds,
  stored under its own identifier) and holds a bounded amount of data, except that the answers of a pipe
  no one reads pile up with the number of writes.
\<close>

definition fileOK :: "nat \<Rightarrow> nat \<Rightarrow> bytes \<Rightarrow> pipeHandle \<Rightarrow> bool" where
  "fileOK cap n fid h \<longleftrightarrow> phFileID h = fid \<and> length fid = 16
     \<and> (phPrintSpool h \<longleftrightarrow> phBackend h = None)
     \<and> length (phReadBuf h) \<le> n
     \<and> (0 < cap \<longrightarrow> length (phSpoolBuf h) \<le> cap)
     \<and> (case phBackend h of None \<Rightarrow> True
        | Some (rpc, sj) \<Rightarrow> length (reasm rpc) \<le> reasmMax \<and> (0 < cap \<longrightarrow> length (spBuf sj) \<le> cap))"

definition filesOK :: "nat \<Rightarrow> nat \<Rightarrow> smbSession \<Rightarrow> bool" where
  "filesOK cap n s \<longleftrightarrow> (\<forall>fid h. handles s fid = Some h \<longrightarrow> fileOK cap n fid h)"

definition jobsOK :: "nat \<Rightarrow> job list \<Rightarrow> bool" where
  "jobsOK cap js \<longleftrightarrow> (\<forall>j\<in>set js. jobBytes j = length (jobData j) \<and> (0 < cap \<longrightarrow> length (jobData j) \<le> cap))"

lemma filesOK_mono: "filesOK cap n s \<Longrightarrow> n \<le> m \<Longrightarrow> filesOK cap m s"
  unfolding filesOK_def fileOK_def by (meson le_trans)

lemma jobsOK_append [simp]: "jobsOK cap (js @ js') = (jobsOK cap js \<and> jobsOK cap js')" "jobsOK cap []"
  by (auto simp: jobsOK_def)

lemma appendCapped_bounded: "0 < cap \<Longrightarrow> length d \<le> cap \<Longrightarrow> length (appendCapped d s (int cap)) \<le> cap"
  by (auto simp: appendCapped_def Let_def)

text \<open>The spooler keeps one document, up to the cap, and captures it as a whole.\<close>

lemma spoolss_keeps:
  assumes "realSpoolssDispatcher cap remote op stub st = (st', r)"
    and "(0 < cap \<longrightarrow> length (spBuf (fst st)) \<le> cap) \<and> jobsOK cap (snd st)"
  shows "(0 < cap \<longrightarrow> length (spBuf (fst st')) \<le> cap) \<and> jobsOK cap (snd st')"
  using assms appendCapped_bounded [of cap "spBuf (fst st)"]
  by (auto simp: realSpoolssDispatcher_def noDoc_def spoolssCapture_def newJob_def jobsOK_def
      split: prod.splits if_splits option.splits)

lemma writeFile_keeps:
  assumes "writeFile cap r h d = Some (h', js)" "fileOK cap n fid h" "length d \<le> reasmMax"
  shows "fileOK cap (n + 72) fid h' \<and> jobsOK cap js"
proof (cases "phPrintSpool h")
  case True
  then show ?thesis using assms appendCapped_bounded [of cap "phSpoolBuf h" d] by (auto simp: writeFile_def fileOK_def)
next
  case False
  obtain rpc sj where b: "phBackend h = Some (rpc, sj)" using False assms(2) by (auto simp: fileOK_def)
  obtain rpc' sj' out where w: "onWrite (Some (realSpoolssDispatcher cap r)) (rpc, (sj, [])) d = Some ((rpc', (sj', js)), out)"
    and h': "h' = h\<lparr>phBackend := Some (rpc', sj'), phReadBuf := phReadBuf h @ (case out of None \<Rightarrow> [] | Some r \<Rightarrow> r)\<rparr>"
    using assms(1) False b by (auto simp: writeFile_def split: bind_splits)
  have i: "length (reasm rpc) \<le> reasmMax" "0 < cap \<longrightarrow> length (spBuf sj) \<le> cap" "length (phReadBuf h) \<le> n"
    using assms(2) b by (auto simp: fileOK_def)
  have "length (reasm rpc') \<le> reasmMax" using onWrite_bounded [OF w _ assms(3)] i(1) by (simp add: reasmBounded_def)
  moreover have "(0 < cap \<longrightarrow> length (spBuf (fst (sj', js))) \<le> cap) \<and> jobsOK cap (snd (sj', js))"
    by (rule onWrite_state [OF w _ spoolss_keeps]) (use i in auto)
  moreover have "length (case out of None \<Rightarrow> [] | Some r \<Rightarrow> r) \<le> 72"
    using onWrite_answer [of "realSpoolssDispatcher cap r" rpc "(sj, [])" d rpc' "(sj', js)"] w spoolss_short_response
    by (cases out) fastforce+
  ultimately show ?thesis using assms(2) False i(3) by (auto simp: fileOK_def h')
qed

lemma closedJob_keeps: "fileOK cap n fid h \<Longrightarrow> jobsOK cap (closedJob s h)"
  by (auto simp: closedJob_def fileOK_def jobsOK_def newJob_def)

lemma filesOK_update:
  assumes "filesOK cap n s" "n \<le> m" "handles s' = (handles s)(fid \<mapsto> h)" "fileOK cap m fid h"
  shows "filesOK cap m s'"
  using filesOK_mono [OF assms(1,2)] assms(3,4) by (auto simp: filesOK_def)

lemma lookup_file: "lookupHandle s body off = Some (Some h) \<Longrightarrow> filesOK cap n s \<Longrightarrow> fileOK cap n (phFileID h) h"
  by (auto simp: lookupHandle_def filesOK_def fileOK_def split: if_splits bind_splits)

lemma handlers_keep:
  assumes "filesOK cap n s"
  shows "handleTreeConnect cfg s req = Some (s', r, st, ok, js) \<Longrightarrow> filesOK cap (n + 72) s' \<and> jobsOK cap js"
    "handleTreeDisconnect s req = Some (s', r, st, ok, js) \<Longrightarrow> filesOK cap (n + 72) s' \<and> jobsOK cap js"
    "handleLogoff s req = Some (s', r, st, ok, js) \<Longrightarrow> filesOK cap (n + 72) s' \<and> jobsOK cap js"
    "handleFlush s req = Some (s', r, st, ok, js) \<Longrightarrow> filesOK cap (n + 72) s' \<and> jobsOK cap js"
    "handleCreate fid s req = Some (s', r, st, ok, js) \<Longrightarrow> length fid = 16 \<Longrightarrow> filesOK cap (n + 72) s' \<and> jobsOK cap js"
    "handleRead s req = Some (s', r, st, ok, js) \<Longrightarrow> filesOK cap (n + 72) s' \<and> jobsOK cap js"
    "handleClose s req = Some (s', r, st, ok, js) \<Longrightarrow> filesOK cap (n + 72) s' \<and> jobsOK cap js"
proof -
  note k = filesOK_mono [OF assms, of "n + 72"]
  have same: "filesOK cap (n + 72) s1" if "handles s1 = handles s" for s1
    using k that by (simp add: filesOK_def)
  have gone: "filesOK cap (n + 72) s1" if "handles s1 = (handles s)(fid := None)" for s1 fid
    using k that by (auto simp: filesOK_def)
  note up = filesOK_update [OF assms, of "n + 72"]
  have read: "fileOK cap (n + 72) (phFileID h) (h\<lparr>phReadBuf := drop m (phReadBuf h)\<rparr>)"
    if "lookupHandle s b o' = Some (Some h)" for h m b o'
    using lookup_file [OF that assms] by (auto simp: fileOK_def)
  have new: "length f = 16 \<Longrightarrow> fileOK cap (n + 72) f (newPrintFile f nm)" "length f = 16 \<Longrightarrow> fileOK cap (n + 72) f (newPipe f)" for f nm
    by (auto simp: fileOK_def newPrintFile_def newPipe_def newDcerpc_def noDoc_def)
  show "handleTreeConnect cfg s req = Some (s', r, st, ok, js) \<Longrightarrow> filesOK cap (n + 72) s' \<and> jobsOK cap js"
    "handleTreeDisconnect s req = Some (s', r, st, ok, js) \<Longrightarrow> filesOK cap (n + 72) s' \<and> jobsOK cap js"
    "handleLogoff s req = Some (s', r, st, ok, js) \<Longrightarrow> filesOK cap (n + 72) s' \<and> jobsOK cap js"
    "handleFlush s req = Some (s', r, st, ok, js) \<Longrightarrow> filesOK cap (n + 72) s' \<and> jobsOK cap js"
    unfolding handleTreeConnect_def handleTreeDisconnect_def handleLogoff_def handleFlush_def Let_def
    by (auto simp: refuse_def same split: if_splits option.splits bind_splits prod.splits)
  show "handleCreate fid s req = Some (s', r, st, ok, js) \<Longrightarrow> length fid = 16 \<Longrightarrow> filesOK cap (n + 72) s' \<and> jobsOK cap js"
    unfolding handleCreate_def Let_def
    by (auto simp: refuse_def intro: same up new split: if_splits option.splits bind_splits prod.splits)
  show "handleRead s req = Some (s', r, st, ok, js) \<Longrightarrow> filesOK cap (n + 72) s' \<and> jobsOK cap js"
    unfolding handleRead_def Let_def
    by (auto simp: refuse_def intro: same up [OF _ _ read] split: if_splits option.splits bind_splits prod.splits)
  show "handleClose s req = Some (s', r, st, ok, js) \<Longrightarrow> filesOK cap (n + 72) s' \<and> jobsOK cap js"
    unfolding handleClose_def Let_def
    by (auto simp: refuse_def intro: same gone closedJob_keeps [OF lookup_file [OF _ assms]]
        split: if_splits option.splits bind_splits prod.splits)
qed

lemma handleWrite_cases:
  assumes "handleWrite cap s req = Some (s', r, st, ok, js)"
  shows "s' = s \<and> js = [] \<or> (\<exists>body h h' d. lookupHandle s body 16 = Some (Some h) \<and> length d \<le> length req
    \<and> writeFile cap (sRemoteAddr s) h d = Some (h', js) \<and> s' = s\<lparr>handles := (handles s)(phFileID h \<mapsto> h')\<rparr>)"
  using assms unfolding handleWrite_def Let_def
  by (auto simp: refuse_def split: if_splits option.splits bind_splits prod.splits) (fastforce intro!: exI)+

lemma handleWrite_keeps:
  assumes "filesOK cap n s" "handleWrite cap s req = Some (s', r, st, ok, js)" "length req \<le> reasmMax"
  shows "filesOK cap (n + 72) s' \<and> jobsOK cap js"
  using handleWrite_cases [OF assms(2)]
proof
  assume "s' = s \<and> js = []"
  then show ?thesis using filesOK_mono [OF assms(1)] by simp
next
  assume "\<exists>body h h' d. lookupHandle s body 16 = Some (Some h) \<and> length d \<le> length req
    \<and> writeFile cap (sRemoteAddr s) h d = Some (h', js) \<and> s' = s\<lparr>handles := (handles s)(phFileID h \<mapsto> h')\<rparr>"
  then obtain body h h' d where w: "lookupHandle s body 16 = Some (Some h)" "length d \<le> length req"
    "writeFile cap (sRemoteAddr s) h d = Some (h', js)" "s' = s\<lparr>handles := (handles s)(phFileID h \<mapsto> h')\<rparr>" by blast
  have "length d \<le> reasmMax" using w(2) assms(3) by simp
  from writeFile_keeps [OF w(3) lookup_file [OF w(1) assms(1)] this]
  show ?thesis using filesOK_update [OF assms(1), of "n + 72" s' "phFileID h" h'] w(4) by simp
qed

subsection \<open>A step of the connection\<close>

lemma setup_keeps:
  "handleSessionSetup cr up cfg ch s req = Some (s', r, st, d) \<Longrightarrow> handles s' = handles s"
  using handleSessionSetup_cases by blast

lemma dispatch_keeps:
  assumes "dispatchCommand e rn (Some s) hdr msg = Some (Some (ms, resp, st, js))" "filesOK (seCap e) n s"
    and "length msg \<le> reasmMax" "length (rnFid rn) = 16"
  shows "(case ms of None \<Rightarrow> True | Some s' \<Rightarrow> filesOK (seCap e) (n + 72) s') \<and> jobsOK (seCap e) js"
proof -
  have new: "filesOK (seCap e) (n + 72) ((newSMBSession i)\<lparr>sDialect := d, sCipher := c, sRemoteAddr := r\<rparr>)" for i d c r
    by (simp add: filesOK_def newSMBSession_def)
  have same: "filesOK (seCap e) (n + 72) s1" if "handles s1 = handles s" for s1
    using filesOK_mono [OF assms(2), of "n + 72"] that by (simp add: filesOK_def)
  have upd: "handles (updatePreauth cr s m) = handles s" for cr m by (simp add: updatePreauth_def)
  have a: "\<exists>s' ok. ms = Some s' \<and> g s = Some (s', resp, st, ok, js)"
    if "authenticated (Some s) g = Some (Some (ms, resp, st, js))" for g
    using that by (auto simp: authenticated_def split: if_splits bind_splits)
  show ?thesis
    using assms(1) unfolding dispatchCommand_def
    by (auto split: if_splits bind_splits prod.splits dest!: a setup_keeps
        dest: handlers_keep [OF assms(2)] handleWrite_keeps [OF assms(2) _ assms(3)]
        intro: new same simp: upd assms(4))
qed

lemma unwrapped_length:
  assumes "unwrapFrame cr s f = Some (m, enc)" "\<forall>k n x a p. gcmOpen cr k n x a = Some p \<longrightarrow> length p \<le> length x"
  shows "length m \<le> length f"
proof -
  have "length p \<le> length f" if "smbDecrypt cr k f = Some p" for k p
  proof -
    define x where "x = drop transformHeaderSize f @ take 16 (drop 4 (take transformHeaderSize f))"
    have "transformHeaderSize \<le> length f \<and> (\<exists>n a. gcmOpen cr k n x a = Some p)"
      using that unfolding smbDecrypt_def Let_def x_def [symmetric] by (auto split: if_splits)
    then have "length p \<le> length x" and l: "transformHeaderSize \<le> length f" using assms(2) by blast+
    then show ?thesis using l by (simp add: x_def)
  qed
  then show ?thesis using assms(1) by (auto simp: unwrapFrame_def split: if_splits option.splits)
qed

lemma step_keeps:
  assumes "smbStep e rn s f = Some r" "length f \<le> reasmMax" "length (rnFid rn) = 16"
    and "\<forall>k n x a p. gcmOpen (seCrypto e) k n x a = Some p \<longrightarrow> length p \<le> length x"
    and "case s of None \<Rightarrow> True | Some s' \<Rightarrow> filesOK (seCap e) n s'"
  shows "case r of Closed js \<Rightarrow> jobsOK (seCap e) js
    | Next s' out js \<Rightarrow> (case s' of None \<Rightarrow> True | Some s1 \<Rightarrow> filesOK (seCap e) (n + 72) s1) \<and> jobsOK (seCap e) js"
  using smbStep_cases [OF assms(1)]
proof (elim disjE exE conjE)
  fix msg enc hdr ms resp st js
  assume u: "unwrapFrame (seCrypto e) s f = Some (msg, enc)"
    and d: "dispatchCommand e rn s hdr msg = Some (Some (ms, resp, st, js))"
  have l: "length msg \<le> reasmMax" using unwrapped_length [OF u assms(4)] assms(2) by simp
  have fold: "filesOK cap m (foldPreauth cr c st s' q rp) = filesOK cap m s'" for cap m cr c st s' q rp
    by (simp add: foldPreauth_def updatePreauth_def filesOK_def)
  have k: "(case ms of None \<Rightarrow> True | Some s1 \<Rightarrow> filesOK (seCap e) (n + 72) s1) \<and> jobsOK (seCap e) js"
  proof (cases s)
    case None
    then show ?thesis using d
      by (auto simp: dispatchCommand_def authenticated_def filesOK_def newSMBSession_def split: if_splits bind_splits prod.splits option.splits)
  next
    case (Some s')
    then show ?thesis using dispatch_keeps [OF d [unfolded Some] _ l assms(3)] assms(5) by simp
  qed
  { assume "r = Closed js" then show ?thesis using k by simp }
  fix ms' out
  assume r: "r = Next ms' out js"
  { assume "ms' = ms" then show ?thesis using r k by simp }
  { assume "ms' = map_option (\<lambda>s'. foldPreauth (seCrypto e) (hCommand hdr) st s' msg (patchResponseHeader resp hdr ms)) ms"
    then show ?thesis using r k by (cases ms) (simp_all add: fold) }
qed simp

lemma reach_keeps:
  assumes "smbReach e c tr js" "\<forall>(rn, f)\<in>set tr. length (rnFid rn) = 16 \<and> length f \<le> 2 ^ 20"
    and "\<forall>k n x a p. gcmOpen (seCrypto e) k n x a = Some p \<longrightarrow> length p \<le> length x"
  shows "(case c of Open (Some s) \<Rightarrow> filesOK (seCap e) (72 * length tr) s | _ \<Rightarrow> True) \<and> jobsOK (seCap e) js"
  using assms(1,2)
proof (induction rule: smbReach.induct)
  case accepted
  then show ?case by simp
next
  case (answered s tr js rn f s' out js')
  have "length f \<le> reasmMax" "length (rnFid rn) = 16" using answered.prems by auto
  with step_keeps [OF answered.hyps(2) _ _ assms(3), of "72 * length tr"] answered.IH answered.prems
  show ?case by (cases s; cases s') (auto simp: add.commute)
next
  case (closed s tr js rn f js')
  have "length f \<le> reasmMax" "length (rnFid rn) = 16" using closed.prems by auto
  with step_keeps [OF closed.hyps(2) _ _ assms(3), of "72 * length tr"] closed.IH closed.prems
  show ?case by (cases s) auto
qed

text \<open>C38: The files of an SMB connection stay well formed and bounded. Whatever frames of readable size
  a client sends, every file it has open is stored under its own sixteen-byte identifier and is either a
  file of the print share, whose spool never exceeds the cap on a job, or the spooler pipe, which never
  holds more than four megabytes of a fragmented request nor a document over the cap; only the answers no
  one reads grow, by at most 72 bytes a frame. Every job captured on the connection counts its bytes
  truly and respects the cap. Of the AES-GCM library only that decryption does not lengthen is used.\<close>

theorem open_files_well_formed:
  assumes "smbReach e c tr js" "\<forall>(rn, f)\<in>set tr. length (rnFid rn) = 16 \<and> length f \<le> 2 ^ 20"
    and "\<forall>k n x a p. gcmOpen (seCrypto e) k n x a = Some p \<longrightarrow> length p \<le> length x"
  shows "(\<forall>s. c = Open (Some s) \<longrightarrow> filesOK (seCap e) (72 * length tr) s) \<and> jobsOK (seCap e) js"
  using reach_keeps [OF assms] by auto

theorem open_files_well_formed_witness:
  "\<exists>s tr js. smbReach demoEnv (Open (Some s)) tr js \<and> js \<noteq> [] \<and> filesOK 0 (72 * length tr) s \<and> jobsOK 0 js"
proof -
  obtain s tr js where r: "smbReach demoEnv (Open (Some s)) tr js" "js \<noteq> []" "shortFrames tr" using demo_document by blast
  have g: "\<forall>k n x a p. gcmOpen (seCrypto demoEnv) k n x a = Some p \<longrightarrow> length p \<le> length x"
    by (auto simp: demoEnv_def demoCrypto_def toyCrypto_def split: if_splits)
  have c: "seCap demoEnv = 0" by (simp add: demoEnv_def)
  from open_files_well_formed [OF r(1) r(3) [unfolded shortFrames_def] g] r(1,2)
  show ?thesis unfolding c by blast
qed

end
