(* ===== verification/Engine.thy ===== *)
theory Engine
  imports Mdns
begin

text \<open>
  The engine (\<^verbatim>\<open>engine.go\<close>): starting and stopping every listener, and the status the dashboard shows.
  What the operating system and the other modules answer when they are asked to open something is an
  environment; the text of a bind failure is left out, only the listener it is about is kept.
\<close>

subsection \<open>Configuration and environment\<close>

record ports_conf =
  poRaw9100 :: int
  poLPR :: int
  poIPP :: int
  poIPPS :: int
  poAutoTLS :: int
  poDashboard :: int
  poSNMP :: int

record engine_conf =
  ecPorts :: ports_conf
  ecExtraPorts :: "int list"
  ecForward :: bool
  ecSNMP :: bool
  ecDashboard :: bool
  ecSMB :: bool
  ecSMBPort :: int
  ecWSD :: bool
  ecWSDPort :: int
  ecIntercept :: bool
  ecMDNS :: bool
  ecAirPrint :: bool
  ecPrinter :: printer_conf
  ecMdnsConf :: mdns_conf
  ecInstance :: bytes

text \<open>What \<^verbatim>\<open>Close\<close> is called on: the resources the engine opened.\<close>

datatype closer =
    Forwarding
  | TcpListener bytes int
  | HttpServer bytes int
  | PacketConn int
  | WsdService int
  | Interceptor
  | Responder

text \<open>The ports no other program holds, and whether each module can be built.\<close>

record 'f engine_env =
  tcpFree :: "int \<Rightarrow> bool"
  udpFree :: "int \<Rightarrow> bool"
  storageOK :: bool
  newForwarder :: "'f option"
  tlsOK :: bool
  interceptOK :: bool
  responderOK :: bool

subsection \<open>State\<close>

text \<open>\<open>held\<close> is not a variable of the program: it is what the process really holds, which the
  theorems below compare with what the engine knows of.\<close>

record 'f engine =
  running :: bool
  closers :: "closer list"
  active :: "bytes list"
  failures :: "bytes list"
  forwarder :: "'f option"
  interceptModule :: bool
  held :: "closer list"

definition newEngine :: "'f engine" where
  "newEngine = \<lparr>running = False, closers = [], active = [], failures = [], forwarder = None,
     interceptModule = False, held = []\<rparr>"

fun tcpPort :: "closer \<Rightarrow> int option" where
  "tcpPort (TcpListener n p) = Some p"
| "tcpPort (HttpServer n p) = Some p"
| "tcpPort (WsdService p) = (if p = 0 then None else Some p)"
| "tcpPort _ = None"

text \<open>A bind succeeds on a port that nobody holds, this process included.\<close>

definition canBind :: "'f engine_env \<Rightarrow> 'f engine \<Rightarrow> int \<Rightarrow> bool" where
  "canBind env e p \<longleftrightarrow> 0 \<le> p \<and> p \<le> 65535 \<and> tcpFree env p \<and> (p = 0 \<or> Some p \<notin> tcpPort ` set (held e))"

definition canBindUDP :: "'f engine_env \<Rightarrow> 'f engine \<Rightarrow> int \<Rightarrow> bool" where
  "canBindUDP env e p \<longleftrightarrow> 0 \<le> p \<and> p \<le> 65535 \<and> udpFree env p \<and> PacketConn p \<notin> set (held e)"

subsection \<open>Bringing up one listener\<close>

definition addCloser :: "closer \<Rightarrow> 'f engine \<Rightarrow> 'f engine" where
  "addCloser c e = e\<lparr>closers := closers e @ [c], held := held e @ [c]\<rparr>"

definition addActive :: "bytes \<Rightarrow> int \<Rightarrow> 'f engine \<Rightarrow> 'f engine" where
  "addActive name port e = e\<lparr>active := active e @ [name @ [0x3a] @ itoa (nat port)]\<rparr>"

definition bindFail :: "bytes \<Rightarrow> 'f engine \<Rightarrow> 'f engine" where
  "bindFail name e = e\<lparr>failures := name # removeAll name (failures e)\<rparr>"

definition addTCP :: "'f engine_env \<Rightarrow> bytes \<Rightarrow> int \<Rightarrow> 'f engine \<Rightarrow> 'f engine \<times> bool" where
  "addTCP env name port e =
     (if port \<le> 0 then (e, False)
      else if \<not> canBind env e port then (bindFail name e, False)
      else (addActive name port (addCloser (TcpListener name port) e), True))"

definition addHTTP :: "'f engine_env \<Rightarrow> bytes \<Rightarrow> int \<Rightarrow> 'f engine \<Rightarrow> 'f engine \<times> bool" where
  "addHTTP env name port e =
     (if port \<le> 0 then (e, False)
      else if \<not> canBind env e port then (bindFail name e, False)
      else (addActive name port (addCloser (HttpServer name port) e), True))"

text \<open>\<^verbatim>\<open>startWSD\<close>: the service listens, or is left out where it cannot.\<close>

definition startWSD :: "'f engine_env \<Rightarrow> int \<Rightarrow> 'f engine \<Rightarrow> 'f engine" where
  "startWSD env port e = (if canBind env e port then addCloser (WsdService port) e else e)"

subsection \<open>Starting\<close>

text \<open>The one port that serves IPP and IPPS takes over whichever of the two has the same number.\<close>

definition autoTLSPorts :: "ports_conf \<Rightarrow> ports_conf" where
  "autoTLSPorts po =
     (if poAutoTLS po > 0 then
        po\<lparr>poIPP := (if poIPP po = poAutoTLS po then 0 else poIPP po),
           poIPPS := (if poIPPS po = poAutoTLS po then 0 else poIPPS po)\<rparr>
      else po)"

definition startForward :: "engine_conf \<Rightarrow> 'f engine_env \<Rightarrow> 'f engine \<Rightarrow> 'f engine" where
  "startForward c env e =
     (if ecForward c then
        (case newForwarder env of
           None \<Rightarrow> e
         | Some fw \<Rightarrow> addCloser Forwarding (e\<lparr>forwarder := Some fw\<rparr>))
      else e\<lparr>forwarder := None\<rparr>)"

definition startAutoTLS :: "(bytes \<Rightarrow> bool) \<Rightarrow> ports_conf \<Rightarrow> 'f engine_env \<Rightarrow> 'f engine \<times> bound_listeners \<Rightarrow> 'f engine \<times> bound_listeners" where
  "startAutoTLS off po env = (\<lambda>(e, bl).
     if poAutoTLS po > 0 \<and> \<not> off (str ''IPP'') \<and> \<not> off (str ''IPPS'') then
       (if \<not> tlsOK env then (e, bl)
        else if \<not> canBind env e (poAutoTLS po) then (bindFail (str ''IPP/IPPS'') e, bl)
        else (addActive (str ''IPP/IPPS'') (poAutoTLS po) (addCloser (TcpListener (str ''IPP/IPPS'') (poAutoTLS po)) e),
              bl\<lparr>bl_IPP := poAutoTLS po, bl_IPPS := poAutoTLS po\<rparr>))
     else (e, bl))"

definition startRaw :: "(bytes \<Rightarrow> bool) \<Rightarrow> engine_conf \<Rightarrow> ports_conf \<Rightarrow> 'f engine_env \<Rightarrow> 'f engine \<times> bound_listeners \<Rightarrow> 'f engine \<times> bound_listeners" where
  "startRaw off c po env = (\<lambda>(e, bl).
     if off (str ''9100'') then (e, bl)
     else
       (let (e1, ok) = addTCP env (str ''9100'') (poRaw9100 po) e;
            bl1 = (if ok then bl\<lparr>bl_Raw9100 := poRaw9100 po\<rparr> else bl);
            e2 = foldl (\<lambda>e' p. fst (addTCP env (str ''9100'') p e')) e1 (ecExtraPorts c)
        in (e2, bl1)))"

definition startLPR :: "(bytes \<Rightarrow> bool) \<Rightarrow> ports_conf \<Rightarrow> 'f engine_env \<Rightarrow> 'f engine \<times> bound_listeners \<Rightarrow> 'f engine \<times> bound_listeners" where
  "startLPR off po env = (\<lambda>(e, bl).
     if off (str ''LPR'') then (e, bl)
     else (let (e1, ok) = addTCP env (str ''LPR'') (poLPR po) e in (e1, if ok then bl\<lparr>bl_LPR := poLPR po\<rparr> else bl)))"

definition startIPP :: "(bytes \<Rightarrow> bool) \<Rightarrow> ports_conf \<Rightarrow> 'f engine_env \<Rightarrow> 'f engine \<times> bound_listeners \<Rightarrow> 'f engine \<times> bound_listeners" where
  "startIPP off po env = (\<lambda>(e, bl).
     if off (str ''IPP'') then (e, bl)
     else (let (e1, ok) = addHTTP env (str ''IPP'') (poIPP po) e in (e1, if ok then bl\<lparr>bl_IPP := poIPP po\<rparr> else bl)))"

definition startIPPS :: "(bytes \<Rightarrow> bool) \<Rightarrow> ports_conf \<Rightarrow> 'f engine_env \<Rightarrow> 'f engine \<times> bound_listeners \<Rightarrow> 'f engine \<times> bound_listeners" where
  "startIPPS off po env = (\<lambda>(e, bl).
     if poIPPS po > 0 \<and> \<not> off (str ''IPPS'') \<and> tlsOK env then
       (let (e1, ok) = addHTTP env (str ''IPPS'') (poIPPS po) e in (e1, if ok then bl\<lparr>bl_IPPS := poIPPS po\<rparr> else bl))
     else (e, bl))"

definition startSNMP :: "(bytes \<Rightarrow> bool) \<Rightarrow> engine_conf \<Rightarrow> ports_conf \<Rightarrow> 'f engine_env \<Rightarrow> 'f engine \<Rightarrow> 'f engine" where
  "startSNMP off c po env e =
     (if ecSNMP c \<and> poSNMP po > 0 \<and> \<not> off (str ''SNMP'') then
        (if \<not> canBindUDP env e (poSNMP po) then bindFail (str ''SNMP'') e
         else addActive (str ''SNMP'') (poSNMP po) (addCloser (PacketConn (poSNMP po)) e))
      else e)"

definition startDashboard :: "(bytes \<Rightarrow> bool) \<Rightarrow> engine_conf \<Rightarrow> ports_conf \<Rightarrow> 'f engine_env \<Rightarrow> 'f engine \<times> bound_listeners \<Rightarrow> 'f engine \<times> bound_listeners" where
  "startDashboard off c po env = (\<lambda>(e, bl).
     if ecDashboard c \<and> poDashboard po > 0 \<and> \<not> off (str ''dashboard'') then
       (let (e1, ok) = addHTTP env (str ''dashboard'') (poDashboard po) e
        in (e1, if ok then bl\<lparr>bl_Dash := poDashboard po\<rparr> else bl))
     else (e, bl))"

definition startIntercept :: "(bytes \<Rightarrow> bool) \<Rightarrow> engine_conf \<Rightarrow> 'f engine_env \<Rightarrow> 'f engine \<Rightarrow> 'f engine" where
  "startIntercept off c env e =
     (if ecIntercept c \<and> \<not> off (str ''intercept'') \<and> interceptOK env then
        (let e1 = addCloser Interceptor (e\<lparr>interceptModule := True\<rparr>) in e1\<lparr>active := active e1 @ [str ''intercept'']\<rparr>)
      else e\<lparr>interceptModule := False\<rparr>)"

definition startMDNS :: "(bytes \<Rightarrow> bool) \<Rightarrow> engine_conf \<Rightarrow> 'f engine_env \<Rightarrow> bound_listeners \<Rightarrow> 'f engine \<Rightarrow> 'f engine" where
  "startMDNS off c env bl e =
     (if ecMDNS c \<and> \<not> off (str ''mDNS'')
         \<and> length (buildServices (ecMdnsConf c) (ecPrinter c) bl (ecAirPrint c) (ecInstance c)) > 0
         \<and> responderOK env
      then addCloser Responder e else e)"

definition noneBound :: bound_listeners where
  "noneBound = \<lparr>bl_IPP = 0, bl_IPPS = 0, bl_Raw9100 = 0, bl_LPR = 0, bl_Dash = 0\<rparr>"

text \<open>The listeners in the order of the code, with what has been bound so far.\<close>

definition startListeners :: "engine_conf \<Rightarrow> (bytes \<Rightarrow> bool) \<Rightarrow> 'f engine_env \<Rightarrow> 'f engine \<Rightarrow> 'f engine \<times> bound_listeners" where
  "startListeners c off env e =
     (let po = autoTLSPorts (ecPorts c);
          (e1, bl1) = startIPPS off po env (startIPP off po env (startLPR off po env
             (startRaw off c po env (startAutoTLS off po env (e, noneBound)))));
          (e2, bl2) = startDashboard off c po env (startSNMP off c po env e1, bl1);
          e3 = (if ecSMB c \<and> \<not> off (str ''SMB'') then fst (addTCP env (str ''SMB'') (ecSMBPort c) e2) else e2);
          e4 = (if ecWSD c \<and> \<not> off (str ''WSD'') then startWSD env (ecWSDPort c) e3 else e3)
      in (e4, bl2))"

definition startEngine :: "engine_conf \<Rightarrow> (bytes \<Rightarrow> bool) \<Rightarrow> 'f engine_env \<Rightarrow> 'f engine \<Rightarrow> 'f engine \<times> nat option" where
  "startEngine c off env e =
     (if running e then (e, Some (length (active e)))
      else if \<not> storageOK env then (e, None)
      else
        (let e0 = startForward c env (e\<lparr>failures := []\<rparr>);
             (e1, bl) = startListeners c off env e0;
             e2 = startMDNS off c env bl (startIntercept off c env e1)
         in (e2\<lparr>running := length (active e2) > 0\<rparr>, Some (length (active e2)))))"

subsection \<open>Stopping\<close>

definition stopEngine :: "'f engine \<Rightarrow> 'f engine" where
  "stopEngine e =
     (if \<not> running e then e
      else e\<lparr>closers := [], active := [], running := False,
             held := filter (\<lambda>c. c \<notin> set (closers e)) (held e)\<rparr>)"

subsection \<open>What the dashboard shows\<close>

record listener_status =
  lsName :: bytes
  lsPort :: int
  lsUp :: bool
  lsDisabled :: bool
  lsFailed :: bool

text \<open>The name of an active description: what is before its last colon.\<close>

definition activeName :: "bytes \<Rightarrow> bytes" where
  "activeName a = (if 0x3a \<in> set a then join1 0x3a (butlast (split1 0x3a a)) else a)"

definition listenerDefs :: "engine_conf \<Rightarrow> (bytes \<times> int) list" where
  "listenerDefs c = (let po = ecPorts c in
     [(str ''9100'', poRaw9100 po), (str ''LPR'', poLPR po), (str ''IPP'', poIPP po), (str ''IPPS'', poIPPS po),
      (str ''dashboard'', poDashboard po), (str ''SNMP'', if ecSNMP c then poSNMP po else 0),
      (str ''SMB'', ecSMBPort c), (str ''WSD'', ecWSDPort c), (str ''mDNS'', 0)])"

definition listenerStatuses :: "engine_conf \<Rightarrow> (bytes \<Rightarrow> bool) \<Rightarrow> 'f engine \<Rightarrow> listener_status list" where
  "listenerStatuses c off e =
     map (\<lambda>(name, port).
        let up = (name \<in> activeName ` set (active e)) in
        \<lparr>lsName = name, lsPort = port, lsUp = up, lsDisabled = off name,
         lsFailed = (\<not> up \<and> \<not> off name \<and> name \<in> set (failures e))\<rparr>) (listenerDefs c)"

section \<open>Correctness\<close>

subsection \<open>The book of resources\<close>

named_theorems engine_keeps \<open>the steps that keep the engine's books\<close>

text \<open>The name under which a resource is listed as active, if it is.\<close>

fun closerName :: "closer \<Rightarrow> bytes option" where
  "closerName (TcpListener n p) = Some n"
| "closerName (HttpServer n p) = Some n"
| "closerName (PacketConn p) = Some (str ''SNMP'')"
| "closerName Interceptor = Some (str ''intercept'')"
| "closerName _ = None"

definition engineNames :: "bytes list" where
  "engineNames = map str [''9100'', ''LPR'', ''IPP'', ''IPPS'', ''IPP/IPPS'', ''SNMP'', ''dashboard'', ''SMB'', ''intercept'']"

definition engineInv :: "'f engine \<Rightarrow> bool" where
  "engineInv e \<longleftrightarrow> held e = closers e
     \<and> activeName ` set (active e) = {n. \<exists>c\<in>set (closers e). closerName c = Some n}
     \<and> distinct (filter (\<lambda>x. x \<noteq> None) (map tcpPort (held e)))
     \<and> (\<forall>c\<in>set (closers e). \<forall>n. closerName c = Some n \<longrightarrow> n \<in> set engineNames)"

lemma no_colon: "0x3a \<notin> set (itoa n)"
  using itoa_digits [of n] by (auto simp: list_all_iff isDigit_def)

lemma activeName_port [simp]: "0x3a \<notin> set n \<Longrightarrow> activeName (n @ 0x3a # itoa p) = n"
  by (simp add: activeName_def split1_append split1_id [OF no_colon])

lemma activeName_plain [simp]: "0x3a \<notin> set n \<Longrightarrow> activeName n = n"
  by (simp add: activeName_def)

lemma engineNames_plain: "n \<in> set engineNames \<Longrightarrow> 0x3a \<notin> set n"
  by (auto simp: engineNames_def str_def)

lemma engineNames_known [simp]:
  "str ''9100'' \<in> set engineNames" "str ''LPR'' \<in> set engineNames" "str ''IPP'' \<in> set engineNames"
  "str ''IPPS'' \<in> set engineNames" "str ''IPP/IPPS'' \<in> set engineNames" "str ''SNMP'' \<in> set engineNames"
  "str ''dashboard'' \<in> set engineNames" "str ''SMB'' \<in> set engineNames" "str ''intercept'' \<in> set engineNames"
  by (simp_all add: engineNames_def)

lemma same_inv:
  "engineInv e \<Longrightarrow> held e' = held e \<Longrightarrow> closers e' = closers e \<Longrightarrow> active e' = active e \<Longrightarrow> engineInv e'"
  unfolding engineInv_def by metis

lemma bindFail_inv [engine_keeps]: "engineInv e \<Longrightarrow> engineInv (bindFail n e)"
  by (erule same_inv) (simp_all add: bindFail_def)

lemma addUnnamed_inv:
  assumes "engineInv e" "closerName c = None" "tcpPort c = None \<or> tcpPort c \<notin> tcpPort ` set (held e)"
  shows "engineInv (addCloser c e)"
  using assms by (auto simp: engineInv_def addCloser_def)

lemma addNamed_inv:
  assumes "engineInv e" "closerName c = Some n" "tcpPort c = None \<or> tcpPort c \<notin> tcpPort ` set (held e)"
    and "n \<in> set engineNames"
  shows "engineInv (addActive n p (addCloser c e))"
  using assms engineNames_plain [OF assms(4)] by (auto simp: engineInv_def addCloser_def addActive_def)

lemma addTCP_inv [engine_keeps]: "engineInv e \<Longrightarrow> n \<in> set engineNames \<Longrightarrow> engineInv (fst (addTCP env n p e))"
  by (auto simp: addTCP_def canBind_def image_iff intro!: bindFail_inv addNamed_inv)

lemma addHTTP_inv [engine_keeps]: "engineInv e \<Longrightarrow> n \<in> set engineNames \<Longrightarrow> engineInv (fst (addHTTP env n p e))"
  by (auto simp: addHTTP_def canBind_def image_iff intro!: bindFail_inv addNamed_inv)

lemma startWSD_inv [engine_keeps]: "engineInv e \<Longrightarrow> engineInv (startWSD env p e)"
  by (auto simp: startWSD_def canBind_def image_iff intro!: addUnnamed_inv split: if_splits)

lemma foldl_inv: "engineInv e \<Longrightarrow> (\<And>e p. engineInv e \<Longrightarrow> engineInv (g e p)) \<Longrightarrow> engineInv (foldl g e ps)"
  by (induction ps arbitrary: e) auto

lemma start_steps_inv [engine_keeps]:
  assumes "engineInv e"
  shows "engineInv (startForward c env e)"
    "engineInv (fst (startAutoTLS off po env (e, bl)))" "engineInv (fst (startRaw off c po env (e, bl)))"
    "engineInv (fst (startLPR off po env (e, bl)))" "engineInv (fst (startIPP off po env (e, bl)))"
    "engineInv (fst (startIPPS off po env (e, bl)))" "engineInv (startSNMP off c po env e)"
    "engineInv (fst (startDashboard off c po env (e, bl)))" "engineInv (startIntercept off c env e)"
    "engineInv (startMDNS off c env bl e)"
proof -
  note t = addTCP_inv [OF assms] and h = addHTTP_inv [OF assms]
  show "engineInv (startForward c env e)"
    using assms by (auto simp: startForward_def intro!: addUnnamed_inv split: option.split) (auto elim: same_inv)
  show "engineInv (fst (startAutoTLS off po env (e, bl)))"
    using assms by (auto simp: startAutoTLS_def canBind_def image_iff intro!: addNamed_inv bindFail_inv)
  show "engineInv (fst (startRaw off c po env (e, bl)))"
    using assms t by (auto simp: startRaw_def Let_def split: prod.split intro!: foldl_inv addTCP_inv) (metis fst_conv engineNames_known(1))+
  show "engineInv (fst (startLPR off po env (e, bl)))"
    using assms t [of "str ''LPR''" env "poLPR po"] by (auto simp: startLPR_def Let_def split: prod.split)
  show "engineInv (fst (startIPP off po env (e, bl)))"
    using assms h [of "str ''IPP''" env "poIPP po"] by (auto simp: startIPP_def Let_def split: prod.split)
  show "engineInv (fst (startIPPS off po env (e, bl)))"
    using assms h [of "str ''IPPS''" env "poIPPS po"] by (auto simp: startIPPS_def Let_def split: prod.split)
  show "engineInv (startSNMP off c po env e)"
    using assms by (auto simp: startSNMP_def intro!: addNamed_inv bindFail_inv)
  show "engineInv (fst (startDashboard off c po env (e, bl)))"
    using assms h [of "str ''dashboard''" env "poDashboard po"] by (auto simp: startDashboard_def Let_def split: prod.split)
  show "engineInv (startIntercept off c env e)"
    using assms engineNames_plain [OF engineNames_known(9)] by (auto simp: startIntercept_def addCloser_def engineInv_def Let_def)
  show "engineInv (startMDNS off c env bl e)"
    using assms by (auto simp: startMDNS_def intro!: addUnnamed_inv)
qed

lemma startListeners_inv [engine_keeps]: "engineInv e \<Longrightarrow> engineInv (fst (startListeners c off env e))"
proof -
  assume i: "engineInv e"
  define po where "po = autoTLSPorts (ecPorts c)"
  note step = start_steps_inv(4-6) [of "fst x" off po env "snd x" for x, unfolded prod.collapse]
  obtain e1 bl1 where q: "startIPPS off po env (startIPP off po env (startLPR off po env
      (startRaw off c po env (startAutoTLS off po env (e, noneBound))))) = (e1, bl1)" by fastforce
  have "engineInv (fst (startIPPS off po env (startIPP off po env (startLPR off po env
      (startRaw off c po env (startAutoTLS off po env (e, noneBound)))))))"
    by (intro step start_steps_inv(2) start_steps_inv(3) [of "fst x" off c po env "snd x" for x, unfolded prod.collapse] i)
  then have "engineInv e1" by (simp add: q)
  note d = start_steps_inv(8) [OF start_steps_inv(7) [OF this], of off c po env off c po env bl1]
  obtain e2 bl2 where q2: "startDashboard off c po env (startSNMP off c po env e1, bl1) = (e2, bl2)" by fastforce
  then have "engineInv e2" using d by simp
  then show ?thesis
    unfolding startListeners_def Let_def po_def [symmetric] q prod.case q2
    by (auto intro!: engine_keeps)
qed

lemma startEngine_inv [engine_keeps]: "engineInv e \<Longrightarrow> engineInv (fst (startEngine c off env e))"
proof -
  assume i: "engineInv e"
  have i0: "engineInv (startForward c env (e\<lparr>failures := []\<rparr>))"
    by (rule start_steps_inv(1)) (use i in \<open>auto elim: same_inv\<close>)
  have r: "engineInv (e'\<lparr>running := b\<rparr>)" if "engineInv e'" for e' :: "'a engine" and b
    by (rule same_inv [OF that]) simp_all
  obtain e1 bl where q: "startListeners c off env (startForward c env (e\<lparr>failures := []\<rparr>)) = (e1, bl)" by fastforce
  then have "engineInv e1" using startListeners_inv [OF i0, of c off env] by simp
  then have "engineInv (startMDNS off c env bl (startIntercept off c env e1))" by (intro start_steps_inv)
  then show ?thesis using i r by (simp add: startEngine_def Let_def q)
qed

lemma stopEngine_inv [engine_keeps]: "engineInv e \<Longrightarrow> engineInv (stopEngine e)"
  by (auto simp: stopEngine_def engineInv_def)

text \<open>Any sequence of starts and stops, each start with the configuration, the overrides and the system of
  its moment.\<close>

inductive engineReach :: "'f engine \<Rightarrow> bool" where
  fresh: "engineReach newEngine"
| start: "engineReach e \<Longrightarrow> engineReach (fst (startEngine c off env e))"
| stop: "engineReach e \<Longrightarrow> engineReach (stopEngine e)"

lemma running_active: "engineReach e \<Longrightarrow> running e \<longleftrightarrow> active e \<noteq> []"
proof (induction rule: engineReach.induct)
  case (start e c off env)
  then show ?case by (auto simp: startEngine_def Let_def split: prod.split)
qed (auto simp: newEngine_def stopEngine_def)

lemma reach_inv: "engineReach e \<Longrightarrow> engineInv e"
proof (induction rule: engineReach.induct)
  case fresh
  show ?case by (simp add: engineInv_def newEngine_def)
qed (rule engine_keeps, assumption)+

text \<open>C_TBD: The engine keeps true books over any sequence of starts and stops: what the process holds is what
  it will close, no TCP port is held twice, it counts as running exactly while a listener is listed, and
  stopping a running engine leaves nothing held and nothing listed.\<close>

theorem engine_keeps_books:
  assumes "engineReach e"
  shows "held e = closers e \<and> distinct (filter (\<lambda>x. x \<noteq> None) (map tcpPort (held e)))
    \<and> (running e \<longleftrightarrow> active e \<noteq> [])
    \<and> (running e \<longrightarrow> held (stopEngine e) = [] \<and> active (stopEngine e) = [] \<and> \<not> running (stopEngine e))"
  using reach_inv [OF assms] running_active [OF assms] by (auto simp: engineInv_def stopEngine_def)

text \<open>C_TBD: The status page tells the truth about named listeners: in every reachable state a listener is shown
  as up exactly when the engine holds a resource under its name. The web service and the multicast
  responder have no name in the engine's list, so they are never shown as up, even while they run.\<close>

theorem status_is_true:
  assumes "engineReach e" "st \<in> set (listenerStatuses c off e)"
  shows "(lsUp st \<longleftrightarrow> (\<exists>r\<in>set (held e). closerName r = Some (lsName st)))
    \<and> (lsName st \<in> {str ''WSD'', str ''mDNS''} \<longrightarrow> \<not> lsUp st)"
proof -
  have i: "held e = closers e" "activeName ` set (active e) = {n. \<exists>c\<in>set (closers e). closerName c = Some n}"
    "\<forall>c\<in>set (closers e). \<forall>n. closerName c = Some n \<longrightarrow> n \<in> set engineNames"
    using reach_inv [OF assms(1)] by (simp_all add: engineInv_def)
  have up: "lsUp st \<longleftrightarrow> (\<exists>r\<in>set (held e). closerName r = Some (lsName st))"
    using assms(2) i(1,2) by (auto simp: listenerStatuses_def Let_def)
  have "str ''WSD'' \<notin> set engineNames" "str ''mDNS'' \<notin> set engineNames" by (auto simp: engineNames_def str_def)
  then show ?thesis using up i by auto
qed

text \<open>A configuration with nothing but the web service: it comes up, but the engine counts as stopped, so
  stopping it does nothing and the port stays held.\<close>

definition plainPrinter :: printer_conf where
  "plainPrinter = \<lparr>p_name = str ''lp'', p_info = [], makeAndModel = [], p_location = [], p_serial = [], documentFormats = [],
     defaultFormat = [], enforceFormats = False, p_color = False, p_sides = [], p_resolutions = [], p_media = []\<rparr>"

definition wsdOnly :: engine_conf where
  "wsdOnly = \<lparr>ecPorts = \<lparr>poRaw9100 = 0, poLPR = 0, poIPP = 0, poIPPS = 0, poAutoTLS = 0, poDashboard = 0, poSNMP = 0\<rparr>,
     ecExtraPorts = [], ecForward = False, ecSNMP = False, ecDashboard = False, ecSMB = False, ecSMBPort = 0, ecWSD = True,
     ecWSDPort = 3911, ecIntercept = False, ecMDNS = False, ecAirPrint = False, ecPrinter = plainPrinter, ecMdnsConf = \<lparr>mdnsInstance = [], mdnsHostname = [], defaultPath = str ''ipp/print''\<rparr>,
     ecInstance = []\<rparr>"

definition freeSystem :: "nat engine_env" where
  "freeSystem = \<lparr>tcpFree = (\<lambda>_. True), udpFree = (\<lambda>_. True), storageOK = True, newForwarder = Some 0, tlsOK = True,
     interceptOK = True, responderOK = True\<rparr>"

lemmas start_defs = startEngine_def startListeners_def startForward_def startAutoTLS_def startRaw_def startLPR_def startIPP_def
  startIPPS_def startSNMP_def startDashboard_def startIntercept_def startMDNS_def startWSD_def addTCP_def addHTTP_def
  autoTLSPorts_def canBind_def canBindUDP_def addCloser_def addActive_def bindFail_def Let_def

lemma web_service_cannot_be_stopped:
  "let e = fst (startEngine wsdOnly (\<lambda>_. False) freeSystem newEngine) in
     held e = [WsdService 3911] \<and> \<not> running e \<and> held (stopEngine e) = [WsdService 3911]"
  by (simp add: start_defs wsdOnly_def freeSystem_def newEngine_def stopEngine_def)

text \<open>One port for both protocols: turning off one of them at run time takes the other down as well.\<close>

definition sharedPort :: engine_conf where
  "sharedPort = wsdOnly\<lparr>ecWSD := False,
     ecPorts := \<lparr>poRaw9100 = 0, poLPR = 0, poIPP = 631, poIPPS = 631, poAutoTLS = 631, poDashboard = 0, poSNMP = 0\<rparr>\<rparr>"

lemma turning_off_ipps_stops_ipp:
  "held (fst (startEngine sharedPort (\<lambda>n. n = str ''IPPS'') freeSystem newEngine)) = []"
  "held (fst (startEngine sharedPort (\<lambda>_. False) freeSystem newEngine)) = [TcpListener (str ''IPP/IPPS'') 631]"
  by (simp_all add: start_defs sharedPort_def wsdOnly_def freeSystem_def newEngine_def str_def)

text \<open>The theorems on the engine with the shared port, started and asked for its status.\<close>

lemma shared_port_reached: "engineReach (fst (startEngine sharedPort (\<lambda>_. False) freeSystem newEngine))"
  by (intro engineReach.start engineReach.fresh)

theorem engine_keeps_books_witness:
  "let e = fst (startEngine sharedPort (\<lambda>_. False) freeSystem newEngine) in
     held e = [TcpListener (str ''IPP/IPPS'') 631] \<and> running e \<and> held (stopEngine e) = []"
proof -
  have "active (fst (startEngine sharedPort (\<lambda>_. False) freeSystem newEngine)) \<noteq> []"
    by (simp add: start_defs sharedPort_def wsdOnly_def freeSystem_def newEngine_def str_def)
  then show ?thesis
    using engine_keeps_books [OF shared_port_reached] turning_off_ipps_stops_ipp(2) by (simp add: Let_def)
qed

text \<open>The service on the shared port is up, and neither IPP nor IPPS is shown as up.\<close>

theorem status_is_true_witness:
  "\<forall>st\<in>set (listenerStatuses sharedPort (\<lambda>_. False) (fst (startEngine sharedPort (\<lambda>_. False) freeSystem newEngine))). \<not> lsUp st"
proof
  fix st assume st: "st \<in> set (listenerStatuses sharedPort (\<lambda>_. False) (fst (startEngine sharedPort (\<lambda>_. False) freeSystem newEngine)))"
  have "lsName st \<noteq> str ''IPP/IPPS''"
    using st by (auto simp: listenerStatuses_def listenerDefs_def Let_def str_def)
  then show "\<not> lsUp st"
    using status_is_true [OF shared_port_reached st] by (simp add: turning_off_ipps_stops_ipp(2))
qed

text \<open>A forwarder that cannot be built leaves the one of the last run in place, closed as it is.\<close>

lemma failed_forwarder_keeps_the_old:
  "newForwarder env = None \<Longrightarrow> ecForward c \<Longrightarrow> forwarder (startForward c env e) = forwarder e"
  by (simp add: startForward_def)

end
