(* ===== verification/Packet_View.thy ===== *)
theory Packet_View
  imports Carve Live_View "HOL-Library.List_Lexorder"
begin

text \<open>
  The capture viewer (\<^verbatim>\<open>pcapview.go\<close>): one row per captured frame, the display filter, the sorted and
  paged table, and the two directions of a conversation. The text of an address (\<^verbatim>\<open>netip\<close>) and of a
  time is an argument. \<open>None\<close> is a panic.
\<close>

subsection \<open>Rows\<close>

text \<open>How \<^verbatim>\<open>netip\<close> writes and reads addresses, and how the time since the first packet is written.\<close>

record view_lib =
  addrText :: "bytes \<Rightarrow> bytes"
  addrPortText :: "bytes \<times> u16 \<Rightarrow> bytes"
  parseAddrPort :: "bytes \<Rightarrow> bytes option"
  parseAddr :: "bytes \<Rightarrow> bytes option"
  secondsText :: "int \<times> int \<Rightarrow> int \<times> int \<Rightarrow> bytes"

record packet_summary =
  psNo :: nat
  psTime :: bytes
  psSrc :: bytes
  psDst :: bytes
  psSport :: int
  psDport :: int
  psProto :: bytes
  psSvc :: bytes
  psIPVer :: int
  psLen :: int
  psInfo :: bytes
  psClass :: bytes
  psColor :: bytes

abbreviation "etherTypeARP \<equiv> (0x0806 :: u16)"
abbreviation "ipProtoICMP \<equiv> (1 :: byte)"
abbreviation "ipProtoUDP \<equiv> (17 :: byte)"
abbreviation "ipProtoICMPv6 \<equiv> (58 :: byte)"

definition packetColor :: "bytes \<Rightarrow> bytes \<Rightarrow> bytes" where
  "packetColor class svc =
     (if class = str ''reset'' \<or> class = str ''error'' then str ''red''
      else if svc \<in> set (map str [''raw'', ''lpr'', ''ipp'', ''snmp'']) then str ''green''
      else if svc = str ''https'' then str ''blue''
      else [])"

definition portService :: "u16 \<Rightarrow> bytes" where
  "portService p =
     (if p \<in> set [80, 8000, 8080] then str ''http''
      else if p \<in> set [443, 8443] then str ''https''
      else if p = 631 then str ''ipp''
      else if p = 515 then str ''lpr''
      else if p \<in> set [9100, 9101, 9102] then str ''raw''
      else if p \<in> set [161, 162] then str ''snmp''
      else if p \<in> set [137, 138, 139, 445] then str ''smb''
      else if p \<in> set [3702, 5357, 5358] then str ''wsd''
      else if p = 5353 then str ''mdns''
      else [])"

definition svcForPorts :: "u16 \<Rightarrow> u16 \<Rightarrow> bytes" where
  "svcForPorts sport dport = (if portService dport \<noteq> [] then portService dport else portService sport)"

definition looksHTTP :: "bytes \<Rightarrow> bool" where
  "looksHTTP b = list_ex (\<lambda>m. is_prefix (str m) b)
     [''GET '', ''POST '', ''PUT '', ''HEAD '', ''DELETE '', ''OPTIONS '', ''PATCH '', ''HTTP/'']"

definition hexDigitOf :: "nat \<Rightarrow> byte" where
  "hexDigitOf d = (if d < 10 then of_nat (48 + d) else of_nat (87 + d))"

definition hex2 :: "byte \<Rightarrow> bytes" where
  "hex2 b = [hexDigitOf (unat b div 16), hexDigitOf (unat b mod 16)]"

definition hex4 :: "u16 \<Rightarrow> bytes" where
  "hex4 w = hex2 (ucast (drop_bit 8 w)) @ hex2 (ucast w)"

definition macText :: "bytes \<Rightarrow> bytes" where
  "macText m = join1 0x3a (map hex2 m)"

abbreviation "dec n \<equiv> itoa (unat n)"

definition arpSummary :: "view_lib \<Rightarrow> packet_summary \<Rightarrow> bytes \<Rightarrow> packet_summary option" where
  "arpSummary lib s0 b =
     (let s = s0\<lparr>psProto := str ''ARP'', psIPVer := 0\<rparr> in
      if length b < 28 then Some (s\<lparr>psInfo := str ''truncated ARP''\<rparr>)
      else do {
        op \<leftarrow> get_be16 b 6;
        spa0 \<leftarrow> gslice b 14 18;
        tpa0 \<leftarrow> gslice b 24 28;
        sha \<leftarrow> gslice b 8 14;
        let spa = addrText lib spa0; tpa = addrText lib tpa0;
            info = (if op = 1 then str ''who has '' @ tpa @ str ''? tell '' @ spa
                    else if op = 2 then spa @ str '' is at '' @ macText sha
                    else str ''ARP op='' @ dec op)
        in Some (s\<lparr>psSrc := spa, psDst := tpa, psInfo := info\<rparr>)
      })"

definition parseIPHeader :: "u16 \<Rightarrow> bytes \<Rightarrow> (bytes \<times> bytes \<times> byte \<times> bytes) option option" where
  "parseIPHeader ethertype l3 =
     (if ethertype = etherTypeIPv4 then
        (if length l3 < 20 then Some None
         else do {
           b0 \<leftarrow> idx l3 0;
           let ihl = unat (b0 AND 0x0f) * 4 in
           if ihl < 20 \<or> length l3 < ihl then Some None
           else do {
             tot \<leftarrow> get_be16 l3 2;
             let total = unat tot; end' = (if total \<ge> ihl \<and> total \<le> length l3 then take total l3 else l3) in do {
               src \<leftarrow> gslice l3 12 16;
               dst \<leftarrow> gslice l3 16 20;
               proto \<leftarrow> idx l3 9;
               l4 \<leftarrow> slice_from end' ihl;
               Some (Some (src, dst, proto, l4))
             }
           }
         })
      else if ethertype = etherTypeIPv6 then
        (if length l3 < 40 then Some None
         else do {
           s \<leftarrow> gslice l3 8 24;
           d \<leftarrow> gslice l3 24 40;
           proto \<leftarrow> idx l3 6;
           l4 \<leftarrow> slice_from l3 40;
           Some (Some (s, d, proto, l4))
         })
      else Some None)"

definition tcpFlagString :: "byte \<Rightarrow> bytes" where
  "tcpFlagString fl =
     (let parts = map snd (filter (\<lambda>(bit, name). fl AND bit \<noteq> 0)
        [(0x02, str ''SYN''), (0x10, str ''ACK''), (0x01, str ''FIN''), (0x04, str ''RST''), (0x08, str ''PSH''), (0x20, str ''URG'')])
      in if parts = [] then str ''none'' else join1 0x2c parts)"

definition isICMPError :: "byte \<Rightarrow> byte \<Rightarrow> bool" where
  "isICMPError proto typ = (if proto = ipProtoICMPv6 then typ < 128 else typ \<in> set [3, 4, 5, 11, 12])"

definition icmpErrorName :: "byte \<Rightarrow> byte \<Rightarrow> bytes" where
  "icmpErrorName proto typ =
     (if proto = ipProtoICMPv6 then
        (if typ = 1 then str ''destination unreachable''
         else if typ = 2 then str ''packet too big''
         else if typ = 3 then str ''time exceeded''
         else if typ = 4 then str ''parameter problem''
         else str ''error'')
      else if typ = 3 then str ''destination unreachable''
      else if typ = 4 then str ''source quench''
      else if typ = 5 then str ''redirect''
      else if typ = 11 then str ''time exceeded''
      else if typ = 12 then str ''parameter problem''
      else str ''error'')"

definition arrow :: bytes where
  "arrow = [0x20, 0xe2, 0x86, 0x92, 0x20]"

definition svcMark :: "bytes \<Rightarrow> bytes" where
  "svcMark svc = (if svc \<noteq> [] then [0x20, 0xc2, 0xb7] @ svc else [])"

definition colored :: "packet_summary \<Rightarrow> packet_summary" where
  "colored s = s\<lparr>psColor := packetColor (psClass s) (psSvc s)\<rparr>"

definition tcpSummary :: "view_lib \<Rightarrow> packet_summary \<Rightarrow> bytes \<Rightarrow> bytes \<Rightarrow> bytes \<Rightarrow> packet_summary option" where
  "tcpSummary lib s0 src dst l4 =
     (let s = s0\<lparr>psProto := str ''TCP''\<rparr> in
      if length l4 < 20 then Some (s\<lparr>psInfo := str ''truncated TCP''\<rparr>)
      else do {
        off \<leftarrow> idx l4 12;
        sp \<leftarrow> get_be16 l4 0;
        dp \<leftarrow> get_be16 l4 2;
        fl \<leftarrow> idx l4 13;
        let thl = unat (drop_bit 4 off) * 4;
            payload = (if thl \<ge> 20 \<and> length l4 \<ge> thl then length l4 - thl else 0);
            svc = svcForPorts sp dp;
            info = dec sp @ arrow @ dec dp @ str '' ['' @ tcpFlagString fl @ str ''] len='' @ itoa payload @ svcMark svc;
            class = (if fl AND 0x04 \<noteq> 0 then str ''reset''
                     else if fl AND 0x02 \<noteq> 0 then str ''syn''
                     else if fl AND 0x01 \<noteq> 0 then str ''fin''
                     else if payload > 0 then str ''data''
                     else str ''other'')
        in Some (colored (s\<lparr>psSrc := addrPortText lib (src, sp), psDst := addrPortText lib (dst, dp),
             psSport := uint sp, psDport := uint dp, psSvc := svc, psInfo := info, psClass := class\<rparr>))
      })"

definition udpSummary :: "view_lib \<Rightarrow> packet_summary \<Rightarrow> bytes \<Rightarrow> bytes \<Rightarrow> bytes \<Rightarrow> packet_summary option" where
  "udpSummary lib s0 src dst l4 =
     (let s = s0\<lparr>psProto := str ''UDP'', psSrc := addrText lib src, psDst := addrText lib dst, psClass := str ''data''\<rparr> in
      if length l4 \<ge> 8 then do {
        sp \<leftarrow> get_be16 l4 0;
        dp \<leftarrow> get_be16 l4 2;
        let svc = svcForPorts sp dp;
            info = dec sp @ arrow @ dec dp @ str '' len='' @ itoa (length l4 - 8) @ svcMark svc
        in Some (colored (s\<lparr>psSrc := addrPortText lib (src, sp), psDst := addrPortText lib (dst, dp),
             psSport := uint sp, psDport := uint dp, psSvc := svc, psInfo := info\<rparr>))
      }
      else Some (colored (s\<lparr>psInfo := str ''truncated UDP''\<rparr>)))"

definition icmpSummary :: "view_lib \<Rightarrow> packet_summary \<Rightarrow> bytes \<Rightarrow> bytes \<Rightarrow> byte \<Rightarrow> bytes \<Rightarrow> packet_summary option" where
  "icmpSummary lib s0 src dst proto l4 =
     (let s = s0\<lparr>psProto := (if proto = ipProtoICMPv6 then str ''ICMPv6'' else str ''ICMP''),
                 psSrc := addrText lib src, psDst := addrText lib dst\<rparr> in
      if length l4 \<ge> 2 then do {
        typ \<leftarrow> idx l4 0;
        code \<leftarrow> idx l4 1;
        let info = str ''type='' @ dec typ @ str '' code='' @ dec code
        in Some (colored
             (if isICMPError proto typ then
                s\<lparr>psClass := str ''error'', psInfo := info @ str '' ('' @ icmpErrorName proto typ @ str '')''\<rparr>
              else s\<lparr>psInfo := info\<rparr>))
      }
      else Some (colored (s\<lparr>psInfo := str ''truncated ICMP''\<rparr>)))"

definition blankSummary :: packet_summary where
  "blankSummary = \<lparr>psNo = 0, psTime = [], psSrc = [], psDst = [], psSport = 0, psDport = 0, psProto = str ''non-IP'',
     psSvc = [], psIPVer = 0, psLen = 0, psInfo = str ''non-IP frame'', psClass = str ''other'', psColor = []\<rparr>"

definition dissectSummary :: "view_lib \<Rightarrow> int \<Rightarrow> bytes \<Rightarrow> packet_summary option" where
  "dissectSummary lib linkType frame = do {
     r \<leftarrow> stepToL3 linkType frame;
     case r of
       None \<Rightarrow> Some blankSummary
     | Some (et, l3) \<Rightarrow>
         if et = etherTypeARP then arpSummary lib blankSummary l3
         else do {
           h \<leftarrow> parseIPHeader et l3;
           case h of
             None \<Rightarrow> Some
               (if et = etherTypeIPv6 then
                  blankSummary\<lparr>psProto := str ''IPv6'', psIPVer := 6, psInfo := str ''IPv6 packet''\<rparr>
                else if et = etherTypeIPv4 then
                  blankSummary\<lparr>psProto := str ''IPv4'', psIPVer := 4, psInfo := str ''IPv4 packet''\<rparr>
                else blankSummary\<lparr>psInfo := str ''EtherType 0x'' @ hex4 et\<rparr>)
           | Some (src, dst, proto, l4) \<Rightarrow>
               (let s = blankSummary\<lparr>psIPVer := (if et = etherTypeIPv4 then 4 else if et = etherTypeIPv6 then 6 else 0)\<rparr> in
                if proto = ipProtoTCP then tcpSummary lib s src dst l4
                else if proto = ipProtoUDP then udpSummary lib s src dst l4
                else if proto = ipProtoICMP \<or> proto = ipProtoICMPv6 then icmpSummary lib s src dst proto l4
                else Some (colored (s\<lparr>psProto := str ''IP/'' @ dec proto, psSrc := addrText lib src, psDst := addrText lib dst,
                       psInfo := str ''IP protocol '' @ dec proto\<rparr>)))
         }
   }"

subsection \<open>The display filter\<close>

record capture_filter =
  cfClass :: bytes
  cfProto :: bytes
  cfSvc :: bytes
  cfPort :: int
  cfHost :: bytes
  cfNoV6 :: bool
  cfQ :: bytes
  cfSort :: bytes
  cfDesc :: bool
  cfOffset :: int
  cfLimit :: int

text \<open>\<^verbatim>\<open>strings.Fields\<close>: the words between white space.\<close>

primrec fieldsFrom :: "bytes \<Rightarrow> bytes \<Rightarrow> bytes list" where
  "fieldsFrom cur [] = (if cur = [] then [] else [cur])"
| "fieldsFrom cur (c # cs) =
     (if isSpace c then (if cur = [] then [] else [cur]) @ fieldsFrom [] cs else fieldsFrom (cur @ [c]) cs)"

definition exprOps :: "bytes list" where
  "exprOps = map str [''>='', ''<='', ''=='', ''!='', ''~'', ''>'', ''<'', ''='']"

primrec splitAtOp :: "bytes list \<Rightarrow> bytes \<Rightarrow> (bytes \<times> bytes \<times> bytes) option" where
  "splitAtOp [] t = None"
| "splitAtOp (o' # os) t =
     (case bytesIndex t o' of
        Some i \<Rightarrow> if i > 0 then Some (take i t, o', drop (i + length o') t) else splitAtOp os t
      | None \<Rightarrow> splitAtOp os t)"

text \<open>Where no operator is found the code returns three empty strings; the operator is never empty otherwise.\<close>

definition splitTerm :: "bytes \<Rightarrow> (bytes \<times> bytes \<times> bytes) option" where
  "splitTerm t = splitAtOp exprOps t"

definition cmpStr :: "bytes \<Rightarrow> bytes \<Rightarrow> bytes \<Rightarrow> bool" where
  "cmpStr actual op want =
     (if op = str ''=='' \<or> op = str ''='' then equalFold actual want
      else if op = str ''!='' then \<not> equalFold actual want
      else if op = str ''~'' then bytesContains (toLower actual) (toLower want)
      else False)"

text \<open>\<^verbatim>\<open>strconv.Atoi\<close> with its error.\<close>

definition atoiOK :: "bytes \<Rightarrow> int option" where
  "atoiOK s =
     (let neg = (s \<noteq> [] \<and> hd s = 0x2d);
          ds = (if s \<noteq> [] \<and> (hd s = 0x2d \<or> hd s = 0x2b) then tl s else s);
          v = (if neg then - digitsVal ds else digitsVal ds)
      in if ds = [] \<or> \<not> list_all isDigit ds \<or> v < - (2 ^ 63) \<or> v \<ge> 2 ^ 63 then None else Some v)"

definition cmpNum :: "int \<Rightarrow> bytes \<Rightarrow> bytes \<Rightarrow> bool" where
  "cmpNum actual op want =
     (case atoiOK (trimSpace want) of
        None \<Rightarrow> False
      | Some n \<Rightarrow>
          if op = str ''=='' \<or> op = str ''='' then actual = n
          else if op = str ''!='' then actual \<noteq> n
          else if op = str ''>'' then actual > n
          else if op = str ''<'' then actual < n
          else if op = str ''>='' then actual \<ge> n
          else if op = str ''<='' then actual \<le> n
          else False)"

definition ipOf :: "view_lib \<Rightarrow> bytes \<Rightarrow> bytes" where
  "ipOf lib s =
     (case parseAddrPort lib s of
        Some a \<Rightarrow> addrText lib a
      | None \<Rightarrow> (case parseAddr lib s of Some a \<Rightarrow> addrText lib a | None \<Rightarrow> []))"

definition normHost :: "view_lib \<Rightarrow> bytes \<Rightarrow> bytes" where
  "normHost lib s = (let t = trimSpace s in case parseAddr lib t of Some a \<Rightarrow> addrText lib a | None \<Rightarrow> t)"

definition exprHaystack :: "packet_summary \<Rightarrow> bytes" where
  "exprHaystack s =
     toLower (psSrc s @ [0x20] @ psDst s @ [0x20] @ psProto s @ [0x20] @ psSvc s @ [0x20] @ psInfo s)"

definition matchTerm :: "view_lib \<Rightarrow> packet_summary \<Rightarrow> bytes \<Rightarrow> bool" where
  "matchTerm lib s term =
     (case splitTerm term of
        None \<Rightarrow> bytesContains (exprHaystack s) (toLower term)
      | Some (field, op, val) \<Rightarrow>
          (let f = toLower field in
           if f = str ''proto'' then cmpStr (toLower (psProto s)) op (toLower val)
           else if f = str ''svc'' \<or> f = str ''service'' then cmpStr (toLower (psSvc s)) op (toLower val)
           else if f = str ''class'' then cmpStr (toLower (psClass s)) op (toLower val)
           else if f = str ''color'' then cmpStr (toLower (psColor s)) op (toLower val)
           else if f = str ''info'' then cmpStr (toLower (psInfo s)) op (toLower val)
           else if f = str ''src'' then cmpStr (ipOf lib (psSrc s)) op val
           else if f = str ''dst'' then cmpStr (ipOf lib (psDst s)) op val
           else if f = str ''addr'' \<or> f = str ''ip'' \<or> f = str ''host'' then
             (let a = cmpStr (ipOf lib (psSrc s)) op val; b = cmpStr (ipOf lib (psDst s)) op val
              in if op = str ''!='' then a \<and> b else a \<or> b)
           else if f = str ''len'' then cmpNum (psLen s) op val
           else if f = str ''sport'' then cmpNum (psSport s) op val
           else if f = str ''dport'' then cmpNum (psDport s) op val
           else if f = str ''port'' then cmpNum (psSport s) op val \<or> cmpNum (psDport s) op val
           else if f = str ''ipver'' \<or> f = str ''ipv'' then cmpNum (psIPVer s) op val
           else bytesContains (exprHaystack s) (toLower term)))"

definition matchExpr :: "view_lib \<Rightarrow> packet_summary \<Rightarrow> bytes \<Rightarrow> bool" where
  "matchExpr lib s expr = list_all (matchTerm lib s) (fieldsFrom [] expr)"

definition captureMatch :: "view_lib \<Rightarrow> packet_summary \<Rightarrow> capture_filter \<Rightarrow> bool" where
  "captureMatch lib s f =
     (if cfClass f \<noteq> [] \<and> \<not> equalFold (cfClass f) (psClass s) then False
      else if cfProto f \<noteq> [] \<and> \<not> is_prefix (toLower (cfProto f)) (toLower (psProto s)) then False
      else if cfSvc f \<noteq> [] \<and> \<not> equalFold (cfSvc f) (psSvc s) then False
      else if cfPort f > 0 \<and> psSport s \<noteq> cfPort f \<and> psDport s \<noteq> cfPort f then False
      else if cfHost f \<noteq> [] \<and> ipOf lib (psSrc s) \<noteq> cfHost f \<and> ipOf lib (psDst s) \<noteq> cfHost f then False
      else if cfNoV6 f \<and> psIPVer s = 6 then False
      else if cfQ f \<noteq> [] \<and> \<not> matchExpr lib s (cfQ f) then False
      else True)"

subsection \<open>The table\<close>

definition lessBy :: "bytes \<Rightarrow> packet_summary \<Rightarrow> packet_summary \<Rightarrow> bool" where
  "lessBy by' a b =
     (if by' = str ''proto'' then psProto a < psProto b
      else if by' = str ''src'' then psSrc a < psSrc b
      else if by' = str ''dst'' then psDst a < psDst b
      else if by' = str ''len'' then psLen a < psLen b
      else psNo a < psNo b)"

definition sortPackets :: "packet_summary list \<Rightarrow> bytes \<Rightarrow> bool \<Rightarrow> packet_summary list" where
  "sortPackets p by' desc =
     (if by' = [] \<or> by' = str ''no'' then
        (if desc then sliceStable (\<lambda>a b. psNo a > psNo b) p else p)
      else sliceStable (if desc then (\<lambda>a b. lessBy by' b a) else lessBy by') p)"

record capture_result =
  crLinkType :: int
  crTotalParsed :: nat
  crTruncated :: bool
  crMatched :: nat
  crOffset :: int
  crLimit :: int
  crPackets :: "packet_summary list"

abbreviation maxCaptureParse :: int where "maxCaptureParse \<equiv> 50000"

text \<open>The rows of the records, numbered from 1.\<close>

primrec summaries :: "view_lib \<Rightarrow> int \<Rightarrow> int \<times> int \<Rightarrow> nat \<Rightarrow> captured_packet list \<Rightarrow> packet_summary list option" where
  "summaries lib link t0 i [] = Some []"
| "summaries lib link t0 i (p # ps) = do {
     s \<leftarrow> dissectSummary lib link (cp_data p);
     rest \<leftarrow> summaries lib link t0 (i + 1) ps;
     Some (s\<lparr>psNo := i + 1, psLen := int (length (cp_data p)), psTime := secondsText lib t0 (cp_ts p)\<rparr> # rest)
   }"

definition pageOf :: "'a list \<Rightarrow> int \<Rightarrow> int \<Rightarrow> 'a list" where
  "pageOf xs offset limit =
     (let n = int (length xs);
          lo = (if offset < 0 then 0 else offset);
          lo = (if lo > n then n else lo);
          hi = lo + limit;
          hi = (if limit \<le> 0 \<or> hi > n then n else hi)
      in take (nat hi - nat lo) (drop (nat lo) xs))"

definition capturePackets :: "view_lib \<Rightarrow> bytes \<Rightarrow> capture_filter \<Rightarrow> (pcap_error + capture_result) option" where
  "capturePackets lib file f =
     (case readPcap file maxCaptureParse of
        Inl e \<Rightarrow> Some (Inl e)
      | Inr data \<Rightarrow> do {
          let t0 = (case pd_packets data of [] \<Rightarrow> (0, 0) | p # _ \<Rightarrow> cp_ts p);
          rows \<leftarrow> summaries lib (pd_linkType data) t0 0 (pd_packets data);
          let matched = filter (\<lambda>s. captureMatch lib s f) rows;
          Some (Inr \<lparr>crLinkType = pd_linkType data, crTotalParsed = length (pd_packets data), crTruncated = pd_truncated data,
            crMatched = length matched, crOffset = cfOffset f, crLimit = cfLimit f,
            crPackets = pageOf (sortPackets matched (cfSort f) (cfDesc f)) (cfOffset f) (cfLimit f)\<rparr>)
        })"

subsection \<open>Following a conversation\<close>

abbreviation maxFollowBytes :: nat where "maxFollowBytes \<equiv> 262144"

primrec segmentsOf :: "int \<Rightarrow> captured_packet list \<Rightarrow> (l4_segment \<times> int) list option" where
  "segmentsOf link [] = Some []"
| "segmentsOf link (p # ps) = do {
     r \<leftarrow> parseTCPSegment link (cp_data p);
     rest \<leftarrow> segmentsOf link ps;
     Some ((case r of None \<Rightarrow> [] | Some seg \<Rightarrow> [(seg, fst (cp_ts p) * 1000000000 + snd (cp_ts p))]) @ rest)
   }"

text \<open>The bytes collected for a flow: those of the last flow that completed under its key.\<close>

definition collected :: "flow_state list \<Rightarrow> flow_key \<Rightarrow> bytes" where
  "collected out k =
     (case find (\<lambda>fs. flowName fs = k) (rev out) of None \<Rightarrow> [] | Some fs \<Rightarrow> buf fs)"

definition conversation :: "addr_port \<Rightarrow> addr_port \<Rightarrow> (l4_segment \<times> int) list \<Rightarrow> bytes \<times> bytes" where
  "conversation a b segs =
     (let (re, out1) = consumeAll (newStreamReassembler [snd a, snd b] False maxFollowBytes 0) segs;
          (re', out2) = flushAll re
      in (collected (out1 @ out2) (a, b), collected (out1 @ out2) (b, a)))"

definition followStream :: "bytes \<Rightarrow> addr_port \<Rightarrow> addr_port \<Rightarrow> (pcap_error + bytes \<times> bytes \<times> nat) option" where
  "followStream file a b =
     (case readPcap file maxCaptureParse of
        Inl e \<Rightarrow> Some (Inl e)
      | Inr data \<Rightarrow> do {
          segs \<leftarrow> segmentsOf (pd_linkType data) (pd_packets data);
          let (ab, ba) = conversation a b segs;
          Some (Inr (ab, ba, length (pd_packets data)))
        })"

section \<open>Correctness\<close>

subsection \<open>No panic\<close>

lemma arpSummary_returns [no_panic]: "arpSummary lib s b \<noteq> None"
  unfolding arpSummary_def Let_def by (intro no_panic) auto

lemma parseIPHeader_returns [no_panic]: "parseIPHeader et l3 \<noteq> None"
  unfolding parseIPHeader_def Let_def by (intro no_panic) auto

lemma tcpSummary_returns [no_panic]: "tcpSummary lib s src dst l4 \<noteq> None"
  unfolding tcpSummary_def Let_def by (intro no_panic) auto

lemma udpSummary_returns [no_panic]: "udpSummary lib s src dst l4 \<noteq> None"
  unfolding udpSummary_def Let_def by (intro no_panic) auto

lemma icmpSummary_returns [no_panic]: "icmpSummary lib s src dst proto l4 \<noteq> None"
  unfolding icmpSummary_def Let_def by (intro no_panic) auto

lemma dissectSummary_returns [no_panic]: "dissectSummary lib linkType frame \<noteq> None"
  unfolding dissectSummary_def Let_def by (intro no_panic)

lemma summaries_returns [no_panic]: "summaries lib link t0 i ps \<noteq> None"
proof (induction ps arbitrary: i)
  case (Cons p ps)
  show ?case unfolding summaries.simps by (intro no_panic Cons.IH)
qed simp

lemma segmentsOf_returns [no_panic]: "segmentsOf link ps \<noteq> None"
proof (induction ps)
  case (Cons p ps)
  show ?case unfolding segmentsOf.simps by (intro no_panic Cons.IH)
qed simp

lemma capturePackets_returns [no_panic]: "capturePackets lib file f \<noteq> None"
  unfolding capturePackets_def Let_def by (intro no_panic)

lemma followStream_returns [no_panic]: "followStream file a b \<noteq> None"
  unfolding followStream_def Let_def by (intro no_panic)

text \<open>C_TBD: The viewer never panics: every frame has a row, and every file, with whatever filter, gives a table
  or the error of the reader, and so does following a conversation in it.\<close>

theorem view_never_panics:
  "dissectSummary lib linkType frame \<noteq> None \<and> capturePackets lib file f \<noteq> None \<and> followStream file a b \<noteq> None"
  by (intro conjI no_panic)

subsection \<open>The filter language\<close>

text \<open>Literals are compared as the strings they are written as.\<close>

lemma of_char_byte_inj: "inj (of_char :: char \<Rightarrow> byte)"
proof (rule injI)
  fix c d :: char assume "(of_char c :: byte) = of_char d"
  then have "(word_of_nat (of_char c) :: byte) = word_of_nat (of_char d)" by (simp add: of_nat_of_char)
  then have "(of_char c :: nat) mod 256 = of_char d mod 256"
    by (simp add: word_of_nat_eq_iff take_bit_eq_mod)
  then show "c = d" by simp
qed

lemma str_inject: "str a = str b \<longleftrightarrow> a = b"
  using inj_map_eq_map [OF of_char_byte_inj] by (simp add: str_def)

lemma fieldsFrom_joined: "isSpace c \<Longrightarrow> fieldsFrom cur (a @ c # b) = fieldsFrom cur a @ fieldsFrom [] b"
  by (induction a arbitrary: cur) auto

text \<open>C_TBD: Two filter expressions with a blank between them are their conjunction.\<close>

theorem filter_is_conjunction:
  "matchExpr lib s (a @ [0x20] @ b) \<longleftrightarrow> matchExpr lib s a \<and> matchExpr lib s b"
  using fieldsFrom_joined [of "0x20" "[]" a b] by (simp add: matchExpr_def isSpace_def)

text \<open>Terms whose value holds none of the operator characters.\<close>

definition opChars :: bytes where
  "opChars = str ''<>=!~''"

definition plainText :: "bytes \<Rightarrow> bool" where
  "plainText t \<longleftrightarrow> set t \<inter> set opChars = {}"

lemma no_op: "c \<in> set p \<Longrightarrow> c \<notin> set t \<Longrightarrow> bytesIndex t p = None"
  by (auto simp: bytesIndex_None)

definition stringFields :: "bytes list" where
  "stringFields = map str [''proto'', ''svc'', ''service'', ''class'', ''color'', ''info'', ''src'', ''dst'', ''addr'', ''ip'', ''host'']"

definition numberFields :: "bytes list" where
  "numberFields = map str [''len'', ''sport'', ''dport'', ''ipver'', ''ipv'']"

lemma chars: "str ''=='' = [0x3d, 0x3d]" "str ''!='' = [0x21, 0x3d]" "str ''='' = [0x3d]" "str ''>='' = [0x3e, 0x3d]"
  "str ''<='' = [0x3c, 0x3d]" "str ''~'' = [0x7e]" "str ''>'' = [0x3e]" "str ''<'' = [0x3c]"
  "set opChars = {0x3c, 0x3e, 0x3d, 0x21, 0x7e}"
  by (auto simp: str_def opChars_def)

lemma splitTerm_eq:
  assumes "plainText f" "plainText v" "f \<noteq> []"
  shows "splitTerm (f @ str ''=='' @ v) = Some (f, str ''=='', v)"
    and "splitTerm (f @ str ''!='' @ v) = Some (f, str ''!='', v)"
proof -
  have c: "0x3e \<notin> set f" "0x3e \<notin> set v" "0x3c \<notin> set f" "0x3c \<notin> set v" "0x3d \<notin> set f" "0x3d \<notin> set v" "0x21 \<notin> set f"
    using assms(1,2) by (auto simp: plainText_def chars)
  have a: "bytesIndex (f @ [0x3d, 0x3d] @ v) [0x3e, 0x3d] = None" "bytesIndex (f @ [0x3d, 0x3d] @ v) [0x3c, 0x3d] = None"
    using c no_op [of "0x3e" "[0x3e, 0x3d]" "f @ [0x3d, 0x3d] @ v"] no_op [of "0x3c" "[0x3c, 0x3d]" "f @ [0x3d, 0x3d] @ v"] by auto
  have b: "bytesIndex (f @ [0x21, 0x3d] @ v) [0x3e, 0x3d] = None" "bytesIndex (f @ [0x21, 0x3d] @ v) [0x3c, 0x3d] = None"
    using c no_op [of "0x3e" "[0x3e, 0x3d]" "f @ [0x21, 0x3d] @ v"] no_op [of "0x3c" "[0x3c, 0x3d]" "f @ [0x21, 0x3d] @ v"] by auto
  have n: "\<not> is_prefix (x # p) (drop k (f @ r))" if "k < length f" "x \<notin> set f" for x :: byte and p k r
  proof -
    have "drop k f \<noteq> []" using that(1) by simp
    then obtain y ys where "drop k f = y # ys" by (meson neq_Nil_conv)
    moreover from this have "y \<in> set f" by (metis in_set_dropD list.set_intros(1))
    ultimately show ?thesis using that by auto
  qed
  have i: "bytesIndex (f @ [0x3d, 0x3d] @ v) [0x3d, 0x3d] = Some (length f)"
    by (rule bytesIndex_first) (use n c in blast)
  have j: "bytesIndex (f @ [0x21, 0x3d] @ v) [0x21, 0x3d] = Some (length f)"
    by (rule bytesIndex_first) (use n c in blast)
  have u: "bytesIndex (f @ [0x21, 0x3d] @ v) [0x3d, 0x3d] = None"
    using c by (auto simp: bytesIndex_None append_eq_append_conv2 append_eq_Cons_conv Cons_eq_append_conv)
  show "splitTerm (f @ str ''=='' @ v) = Some (f, str ''=='', v)"
    using assms(3) a i by (simp add: splitTerm_def exprOps_def chars)
  show "splitTerm (f @ str ''!='' @ v) = Some (f, str ''!='', v)"
    using assms(3) b u j by (simp add: splitTerm_def exprOps_def chars)
qed


lemma cmpStr_not: "cmpStr a (str ''!='') w \<longleftrightarrow> \<not> cmpStr a (str ''=='') w"
  by (simp add: cmpStr_def str_def)

lemma cmpNum_not: "atoiOK (trimSpace w) \<noteq> None \<Longrightarrow> cmpNum a (str ''!='') w \<longleftrightarrow> \<not> cmpNum a (str ''=='') w"
  by (auto simp: cmpNum_def str_def)

lemma fields_plain:
  assumes "f \<in> set stringFields \<or> f \<in> set numberFields"
  shows "plainText f" "f \<noteq> []" "toLower f = f"
  using assms by (auto simp: stringFields_def numberFields_def plainText_def chars str_def toLower_def lower_def)

lemma matchTerm_string:
  assumes "f \<in> set stringFields" "plainText v"
  shows "matchTerm lib s (f @ str ''!='' @ v) \<longleftrightarrow> \<not> matchTerm lib s (f @ str ''=='' @ v)"
proof -
  have m: "f \<in> set stringFields \<or> f \<in> set numberFields" using assms(1) by blast
  note sp = splitTerm_eq [OF fields_plain(1) [OF m] assms(2) fields_plain(2) [OF m]]
  have "f = str ''proto'' \<or> f = str ''svc'' \<or> f = str ''service'' \<or> f = str ''class'' \<or> f = str ''color'' \<or> f = str ''info''
      \<or> f = str ''src'' \<or> f = str ''dst'' \<or> f = str ''addr'' \<or> f = str ''ip'' \<or> f = str ''host''"
    using assms(1) by (simp add: stringFields_def)
  then show ?thesis
    unfolding matchTerm_def sp option.case prod.case fields_plain(3) [OF m] Let_def
    by (elim disjE) (simp_all add: str_inject cmpStr_not)
qed

lemma matchTerm_number:
  assumes "f \<in> set numberFields" "plainText v" "atoiOK (trimSpace v) \<noteq> None"
  shows "matchTerm lib s (f @ str ''!='' @ v) \<longleftrightarrow> \<not> matchTerm lib s (f @ str ''=='' @ v)"
proof -
  have m: "f \<in> set stringFields \<or> f \<in> set numberFields" using assms(1) by blast
  note sp = splitTerm_eq [OF fields_plain(1) [OF m] assms(2) fields_plain(2) [OF m]]
  have "f = str ''len'' \<or> f = str ''sport'' \<or> f = str ''dport'' \<or> f = str ''ipver'' \<or> f = str ''ipv''"
    using assms(1) by (simp add: numberFields_def)
  then show ?thesis
    unfolding matchTerm_def sp option.case prod.case fields_plain(3) [OF m] Let_def
    by (elim disjE) (simp_all add: str_inject cmpNum_not [OF assms(3)])
qed

text \<open>C_TBD: In the filter language \<open>!=\<close> is the complement of \<open>==\<close>, for every text field, for the address of either end,
  and for every number field whose value is a number.\<close>

theorem filter_negation:
  assumes "plainText v" "f \<in> set stringFields \<or> f \<in> set numberFields \<and> atoiOK (trimSpace v) \<noteq> None"
  shows "matchTerm lib s (f @ str ''!='' @ v) \<longleftrightarrow> \<not> matchTerm lib s (f @ str ''=='' @ v)"
  using assms matchTerm_string [OF _ assms(1)] matchTerm_number [OF _ assms(1)] by blast

text \<open>An address library that keeps text as it is, for the examples.\<close>

definition plainLib :: view_lib where
  "plainLib = \<lparr>addrText = (\<lambda>a. a), addrPortText = (\<lambda>(a, p). a @ [0x3a] @ itoa (unat p)), parseAddrPort = (\<lambda>_. None),
     parseAddr = Some, secondsText = (\<lambda>_ _. [])\<rparr>"

theorem filter_negation_witness:
  "matchTerm plainLib blankSummary (str ''ipver!=6'') \<longleftrightarrow> \<not> matchTerm plainLib blankSummary (str ''ipver==6'')"
proof -
  have "atoiOK (trimSpace (str ''6'')) \<noteq> None"
    by (simp add: atoiOK_def trimSpace_def trimRight_def isSpace_def isDigit_def digitsVal_def str_def)
  moreover have "plainText (str ''6'')" "str ''ipver'' \<in> set numberFields"
    by (simp_all add: plainText_def chars numberFields_def str_def)
  ultimately show ?thesis
    using filter_negation [of "str ''6''" "str ''ipver''" plainLib blankSummary] by (simp add: str_def)
qed

text \<open>It is not for the port of either end, where both an equation and its negation match a packet between two
  ports: \<open>port!=631\<close> hides no packet of a printer.\<close>

lemma port_negation_matches_too:
  "let s = blankSummary\<lparr>psSport := 50000, psDport := 631\<rparr> in
     matchTerm plainLib s (str ''port==631'') \<and> matchTerm plainLib s (str ''port!=631'')"
proof -
  have a: "atoiOK (trimSpace (str ''631'')) = Some 631"
    by (simp add: atoiOK_def trimSpace_def trimRight_def isSpace_def isDigit_def digitsVal_def str_def)
  have "plainText (str ''631'')" "plainText (str ''port'')" by (simp_all add: plainText_def chars str_def)
  note sp = splitTerm_eq [OF this(2,1)]
  have e: "str ''port==631'' = str ''port'' @ str ''=='' @ str ''631''" "str ''port!=631'' = str ''port'' @ str ''!='' @ str ''631''"
    by (simp_all add: str_def)
  have lo: "toLower (str ''port'') = str ''port''" "str ''port'' \<noteq> []" by (simp_all add: toLower_def lower_def str_def)
  have c: "cmpNum k (str ''=='') (str ''631'') = (k = 631)" "cmpNum k (str ''!='') (str ''631'') = (k \<noteq> 631)" for k
    by (simp_all add: cmpNum_def a str_inject)
  show ?thesis
    unfolding Let_def e matchTerm_def sp [OF lo(2)] option.case prod.case lo(1) by (simp add: str_inject c)
qed

text \<open>And the operator is looked for in the order of the table, not from the left: a value that holds a comparison
  of an earlier row takes the term apart in the wrong place.\<close>

lemma value_with_operator_missplit: "splitTerm (str ''info~a>=b'') = Some (str ''info~a'', str ''>='', str ''b'')"
  by (simp add: splitTerm_def exprOps_def bytesIndex_Cons bytesIndex_Nil str_def)

subsection \<open>The table\<close>

lemma set_insertBefore [simp]: "set (insertBefore lt x ys) = insert x (set ys)"
  by (induction ys) auto

lemma mset_insertBefore: "mset (insertBefore lt x ys) = add_mset x (mset ys)"
  by (induction ys) auto

lemma mset_sliceStable: "mset (sliceStable lt xs) = mset xs"
  by (induction xs) (simp_all add: sliceStable_def mset_insertBefore)

text \<open>The order a stable sort gives: by the comparison, and where it does not tell, by the number of the row.\<close>

definition tableOrder :: "(packet_summary \<Rightarrow> packet_summary \<Rightarrow> bool) \<Rightarrow> packet_summary \<Rightarrow> packet_summary \<Rightarrow> bool" where
  "tableOrder lt a b \<longleftrightarrow> lt a b \<or> \<not> lt b a \<and> psNo a < psNo b"

definition columnLess :: "bytes \<Rightarrow> bool \<Rightarrow> packet_summary \<Rightarrow> packet_summary \<Rightarrow> bool" where
  "columnLess by' desc a b = (if desc then lessBy by' b a else lessBy by' a b)"

lemma columnLess_order:
  "columnLess by' desc a b \<Longrightarrow> \<not> columnLess by' desc b a"
  "columnLess by' desc a b \<Longrightarrow> columnLess by' desc a c \<or> columnLess by' desc c b"
  by (auto simp: columnLess_def lessBy_def split: if_splits)

lemma insertBefore_order:
  assumes "\<And>a b c. lt a b \<Longrightarrow> lt a c \<or> lt c b" "\<And>a b. lt a b \<Longrightarrow> \<not> lt b a"
  shows "sorted_wrt (tableOrder lt) ys \<Longrightarrow> \<forall>y\<in>set ys. psNo x < psNo y \<Longrightarrow> sorted_wrt (tableOrder lt) (insertBefore lt x ys)"
proof (induction ys)
  case (Cons y ys)
  show ?case
  proof (cases "lt y x")
    case True
    then show ?thesis using Cons by (auto simp: tableOrder_def)
  next
    case False
    have "tableOrder lt x z" if "z \<in> set ys" for z
    proof -
      have "tableOrder lt y z" using Cons.prems(1) that by simp
      then have "\<not> lt z y" using assms(2) [of y z] by (auto simp: tableOrder_def)
      then have "\<not> lt z x" using assms(1) [of z x y] False by blast
      then show ?thesis using Cons.prems(2) that by (simp add: tableOrder_def)
    qed
    then show ?thesis using False Cons.prems by (auto simp: tableOrder_def)
  qed
qed simp

lemma sliceStable_order:
  assumes "\<And>a b c. lt a b \<Longrightarrow> lt a c \<or> lt c b" "\<And>a b. lt a b \<Longrightarrow> \<not> lt b a"
  shows "sorted_wrt (\<lambda>a b. psNo a < psNo b) xs \<Longrightarrow> sorted_wrt (tableOrder lt) (sliceStable lt xs)"
proof (induction xs)
  case (Cons x xs)
  have "set (sliceStable lt xs) = set xs" by (metis mset_sliceStable set_mset_mset)
  then have "sorted_wrt (tableOrder lt) (insertBefore lt x (sliceStable lt xs))"
    using Cons by (intro insertBefore_order assms) auto
  then show ?case by (simp add: sliceStable_def)
qed (simp add: sliceStable_def)

lemma sortPackets_order:
  assumes "sorted_wrt (\<lambda>a b. psNo a < psNo b) p"
  shows "sorted_wrt (tableOrder (columnLess by' desc)) (sortPackets p by' desc)" "mset (sortPackets p by' desc) = mset p"
proof -
  have eq: "sortPackets p by' desc =
      (if (by' = [] \<or> by' = str ''no'') \<and> \<not> desc then p else sliceStable (columnLess by' desc) p)"
  proof (cases "by' = [] \<or> by' = str ''no''")
    case True
    then have "lessBy by' = (\<lambda>a b. psNo a < psNo b)" by (auto simp: lessBy_def str_def fun_eq_iff)
    with True show ?thesis by (auto simp: sortPackets_def columnLess_def [abs_def])
  qed (auto simp: sortPackets_def columnLess_def [abs_def])
  have "sorted_wrt (tableOrder (columnLess by' False)) p" if "by' = [] \<or> by' = str ''no''"
    using assms that by (auto simp: tableOrder_def columnLess_def lessBy_def str_def elim!: sorted_wrt_mono_rel [rotated])
  then show "sorted_wrt (tableOrder (columnLess by' desc)) (sortPackets p by' desc)"
    unfolding eq using sliceStable_order [OF columnLess_order(2) columnLess_order(1) assms] by auto
  show "mset (sortPackets p by' desc) = mset p" unfolding eq by (simp add: mset_sliceStable)
qed

text \<open>The rows of a file: the summary of each record, with its number, length and time.\<close>

lemma summaries_rows:
  "summaries lib link t0 i ps = Some rows \<Longrightarrow> length rows = length ps
    \<and> (\<forall>k<length ps. \<exists>s. dissectSummary lib link (cp_data (ps ! k)) = Some s
        \<and> rows ! k = s\<lparr>psNo := i + k + 1, psLen := int (length (cp_data (ps ! k))), psTime := secondsText lib t0 (cp_ts (ps ! k))\<rparr>)"
proof (induction ps arbitrary: i rows)
  case (Cons p ps)
  then obtain s rest where s: "dissectSummary lib link (cp_data p) = Some s" "summaries lib link t0 (i + 1) ps = Some rest"
    "rows = s\<lparr>psNo := i + 1, psLen := int (length (cp_data p)), psTime := secondsText lib t0 (cp_ts p)\<rparr> # rest"
    by (auto split: Option.bind_splits)
  note ih = Cons.IH [OF s(2)]
  show ?case
  proof (intro conjI allI impI)
    show "length rows = length (p # ps)" using ih s(3) by simp
    fix k assume k: "k < length (p # ps)"
    show "\<exists>s. dissectSummary lib link (cp_data ((p # ps) ! k)) = Some s \<and> rows ! k =
      s\<lparr>psNo := i + k + 1, psLen := int (length (cp_data ((p # ps) ! k))), psTime := secondsText lib t0 (cp_ts ((p # ps) ! k))\<rparr>"
      using ih s k by (cases k) auto
  qed
qed simp

lemma summaries_numbered: "summaries lib link t0 i ps = Some rows \<Longrightarrow> map psNo rows = [Suc i..<Suc i + length ps]"
proof (induction ps arbitrary: i rows)
  case (Cons p ps)
  then show ?case by (force split: Option.bind_splits simp: upt_conv_Cons simp del: upt_Suc)
qed simp

lemma summaries_sorted:
  assumes "summaries lib link t0 i ps = Some rows"
  shows "sorted_wrt (\<lambda>a b. psNo a < psNo b) (filter P rows)"
proof -
  have "sorted_wrt (<) (map psNo rows)" by (simp add: summaries_numbered [OF assms] del: upt_Suc)
  then show ?thesis by (simp add: sorted_wrt_map sorted_wrt_filter)
qed

lemma pageOf_window: "p > 0 \<Longrightarrow> pageOf xs (int m) (int p) = take p (drop m xs)"
  by (cases "length xs < m"; cases "m + p > length xs") (simp_all add: pageOf_def Let_def flip: of_nat_add)

definition pageFilter :: "capture_filter \<Rightarrow> nat \<Rightarrow> nat \<Rightarrow> capture_filter" where
  "pageFilter f p k = f\<lparr>cfOffset := int (k * p), cfLimit := int p\<rparr>"

lemma captureMatch_page [simp]: "captureMatch lib s (pageFilter f p k) = captureMatch lib s f"
  by (simp add: captureMatch_def pageFilter_def)

text \<open>C_TBD: Paging through a capture shows every matching packet once. For a readable file there is one table: the rows
  of the records, each the summary of its frame with its number, that pass the filter, in the order of the
  column asked for, rows that do not differ there in the order of capture; and the page \<open>k\<close> of any size is
  the \<open>k\<close>-th piece of that table, so the pages together are the table, and each reports its full length.\<close>

theorem capture_pages_complete:
  assumes "readPcap file maxCaptureParse = Inr data" "p > 0" "length (pd_packets data) \<le> n * p"
  shows "\<exists>rows table. length rows = length (pd_packets data)
    \<and> (\<forall>i<length rows. \<exists>s. dissectSummary lib (pd_linkType data) (cp_data (pd_packets data ! i)) = Some s
        \<and> rows ! i = s\<lparr>psNo := i + 1, psLen := int (length (cp_data (pd_packets data ! i))),
            psTime := secondsText lib (cp_ts (pd_packets data ! 0)) (cp_ts (pd_packets data ! i))\<rparr>)
    \<and> mset table = mset (filter (\<lambda>s. captureMatch lib s f) rows)
    \<and> sorted_wrt (tableOrder (columnLess (cfSort f) (cfDesc f))) table
    \<and> (\<forall>k. \<exists>res. capturePackets lib file (pageFilter f p k) = Some (Inr res)
        \<and> crPackets res = take p (drop (k * p) table) \<and> crMatched res = length table)
    \<and> concat (map (\<lambda>k. take p (drop (k * p) table)) [0..<n]) = table"
proof -
  let ?t0 = "case pd_packets data of [] \<Rightarrow> (0, 0) | p # _ \<Rightarrow> cp_ts p"
  obtain rows where r: "summaries lib (pd_linkType data) ?t0 0 (pd_packets data) = Some rows"
    using summaries_returns by fastforce
  define table where "table = sortPackets (filter (\<lambda>s. captureMatch lib s f) rows) (cfSort f) (cfDesc f)"
  note ord = sortPackets_order [OF summaries_sorted [OF r, of "\<lambda>s. captureMatch lib s f"], of "cfSort f" "cfDesc f", folded table_def]
  have len: "length table = length (filter (\<lambda>s. captureMatch lib s f) rows)" by (metis ord(2) size_mset)
  have row: "length rows = length (pd_packets data)" using summaries_rows [OF r] by blast
  have "\<exists>s. dissectSummary lib (pd_linkType data) (cp_data (pd_packets data ! i)) = Some s
        \<and> rows ! i = s\<lparr>psNo := i + 1, psLen := int (length (cp_data (pd_packets data ! i))),
            psTime := secondsText lib (cp_ts (pd_packets data ! 0)) (cp_ts (pd_packets data ! i))\<rparr>" if "i < length rows" for i
    using summaries_rows [OF r] that row by (cases "pd_packets data") auto
  moreover have "\<exists>res. capturePackets lib file (pageFilter f p k) = Some (Inr res)
        \<and> crPackets res = take p (drop (k * p) table) \<and> crMatched res = length table" for k
    using assms(1) r len pageOf_window [OF assms(2), of table "k * p"]
    by (simp add: capturePackets_def table_def Let_def) (simp add: pageFilter_def flip: of_nat_mult)
  moreover have "length table \<le> n * p"
    using len row assms(3) length_filter_le [of "\<lambda>s. captureMatch lib s f" rows] by linarith
  then have "concat (map (\<lambda>k. take p (drop (k * p) table)) [0..<n]) = table" by (rule pages_concat)
  ultimately show ?thesis using ord row by blast
qed

text \<open>A file with one record, of a single byte.\<close>

definition oneRecord :: bytes where
  "oneRecord = [0xd4, 0xc3, 0xb2, 0xa1, 2, 0, 4, 0, 0, 0, 0, 0, 0, 0, 0, 0, 0, 1, 0, 0, 1, 0, 0, 0,
     5, 0, 0, 0, 6, 0, 0, 0, 1, 0, 0, 0, 1, 0, 0, 0, 7]"

lemma oneRecord_read: "readPcap oneRecord maxCaptureParse = Inr \<lparr>pd_linkType = 1, pd_packets = [\<lparr>cp_ts = (5, 6000), cp_data = [7]\<rparr>], pd_truncated = False\<rparr>"
  by (simp add: oneRecord_def readPcap_def readFull_def byteOrder_def readRecords.simps get32_def unixTime_def Let_def)

theorem capture_pages_complete_witness:
  "\<exists>res. capturePackets plainLib oneRecord (pageFilter \<lparr>cfClass = [], cfProto = [], cfSvc = [], cfPort = 0, cfHost = [], cfNoV6 = False,
      cfQ = [], cfSort = [], cfDesc = False, cfOffset = 0, cfLimit = 0\<rparr> 10 0) = Some (Inr res) \<and> length (crPackets res) = 1"
proof -
  let ?f = "\<lparr>cfClass = [], cfProto = [], cfSvc = [], cfPort = 0, cfHost = [], cfNoV6 = False,
      cfQ = [], cfSort = [], cfDesc = False, cfOffset = 0, cfLimit = 0\<rparr>"
  have p: "(0 :: nat) < 10" "length (pd_packets \<lparr>pd_linkType = 1, pd_packets = [\<lparr>cp_ts = (5, 6000), cp_data = [7 :: byte]\<rparr>], pd_truncated = False\<rparr>) \<le> 1 * 10"
    by simp_all
  obtain rows table where r: "length rows = length (pd_packets \<lparr>pd_linkType = 1, pd_packets = [\<lparr>cp_ts = (5, 6000), cp_data = [7 :: byte]\<rparr>], pd_truncated = False\<rparr>)"
    and m: "mset table = mset (filter (\<lambda>s. captureMatch plainLib s ?f) rows)"
    and k: "\<forall>k. \<exists>res. capturePackets plainLib oneRecord (pageFilter ?f 10 k) = Some (Inr res)
        \<and> crPackets res = take 10 (drop (k * 10) table) \<and> crMatched res = length table"
    using capture_pages_complete [OF oneRecord_read p, of plainLib ?f] by blast
  from r have t: "length rows = 1" by simp
  have "filter (\<lambda>s. captureMatch plainLib s ?f) rows = rows" by (simp add: captureMatch_def)
  then have "length table = 1" using t m by (metis size_mset)
  then show ?thesis using spec [OF k, of 0] by auto
qed

subsection \<open>Following a conversation\<close>

text \<open>The reassembler holds one state for each connection.\<close>

lemma consume_distinct:
  "r_idle r \<le> 0 \<Longrightarrow> distinct (map fst (flows r)) \<Longrightarrow> distinct (map fst (flows (fst (consume r seg ts))))"
  by (auto simp: consume_spec Let_def AList.distinct_update AList.distinct_delete)

lemma consumeAll_distinct:
  "r_idle r \<le> 0 \<Longrightarrow> distinct (map fst (flows r)) \<Longrightarrow> distinct (map fst (flows (fst (consumeAll r segs))))"
proof (induction segs arbitrary: r)
  case (Cons x segs)
  obtain seg ts where x: "x = (seg, ts)" by (cases x)
  have "distinct (map fst (flows (fst (consumeAll (fst (consume r seg ts)) segs))))"
    using Cons consume_keeps(1) [of r seg ts] consume_distinct by auto
  then show ?case by (simp add: x case_prod_beta)
qed simp

lemma consumeAll_named: "r_idle r \<le> 0 \<Longrightarrow> named r \<Longrightarrow> named (fst (consumeAll r segs))"
proof (induction segs arbitrary: r)
  case (Cons x segs)
  obtain seg ts where x: "x = (seg, ts)" by (cases x)
  have "named (fst (consume r seg ts))"
  proof (cases "accepts r (segKey seg)")
    case True
    then show ?thesis by (rule consume_view(1) [OF Cons.prems])
  next
    case False
    then show ?thesis using Cons.prems by (simp add: consume_spec)
  qed
  then show ?case using Cons consume_keeps(1) [of r seg ts] by (simp add: x case_prod_beta)
qed simp

lemma filter_named_assoc:
  "distinct (map fst fl) \<Longrightarrow> \<forall>(n, fs)\<in>set fl. flowName fs = n \<Longrightarrow>
   filter (\<lambda>fs. flowName fs = k) (map snd fl) = (case map_of fl k of None \<Rightarrow> [] | Some fs \<Rightarrow> [fs])"
proof (induction fl)
  case (Cons a fl)
  obtain n fs where a: "a = (n, fs)" by (cases a)
  moreover have "map_of fl n = None" using Cons.prems(1) by (simp add: a map_of_eq_None_iff)
  ultimately show ?case using Cons by (auto simp: a)
qed simp

lemma filter_named:
  assumes "distinct (map fst fl)" "\<forall>k fs. map_of fl k = Some fs \<longrightarrow> flowName fs = k"
  shows "filter (\<lambda>fs. flowName fs = k) (map snd fl) = (case map_of fl k of None \<Rightarrow> [] | Some fs \<Rightarrow> [fs])"
proof (rule filter_named_assoc [OF assms(1)], clarify)
  fix a b c d fs assume "(((a, b), c, d), fs) \<in> set fl"
  then show "flowName fs = ((a, b), c, d)" using assms(2) map_of_is_SomeI [OF assms(1)] by blast
qed

lemma find_filter: "find P xs = (case filter P xs of [] \<Rightarrow> None | x # _ \<Rightarrow> Some x)"
  by (induction xs) auto

lemma collected_filter: "collected out k = (case rev (filter (\<lambda>fs. flowName fs = k) out) of [] \<Rightarrow> [] | fs # _ \<Rightarrow> buf fs)"
  by (cases "filter (\<lambda>fs. flowName fs = k) (rev out)") (simp_all add: collected_def find_filter rev_filter)

text \<open>What is shown of a direction: the last state of the flow's own machine.\<close>

lemma collected_run:
  assumes "r = newStreamReassembler ports allp mx 0" "accepts r k"
    and "flowRun mx None (filter (\<lambda>x. segKey (fst x) = k) segs) = (st, out)"
  shows "collected (snd (consumeAll r segs) @ snd (flushAll (fst (consumeAll r segs)))) k
    = (case rev (out @ (case st of None \<Rightarrow> [] | Some fs \<Rightarrow> [fs])) of [] \<Rightarrow> [] | fs # _ \<Rightarrow> buf fs)"
proof -
  have i: "r_idle r \<le> 0" "maxFlow r = mx" "flows r = []" using assms(1) by (simp_all add: newStreamReassembler_def)
  have n: "named r" using new_named assms(1) by simp
  note v = consumeAll_view [OF i(1) n assms(2), of segs, unfolded i(2) i(3) map_of.simps assms(3) fst_conv snd_conv]
  have "filter (\<lambda>fs. flowName fs = k) (map snd (flows (fst (consumeAll r segs)))) = (case st of None \<Rightarrow> [] | Some fs \<Rightarrow> [fs])"
    using filter_named [OF consumeAll_distinct [OF i(1), of segs], of k] consumeAll_named [OF i(1) n, of segs] v i(3)
    by (simp add: named_def)
  with v have "filter (\<lambda>fs. flowName fs = k) (snd (consumeAll r segs) @ snd (flushAll (fst (consumeAll r segs))))
      = out @ (case st of None \<Rightarrow> [] | Some fs \<Rightarrow> [fs])"
    by (simp add: flushAll_def)
  then show ?thesis unfolding collected_filter by (rule arg_cong)
qed

text \<open>C_TBD: Following a conversation shows what was sent. If the captured segments of a direction are a SYN, the chunks
  of the stream in any order with any repetitions, and possibly one closing FIN or RST after them, whatever else is in the
  file, the viewer shows the whole stream up to its limit.\<close>

theorem follow_shows_stream:
  assumes "wf_chunks cs" "segKey syn = (a, b)"
    and "seg_syn syn" "seg_payload syn = []" "\<not> seg_fin syn" "\<not> seg_rst syn"
    and "list_all (\<lambda>(seg, ts). \<not> seg_fin seg \<and> \<not> seg_rst seg \<and> (\<exists>i. carries cs (seg_seq syn + 1) seg i)) data"
    and "\<forall>i<length cs. \<exists>(seg, ts)\<in>set data. carries cs (seg_seq syn + 1) seg i"
    and "rest = [] \<or> (\<exists>fin t1. rest = [(fin, t1)] \<and> (seg_fin fin \<or> seg_rst fin) \<and> \<not> seg_syn fin \<and> seg_payload fin = [])"
    and "filter (\<lambda>x. segKey (fst x) = (a, b)) segs = (syn, t0) # data @ rest"
  shows "fst (conversation a b segs) = capped maxFollowBytes (concat cs) \<and> snd (conversation b a segs) = capped maxFollowBytes (concat cs)"
proof -
  have d: "list_all (\<lambda>(seg, ts). \<not> seg_fin seg \<and> \<not> seg_rst seg) data"
    "list_all (\<lambda>(seg, ts). \<exists>i. carries cs (seg_seq syn + 1) seg i) data"
    using assms(7) by (auto simp: list_all_iff)
  note b = feed_complete [OF assms(1,3,4) refl d(2) assms(8), of maxFollowBytes t0]
  have o: "flowStep maxFollowBytes None syn t0 = (Some (openFlow syn t0), [])"
    using assms(3-6) open_inv(3) [of syn t0 maxFollowBytes] by (simp add: flowStep_def)
  obtain st out where run: "flowRun maxFollowBytes None ((syn, t0) # data @ rest) = (st, out)" by fastforce
  have "(case rev (out @ (case st of None \<Rightarrow> [] | Some fs \<Rightarrow> [fs])) of [] \<Rightarrow> [] | fs # _ \<Rightarrow> buf fs) = capped maxFollowBytes (concat cs)"
    using assms(9)
  proof
    assume "rest = []"
    then show ?thesis using run flowRun_data [OF d(1), of maxFollowBytes "openFlow syn t0" "[]"] b by (simp add: o)
  next
    assume "\<exists>fin t1. rest = [(fin, t1)] \<and> (seg_fin fin \<or> seg_rst fin) \<and> \<not> seg_syn fin \<and> seg_payload fin = []"
    then obtain fin t1 where f: "rest = [(fin, t1)]" "seg_fin fin \<or> seg_rst fin" "\<not> seg_syn fin" "seg_payload fin = []" by blast
    show ?thesis
      using run flowRun_connection [OF assms(3-6) d(1) f(2-4), of maxFollowBytes t0 t1] b unfolding f(1) by simp
  qed
  note c = collected_run [OF refl _ run [folded assms(10)], unfolded this]
  have k: "accepts (newStreamReassembler [snd a, snd b] False maxFollowBytes 0) (a, b)"
    "accepts (newStreamReassembler [snd b, snd a] False maxFollowBytes 0) (a, b)"
    by (simp_all add: accepts_def newStreamReassembler_def)
  show ?thesis using c [OF k(1)] c [OF k(2)] by (simp add: conversation_def case_prod_beta Let_def)
qed

theorem follow_shows_stream_witness:
  "fst (conversation (seg_src demoSegment) (seg_dst demoSegment)
     [(demoSyn, 0), (demoData 1 [3], 1), (demoData 0xffffffff [1, 2], 2)]) = capped maxFollowBytes (concat [[1, 2], [3]])"
proof -
  have c: "carries [[1, 2], [3]] 0xffffffff (demoData 0xffffffff [1, 2]) 0"
    "carries [[1, 2], [3]] 0xffffffff (demoData 1 [3]) 1"
    by (simp_all add: carries_def demoData_def demoSegment_def seqOf_def offOf_def)
  have b: "seg_seq demoSyn + 1 = 0xffffffff" by (simp add: demoSyn_def)
  have "list_all (\<lambda>(seg, ts). \<not> seg_fin seg \<and> \<not> seg_rst seg \<and> (\<exists>i. carries [[1, 2], [3]] (seg_seq demoSyn + 1) seg i))
     [(demoData 1 [3], 1 :: int), (demoData 0xffffffff [1, 2], 2)]"
    unfolding b using c by (auto simp: demoData_def demoSegment_def)
  moreover have "\<forall>i<length [[1, 2], [3 :: byte]]. \<exists>(seg, ts)\<in>set [(demoData 1 [3], 1 :: int), (demoData 0xffffffff [1, 2], 2)].
     carries [[1, 2], [3]] (seg_seq demoSyn + 1) seg i"
    unfolding b using c by (auto simp: less_Suc_eq)
  ultimately show ?thesis
    using follow_shows_stream [of "[[1, 2], [3]]" demoSyn "seg_src demoSegment" "seg_dst demoSegment"
        "[(demoData 1 [3], 1), (demoData 0xffffffff [1, 2], 2)]" "[]" _ 0]
    by (simp add: segKey_def demoSyn_def demoData_def demoSegment_def wf_chunks_def maxPendingSegs_def)
qed

text \<open>A segment after the FIN, such as the acknowledgement of the peer's own FIN with which every orderly close ends, opens
  a new empty flow under the same key, and what is shown is that one: the stream is gone.\<close>

definition lastAck :: l4_segment where
  "lastAck = demoSegment\<lparr>seg_seq := 3, seg_payload := []\<rparr>"

lemma orderly_close_hides_stream:
  "fst (conversation (seg_src demoSegment) (seg_dst demoSegment)
     [(demoSyn, 0), (demoData 0xffffffff [1, 2, 3], 1), (demoSegment\<lparr>seg_seq := 2, seg_fin := True, seg_payload := []\<rparr>, 2),
      (lastAck, 3)]) = []"
  by (simp add: conversation_def flushAll_def consume_def complete_def sweepIdle_def newStreamReassembler_def acceptSegment_def
      newFlow_def collected_def flowName_def integrate_def appendInOrder_def drainPending.simps Let_def demoSyn_def demoData_def
      lastAck_def demoSegment_def)

end
