(* ===== verification/Intercept.thy ===== *)
theory Intercept
  imports Packet_View
begin

text \<open>
  Network interception (\<^verbatim>\<open>intercept.go\<close> and the expiry stamp of \<^verbatim>\<open>validate.go\<close>): the authorization gate,
  the allow-list of the active positioner, starting, pumping frames into the capture file, the live view and
  the carver, and the teardown. The packet source, the capture file, IP forwarding and the ARP positioner are
  those of the operating system: a record says whether each of them opens, and a trace records what was done to
  them in which order. Times are nanoseconds from the zero time of Go; zones of IPv6 addresses are left out.
\<close>

subsection \<open>Configuration and environment\<close>

record authorization_conf =
  auAcknowledged :: bool
  auOperator :: bytes
  auEngagement :: bytes
  auExpiry :: bytes

record arp_conf =
  arpEnabled :: bool
  arpGateway :: bytes
  arpTargets :: "bytes list"
  arpIntervalMS :: int

record intercept_conf =
  icEnabled :: bool
  icInterface :: bytes
  icUplink :: bytes
  icMFPIP :: bytes
  icPcapFile :: bytes
  icCaptureFilter :: bytes
  icSnapLen :: int
  icIPForward :: bool
  icDisableIPv6 :: bool
  icAuth :: authorization_conf
  icCarveEnabled :: bool
  icCarve :: carve_conf
  icARP :: arp_conf

text \<open>What reads dates and what the system makes of each request to open something.\<close>

record intercept_os =
  osView :: view_lib
  parseRFC3339 :: "bytes \<Rightarrow> int option"
  parseDate :: "bytes \<Rightarrow> int option"
  sourceOpens :: bool
  sourceLink :: int
  pcapOpens :: bool
  forwardingStarts :: bool
  positionerBuilt :: bool
  positionerStarts :: bool

subsection \<open>The authorization gate\<close>

abbreviation secondNs :: int where "secondNs \<equiv> 1000000000"

text \<open>\<open>None\<close> is a malformed stamp; the zero time stands for no expiry.\<close>

definition parseAuthExpiry :: "intercept_os \<Rightarrow> bytes \<Rightarrow> int option" where
  "parseAuthExpiry os s0 =
     (let s = trimSpace s0 in
      if s = [] then Some 0
      else (case parseRFC3339 os s of
          Some t \<Rightarrow> Some t
        | None \<Rightarrow> (case parseDate os s of
              Some d \<Rightarrow> Some (d + (24 * 3600 * secondNs - secondNs))
            | None \<Rightarrow> None)))"

datatype auth_error = NotAcknowledged | BlankOperator | BlankEngagement | BadExpiry | Expired

definition authorizeIntercept :: "intercept_os \<Rightarrow> int \<Rightarrow> intercept_conf \<Rightarrow> auth_error option" where
  "authorizeIntercept os now c =
     (let a = icAuth c in
      if \<not> auAcknowledged a then Some NotAcknowledged
      else if trimSpace (auOperator a) = [] then Some BlankOperator
      else if trimSpace (auEngagement a) = [] then Some BlankEngagement
      else (case parseAuthExpiry os (auExpiry a) of
          None \<Rightarrow> Some BadExpiry
        | Some exp \<Rightarrow> if exp \<noteq> 0 \<and> now > exp then Some Expired else None))"

subsection \<open>The scope of active positioning\<close>

text \<open>\<^verbatim>\<open>IsLoopback\<close>, \<^verbatim>\<open>IsMulticast\<close> and \<^verbatim>\<open>IsUnspecified\<close> of an address of 4 or 16 bytes; the first two look
  through an IPv4 address in IPv6 form.\<close>

definition unmapAddr :: "bytes \<Rightarrow> bytes" where
  "unmapAddr a = (if length a = 16 \<and> take 12 a = replicate 10 0 @ [0xff, 0xff] then drop 12 a else a)"

definition isLoopbackAddr :: "bytes \<Rightarrow> bool" where
  "isLoopbackAddr a = (let b = unmapAddr a in
     (length b = 4 \<and> hd b = 127) \<or> (length b = 16 \<and> b = replicate 15 0 @ [1]))"

definition isMulticastAddr :: "bytes \<Rightarrow> bool" where
  "isMulticastAddr a = (let b = unmapAddr a in
     (length b = 4 \<and> hd b AND 0xf0 = 0xe0) \<or> (length b = 16 \<and> hd b = 0xff))"

definition isUnspecifiedAddr :: "bytes \<Rightarrow> bool" where
  "isUnspecifiedAddr a \<longleftrightarrow> a = replicate 4 0 \<or> a = replicate 16 0"

datatype scope_error = BadTarget bytes | RefusedTarget bytes | BadGateway

fun scopeTargets :: "intercept_os \<Rightarrow> bytes list \<Rightarrow> bytes list \<Rightarrow> scope_error + bytes list" where
  "scopeTargets os [] targets = Inr targets"
| "scopeTargets os (raw # raws) targets =
     (case parseAddr (osView os) raw of
        None \<Rightarrow> Inl (BadTarget raw)
      | Some a \<Rightarrow>
          if isLoopbackAddr a \<or> isMulticastAddr a \<or> isUnspecifiedAddr a then Inl (RefusedTarget raw)
          else scopeTargets os raws (if a \<in> set targets then targets else targets @ [a]))"

text \<open>The targets, the gateway and whether positioning is active.\<close>

definition validateARPScope :: "intercept_os \<Rightarrow> arp_conf \<Rightarrow> bytes \<Rightarrow> scope_error + (bytes list \<times> bytes option \<times> bool)" where
  "validateARPScope os c mfpIP =
     (if \<not> arpEnabled c then Inr ([], None, False)
      else (case scopeTargets os (arpTargets c @ (if mfpIP \<noteq> [] then [mfpIP] else [])) [] of
          Inl e \<Rightarrow> Inl e
        | Inr targets \<Rightarrow>
            (case (if arpGateway c \<noteq> [] then map_option Some (parseAddr (osView os) (arpGateway c)) else Some None) of
               None \<Rightarrow> Inl BadGateway
             | Some gw \<Rightarrow> if targets = [] then Inr ([], gw, False) else Inr (targets, gw, True))))"

subsection \<open>Starting\<close>

datatype capture_step =
    OpenSource | CloseSource | OpenPcap | ClosePcap | WriteSidecar
  | EnableForwarding | RestoreForwarding | StartARP "bytes list" | RestoreARP | StopPump | FlushCarver

datatype start_error = Unauthorized auth_error | BadScope scope_error | NoSource | NoPcapFile

record interceptor =
  itConf :: intercept_conf
  itLink :: int
  itPcap :: pcap_writer
  itLive :: live_tap
  itCarver :: "carver option"
  itFwd :: bool
  itARP :: bool
  itClosed :: bool

text \<open>The optional parts: forwarding first, so that a host drawn to this one is served at once.\<close>

definition startForwarding :: "intercept_os \<Rightarrow> intercept_conf \<Rightarrow> capture_step list \<times> bool" where
  "startForwarding os c = (if icIPForward c \<and> forwardingStarts os then ([EnableForwarding], True) else ([], False))"

definition startPositioner :: "intercept_os \<Rightarrow> bytes list \<Rightarrow> bool \<Rightarrow> capture_step list \<times> bool" where
  "startPositioner os targets active =
     (if \<not> active \<or> \<not> positionerBuilt os then ([], False)
      else if \<not> positionerStarts os then ([StartARP targets, RestoreARP], False)
      else ([StartARP targets], True))"

definition startInterceptor :: "intercept_os \<Rightarrow> int \<Rightarrow> bool \<Rightarrow> live_tap \<Rightarrow> intercept_conf \<Rightarrow> capture_step list \<times> (start_error + interceptor)" where
  "startInterceptor os now haveSink tap c =
     (case authorizeIntercept os now c of
        Some e \<Rightarrow> ([], Inl (Unauthorized e))
      | None \<Rightarrow>
          (case validateARPScope os (icARP c) (icMFPIP c) of
             Inl e \<Rightarrow> ([], Inl (BadScope e))
           | Inr (targets, gw, arpActive) \<Rightarrow>
               if \<not> sourceOpens os then ([], Inl NoSource)
               else if \<not> pcapOpens os then ([OpenSource, CloseSource], Inl NoPcapFile)
               else
                 (let pw = newPcapWriter (icSnapLen c) (sourceLink os);
                      cv = (if icCarveEnabled c \<and> haveSink then Some (newCarver (icCarve c) (sourceLink os)) else None);
                      (t1, fwd) = startForwarding os c;
                      (t2, arp) = startPositioner os targets arpActive
                  in ([OpenSource, OpenPcap, WriteSidecar] @ t1 @ t2,
                      Inr \<lparr>itConf = c, itLink = sourceLink os, itPcap = pw, itLive = resetTap tap (sourceLink os), itCarver = cv,
                        itFwd = fwd, itARP = arp, itClosed = False\<rparr>))))"

subsection \<open>The pump\<close>

text \<open>A frame of the source: its time stamp, if it has one, the time it is taken over at, and its bytes.\<close>

record source_frame =
  sfTs :: "(int \<times> nat) option"
  sfNow :: "int \<times> nat"
  sfData :: bytes

definition frameTime :: "source_frame \<Rightarrow> int \<times> nat" where
  "frameTime p = (case sfTs p of Some t \<Rightarrow> t | None \<Rightarrow> sfNow p)"

definition asCaptured :: "source_frame \<Rightarrow> captured_packet" where
  "asCaptured p = \<lparr>cp_ts = (fst (frameTime p), int (snd (frameTime p))), cp_data = sfData p\<rparr>"

definition frameNs :: "source_frame \<Rightarrow> int" where
  "frameNs p = fst (frameTime p) * secondNs + int (snd (frameTime p))"

text \<open>Whether a frame passes the filters of the configuration.\<close>

definition keepFrame :: "view_lib \<Rightarrow> intercept_conf \<Rightarrow> int \<Rightarrow> bytes \<Rightarrow> bool option" where
  "keepFrame lib c link data = do {
     v6 \<leftarrow> (if icDisableIPv6 c then frameIsIPv6 link data else Some False);
     if v6 then Some False
     else if icCaptureFilter c \<noteq> [] then do {
       cs \<leftarrow> dissectSummary lib link data;
       Some (matchExpr lib (cs\<lparr>psLen := int (length data)\<rparr>) (icCaptureFilter c))
     }
     else Some True
   }"

text \<open>The jobs of the streams that completed, given to the sink in that order.\<close>

record carve_lib =
  clAddr :: "bytes \<Rightarrow> bytes"
  clPjl :: "bytes \<Rightarrow> bytes \<times> bytes"

fun carvedJobs :: "carve_lib \<Rightarrow> flow_state list \<Rightarrow> job list option" where
  "carvedJobs cl [] = Some []"
| "carvedJobs cl (fs # rest) = do {
     j \<leftarrow> onStream (clAddr cl) (clPjl cl) fs;
     js \<leftarrow> carvedJobs cl rest;
     Some ((case j of None \<Rightarrow> [] | Some x \<Rightarrow> [x]) @ js)
   }"

definition carveFrame :: "carve_lib \<Rightarrow> carver option \<Rightarrow> bytes \<Rightarrow> int \<Rightarrow> (carver option \<times> job list) option" where
  "carveFrame cl cv data ts =
     (case cv of
        None \<Rightarrow> Some (None, [])
      | Some v \<Rightarrow> do {
          (v', out) \<leftarrow> carverConsume v data ts;
          js \<leftarrow> carvedJobs cl out;
          Some (Some v', js)
        })"

text \<open>The frames the pump takes before the source ends or the interceptor is closed; a frame the capture file
  refuses ends it.\<close>

fun pump :: "view_lib \<Rightarrow> carve_lib \<Rightarrow> interceptor \<Rightarrow> source_frame list \<Rightarrow> (interceptor \<times> job list) option" where
  "pump lib cl it [] = Some (it, [])"
| "pump lib cl it (p # ps) = do {
     keep \<leftarrow> keepFrame lib (itConf it) (itLink it) (sfData p);
     if \<not> keep then pump lib cl it ps
     else (case writePacket (itPcap it) (frameTime p) (sfData p) of
         None \<Rightarrow> Some (it, [])
       | Some pw \<Rightarrow> do {
           (cv, js1) \<leftarrow> carveFrame cl (itCarver it) (sfData p) (frameNs p);
           (it', js2) \<leftarrow> pump lib cl (it\<lparr>itPcap := pw, itLive := recordPacket (itLive it) (asCaptured p), itCarver := cv\<rparr>) ps;
           Some (it', js1 @ js2)
         })
   }"

subsection \<open>Closing\<close>

definition closeInterceptor :: "carve_lib \<Rightarrow> interceptor \<Rightarrow> (interceptor \<times> capture_step list \<times> job list) option" where
  "closeInterceptor cl it =
     (if itClosed it then Some (it, [], [])
      else do {
        (cv, js) \<leftarrow> (case itCarver it of
            None \<Rightarrow> Some (None, [])
          | Some v \<Rightarrow> (case carverFlush v of (v', out) \<Rightarrow> do { js \<leftarrow> carvedJobs cl out; Some (Some v', js) }));
        Some (it\<lparr>itPcap := closePcap (itPcap it), itCarver := cv, itClosed := True\<rparr>,
          (if itARP it then [RestoreARP] else []) @ [StopPump, CloseSource] @ (if itCarver it \<noteq> None then [FlushCarver] else [])
            @ (if itFwd it then [RestoreForwarding] else []) @ [ClosePcap],
          js)
      })"

section \<open>Correctness\<close>

subsection \<open>No panic\<close>

lemma frameIsIPv6_returns [no_panic]: "frameIsIPv6 link data \<noteq> None"
  unfolding frameIsIPv6_def by (intro no_panic)

lemma keepFrame_returns [no_panic]: "keepFrame lib c link data \<noteq> None"
  unfolding keepFrame_def by (intro no_panic)

lemma carvedJobs_returns [no_panic]: "carvedJobs cl out \<noteq> None"
proof (induction out)
  case (Cons fs out)
  show ?case unfolding carvedJobs.simps by (intro no_panic Cons.IH onStream_returns)
qed simp

lemma carveFrame_returns [no_panic]: "carveFrame cl cv data ts \<noteq> None"
  unfolding carveFrame_def by (intro no_panic carverConsume_returns)

subsection \<open>The gate\<close>

definition isUnexpired :: "intercept_os \<Rightarrow> int \<Rightarrow> bytes \<Rightarrow> bool" where
  "isUnexpired os now s \<longleftrightarrow> (\<exists>t. parseAuthExpiry os s = Some t \<and> (t = 0 \<or> now \<le> t))"

lemma authorized_iff:
  "authorizeIntercept os now c = None \<longleftrightarrow> auAcknowledged (icAuth c) \<and> trimSpace (auOperator (icAuth c)) \<noteq> []
     \<and> trimSpace (auEngagement (icAuth c)) \<noteq> [] \<and> isUnexpired os now (auExpiry (icAuth c))"
  by (auto simp: authorizeIntercept_def isUnexpired_def Let_def split: option.splits)

lemma scopeTargets_ok:
  "scopeTargets os raws acc = Inr ts \<Longrightarrow> distinct acc \<Longrightarrow> distinct ts \<and> set ts = set acc \<union> {a. \<exists>r\<in>set raws. parseAddr (osView os) r = Some a}
    \<and> (\<forall>r\<in>set raws. \<exists>a. parseAddr (osView os) r = Some a \<and> \<not> isLoopbackAddr a \<and> \<not> isMulticastAddr a \<and> \<not> isUnspecifiedAddr a)"
proof (induction os raws acc rule: scopeTargets.induct)
  case (2 os raw raws targets)
  then obtain a where a: "parseAddr (osView os) raw = Some a" "\<not> (isLoopbackAddr a \<or> isMulticastAddr a \<or> isUnspecifiedAddr a)"
    by (auto split: option.splits if_splits)
  have "scopeTargets os raws (if a \<in> set targets then targets else targets @ [a]) = Inr ts" using 2(2) a by simp
  from 2(1) [OF a this] 2(3) show ?case using a by auto
qed auto

text \<open>C_TBD: Interception is fail-closed. Nothing is opened unless the operator acknowledged the authorization, is named, names
  an engagement, and its window is not over; and caches are poisoned only when that is switched on, and then for
  exactly the addresses of the list and the printer, each a valid address that is not loopback, multicast or
  unspecified, none twice and at least one.\<close>

theorem interception_fail_closed:
  assumes "startInterceptor os now haveSink tap c = (tr, r)" "tr \<noteq> []"
  shows "auAcknowledged (icAuth c) \<and> trimSpace (auOperator (icAuth c)) \<noteq> [] \<and> trimSpace (auEngagement (icAuth c)) \<noteq> []
    \<and> isUnexpired os now (auExpiry (icAuth c))
    \<and> (\<forall>ts. StartARP ts \<in> set tr \<longrightarrow> arpEnabled (icARP c) \<and> ts \<noteq> [] \<and> distinct ts
        \<and> set ts = {a. \<exists>raw\<in>set (arpTargets (icARP c)) \<union> ({icMFPIP c} - {[]}). parseAddr (osView os) raw = Some a}
        \<and> (\<forall>a\<in>set ts. \<not> isLoopbackAddr a \<and> \<not> isMulticastAddr a \<and> \<not> isUnspecifiedAddr a))"
proof -
  have au: "authorizeIntercept os now c = None"
    using assms by (auto simp: startInterceptor_def split: option.splits)
  then obtain targets gw act where sc: "validateARPScope os (icARP c) (icMFPIP c) = Inr (targets, gw, act)"
    using assms by (cases "validateARPScope os (icARP c) (icMFPIP c)") (auto simp: startInterceptor_def)
  have st: "ts = targets \<and> act" if "StartARP ts \<in> set tr" for ts
    using assms(1) that au sc
    by (auto simp: startInterceptor_def startForwarding_def startPositioner_def Let_def split: if_splits prod.splits)
  have "arpEnabled (icARP c) \<and> targets \<noteq> [] \<and> distinct targets
      \<and> set targets = {a. \<exists>raw\<in>set (arpTargets (icARP c)) \<union> ({icMFPIP c} - {[]}). parseAddr (osView os) raw = Some a}
      \<and> (\<forall>a\<in>set targets. \<not> isLoopbackAddr a \<and> \<not> isMulticastAddr a \<and> \<not> isUnspecifiedAddr a)" if "act"
  proof -
    from sc that have e: "arpEnabled (icARP c)" "targets \<noteq> []"
      "scopeTargets os (arpTargets (icARP c) @ (if icMFPIP c \<noteq> [] then [icMFPIP c] else [])) [] = Inr targets"
      by (auto simp: validateARPScope_def split: if_splits sum.splits option.splits)
    note ok = scopeTargets_ok [OF e(3)]
    have "set (arpTargets (icARP c) @ (if icMFPIP c \<noteq> [] then [icMFPIP c] else [])) = set (arpTargets (icARP c)) \<union> ({icMFPIP c} - {[]})"
      by auto
    then have s: "distinct targets" "set targets = {a. \<exists>raw\<in>set (arpTargets (icARP c)) \<union> ({icMFPIP c} - {[]}). parseAddr (osView os) raw = Some a}"
      "\<forall>raw\<in>set (arpTargets (icARP c)) \<union> ({icMFPIP c} - {[]}). \<exists>a. parseAddr (osView os) raw = Some a
        \<and> \<not> isLoopbackAddr a \<and> \<not> isMulticastAddr a \<and> \<not> isUnspecifiedAddr a"
      using ok by simp_all
    then have "\<not> isLoopbackAddr a \<and> \<not> isMulticastAddr a \<and> \<not> isUnspecifiedAddr a" if a: "a \<in> set targets" for a
    proof -
      from a obtain raw where raw: "raw \<in> set (arpTargets (icARP c)) \<union> ({icMFPIP c} - {[]})" "parseAddr (osView os) raw = Some a"
        unfolding s(2) by blast
      from bspec [OF s(3) raw(1)] raw(2) show ?thesis by auto
    qed
    then show ?thesis using e(1,2) s(1,2) by blast
  qed
  with st au show ?thesis by (auto simp: authorized_iff)
qed

subsection \<open>The pump\<close>

definition keptFrames :: "view_lib \<Rightarrow> interceptor \<Rightarrow> source_frame list \<Rightarrow> source_frame list" where
  "keptFrames lib it ps = filter (\<lambda>p. keepFrame lib (itConf it) (itLink it) (sfData p) = Some True) ps"

lemma carvedJobs_append:
  "carvedJobs cl xs = Some a \<Longrightarrow> carvedJobs cl ys = Some b \<Longrightarrow> carvedJobs cl (xs @ ys) = Some (a @ b)"
  by (induction xs arbitrary: a) (auto split: Option.bind_splits)

lemma writePacket_open: "writePacket pw ts d = Some pw' \<Longrightarrow> \<not> pw_closed pw \<and> \<not> pw_closed pw'"
  by (auto simp: writePacket_def Let_def split: if_splits)

text \<open>C_TBD: The capture file, the live view and the carver see the same frames. Whatever frames the source delivers, those
  that pass the filters, and only those, are written to the capture file, enter the live view and go through
  the carver, each in the order they came; and the jobs given to the sink are those of the streams the carver
  completes on them.\<close>

theorem pump_feeds_all_alike:
  assumes "\<not> pw_closed (itPcap it)"
  shows "\<exists>it' js. pump lib cl it ps = Some (it', js)
    \<and> writePackets (itPcap it) (map (\<lambda>p. (frameTime p, sfData p)) (keptFrames lib it ps)) = Some (itPcap it')
    \<and> itLive it' = foldl recordPacket (itLive it) (map asCaptured (keptFrames lib it ps))
    \<and> (case itCarver it of None \<Rightarrow> itCarver it' = None \<and> js = []
       | Some cv \<Rightarrow> \<exists>cv' out. carveFrames cv (map (\<lambda>p. (sfData p, frameNs p)) (keptFrames lib it ps)) = Some (cv', out)
           \<and> itCarver it' = Some cv' \<and> carvedJobs cl out = Some js)"
  using assms
proof (induction ps arbitrary: it)
  case Nil
  then show ?case by (auto simp: keptFrames_def split: option.split)
next
  case (Cons p ps)
  obtain k where k: "keepFrame lib (itConf it) (itLink it) (sfData p) = Some k" using keepFrame_returns by fastforce
  show ?case
  proof (cases k)
    case False
    then have "keptFrames lib it (p # ps) = keptFrames lib it ps" "pump lib cl it (p # ps) = pump lib cl it ps"
      using k by (simp_all add: keptFrames_def)
    then show ?thesis using Cons.IH [OF Cons.prems] by presburger
  next
    case True
    obtain pw where pw: "writePacket (itPcap it) (frameTime p) (sfData p) = Some pw"
      using Cons.prems by (auto simp: writePacket_def Let_def)
    obtain cv js1 where cv: "carveFrame cl (itCarver it) (sfData p) (frameNs p) = Some (cv, js1)"
      using carveFrame_returns by fastforce
    define it1 where "it1 = it\<lparr>itPcap := pw, itLive := recordPacket (itLive it) (asCaptured p), itCarver := cv\<rparr>"
    have f: "itPcap it1 = pw" "itLive it1 = recordPacket (itLive it) (asCaptured p)" "itCarver it1 = cv"
      "keptFrames lib it1 ps = keptFrames lib it ps" "keptFrames lib it (p # ps) = p # keptFrames lib it ps"
      using True k by (simp_all add: it1_def keptFrames_def)
    have "\<not> pw_closed (itPcap it1)" using writePacket_open [OF pw] f(1) by simp
    from Cons.IH [OF this, unfolded f(1-4)] obtain it' js2 where
      i: "pump lib cl it1 ps = Some (it', js2)"
        "writePackets pw (map (\<lambda>p. (frameTime p, sfData p)) (keptFrames lib it ps)) = Some (itPcap it')"
        "itLive it' = foldl recordPacket (recordPacket (itLive it) (asCaptured p)) (map asCaptured (keptFrames lib it ps))"
        "case cv of None \<Rightarrow> itCarver it' = None \<and> js2 = []
         | Some cv \<Rightarrow> \<exists>cv' out. carveFrames cv (map (\<lambda>p. (sfData p, frameNs p)) (keptFrames lib it ps)) = Some (cv', out)
           \<and> itCarver it' = Some cv' \<and> carvedJobs cl out = Some js2" by blast
    have run: "pump lib cl it (p # ps) = Some (it', js1 @ js2)"
      using k True pw cv i(1) by (simp add: it1_def)
    have car: "case itCarver it of None \<Rightarrow> itCarver it' = None \<and> js1 @ js2 = []
       | Some v \<Rightarrow> \<exists>cv' out. carveFrames v (map (\<lambda>p. (sfData p, frameNs p)) (p # keptFrames lib it ps)) = Some (cv', out)
           \<and> itCarver it' = Some cv' \<and> carvedJobs cl out = Some (js1 @ js2)"
    proof (cases "itCarver it")
      case None
      then show ?thesis using cv i(4) by (auto simp: carveFrame_def)
    next
      case (Some v)
      with cv obtain v' out where v: "carverConsume v (sfData p) (frameNs p) = Some (v', out)" "carvedJobs cl out = Some js1" "cv = Some v'"
        by (auto simp: carveFrame_def split: Option.bind_splits)
      with i(4) show ?thesis using Some carvedJobs_append [OF v(2)] by auto
    qed
    show ?thesis unfolding f(5) by (rule exI [of _ it'], rule exI [of _ "js1 @ js2"]) (use run pw i(2,3) car in simp)
  qed
qed

subsection \<open>Teardown\<close>

text \<open>Whether something that one step turns on and another turns off is on after a trace.\<close>

definition isOn :: "('a \<Rightarrow> bool) \<Rightarrow> ('a \<Rightarrow> bool) \<Rightarrow> 'a list \<Rightarrow> bool" where
  "isOn on off tr = foldl (\<lambda>b e. if on e then True else if off e then False else b) False tr"

fun isStartARP :: "capture_step \<Rightarrow> bool" where
  "isStartARP (StartARP ts) = True" | "isStartARP _ = False"

abbreviation "poisoning \<equiv> isOn isStartARP ((=) RestoreARP)"
abbreviation "forwardingOn \<equiv> isOn ((=) EnableForwarding) ((=) RestoreForwarding)"
abbreviation "sourceOpen \<equiv> isOn ((=) OpenSource) ((=) CloseSource)"
abbreviation "pcapOpen \<equiv> isOn ((=) OpenPcap) ((=) ClosePcap)"

lemma closeInterceptor_returns [no_panic]: "closeInterceptor cl it \<noteq> None"
  unfolding closeInterceptor_def by (intro no_panic)

text \<open>The pump changes neither what was opened nor the configuration.\<close>

lemma pump_keeps:
  "pump lib cl it ps = Some (it', js) \<Longrightarrow> itFwd it' = itFwd it \<and> itARP it' = itARP it \<and> itClosed it' = itClosed it
    \<and> itConf it' = itConf it \<and> (itCarver it' = None \<longleftrightarrow> itCarver it = None)"
proof (induction ps arbitrary: it js)
  case (Cons p ps)
  from Cons.prems show ?case
    by (auto split: Option.bind_splits if_splits option.splits prod.splits simp: carveFrame_def dest!: Cons.IH)
qed simp

text \<open>The order is checked by going through the trace once with the two switches.\<close>

primrec safeFrom :: "bool \<Rightarrow> bool \<Rightarrow> capture_step list \<Rightarrow> bool" where
  "safeFrom p f [] = (p \<longrightarrow> f)"
| "safeFrom p f (e # tr) = ((p \<longrightarrow> f) \<and> safeFrom (if isStartARP e then True else if RestoreARP = e then False else p)
     (if EnableForwarding = e then True else if RestoreForwarding = e then False else f) tr)"

lemma safeFrom_prefix:
  "safeFrom p f tr \<Longrightarrow> foldl (\<lambda>b e. if isStartARP e then True else if RestoreARP = e then False else b) p (take n tr) \<longrightarrow>
     foldl (\<lambda>b e. if EnableForwarding = e then True else if RestoreForwarding = e then False else b) f (take n tr)"
proof (induction tr arbitrary: p f n)
  case (Cons e tr)
  show ?case
  proof (cases n)
    case 0
    then show ?thesis using Cons.prems by simp
  next
    case (Suc m)
    from Cons.prems have "safeFrom (if isStartARP e then True else if RestoreARP = e then False else p)
        (if EnableForwarding = e then True else if RestoreForwarding = e then False else f) tr" by simp
    from Cons.IH [OF this, of m] show ?thesis unfolding Suc take_Suc_Cons foldl_Cons .
  qed
qed simp

text \<open>The traces of a start that succeeds and of the close that follows it.\<close>

lemma start_trace:
  assumes "startInterceptor os now haveSink tap c = (tr, Inr it)"
  obtains ts where "tr = [OpenSource, OpenPcap, WriteSidecar] @ (if itFwd it then [EnableForwarding] else [])
      @ (if itARP it then [StartARP ts] else []) \<or> tr = [OpenSource, OpenPcap, WriteSidecar] @ (if itFwd it then [EnableForwarding] else [])
      @ [StartARP ts, RestoreARP] \<and> \<not> itARP it"
    "\<not> itClosed it" "\<not> pw_closed (itPcap it)"
proof -
  from assms obtain targets gw act where "validateARPScope os (icARP c) (icMFPIP c) = Inr (targets, gw, act)"
    "authorizeIntercept os now c = None" "sourceOpens os" "pcapOpens os"
    by (auto simp: startInterceptor_def split: option.splits sum.splits if_splits)
  with assms have t: "tr = [OpenSource, OpenPcap, WriteSidecar] @ fst (startForwarding os c) @ fst (startPositioner os targets act)"
    "itFwd it = snd (startForwarding os c)" "itARP it = snd (startPositioner os targets act)" "\<not> itClosed it" "\<not> pw_closed (itPcap it)"
    by (auto simp: startInterceptor_def newPcapWriter_def Let_def split: prod.splits)
  then have "(tr = [OpenSource, OpenPcap, WriteSidecar] @ (if itFwd it then [EnableForwarding] else [])
      @ (if itARP it then [StartARP targets] else []) \<or> tr = [OpenSource, OpenPcap, WriteSidecar] @ (if itFwd it then [EnableForwarding] else [])
      @ [StartARP targets, RestoreARP] \<and> \<not> itARP it)"
    unfolding t(1-3) by (simp add: startForwarding_def startPositioner_def)
  with t(4,5) have "(tr = [OpenSource, OpenPcap, WriteSidecar] @ (if itFwd it then [EnableForwarding] else [])
      @ (if itARP it then [StartARP targets] else []) \<or> tr = [OpenSource, OpenPcap, WriteSidecar] @ (if itFwd it then [EnableForwarding] else [])
      @ [StartARP targets, RestoreARP] \<and> \<not> itARP it) \<and> \<not> itClosed it \<and> \<not> pw_closed (itPcap it)" by blast
  then show thesis using that by blast
qed

text \<open>C_TBD: Teardown is complete and in the safe order. However long it captured, an interceptor that is closed leaves
  nothing behind: no cache is poisoned, forwarding is back as it was, the source and the capture file are closed;
  at no moment from start to end is a cache poisoned while forwarding, once enabled, is already off again; and
  closing again does nothing. A start that fails leaves nothing open either.\<close>

theorem teardown_restores:
  assumes "startInterceptor os now haveSink tap c = (tr, r)"
  shows "case r of
      Inl e \<Rightarrow> \<not> sourceOpen tr \<and> \<not> pcapOpen tr \<and> \<not> poisoning tr \<and> \<not> forwardingOn tr
    | Inr it \<Rightarrow> \<exists>it1 js1 it2 tr2 js2. pump lib cl it ps = Some (it1, js1) \<and> closeInterceptor cl it1 = Some (it2, tr2, js2)
        \<and> \<not> sourceOpen (tr @ tr2) \<and> \<not> pcapOpen (tr @ tr2) \<and> \<not> poisoning (tr @ tr2) \<and> \<not> forwardingOn (tr @ tr2)
        \<and> (\<forall>n. poisoning (take n (tr @ tr2)) \<longrightarrow> EnableForwarding \<in> set tr \<longrightarrow> forwardingOn (take n (tr @ tr2)))
        \<and> closeInterceptor cl it2 = Some (it2, [], [])"
proof (cases r)
  case (Inl e)
  with assms have "tr = [] \<or> tr = [OpenSource, CloseSource]"
    by (auto simp: startInterceptor_def Let_def split: option.splits sum.splits if_splits prod.splits)
  then show ?thesis using Inl by (auto simp: isOn_def)
next
  case (Inr it)
  obtain ts where tr: "tr = [OpenSource, OpenPcap, WriteSidecar] @ (if itFwd it then [EnableForwarding] else [])
      @ (if itARP it then [StartARP ts] else []) \<or> tr = [OpenSource, OpenPcap, WriteSidecar] @ (if itFwd it then [EnableForwarding] else [])
      @ [StartARP ts, RestoreARP] \<and> \<not> itARP it" and cl: "\<not> itClosed it" "\<not> pw_closed (itPcap it)"
    using start_trace [OF assms [unfolded Inr]] by blast
  from pump_feeds_all_alike [OF cl(2), of lib cl ps] obtain it1 js1 where p: "pump lib cl it ps = Some (it1, js1)" by blast
  note kp = pump_keeps [OF p]
  obtain it2 tr2 js2 where c: "closeInterceptor cl it1 = Some (it2, tr2, js2)"
    using closeInterceptor_returns [of cl it1] by (metis option.exhaust prod_cases3)
  then have t2: "itClosed it2" "tr2 = (if itARP it then [RestoreARP] else []) @ [StopPump, CloseSource]
      @ (if itCarver it1 \<noteq> None then [FlushCarver] else []) @ (if itFwd it then [RestoreForwarding] else []) @ [ClosePcap]"
    using kp cl(1) by (auto simp: closeInterceptor_def split: Option.bind_splits)
  have again: "closeInterceptor cl it2 = Some (it2, [], [])" using t2(1) by (simp add: closeInterceptor_def)
  have order: "poisoning (take n (tr @ tr2)) \<longrightarrow> EnableForwarding \<in> set tr \<longrightarrow> forwardingOn (take n (tr @ tr2))" for n
  proof (cases "itFwd it")
    case True
    have "safeFrom False False (tr @ tr2)"
      using tr True unfolding t2(2) by (cases "itARP it"; cases "itCarver it1") auto
    then show ?thesis unfolding isOn_def using safeFrom_prefix by blast
  next
    case False
    then have "EnableForwarding \<notin> set tr" using tr by auto
    then show ?thesis by blast
  qed
  have "\<not> sourceOpen (tr @ tr2) \<and> \<not> pcapOpen (tr @ tr2) \<and> \<not> poisoning (tr @ tr2) \<and> \<not> forwardingOn (tr @ tr2)"
    using tr unfolding t2(2) by (cases "itFwd it"; cases "itARP it"; cases "itCarver it1") (auto simp: isOn_def)
  then show ?thesis using Inr p c again order by auto
qed

subsection \<open>An authorized capture\<close>

text \<open>A system where everything opens, and a configuration that draws one printer on path.\<close>

definition openSystem :: intercept_os where
  "openSystem = \<lparr>osView = plainLib, parseRFC3339 = (\<lambda>_. None), parseDate = (\<lambda>_. Some 1000), sourceOpens = True, sourceLink = 1,
     pcapOpens = True, forwardingStarts = True, positionerBuilt = True, positionerStarts = True\<rparr>"

definition demoCapture :: intercept_conf where
  "demoCapture = \<lparr>icEnabled = True, icInterface = str ''eth0'', icUplink = [], icMFPIP = [192, 0, 2, 5], icPcapFile = str ''c.pcap'',
     icCaptureFilter = [], icSnapLen = 0, icIPForward = True, icDisableIPv6 = False,
     icAuth = \<lparr>auAcknowledged = True, auOperator = str ''eve'', auEngagement = str ''T-1'', auExpiry = []\<rparr>, icCarveEnabled = False,
     icCarve = \<lparr>carvePorts = [], carveAllPorts = False, carveMaxStreamMB = 0, carveIdleFlushSec = 0\<rparr>,
     icARP = \<lparr>arpEnabled = True, arpGateway = [], arpTargets = [[192, 0, 2, 5]], arpIntervalMS = 0\<rparr>\<rparr>"

lemma not_replicate: "x \<noteq> y \<Longrightarrow> x # xs \<noteq> replicate n y"
  by (cases n) auto

lemma demo_scope: "validateARPScope openSystem (icARP demoCapture) [192, 0, 2, 5] = Inr ([[192, 0, 2, 5]], None, True)"
  by (simp add: validateARPScope_def demoCapture_def openSystem_def plainLib_def isLoopbackAddr_def isMulticastAddr_def
      isUnspecifiedAddr_def unmapAddr_def not_replicate Let_def)

lemma demo_authorized: "authorizeIntercept openSystem 5 demoCapture = None"
  by (simp add: authorizeIntercept_def parseAuthExpiry_def demoCapture_def trimSpace_def trimRight_def str_def isSpace_def Let_def)

lemma demo_start:
  "fst (startInterceptor openSystem 5 True (newTap 3) demoCapture)
     = [OpenSource, OpenPcap, WriteSidecar, EnableForwarding, StartARP [[192, 0, 2, 5]]]"
proof -
  have "icMFPIP demoCapture = [192, 0, 2, 5]" "icIPForward demoCapture" by (simp_all add: demoCapture_def)
  moreover have "sourceOpens openSystem" "pcapOpens openSystem" "forwardingStarts openSystem" "positionerBuilt openSystem"
    "positionerStarts openSystem" by (simp_all add: openSystem_def)
  ultimately show ?thesis
    using demo_scope demo_authorized by (simp add: startInterceptor_def startForwarding_def startPositioner_def Let_def)
qed

theorem interception_fail_closed_witness:
  "StartARP [[192, 0, 2, 5]] \<in> set (fst (startInterceptor openSystem 5 True (newTap 3) demoCapture))
   \<and> auAcknowledged (icAuth demoCapture) \<and> \<not> isLoopbackAddr [192, 0, 2, 5]"
proof -
  obtain r where "startInterceptor openSystem 5 True (newTap 3) demoCapture
      = ([OpenSource, OpenPcap, WriteSidecar, EnableForwarding, StartARP [[192, 0, 2, 5]]], r)"
    using demo_start by (metis prod.collapse)
  from interception_fail_closed [OF this] demo_start show ?thesis by auto
qed

definition demoFrame :: source_frame where
  "demoFrame = \<lparr>sfTs = None, sfNow = (7, 0), sfData = [1, 2, 3]\<rparr>"

definition demoInterceptor :: interceptor where
  "demoInterceptor = \<lparr>itConf = demoCapture, itLink = 1, itPcap = newPcapWriter 0 1, itLive = newTap 3, itCarver = None, itFwd = True,
     itARP = True, itClosed = False\<rparr>"

theorem pump_feeds_all_alike_witness:
  "\<exists>it' js. pump plainLib \<lparr>clAddr = (\<lambda>a. a), clPjl = (\<lambda>_. ([], []))\<rparr> demoInterceptor [demoFrame] = Some (it', js)
     \<and> itLive it' = recordPacket (newTap 3) (asCaptured demoFrame)"
proof -
  have "\<not> pw_closed (itPcap demoInterceptor)" by (simp add: demoInterceptor_def newPcapWriter_def Let_def)
  from pump_feeds_all_alike [OF this, of plainLib "\<lparr>clAddr = (\<lambda>a. a), clPjl = (\<lambda>_. ([], []))\<rparr>" "[demoFrame]"]
  show ?thesis by (auto simp: keptFrames_def keepFrame_def demoInterceptor_def demoCapture_def)
qed

theorem teardown_restores_witness:
  "\<exists>it it1 js1 it2 tr2 js2. snd (startInterceptor openSystem 5 True (newTap 3) demoCapture) = Inr it
     \<and> pump plainLib \<lparr>clAddr = (\<lambda>a. a), clPjl = (\<lambda>_. ([], []))\<rparr> it [demoFrame] = Some (it1, js1)
     \<and> closeInterceptor \<lparr>clAddr = (\<lambda>a. a), clPjl = (\<lambda>_. ([], []))\<rparr> it1 = Some (it2, tr2, js2)
     \<and> \<not> poisoning ([OpenSource, OpenPcap, WriteSidecar, EnableForwarding, StartARP [[192, 0, 2, 5]]] @ tr2)"
proof -
  obtain it where it: "startInterceptor openSystem 5 True (newTap 3) demoCapture
      = ([OpenSource, OpenPcap, WriteSidecar, EnableForwarding, StartARP [[192, 0, 2, 5]]], Inr it)"
  proof (cases "snd (startInterceptor openSystem 5 True (newTap 3) demoCapture)")
    case (Inl e)
    then have "startInterceptor openSystem 5 True (newTap 3) demoCapture
        = ([OpenSource, OpenPcap, WriteSidecar, EnableForwarding, StartARP [[192, 0, 2, 5]]], Inl e)"
      using demo_start by (metis prod.collapse)
    then show ?thesis using demo_scope demo_authorized
      by (auto simp: startInterceptor_def Let_def split: sum.splits if_splits prod.splits option.splits)
  next
    case (Inr it)
    then show ?thesis using demo_start that by (metis prod.collapse)
  qed
  from teardown_restores [OF it, of plainLib "\<lparr>clAddr = (\<lambda>a. a), clPjl = (\<lambda>_. ([], []))\<rparr>" "[demoFrame]"]
  show ?thesis unfolding it by auto
qed

end
