(* ===== verification/Validate.thy ===== *)
theory Validate
  imports Engine Intercept Forward Ebcdic Dlp
begin

text \<open>
  The configuration checks (\<^verbatim>\<open>validate.go\<close>), which \<^verbatim>\<open>-check\<close> and the user interface run before a start. An
  issue keeps its severity and the field it is about; its two sentences for the reader are left out. Path
  handling, name lookup, the probes of the file system and the compiler of regular expressions are parameters.
\<close>

subsection \<open>Issues and the configuration\<close>

datatype severity = SevError | SevWarning

record config_issue =
  isSeverity :: severity
  isField :: bytes

abbreviation errorAt :: "bytes \<Rightarrow> config_issue" where "errorAt f \<equiv> \<lparr>isSeverity = SevError, isField = f\<rparr>"
abbreviation warningAt :: "bytes \<Rightarrow> config_issue" where "warningAt f \<equiv> \<lparr>isSeverity = SevWarning, isField = f\<rparr>"

record check_lib =
  ckSplitHostPort :: "bytes \<Rightarrow> bool"
  ckParseIP :: "bytes \<Rightarrow> bool"
  ckLookup :: "bytes \<Rightarrow> bool"
  ckFileExists :: "bytes \<Rightarrow> bool"
  ckCompiles :: "bytes \<Rightarrow> bool"
  ckMakeDir :: "bytes \<Rightarrow> bool"
  ckCreates :: "bytes \<Rightarrow> bool"
  ckIsAbs :: "bytes \<Rightarrow> bool"
  ckClean :: "bytes \<Rightarrow> bytes"
  ckJoin :: "bytes \<Rightarrow> bytes \<Rightarrow> bytes"
  ckExeDir :: bytes

record syslog_conf =
  syEnabled :: bool
  syNetwork :: bytes
  syAddress :: bytes
  syFacility :: int

record config =
  vcEngine :: engine_conf
  vcSave :: bytes
  vcLogLevel :: bytes
  vcLogFormat :: bytes
  vcEBCDIC :: ebcdic_conf
  vcQueueDefaults :: "(bytes \<times> queue_default) list"
  vcForward :: forward_conf
  vcSyslog :: syslog_conf
  vcCertFile :: bytes
  vcKeyFile :: bytes
  vcOutDir :: bytes
  vcSpoolDir :: bytes
  vcBind :: bytes
  vcDLPEnabled :: bool
  vcDLPRules :: "dlp_rule list"
  vcIntercept :: intercept_conf

definition hasErrors :: "config_issue list \<Rightarrow> bool" where
  "hasErrors issues = list_ex (\<lambda>i. isSeverity i = SevError) issues"

text \<open>A field of the element \<open>i\<close> of a list.\<close>

definition fieldAt :: "bytes \<Rightarrow> nat \<Rightarrow> bytes" where
  "fieldAt name i = name @ [0x5b] @ itoa i @ [0x5d]"

definition indexed :: "'a list \<Rightarrow> (nat \<times> 'a) list" where
  "indexed xs = zip [0..<length xs] xs"

subsection \<open>Interception\<close>

definition validateAuthorization :: "intercept_os \<Rightarrow> int \<Rightarrow> authorization_conf \<Rightarrow> config_issue list" where
  "validateAuthorization os now a =
     (if \<not> auAcknowledged a then [errorAt (str ''intercept.authorization.acknowledged'')] else [])
     @ (if trimSpace (auOperator a) = [] then [errorAt (str ''intercept.authorization.operator'')] else [])
     @ (if trimSpace (auEngagement a) = [] then [errorAt (str ''intercept.authorization.engagement'')] else [])
     @ (case parseAuthExpiry os (auExpiry a) of
          None \<Rightarrow> [errorAt (str ''intercept.authorization.expiry'')]
        | Some exp \<Rightarrow> if exp \<noteq> 0 \<and> now > exp then [errorAt (str ''intercept.authorization.expiry'')] else [])"

definition validateCapture :: "check_lib \<Rightarrow> intercept_conf \<Rightarrow> config_issue list" where
  "validateCapture lib c =
     (if icCarveEnabled c \<and> \<not> carveAllPorts (icCarve c) \<and> carvePorts (icCarve c) = []
      then [warningAt (str ''intercept.carve.ports'')] else [])
     @ concat (map (\<lambda>(i, p). if p < 1 \<or> p > 65535 then [errorAt (fieldAt (str ''intercept.carve.ports'') i)] else [])
         (indexed (carvePorts (icCarve c))))
     @ concat (map (\<lambda>(f, v). if v < 0 then [errorAt f] else [])
         [(str ''intercept.carve.max_stream_mb'', carveMaxStreamMB (icCarve c)),
          (str ''intercept.carve.idle_flush_sec'', carveIdleFlushSec (icCarve c)),
          (str ''intercept.arp.interval_ms'', arpIntervalMS (icARP c)),
          (str ''intercept.snaplen'', icSnapLen c)])
     @ (if arpEnabled (icARP c) \<and> arpTargets (icARP c) = [] then [warningAt (str ''intercept.arp.targets'')] else [])
     @ concat (map (\<lambda>(i, raw). if \<not> ckParseIP lib (trimSpace raw) then [errorAt (fieldAt (str ''intercept.arp.targets'') i)] else [])
         (indexed (arpTargets (icARP c))))
     @ (let g = trimSpace (arpGateway (icARP c)) in
        if g \<noteq> [] \<and> \<not> ckParseIP lib g then [errorAt (str ''intercept.arp.gateway'')] else [])
     @ (let m = trimSpace (icMFPIP c) in
        if m \<noteq> [] \<and> \<not> ckParseIP lib m then [errorAt (str ''intercept.mfp_ip'')] else [])
     @ (let u = trimSpace (icUplink c) in
        if u \<noteq> [] \<and> u = trimSpace (icInterface c) then [warningAt (str ''intercept.uplink_interface'')] else [])"

definition validateIntercept :: "check_lib \<Rightarrow> intercept_os \<Rightarrow> int \<Rightarrow> config \<Rightarrow> config_issue list" where
  "validateIntercept lib os now c =
     (if \<not> icEnabled (vcIntercept c) then []
      else validateAuthorization os now (icAuth (vcIntercept c)) @ validateCapture lib (vcIntercept c))"

subsection \<open>Ports\<close>

definition extraEntries :: "engine_conf \<Rightarrow> (bytes \<times> int) list" where
  "extraEntries c = map (\<lambda>(i, p). (fieldAt (str ''raw.extra_ports'') i, p)) (indexed (ecExtraPorts c))"

definition namedEntries :: "ports_conf \<Rightarrow> engine_conf \<Rightarrow> (bytes \<times> int) list" where
  "namedEntries po c =
     [(str ''ports.raw9100'', poRaw9100 po), (str ''ports.lpr'', poLPR po), (str ''ports.ipp'', poIPP po), (str ''ports.ipps'', poIPPS po),
      (str ''ports.auto_tls'', poAutoTLS po), (str ''ports.dashboard'', poDashboard po), (str ''ports.snmp'', poSNMP po),
      (str ''smb.port'', ecSMBPort c), (str ''wsd.port'', ecWSDPort c)]"

definition rangeIssues :: "bytes \<times> int \<Rightarrow> config_issue list" where
  "rangeIssues = (\<lambda>(f, p).
     if p < 0 \<or> p > 65535 then [errorAt f]
     else if p > 0 \<and> p < 1024 then [warningAt f]
     else [])"

fun duplicateIssues :: "int list \<Rightarrow> (bytes \<times> int) list \<Rightarrow> config_issue list" where
  "duplicateIssues seen [] = []"
| "duplicateIssues seen ((f, p) # es) =
     (if p \<le> 0 \<or> p > 65535 then duplicateIssues seen es
      else if p \<in> set seen then errorAt f # duplicateIssues seen es
      else duplicateIssues (p # seen) es)"

text \<open>IPP and IPPS on the shared port are its merge, not a clash.\<close>

definition mergedPorts :: "ports_conf \<Rightarrow> ports_conf" where
  "mergedPorts po =
     po\<lparr>poIPP := (if poAutoTLS po > 0 \<and> poIPP po = poAutoTLS po then 0 else poIPP po),
        poIPPS := (if poAutoTLS po > 0 \<and> poIPPS po = poAutoTLS po then 0 else poIPPS po)\<rparr>"

definition validatePorts :: "engine_conf \<Rightarrow> config_issue list" where
  "validatePorts c =
     concat (map rangeIssues (namedEntries (ecPorts c) c @ extraEntries c))
     @ duplicateIssues [] (namedEntries (mergedPorts (ecPorts c)) c @ extraEntries c)"

subsection \<open>Enumerations\<close>

definition enumOK :: "bytes \<Rightarrow> string list \<Rightarrow> bool" where
  "enumOK val allowed = (val = [] \<or> list_ex (\<lambda>a. toLower val = str a) allowed)"

definition enumIssue :: "bytes \<Rightarrow> bytes \<Rightarrow> string list \<Rightarrow> config_issue list" where
  "enumIssue f val allowed = (if \<not> enumOK val allowed then [errorAt f] else [])"

abbreviation codePageNames :: "string list" where
  "codePageNames \<equiv> [''cp037'', ''cp500'', ''cp1047'', ''cp273'', ''cp285'', ''cp297'']"

abbreviation carriageNames :: "string list" where
  "carriageNames \<equiv> [''none'', ''asa'', ''machine'', ''auto'']"

definition validateEnums :: "config \<Rightarrow> config_issue list" where
  "validateEnums c =
     enumIssue (str ''save'') (vcSave c) [''both'', ''raw'', ''meta'', ''metadata'']
     @ enumIssue (str ''log.level'') (vcLogLevel c) [''error'', ''warn'', ''info'', ''debug'', ''trace'']
     @ enumIssue (str ''log.format'') (vcLogFormat c) [''text'', ''json'']
     @ enumIssue (str ''ebcdic.carriage_control'') (ebCarriage (vcEBCDIC c)) carriageNames
     @ enumIssue (str ''ebcdic.default_code_page'') (ebDefaultPage (vcEBCDIC c)) codePageNames
     @ concat (map (\<lambda>(name, qd).
         enumIssue (str ''lpd.queue_defaults['' @ name @ str ''].code_page'') (qdCodePage qd) codePageNames
         @ enumIssue (str ''lpd.queue_defaults['' @ name @ str ''].carriage_control'') (qdCarriage qd) carriageNames) (vcQueueDefaults c))
     @ enumIssue (str ''forward.capture'') (fwdCapture (vcForward c)) [''both'', ''sent'', ''orig'']
     @ concat (map (\<lambda>(i, t).
         enumIssue (fieldAt (str ''forward.targets'') i @ str ''.transport'') (ftTransport t) [''raw'', ''lpr'', ''ipp'', ''ipps'']
         @ enumIssue (fieldAt (str ''forward.targets'') i @ str ''.failure'') (ftFailure t) [''best_effort'', ''spool_retry'', ''block''])
         (indexed (fwdTargets (vcForward c))))
     @ enumIssue (str ''log.syslog.network'') (syNetwork (vcSyslog c)) [''udp'', ''tcp'']"

subsection \<open>Files, targets and rules\<close>

definition validateTLS :: "check_lib \<Rightarrow> config \<Rightarrow> config_issue list" where
  "validateTLS lib c =
     (let cert = vcCertFile c; key = vcKeyFile c in
      if cert = [] \<and> key = [] then []
      else (if cert \<noteq> [] \<and> key = [] then [errorAt (str ''tls.key_file'')] else [])
        @ (if key \<noteq> [] \<and> cert = [] then [errorAt (str ''tls.cert_file'')] else [])
        @ (if cert \<noteq> [] \<and> \<not> ckFileExists lib cert then [errorAt (str ''tls.cert_file'')] else [])
        @ (if key \<noteq> [] \<and> \<not> ckFileExists lib key then [errorAt (str ''tls.key_file'')] else []))"

definition targetIssues :: "check_lib \<Rightarrow> nat \<Rightarrow> forward_target \<Rightarrow> config_issue list" where
  "targetIssues lib i t =
     (let f = fieldAt (str ''forward.targets'') i @ str ''.address''; tr = toLower (ftTransport t) in
      if trimSpace (ftAddress t) = [] then [errorAt f]
      else if tr = str ''ipp'' \<or> tr = str ''ipps'' then
        (if \<not> bytesContains (ftAddress t) (str ''://'') then [warningAt f] else [])
      else if tr = str ''raw'' \<or> tr = str ''lpr'' \<or> tr = [] then
        (if \<not> ckSplitHostPort lib (ftAddress t) then [warningAt f] else [])
      else [])"

definition validateForward :: "check_lib \<Rightarrow> config \<Rightarrow> config_issue list" where
  "validateForward lib c =
     (if \<not> fwdEnabled (vcForward c) then []
      else if fwdTargets (vcForward c) = [] then [warningAt (str ''forward.targets'')]
      else concat (map (\<lambda>(i, t). targetIssues lib i t) (indexed (fwdTargets (vcForward c)))))"

definition validateSyslog :: "check_lib \<Rightarrow> config \<Rightarrow> config_issue list" where
  "validateSyslog lib c =
     (let s = vcSyslog c in
      if \<not> syEnabled s then []
      else (if trimSpace (syAddress s) = [] then [errorAt (str ''log.syslog.address'')]
            else if \<not> ckSplitHostPort lib (syAddress s) then [errorAt (str ''log.syslog.address'')]
            else [])
        @ (if syFacility s < 0 \<or> syFacility s > 23 then [errorAt (str ''log.syslog.facility'')] else []))"

definition resolveStorageDir :: "check_lib \<Rightarrow> bytes \<Rightarrow> bytes \<Rightarrow> bytes" where
  "resolveStorageDir lib p def =
     (let q = (if p = [] then def else p) in
      if ckIsAbs lib q then ckClean lib q else ckClean lib (ckJoin lib (ckExeDir lib) q))"

definition validateStorage :: "check_lib \<Rightarrow> config \<Rightarrow> config_issue list" where
  "validateStorage lib c =
     concat (map (\<lambda>dir.
         if \<not> ckMakeDir lib dir then [errorAt (str ''storage'')]
         else if \<not> ckCreates lib (ckJoin lib dir (str ''.printcap-write-test'')) then [errorAt (str ''storage'')]
         else [])
       [resolveStorageDir lib (vcOutDir c) (str ''captures''), resolveStorageDir lib (vcSpoolDir c) (str ''spool'')])"

definition ruleIssues :: "check_lib \<Rightarrow> nat \<Rightarrow> dlp_rule \<Rightarrow> config_issue list" where
  "ruleIssues lib i r =
     (let f = fieldAt (str ''dlp.rules'') i; mode = toLower (dlpMode r) in
      (if trimSpace (dlpName r) = [] then [warningAt (f @ str ''.name'')] else [])
      @ (if mode \<noteq> str ''keyword'' \<and> mode \<noteq> str ''regex'' then [errorAt (f @ str ''.mode'')]
         else if trimSpace (dlpPattern r) = [] then [errorAt (f @ str ''.pattern'')]
         else if mode = str ''regex'' \<and> \<not> ckCompiles lib (dlpPattern r) then [errorAt (f @ str ''.pattern'')]
         else []))"

definition validateDLP :: "check_lib \<Rightarrow> config \<Rightarrow> config_issue list" where
  "validateDLP lib c =
     (if \<not> vcDLPEnabled c then [] else concat (map (\<lambda>(i, r). ruleIssues lib i r) (indexed (vcDLPRules c))))"

definition validateBind :: "check_lib \<Rightarrow> config \<Rightarrow> config_issue list" where
  "validateBind lib c =
     (let b = trimSpace (vcBind c) in
      if b = [] \<or> b = str ''0.0.0.0'' \<or> b = str ''::'' then []
      else if ckParseIP lib b then []
      else if ckLookup lib b then []
      else [warningAt (str ''bind'')])"

definition validateConfig :: "check_lib \<Rightarrow> intercept_os \<Rightarrow> int \<Rightarrow> config \<Rightarrow> config_issue list" where
  "validateConfig lib os now c =
     validatePorts (vcEngine c) @ validateEnums c @ validateTLS lib c @ validateForward lib c @ validateSyslog lib c
     @ validateStorage lib c @ validateBind lib c @ validateDLP lib c @ validateIntercept lib os now c"

section \<open>Correctness\<close>

lemma hasErrors_append [simp]: "hasErrors (a @ b) \<longleftrightarrow> hasErrors a \<or> hasErrors b"
  by (simp add: hasErrors_def)

lemma hasErrors_simps [simp]:
  "\<not> hasErrors []" "hasErrors (errorAt f # r)" "hasErrors (warningAt f # r) \<longleftrightarrow> hasErrors r"
  by (simp_all add: hasErrors_def)

lemma hasErrors_concat: "hasErrors (concat (map g xs)) \<longleftrightarrow> (\<exists>x\<in>set xs. hasErrors (g x))"
  by (induction xs) auto

subsection \<open>Ports\<close>

definition allPorts' :: "ports_conf \<Rightarrow> engine_conf \<Rightarrow> int list" where
  "allPorts' po c = [poRaw9100 po, poLPR po, poIPP po, poIPPS po, poAutoTLS po, poDashboard po, poSNMP po, ecSMBPort c, ecWSDPort c]
     @ ecExtraPorts c"

lemma entries_ports: "map snd (namedEntries po c @ extraEntries c) = allPorts' po c"
proof -
  have "map snd (extraEntries c) = ecExtraPorts c"
    by (simp add: extraEntries_def indexed_def o_def case_prod_beta flip: map_map [of snd])
  then show ?thesis by (simp add: namedEntries_def allPorts'_def)
qed

lemma duplicates_iff:
  "hasErrors (duplicateIssues seen es) \<longleftrightarrow>
     \<not> distinct (filter (\<lambda>p. 0 < p \<and> p \<le> 65535) (map snd es)) \<or> (\<exists>p\<in>set (map snd es). 0 < p \<and> p \<le> 65535 \<and> p \<in> set seen)"
proof (induction seen es rule: duplicateIssues.induct)
  case (2 seen f p es)
  show ?case
  proof (cases "p \<le> 0 \<or> p > 65535 \<or> p \<in> set seen")
    case True
    then show ?thesis using 2 by auto
  next
    case False
    then have "hasErrors (duplicateIssues seen ((f, p) # es)) \<longleftrightarrow> hasErrors (duplicateIssues (p # seen) es)" by simp
    also have "\<dots> \<longleftrightarrow> \<not> distinct (filter (\<lambda>p. 0 < p \<and> p \<le> 65535) (map snd es))
        \<or> (\<exists>q\<in>set (map snd es). 0 < q \<and> q \<le> 65535 \<and> (q = p \<or> q \<in> set seen))"
      using 2(3) False by simp
    also have "(\<exists>q\<in>A. 0 < q \<and> q \<le> 65535 \<and> (q = p \<or> q \<in> set seen))
        \<longleftrightarrow> p \<in> A \<or> (\<exists>q\<in>A. 0 < q \<and> q \<le> 65535 \<and> q \<in> set seen)" for A
      using False by (auto intro: bexI [of _ p])
    finally show ?thesis using False by auto
  qed
qed simp

lemma ranges_iff: "hasErrors (concat (map rangeIssues es)) \<longleftrightarrow> (\<exists>p\<in>set (map snd es). p < 0 \<or> p > 65535)"
proof -
  have "hasErrors (rangeIssues x) \<longleftrightarrow> snd x < 0 \<or> snd x > 65535" for x
    by (cases x) (simp add: rangeIssues_def)
  then show ?thesis by (simp add: hasErrors_concat)
qed

lemma portsOK_iff:
  "\<not> hasErrors (validatePorts c) \<longleftrightarrow> (\<forall>p\<in>set (allPorts' (ecPorts c) c). 0 \<le> p \<and> p \<le> 65535)
     \<and> distinct (filter (\<lambda>p. p \<noteq> 0) (allPorts' (mergedPorts (ecPorts c)) c))"
proof -
  let ?m = "allPorts' (mergedPorts (ecPorts c)) c"
  have "filter (\<lambda>p. 0 < p \<and> p \<le> 65535) ?m = filter (\<lambda>p. p \<noteq> 0) ?m"
    if "\<forall>p\<in>set (allPorts' (ecPorts c) c). 0 \<le> p \<and> p \<le> 65535"
  proof (rule filter_cong [OF refl])
    fix p assume "p \<in> set ?m"
    then have "p = 0 \<or> p \<in> set (allPorts' (ecPorts c) c)" by (auto simp: allPorts'_def mergedPorts_def split: if_splits)
    then show "(0 < p \<and> p \<le> 65535) = (p \<noteq> 0)" using that by force
  qed
  then show ?thesis
    unfolding validatePorts_def hasErrors_append ranges_iff duplicates_iff entries_ports by force
qed

text \<open>C_TBD: The port check accepts exactly the configurations whose ports are all in range and of which no two that
  will be listened on are equal, where IPP and IPPS may share the port that serves both.\<close>

theorem port_check_exact:
  "\<not> hasErrors (validatePorts c) \<longleftrightarrow> (\<forall>p\<in>set (allPorts' (ecPorts c) c). 0 \<le> p \<and> p \<le> 65535)
     \<and> distinct (filter (\<lambda>p. p \<noteq> 0) (allPorts' (mergedPorts (ecPorts c)) c))"
  by (rule portsOK_iff)

subsection \<open>A start without a bind failure\<close>

text \<open>On a system where no port is taken: the TCP ports held are among those asked for so far, no datagram
  socket is open yet, and nothing failed.\<close>

definition cleanStart :: "int set \<Rightarrow> bool \<Rightarrow> 'f engine \<Rightarrow> bool" where
  "cleanStart D udp e \<longleftrightarrow> failures e = [] \<and> (\<forall>p. Some p \<in> tcpPort ` set (held e) \<longrightarrow> p \<in> D) \<and> (udp \<or> (\<forall>p. PacketConn p \<notin> set (held e)))"

definition allFree :: "'f engine_env \<Rightarrow> bool" where
  "allFree env \<longleftrightarrow> (\<forall>p. tcpFree env p \<and> udpFree env p)"

definition mayBind :: "int set \<Rightarrow> int \<Rightarrow> bool" where
  "mayBind D p \<longleftrightarrow> 0 \<le> p \<and> p \<le> 65535 \<and> (p = 0 \<or> p \<notin> D)"

lemma clean_canBind: "cleanStart D u e \<Longrightarrow> allFree env \<Longrightarrow> mayBind D p \<Longrightarrow> canBind env e p"
  by (auto simp: cleanStart_def allFree_def mayBind_def canBind_def)

lemma cleanStart_mono: "cleanStart D u e \<Longrightarrow> D \<subseteq> D' \<Longrightarrow> (u \<Longrightarrow> u') \<Longrightarrow> cleanStart D' u' e"
  by (auto simp: cleanStart_def)

lemma clean_addCloser:
  "cleanStart D u e \<Longrightarrow> (\<And>q. tcpPort c = Some q \<Longrightarrow> q = p) \<Longrightarrow> (\<And>q. c \<noteq> PacketConn q) \<Longrightarrow> cleanStart (insert p D) u (addCloser c e)"
  by (auto simp: cleanStart_def addCloser_def image_iff)

lemma clean_addActive [simp]: "cleanStart D u (addActive n p e) = cleanStart D u e"
  by (simp add: cleanStart_def addActive_def)

lemma clean_addTCP:
  "allFree env \<Longrightarrow> cleanStart D u e \<Longrightarrow> mayBind D p \<Longrightarrow> cleanStart (insert p D) u (fst (addTCP env n p e))"
  using clean_canBind [of D u e env p] by (auto simp: addTCP_def intro!: clean_addCloser elim: cleanStart_mono)

lemma clean_addHTTP:
  "allFree env \<Longrightarrow> cleanStart D u e \<Longrightarrow> mayBind D p \<Longrightarrow> cleanStart (insert p D) u (fst (addHTTP env n p e))"
  using clean_canBind [of D u e env p] by (auto simp: addHTTP_def intro!: clean_addCloser elim: cleanStart_mono)

lemma clean_extra:
  "allFree env \<Longrightarrow> cleanStart D u e \<Longrightarrow> \<forall>p\<in>set ps. mayBind D p \<Longrightarrow> distinct (filter (\<lambda>p. p \<noteq> 0) ps) \<Longrightarrow>
   cleanStart (D \<union> set ps) u (foldl (\<lambda>e' p. fst (addTCP env n p e')) e ps)"
proof (induction ps arbitrary: D e)
  case (Cons p ps)
  have "cleanStart (insert p D) u (fst (addTCP env n p e))" using clean_addTCP Cons.prems by auto
  moreover have "\<forall>q\<in>set ps. mayBind (insert p D) q" using Cons.prems(3,4) by (auto simp: mayBind_def split: if_splits)
  moreover have "distinct (filter (\<lambda>p. p \<noteq> 0) ps)" using Cons.prems(4) by (simp split: if_splits)
  ultimately have "cleanStart (insert p D \<union> set ps) u (foldl (\<lambda>e' p. fst (addTCP env n p e')) (fst (addTCP env n p e)) ps)"
    using Cons.IH [OF Cons.prems(1)] by blast
  then show ?case by simp
qed simp

lemma clean_steps:
  assumes "allFree env" "cleanStart D u e"
  shows "mayBind D (poAutoTLS po) \<Longrightarrow> cleanStart (insert (poAutoTLS po) D) u (fst (startAutoTLS off po env (e, bl)))"
    and "mayBind D (poRaw9100 po) \<Longrightarrow> \<forall>p\<in>set (ecExtraPorts c). mayBind (insert (poRaw9100 po) D) p \<Longrightarrow>
      distinct (filter (\<lambda>p. p \<noteq> 0) (ecExtraPorts c)) \<Longrightarrow>
      cleanStart (insert (poRaw9100 po) D \<union> set (ecExtraPorts c)) u (fst (startRaw off c po env (e, bl)))"
    and "mayBind D (poLPR po) \<Longrightarrow> cleanStart (insert (poLPR po) D) u (fst (startLPR off po env (e, bl)))"
    and "mayBind D (poIPP po) \<Longrightarrow> cleanStart (insert (poIPP po) D) u (fst (startIPP off po env (e, bl)))"
    and "mayBind D (poIPPS po) \<Longrightarrow> cleanStart (insert (poIPPS po) D) u (fst (startIPPS off po env (e, bl)))"
    and "mayBind D (poDashboard po) \<Longrightarrow> cleanStart (insert (poDashboard po) D) u (fst (startDashboard off c po env (e, bl)))"
    and "mayBind D p \<Longrightarrow> cleanStart (insert p D) u (startWSD env p e)"
proof -
  have w: "cleanStart (insert p D) u e" for p using assms(2) by (auto elim: cleanStart_mono)
  note t = clean_addTCP [OF assms] and h = clean_addHTTP [OF assms]
  show "mayBind D (poAutoTLS po) \<Longrightarrow> cleanStart (insert (poAutoTLS po) D) u (fst (startAutoTLS off po env (e, bl)))"
    using w clean_canBind [OF assms(2,1), of "poAutoTLS po"] assms(2)
    by (auto simp: startAutoTLS_def intro!: clean_addCloser)
  show "mayBind D (poRaw9100 po) \<Longrightarrow> \<forall>p\<in>set (ecExtraPorts c). mayBind (insert (poRaw9100 po) D) p \<Longrightarrow>
      distinct (filter (\<lambda>p. p \<noteq> 0) (ecExtraPorts c)) \<Longrightarrow>
      cleanStart (insert (poRaw9100 po) D \<union> set (ecExtraPorts c)) u (fst (startRaw off c po env (e, bl)))"
    using assms(2) clean_extra [OF assms(1) t] by (auto simp: startRaw_def Let_def case_prod_beta elim: cleanStart_mono)
  show "mayBind D (poLPR po) \<Longrightarrow> cleanStart (insert (poLPR po) D) u (fst (startLPR off po env (e, bl)))"
    using w t by (auto simp: startLPR_def Let_def case_prod_beta)
  show "mayBind D (poIPP po) \<Longrightarrow> cleanStart (insert (poIPP po) D) u (fst (startIPP off po env (e, bl)))"
    using w h by (auto simp: startIPP_def Let_def case_prod_beta)
  show "mayBind D (poIPPS po) \<Longrightarrow> cleanStart (insert (poIPPS po) D) u (fst (startIPPS off po env (e, bl)))"
    using w h by (auto simp: startIPPS_def Let_def case_prod_beta)
  show "mayBind D (poDashboard po) \<Longrightarrow> cleanStart (insert (poDashboard po) D) u (fst (startDashboard off c po env (e, bl)))"
    using w h by (auto simp: startDashboard_def Let_def case_prod_beta)
  show "mayBind D p \<Longrightarrow> cleanStart (insert p D) u (startWSD env p e)"
    using w assms(2) by (auto simp: startWSD_def intro!: clean_addCloser split: if_splits)
qed

lemma clean_SNMP:
  "allFree env \<Longrightarrow> cleanStart D False e \<Longrightarrow> 0 \<le> poSNMP po \<Longrightarrow> poSNMP po \<le> 65535 \<Longrightarrow> cleanStart D True (startSNMP off c po env e)"
  by (auto simp: startSNMP_def canBindUDP_def allFree_def cleanStart_def addCloser_def addActive_def image_iff)

lemma distinct_nonzero:
  "distinct (filter (\<lambda>p. p \<noteq> 0) (x # xs)) \<longleftrightarrow> (x = 0 \<or> x \<notin> set xs) \<and> distinct (filter (\<lambda>p. p \<noteq> 0) xs)"
  for x :: int
  by auto

lemma apart_nonzero:
  "distinct (filter (\<lambda>p. p \<noteq> 0) zs) \<Longrightarrow> zs = xs @ y # ys \<Longrightarrow> y = 0 \<or> y \<notin> set xs \<union> set ys" for y :: int
  by auto

lemma merged_ports: "autoTLSPorts po = mergedPorts po"
  by (simp add: autoTLSPorts_def mergedPorts_def)

lemma clean_listeners:
  assumes "allFree env" "cleanStart {} False e" "\<not> hasErrors (validatePorts c)"
  shows "failures (fst (startListeners c off env e)) = []"
proof -
  define po where "po = mergedPorts (ecPorts c)"
  have ok: "\<forall>p\<in>set (allPorts' (ecPorts c) c). 0 \<le> p \<and> p \<le> 65535" "distinct (filter (\<lambda>p. p \<noteq> 0) (allPorts' po c))"
    using assms(3) unfolding portsOK_iff po_def by blast+
  have rg: "0 \<le> p \<and> p \<le> 65535" if "p \<in> {poRaw9100 po, poLPR po, poIPP po, poIPPS po, poAutoTLS po, poDashboard po, poSNMP po,
      ecSMBPort c, ecWSDPort c} \<union> set (ecExtraPorts c)" for p
    using that ok(1) by (auto simp: po_def mergedPorts_def allPorts'_def)
  have mb: "mayBind D p" if "p = 0 \<or> p \<notin> D" "p \<in> {poRaw9100 po, poLPR po, poIPP po, poIPPS po, poAutoTLS po, poDashboard po, poSNMP po,
      ecSMBPort c, ecWSDPort c} \<union> set (ecExtraPorts c)" for p D
    using rg [OF that(2)] that(1) by (simp add: mayBind_def)
  have dist: "distinct (filter (\<lambda>p. p \<noteq> 0) (ecExtraPorts c))"
    using ok(2) unfolding allPorts'_def append_Cons append_Nil distinct_nonzero by blast
  have f0: "poRaw9100 po = 0 \<or> poRaw9100 po \<notin> {poLPR po, poIPP po, poIPPS po, poAutoTLS po, poDashboard po, poSNMP po, ecSMBPort c, ecWSDPort c} \<union> set (ecExtraPorts c)"
    using apart_nonzero [OF ok(2), of "[]" "poRaw9100 po" "[poLPR po, poIPP po, poIPPS po, poAutoTLS po, poDashboard po, poSNMP po, ecSMBPort c, ecWSDPort c] @ ecExtraPorts c"] by (auto simp: allPorts'_def)
  have f1: "poLPR po = 0 \<or> poLPR po \<notin> {poRaw9100 po, poIPP po, poIPPS po, poAutoTLS po, poDashboard po, poSNMP po, ecSMBPort c, ecWSDPort c} \<union> set (ecExtraPorts c)"
    using apart_nonzero [OF ok(2), of "[poRaw9100 po]" "poLPR po" "[poIPP po, poIPPS po, poAutoTLS po, poDashboard po, poSNMP po, ecSMBPort c, ecWSDPort c] @ ecExtraPorts c"] by (auto simp: allPorts'_def)
  have f2: "poIPP po = 0 \<or> poIPP po \<notin> {poRaw9100 po, poLPR po, poIPPS po, poAutoTLS po, poDashboard po, poSNMP po, ecSMBPort c, ecWSDPort c} \<union> set (ecExtraPorts c)"
    using apart_nonzero [OF ok(2), of "[poRaw9100 po, poLPR po]" "poIPP po" "[poIPPS po, poAutoTLS po, poDashboard po, poSNMP po, ecSMBPort c, ecWSDPort c] @ ecExtraPorts c"] by (auto simp: allPorts'_def)
  have f3: "poIPPS po = 0 \<or> poIPPS po \<notin> {poRaw9100 po, poLPR po, poIPP po, poAutoTLS po, poDashboard po, poSNMP po, ecSMBPort c, ecWSDPort c} \<union> set (ecExtraPorts c)"
    using apart_nonzero [OF ok(2), of "[poRaw9100 po, poLPR po, poIPP po]" "poIPPS po" "[poAutoTLS po, poDashboard po, poSNMP po, ecSMBPort c, ecWSDPort c] @ ecExtraPorts c"] by (auto simp: allPorts'_def)
  have f4: "poAutoTLS po = 0 \<or> poAutoTLS po \<notin> {poRaw9100 po, poLPR po, poIPP po, poIPPS po, poDashboard po, poSNMP po, ecSMBPort c, ecWSDPort c} \<union> set (ecExtraPorts c)"
    using apart_nonzero [OF ok(2), of "[poRaw9100 po, poLPR po, poIPP po, poIPPS po]" "poAutoTLS po" "[poDashboard po, poSNMP po, ecSMBPort c, ecWSDPort c] @ ecExtraPorts c"] by (auto simp: allPorts'_def)
  have f5: "poDashboard po = 0 \<or> poDashboard po \<notin> {poRaw9100 po, poLPR po, poIPP po, poIPPS po, poAutoTLS po, poSNMP po, ecSMBPort c, ecWSDPort c} \<union> set (ecExtraPorts c)"
    using apart_nonzero [OF ok(2), of "[poRaw9100 po, poLPR po, poIPP po, poIPPS po, poAutoTLS po]" "poDashboard po" "[poSNMP po, ecSMBPort c, ecWSDPort c] @ ecExtraPorts c"] by (auto simp: allPorts'_def)
  have f7: "ecSMBPort c = 0 \<or> ecSMBPort c \<notin> {poRaw9100 po, poLPR po, poIPP po, poIPPS po, poAutoTLS po, poDashboard po, poSNMP po, ecWSDPort c} \<union> set (ecExtraPorts c)"
    using apart_nonzero [OF ok(2), of "[poRaw9100 po, poLPR po, poIPP po, poIPPS po, poAutoTLS po, poDashboard po, poSNMP po]" "ecSMBPort c" "[ecWSDPort c] @ ecExtraPorts c"] by (auto simp: allPorts'_def)
  have f8: "ecWSDPort c = 0 \<or> ecWSDPort c \<notin> {poRaw9100 po, poLPR po, poIPP po, poIPPS po, poAutoTLS po, poDashboard po, poSNMP po, ecSMBPort c} \<union> set (ecExtraPorts c)"
    using apart_nonzero [OF ok(2), of "[poRaw9100 po, poLPR po, poIPP po, poIPPS po, poAutoTLS po, poDashboard po, poSNMP po, ecSMBPort c]" "ecWSDPort c" "[] @ ecExtraPorts c"] by (auto simp: allPorts'_def)
  note st = clean_steps [OF assms(1)]
  define D2 where "D2 = insert (poRaw9100 po) {poAutoTLS po} \<union> set (ecExtraPorts c)"
  have d2: "q \<in> D2 \<longleftrightarrow> q = poRaw9100 po \<or> q = poAutoTLS po \<or> q \<in> set (ecExtraPorts c)" for q by (auto simp: D2_def)
  obtain e1 b1 where s1: "startAutoTLS off po env (e, noneBound) = (e1, b1)" by fastforce
  have "mayBind {} (poAutoTLS po)" by (rule mb) auto
  note c1 = st(1) [OF assms(2) this, of off noneBound, unfolded s1 fst_conv]
  obtain e2 b2 where s2: "startRaw off c po env (e1, b1) = (e2, b2)" by fastforce
  have m2: "mayBind {poAutoTLS po} (poRaw9100 po)" by (rule mb) (use f0 in auto)
  have x2: "\<forall>p\<in>set (ecExtraPorts c). mayBind (insert (poRaw9100 po) {poAutoTLS po}) p"
    by (intro ballI mb) (use f0 f4 in auto)
  note c2 = st(2) [OF c1 m2 x2 dist, of off b1, unfolded s2 fst_conv, folded D2_def]
  obtain e3 b3 where s3: "startLPR off po env (e2, b2) = (e3, b3)" by fastforce
  have "mayBind D2 (poLPR po)" by (rule mb) (use f1 in \<open>auto simp: d2\<close>)
  note c3 = st(3) [OF c2 this, of off b2, unfolded s3 fst_conv]
  obtain e4 b4 where s4: "startIPP off po env (e3, b3) = (e4, b4)" by fastforce
  have "mayBind (insert (poLPR po) D2) (poIPP po)" by (rule mb) (use f2 in \<open>auto simp: d2\<close>)
  note c4 = st(4) [OF c3 this, of off b3, unfolded s4 fst_conv]
  obtain e5 b5 where s5: "startIPPS off po env (e4, b4) = (e5, b5)" by fastforce
  have "mayBind (insert (poIPP po) (insert (poLPR po) D2)) (poIPPS po)" by (rule mb) (use f3 in \<open>auto simp: d2\<close>)
  note c5 = st(5) [OF c4 this, of off b4, unfolded s5 fst_conv]
  have "0 \<le> poSNMP po" "poSNMP po \<le> 65535" using rg [of "poSNMP po"] by simp_all
  note c6 = clean_SNMP [OF assms(1) c5 this, of off c]
  obtain e7 b7 where s7: "startDashboard off c po env (startSNMP off c po env e5, b5) = (e7, b7)" by fastforce
  have "mayBind (insert (poIPPS po) (insert (poIPP po) (insert (poLPR po) D2))) (poDashboard po)" by (rule mb) (use f5 in \<open>auto simp: d2\<close>)
  note c7 = st(6) [OF c6 this, of off c b5, unfolded s7 fst_conv]
  let ?e8 = "if ecSMB c \<and> \<not> off (str ''SMB'') then fst (addTCP env (str ''SMB'') (ecSMBPort c) e7) else e7"
  have "mayBind (insert (poDashboard po) (insert (poIPPS po) (insert (poIPP po) (insert (poLPR po) D2)))) (ecSMBPort c)" by (rule mb) (use f7 in \<open>auto simp: d2\<close>)
  note t8 = clean_addTCP [OF assms(1) c7 this, of "str ''SMB''"]
  have c8: "cleanStart (insert (ecSMBPort c) (insert (poDashboard po) (insert (poIPPS po) (insert (poIPP po) (insert (poLPR po) D2))))) True ?e8"
    using t8 cleanStart_mono [OF c7 subset_insertI, of True] by simp
  have "mayBind (insert (ecSMBPort c) (insert (poDashboard po) (insert (poIPPS po) (insert (poIPP po) (insert (poLPR po) D2))))) (ecWSDPort c)" by (rule mb) (use f8 in \<open>auto simp: d2\<close>)
  note c9 = st(7) [OF c8 this]
  have "failures (if ecWSD c \<and> \<not> off (str ''WSD'') then startWSD env (ecWSDPort c) ?e8 else ?e8) = []"
    using c8 c9 unfolding cleanStart_def by presburger
  then show ?thesis
    unfolding startListeners_def Let_def merged_ports po_def [symmetric] s1 s2 s3 s4 s5 prod.case s7 by simp
qed

text \<open>C_TBD: A configuration that passes the port check starts without a bind failure. Whatever is enabled or turned off,
  where no other program holds a port, no listener of a fresh start fails to bind: the engine never asks twice
  for one port.\<close>

theorem checked_ports_all_bind:
  assumes "\<not> hasErrors (validatePorts c)" "allFree env"
  shows "failures (fst (startEngine c off env newEngine)) = []"
proof -
  have c0: "cleanStart {} False (startForward c env (newEngine\<lparr>failures := []\<rparr>))"
    by (auto simp: startForward_def newEngine_def cleanStart_def addCloser_def split: option.split)
  have k: "failures (startMDNS off c env bl (startIntercept off c env e)) = failures e" for bl and e :: "'a engine"
    by (simp add: startMDNS_def startIntercept_def addCloser_def Let_def)
  show ?thesis
  proof (cases "storageOK env")
    case True
    obtain e1 bl where e1: "startListeners c off env (startForward c env (newEngine\<lparr>failures := []\<rparr>)) = (e1, bl)" by fastforce
    have "failures e1 = []" using clean_listeners [OF assms(2) c0 assms(1), of off] by (simp add: e1)
    moreover have "\<not> running (newEngine :: 'a engine)" by (simp add: newEngine_def)
    ultimately show ?thesis using True k by (simp add: startEngine_def e1 Let_def)
  next
    case False
    then show ?thesis by (simp add: startEngine_def newEngine_def)
  qed
qed

theorem checked_ports_all_bind_witness:
  "failures (fst (startEngine sharedPort (\<lambda>_. False) freeSystem newEngine)) = []"
proof (rule checked_ports_all_bind)
  show "\<not> hasErrors (validatePorts sharedPort)"
    unfolding portsOK_iff by (simp add: sharedPort_def wsdOnly_def allPorts'_def mergedPorts_def)
  show "allFree freeSystem" by (simp add: allFree_def freeSystem_def)
qed

subsection \<open>The check and the gate\<close>

lemma authorization_errors:
  "hasErrors (validateAuthorization os now (icAuth c)) \<longleftrightarrow> authorizeIntercept os now c \<noteq> None"
  by (auto simp: validateAuthorization_def authorizeIntercept_def Let_def split: option.split)

text \<open>C_TBD: The check and the gate agree on the authorization: for an enabled interception the gate at the start refuses
  exactly where the check reports an error about the authorization, so a configuration without errors is authorized.\<close>

theorem check_agrees_with_gate:
  assumes "icEnabled (vcIntercept c)"
  shows "(hasErrors (validateAuthorization os now (icAuth (vcIntercept c))) \<longleftrightarrow> authorizeIntercept os now (vcIntercept c) \<noteq> None)
    \<and> (\<not> hasErrors (validateConfig lib os now c) \<longrightarrow> authorizeIntercept os now (vcIntercept c) = None)"
  using assms authorization_errors by (auto simp: validateConfig_def validateIntercept_def)

text \<open>A configuration without errors, on a machine where every path can be written.\<close>

definition demoChecks :: check_lib where
  "demoChecks = \<lparr>ckSplitHostPort = (\<lambda>_. True), ckParseIP = (\<lambda>a. length a = 4), ckLookup = (\<lambda>_. False), ckFileExists = (\<lambda>_. False),
     ckCompiles = (\<lambda>_. True), ckMakeDir = (\<lambda>_. True), ckCreates = (\<lambda>_. True), ckIsAbs = (\<lambda>_. False), ckClean = (\<lambda>p. p),
     ckJoin = (\<lambda>a b. a @ [0x2f] @ b), ckExeDir = str ''.''\<rparr>"

definition demoConfig :: "intercept_conf \<Rightarrow> config" where
  "demoConfig ic = \<lparr>vcEngine = sharedPort, vcSave = str ''both'', vcLogLevel = [], vcLogFormat = [],
     vcEBCDIC = \<lparr>ebEnabled = False, ebDefaultPage = [], ebAutoDetect = False, ebSidecar = False, ebCarriage = []\<rparr>,
     vcQueueDefaults = [], vcForward = \<lparr>fwdEnabled = False, fwdCapture = [], fwdMacros = (\<lambda>_. None), fwdTargets = []\<rparr>,
     vcSyslog = \<lparr>syEnabled = False, syNetwork = [], syAddress = [], syFacility = 16\<rparr>, vcCertFile = [], vcKeyFile = [], vcOutDir = [],
     vcSpoolDir = [], vcBind = [], vcDLPEnabled = False, vcDLPRules = [], vcIntercept = ic\<rparr>"

lemma demoConfig_ports: "\<not> hasErrors (validatePorts (vcEngine (demoConfig ic)))"
  unfolding portsOK_iff by (simp add: demoConfig_def sharedPort_def wsdOnly_def allPorts'_def mergedPorts_def)

lemma demoConfig_enums: "validateEnums (demoConfig ic) = []"
  by (simp add: validateEnums_def enumIssue_def enumOK_def demoConfig_def indexed_def toLower_def lower_def str_def)

lemma demoConfig_rest:
  "validateTLS demoChecks (demoConfig ic) = []" "validateForward demoChecks (demoConfig ic) = []"
  "validateSyslog demoChecks (demoConfig ic) = []" "validateStorage demoChecks (demoConfig ic) = []"
  "validateBind demoChecks (demoConfig ic) = []" "validateDLP demoChecks (demoConfig ic) = []"
  by (simp_all add: validateTLS_def validateForward_def validateSyslog_def validateStorage_def validateBind_def validateDLP_def
      demoConfig_def demoChecks_def trimSpace_def trimRight_def Let_def)

lemma demoConfig_errors:
  "hasErrors (validateConfig demoChecks os now (demoConfig ic)) \<longleftrightarrow> hasErrors (validateIntercept demoChecks os now (demoConfig ic))"
  using demoConfig_ports [of ic] by (simp add: validateConfig_def demoConfig_enums demoConfig_rest)

lemma demo_capture_checked:
  assumes "a = [192, 0, 2, 5] \<or> a = [127, 0, 0, 1]"
  shows "\<not> hasErrors (validateIntercept demoChecks openSystem 5
    (demoConfig (demoCapture\<lparr>icMFPIP := [], icARP := (icARP demoCapture)\<lparr>arpTargets := [a]\<rparr>\<rparr>)))"
proof -
  have "\<not> hasErrors (validateAuthorization openSystem 5 (icAuth demoCapture))"
    using authorization_errors demo_authorized by blast
  moreover have "trimSpace [] = []" "trimSpace a = a" "length a = 4" using assms by (auto simp: trimSpace_def trimRight_def isSpace_def word_le_nat_alt)
  ultimately show ?thesis
    by (simp add: validateIntercept_def validateCapture_def demoConfig_def demoCapture_def demoChecks_def indexed_def Let_def)
qed

theorem check_agrees_with_gate_witness:
  "authorizeIntercept openSystem 5 (demoCapture\<lparr>icMFPIP := [], icARP := (icARP demoCapture)\<lparr>arpTargets := [[192, 0, 2, 5]]\<rparr>\<rparr>) = None"
proof -
  let ?c = "demoConfig (demoCapture\<lparr>icMFPIP := [], icARP := (icARP demoCapture)\<lparr>arpTargets := [[192, 0, 2, 5]]\<rparr>\<rparr>)"
  have "icEnabled (vcIntercept ?c)" by (simp add: demoConfig_def demoCapture_def)
  moreover have "\<not> hasErrors (validateConfig demoChecks openSystem 5 ?c)"
    unfolding demoConfig_errors using demo_capture_checked [of "[192, 0, 2, 5]"] by blast
  ultimately have "authorizeIntercept openSystem 5 (vcIntercept ?c) = None" using check_agrees_with_gate [of ?c] by blast
  then show ?thesis by (simp add: demoConfig_def)
qed

text \<open>The scope of the positioner is another matter: a loopback target passes the whole check, and the start refuses it.\<close>

lemma checked_target_refused_at_start:
  "let ic = demoCapture\<lparr>icMFPIP := [], icARP := (icARP demoCapture)\<lparr>arpTargets := [[127, 0, 0, 1]]\<rparr>\<rparr> in
     \<not> hasErrors (validateConfig demoChecks openSystem 5 (demoConfig ic))
     \<and> snd (startInterceptor openSystem 5 True (newTap 3) ic) = Inl (BadScope (RefusedTarget [127, 0, 0, 1]))"
proof -
  let ?ic = "demoCapture\<lparr>icMFPIP := [], icARP := (icARP demoCapture)\<lparr>arpTargets := [[127, 0, 0, 1]]\<rparr>\<rparr>"
  have "\<not> hasErrors (validateConfig demoChecks openSystem 5 (demoConfig ?ic))"
    unfolding demoConfig_errors using demo_capture_checked [of "[127, 0, 0, 1]"] by blast
  moreover have "authorizeIntercept openSystem 5 ?ic = None" using demo_authorized by (simp add: authorizeIntercept_def)
  moreover have "validateARPScope openSystem (icARP ?ic) (icMFPIP ?ic) = Inl (RefusedTarget [127, 0, 0, 1])"
    by (simp add: validateARPScope_def demoCapture_def openSystem_def plainLib_def isLoopbackAddr_def unmapAddr_def)
  ultimately show ?thesis by (simp add: startInterceptor_def Let_def)
qed

end
