(* ===== verification/Spec2Isabelle.thy ===== *)
theory Spec2Isabelle
  imports Go_Prelude Byte_Search Config_Types Crypto_Types Ber Usm Snmp_Agent Snmp_V3 Dns_Msg Mdns
    Frame_Parse Reassembly Pcap_File Live_View Job_Store Ipp Lpd Pdl Ebcdic Carriage
    Carve Match Transform Spool Forward Retry Dlp Sink Utf16 Md4 Smb_Crypto Ntlm Smb_Frame
    Limits Spnego Dcerpc Spoolss Smb_Negotiate Smb_Session Smb_Tree Smb_Conn Smb_Run Smb_Memory
    Engine Packet_View Intercept Validate
begin

text \<open>
  \<^bold>\<open>Verification of printcap.\<close> The program is a print-capture server in Go: it impersonates a network
  printer on many protocols, keeps every job it receives, and forwards copies of it to real printers.

  \<^bold>\<open>Parts and how they interact.\<close> Listeners (\<^verbatim>\<open>raw9100.go\<close>, \<^verbatim>\<open>lpd.go\<close>, \<^verbatim>\<open>ipp.go\<close>, \<^verbatim>\<open>smb*.go\<close>) read a job
  from a connection; \<^verbatim>\<open>carve.go\<close> builds jobs from TCP streams that \<^verbatim>\<open>frameparse.go\<close> and
  \<^verbatim>\<open>reassembly.go\<close> recover from captured frames. All of them hand a job to the sink (\<^verbatim>\<open>sink.go\<close>), which
  names it, writes it, decodes mainframe text (\<^verbatim>\<open>ebcdic.go\<close>, \<^verbatim>\<open>carriage.go\<close>), scans it (\<^verbatim>\<open>dlp.go\<close>), records it
  (\<^verbatim>\<open>store.go\<close>) and gives it to the forwarder (\<^verbatim>\<open>forward.go\<close>), which selects targets (\<^verbatim>\<open>match.go\<close>),
  rewrites the copy (\<^verbatim>\<open>transform.go\<close>), sends it (\<^verbatim>\<open>fwd_ipp.go\<close>, \<^verbatim>\<open>fwd_lpr.go\<close>) and keeps failed deliveries in a
  queue on disk (\<^verbatim>\<open>fwd_spool.go\<close>). Beside them run the SNMP agent (\<^verbatim>\<open>snmp.go\<close>, \<^verbatim>\<open>snmpv3.go\<close>, \<^verbatim>\<open>usm.go\<close>) and
  the mDNS responder (\<^verbatim>\<open>mdns.go\<close>), which make the printer discoverable.

  \<^bold>\<open>Conventions.\<close> Bytes are \<open>8 word\<close>, a Go string or slice is a list of bytes, \<open>str\<close> turns a literal
  into bytes. Fixed-width integers keep their width. A Go record is a \<open>record\<close>. A Go error is a sum or an
  option. A slice expression or index that can panic in Go is an option whose \<open>None\<close> is the panic
  (\<open>slice\<close>, \<open>slice_from\<close>, \<open>idx\<close> of \<open>Go_Prelude\<close>); the results of such parsers are options twice, the
  outer for the panic and the inner for the code's own failure. State is passed explicitly; goroutines
  that share state are sequences of their atomic steps.

  \<^bold>\<open>Theories.\<close>
  \<^item> \<open>Go_Prelude\<close>, \<open>Byte_Search\<close>: Go slices, strings, integers, byte searches and the lemmas about them.
  \<^item> \<open>Config_Types\<close>: the job of \<^verbatim>\<open>main.go\<close> and the configuration records of \<^verbatim>\<open>config.go\<close>.
  \<^item> \<open>Crypto_Types\<close>: the library's digests and ciphers as a record of functions, with the laws used.
  \<^item> \<open>Ber\<close>, \<open>Snmp_Agent\<close>: the codec, the MIB and the v1/v2c agent of \<^verbatim>\<open>snmp.go\<close>: round trips, GetNext as
    the least successor, bounded GetBulk, no panic.
  \<^item> \<open>Usm\<close>, \<open>Snmp_V3\<close>: \<^verbatim>\<open>usm.go\<close> and \<^verbatim>\<open>snmpv3.go\<close>: signed responses verify, rejected requests learn nothing.
  \<^item> \<open>Dns_Msg\<close>, \<open>Mdns\<close>: \<^verbatim>\<open>dnsmsg.go\<close>, \<^verbatim>\<open>mdns.go\<close>, \<^verbatim>\<open>dnssd.go\<close>: names, responses, browsing and probing.
  \<^item> \<open>Frame_Parse\<close>, \<open>Reassembly\<close>, \<open>Carve\<close>: from frames to streams to jobs; the assembled bytes are a prefix
    of the bytes sent, in any arrival order.
  \<^item> \<open>Pcap_File\<close>, \<open>Live_View\<close>: the capture file and the ring of recent packets.
  \<^item> \<open>Job_Store\<close>: the bounded log and its paged queries.
  \<^item> \<open>Ipp\<close>, \<open>Lpd\<close>: server and forwarding client of each protocol, and their composition.
  \<^item> \<open>Pdl\<close>, \<open>Ebcdic\<close>, \<open>Carriage\<close>: recognising and decoding documents.
  \<^item> \<open>Match\<close>, \<open>Transform\<close>, \<open>Spool\<close>, \<open>Forward\<close>, \<open>Retry\<close>: the forwarder. \<open>Spool\<close> gives the queue's file-system
    steps one by one, so that a crash may fall between any two; \<open>Retry\<close> runs it over restarts.
  \<^item> \<open>Dlp\<close>, \<open>Sink\<close>: the scan and the sink, with the raw listener in front of it.
  \<^item> \<open>Limits\<close>: the byte caps of \<^verbatim>\<open>limits.go\<close>, shared by the sink and the SMB server.
  \<^item> \<open>Utf16\<close>, \<open>Md4\<close>, \<open>Ntlm\<close>, \<open>Smb_Crypto\<close>: the login and the message protection of the SMB server:
    \<^verbatim>\<open>ntlm.go\<close>, \<^verbatim>\<open>md4.go\<close>, \<^verbatim>\<open>cmac.go\<close>, \<^verbatim>\<open>smb_crypto.go\<close>.
  \<^item> \<open>Smb_Frame\<close>, \<open>Smb_Negotiate\<close>, \<open>Spnego\<close>, \<open>Smb_Session\<close>, \<open>Smb_Tree\<close>: the messages of \<^verbatim>\<open>smb_frame.go\<close>,
    \<^verbatim>\<open>smb_negotiate.go\<close>, \<^verbatim>\<open>spnego.go\<close>, \<^verbatim>\<open>smb_session.go\<close> and \<^verbatim>\<open>smb_tree.go\<close>, one handler each, over a session.
  \<^item> \<open>Dcerpc\<close>, \<open>Spoolss\<close>: \<^verbatim>\<open>dcerpc.go\<close> and \<^verbatim>\<open>spoolss.go\<close>, the print service behind the spooler pipe.
  \<^item> \<open>Smb_Conn\<close>: \<^verbatim>\<open>smb.go\<close>, the driver: a step \<open>smbStep\<close> per frame, the loop \<open>handleSMBConn\<close>, and the transition
    system \<open>smbReach\<close> of which every run of the loop is a run. \<open>Smb_Run\<close> shows what clients get (answers,
    agreeing keys, captured documents, and that nobody else captures), \<open>Smb_Memory\<close> what they can make the
    server keep.

  \<^bold>\<open>Interfaces.\<close> The locales state what a client relies on and are interpreted on the model's own
  definitions in the theory of the provider: \<open>tlv_codec\<close> (the values BER messages are built of), \<open>sorted_mib\<close>
  (the view GetNext walks), \<open>retry_queue\<close> (what the retry loop needs of the queue) and \<open>rpc_service\<close> (a
  service whose answers fit one RPC message; the spooler is one).

  \<^bold>\<open>Bounds and fuel.\<close> Recursions follow the input and terminate by its length. Name compression follows
  at most the number of jumps the code allows. Retry loops are bounded by the configured attempts. The
  loop of an SMB connection ends because every frame consumes at least its four-byte prefix.

  \<^bold>\<open>Parameters.\<close> Regular expressions, globs, the JSON encoder, digests, block ciphers, GCM, HMAC,
  \<^verbatim>\<open>strings.ToUpper\<close>, clocks, random bytes, sockets and the success of writes are arguments of the
  definitions that use them, with the documented law as a named hypothesis where one is needed.

  \<^bold>\<open>Not modelled.\<close> The graphical interface, services and drivers of Windows, packet sources, TLS
  certificates, the dashboard and the text views, logging and mail: system calls and formatting. The
  web-services printing of \<^verbatim>\<open>wsd*.go\<close> and \<^verbatim>\<open>wsprint.go\<close>: XML and HTTP done by the standard library. \<^verbatim>\<open>engine.go\<close>
  only starts and stops the listeners. \<^verbatim>\<open>validate.go\<close> prints advice.
\<close>

end
